(* ===== verification/Prelude.thy ===== *)
theory Prelude
  imports Main "HOL-Library.Word" "HOL-Library.Char_ord" "HOL-Library.List_Lexorder"
    "HOL-Library.Product_Lexorder"
begin

text \<open>
  Shared vocabulary of the development: the machine integers of the Rust sources, results and
  panics as values, the little-endian byte conversions of the standard library
  (\<^verbatim>\<open>to_le_bytes\<close>, \<^verbatim>\<open>from_le_bytes\<close>), UTF-8 validity (\<^verbatim>\<open>std::str::from_utf8\<close>) and the
  generic facts on words, lists and results that the component theories share.
\<close>

section \<open>Machine integers, time, strings\<close>

type_synonym u8 = "8 word"
type_synonym u16 = "16 word"
type_synonym u32 = "32 word"
type_synonym u64 = "64 word"
type_synonym bytes = "u8 list"

text \<open>Instants and durations of \<^verbatim>\<open>tokio::time\<close>, in nanoseconds.\<close>

type_synonym instant = nat
type_synonym duration = nat

named_theorems codec_simps
  \<open>equations of encoders and decoders, used as rewrite rules by the round-trip proofs\<close>
named_theorems wf_intros
  \<open>preservation of the well-formedness invariants by the operations\<close>

section \<open>Panics and results\<close>

text \<open>
  What ends a Rust computation without a value: a failed assertion or \<^verbatim>\<open>unwrap\<close>, a slice taken
  off a character boundary, an underflowing subtraction, or a loop that never ends.
\<close>

datatype panic =
    AssertVersionIncreases
  | NotCharBoundary
  | AssertMtu
  | AssertItemLen
  | AssertBuilderOk
  | UnwrapU16
  | IndexOutOfBounds
  | SubOverflow
  | AssertSerializedLen
  | UnwrapDeserialize
  | AssertSameMessage
  | AssertFullyRead
  | ZeroPeriod
  | NegativeDuration
  | UnwrapBernoulli
  | Diverges

text \<open>The \<^verbatim>\<open>?\<close> operator on results: the error (on the left) ends the function.\<close>

fun result_bind :: "'e + 'a \<Rightarrow> ('a \<Rightarrow> 'e + 'b) \<Rightarrow> 'e + 'b" where
  "result_bind (Inl e) f = Inl e"
| "result_bind (Inr x) f = f x"

lemma result_bind_eq_Inr [simp]:
  "result_bind r f = Inr y \<longleftrightarrow> (\<exists>x. r = Inr x \<and> f x = Inr y)"
  by (cases r) auto

lemma result_bind_eq_Inl:
  "result_bind r f = Inl e \<longleftrightarrow> r = Inl e \<or> (\<exists>x. r = Inr x \<and> f x = Inl e)"
  by (cases r) auto

lemma result_bind_cong [fundef_cong]:
  "r = r' \<Longrightarrow> (\<And>x. r' = Inr x \<Longrightarrow> f x = g x) \<Longrightarrow> result_bind r f = result_bind r' g"
  by (cases r') auto

lemma result_bind_assoc:
  "result_bind (result_bind r f) g = result_bind r (\<lambda>x. result_bind (f x) g)"
  by (cases r) auto

lemma result_bind_Inr_right: "result_bind r Inr = r"
  by (cases r) auto

definition is_ok :: "'e + 'a \<Rightarrow> bool" where
  "is_ok r \<longleftrightarrow> (case r of Inl _ \<Rightarrow> False | Inr _ \<Rightarrow> True)"

lemma is_ok_simps [simp]: "is_ok (Inr x)" "\<not> is_ok (Inl e)"
  by (simp_all add: is_ok_def)

lemma is_ok_iff: "is_ok r \<longleftrightarrow> (\<exists>x. r = Inr x)"
  by (cases r) auto

section \<open>Words\<close>

lemma word_less_add_one: "(x :: 'a::len word) \<noteq> - 1 \<Longrightarrow> x < x + 1"
proof -
  assume "x \<noteq> - 1"
  then have "x + 1 \<noteq> 0" using max_word_wrap [of x] by blast
  then have "unat (x + 1) = Suc (unat x)" using unatSuc [of x] by (simp add: add.commute)
  then show ?thesis by (simp add: word_less_nat_alt)
qed

lemma word_add_one_neq_0: "(x :: 'a::len word) \<noteq> - 1 \<Longrightarrow> x + 1 \<noteq> 0"
  using word_less_add_one [of x] by auto

lemma word_pos_iff: "(0 :: 'a::len word) < x \<longleftrightarrow> x \<noteq> 0"
  by (simp add: word_neq_0_conv)

subsection \<open>Little-endian bytes\<close>

fun to_le_bytes :: "nat \<Rightarrow> 'a::len word \<Rightarrow> bytes" where
  "to_le_bytes 0 w = []"
| "to_le_bytes (Suc n) w = ucast w # to_le_bytes n (drop_bit 8 w)"

fun from_le_bytes :: "bytes \<Rightarrow> 'a::len word" where
  "from_le_bytes [] = 0"
| "from_le_bytes (b # bs) = or (ucast b) (push_bit 8 (from_le_bytes bs))"

lemma length_to_le_bytes [simp]: "length (to_le_bytes n w) = n"
  by (induction n arbitrary: w) auto

lemma from_to_le_bytes_take_bit:
  "from_le_bytes (to_le_bytes n w) = take_bit (8 * n) (w :: 'a::len word)"
proof (induction n arbitrary: w)
  case 0
  then show ?case by simp
next
  case (Suc n)
  have "or (ucast (ucast w :: u8)) (push_bit 8 (take_bit (8 * n) (drop_bit 8 w)))
      = take_bit (8 * Suc n) w"
    by (rule bit_word_eqI) (auto simp: bit_simps)
  with Suc.IH [of "drop_bit 8 w"] show ?case by simp
qed

lemma from_to_le_bytes:
  "LENGTH('a) \<le> 8 * n \<Longrightarrow> from_le_bytes (to_le_bytes n w) = (w :: 'a::len word)"
  by (simp add: from_to_le_bytes_take_bit take_bit_word_eq_self)

lemma unat_of_nat_u16: "n < 65536 \<Longrightarrow> unat (of_nat n :: u16) = n"
  by (simp add: unat_of_nat take_bit_nat_eq_self)

section \<open>UTF-8\<close>

text \<open>
  A Rust string is a sequence of bytes that is well-formed UTF-8. The model keeps it as a
  \<^typ>\<open>string\<close>, whose characters are bytes: \<^verbatim>\<open>len\<close> counts bytes and comparison is bytewise, as in
  Rust. \<open>valid_utf8\<close> is the check of \<^verbatim>\<open>std::str::from_utf8\<close> (no overlong forms, no surrogates,
  nothing above U+10FFFF).
\<close>

definition utf8_cont :: "u8 \<Rightarrow> bool" where
  "utf8_cont b \<longleftrightarrow> 0x80 \<le> b \<and> b \<le> 0xBF"

fun valid_utf8 :: "bytes \<Rightarrow> bool" where
  "valid_utf8 [] = True"
| "valid_utf8 (a # bs) =
    (if a \<le> 0x7F then valid_utf8 bs
     else if 0xC2 \<le> a \<and> a \<le> 0xDF then
       (case bs of b # r \<Rightarrow> utf8_cont b \<and> valid_utf8 r | _ \<Rightarrow> False)
     else if 0xE0 \<le> a \<and> a \<le> 0xEF then
       (case bs of b # c # r \<Rightarrow>
          (if a = 0xE0 then 0xA0 \<le> b \<and> b \<le> 0xBF
           else if a = 0xED then 0x80 \<le> b \<and> b \<le> 0x9F
           else utf8_cont b) \<and> utf8_cont c \<and> valid_utf8 r
        | _ \<Rightarrow> False)
     else if 0xF0 \<le> a \<and> a \<le> 0xF4 then
       (case bs of b # c # d # r \<Rightarrow>
          (if a = 0xF0 then 0x90 \<le> b \<and> b \<le> 0xBF
           else if a = 0xF4 then 0x80 \<le> b \<and> b \<le> 0x8F
           else utf8_cont b) \<and> utf8_cont c \<and> utf8_cont d \<and> valid_utf8 r
        | _ \<Rightarrow> False)
     else False)"

definition as_bytes :: "string \<Rightarrow> bytes" where
  "as_bytes s = map of_char s"

definition string_of_bytes :: "bytes \<Rightarrow> string" where
  "string_of_bytes bs = map (\<lambda>b. char_of (unat b)) bs"

text \<open>The invariant of a Rust string, and that of one short enough for the wire format.\<close>

definition rust_string :: "string \<Rightarrow> bool" where
  "rust_string s \<longleftrightarrow> valid_utf8 (as_bytes s)"

definition wire_string :: "string \<Rightarrow> bool" where
  "wire_string s \<longleftrightarrow> rust_string s \<and> length s < 65536"

lemma length_as_bytes [simp]: "length (as_bytes s) = length s"
  by (simp add: as_bytes_def)

lemma of_char_char_of_u8: "of_char (char_of (unat b)) = (b :: u8)"
proof -
  have "unat b < 2 ^ LENGTH(8)" by (rule unsigned_less)
  then have "of_char (char_of (unat b)) = (unat b)" by simp
  then have "(of_nat (of_char (char_of (unat b))) :: u8) = b" by simp
  then show ?thesis by (simp only: of_nat_of_char)
qed

lemma unat_of_char_u8: "unat (of_char c :: u8) = of_char c"
proof -
  have "(of_char c :: nat) < 256" by simp
  then have "unat (of_nat (of_char c) :: u8) = of_char c" by (simp add: unat_of_nat take_bit_nat_eq_self)
  then show ?thesis by (simp only: of_nat_of_char)
qed

lemma string_of_as_bytes [simp]: "string_of_bytes (as_bytes s) = s"
  by (induction s) (simp_all add: string_of_bytes_def as_bytes_def unat_of_char_u8)

lemma as_bytes_string_of [simp]: "as_bytes (string_of_bytes bs) = bs"
  by (induction bs) (simp_all add: string_of_bytes_def as_bytes_def of_char_char_of_u8)

text \<open>ASCII strings are well-formed, which settles literals.\<close>

lemma rust_string_ascii: "list_all (\<lambda>c. (of_char c :: nat) < 128) s \<Longrightarrow> rust_string s"
proof (induction s)
  case Nil
  then show ?case by (simp add: rust_string_def as_bytes_def)
next
  case (Cons c s)
  have "unat (of_char c :: u8) < 128" using Cons.prems by (simp add: unat_of_char_u8)
  then have "(of_char c :: u8) \<le> 0x7F" by (simp add: word_le_nat_alt)
  with Cons show ?case by (simp add: rust_string_def as_bytes_def)
qed

lemma wire_string_ascii: "list_all (\<lambda>c. (of_char c :: nat) < 128) s \<Longrightarrow> length s < 65536 \<Longrightarrow> wire_string s"
  by (simp add: wire_string_def rust_string_ascii)

text \<open>
  A position of a string is a character boundary when it is its start, its end, or holds a byte
  that does not continue a character (\<^verbatim>\<open>str::is_char_boundary\<close>); slicing elsewhere panics.
\<close>

definition is_char_boundary :: "string \<Rightarrow> nat \<Rightarrow> bool" where
  "is_char_boundary s i \<longleftrightarrow>
     i = 0 \<or> i = length s \<or> (i < length s \<and> \<not> utf8_cont (of_char (s ! i)))"

section \<open>Lists\<close>

lemma sorted_wrt_filter_map:
  "sorted_wrt R (map f xs) \<Longrightarrow> sorted_wrt R (map f (filter P xs))"
  by (induction xs) auto

lemma sorted_wrt_map_sort_key:
  "distinct (map f xs) \<Longrightarrow> sorted_wrt (<) (map f (sort_key f xs))"
  by (simp add: strict_sorted_iff distinct_map)

lemma set_take_while_subset: "set (takeWhile P xs) \<subseteq> set xs"
  by (auto dest: set_takeWhileD)

lemma sorted_wrt_last_greatest:
  "sorted_wrt (<) xs \<Longrightarrow> x \<in> set xs \<Longrightarrow> x \<le> last (xs :: 'a::linorder list)"
  by (induction xs) (auto intro: less_imp_le)

end
