(* ===== verification/Ordered_Map.thy ===== *)
theory Ordered_Map
  imports Prelude
begin

text \<open>
  The standard library's maps. A \<^verbatim>\<open>BTreeMap\<close> is the list of its entries in the order of an
  iteration, that is strictly increasing in the key (\<open>btm_wf\<close>). The interface the clients rely on
  is the locale \<open>ordered_map\<close>, interpreted on these operations as \<open>btm\<close>. A \<^verbatim>\<open>HashMap\<close>, whose
  iteration order Rust leaves open, is modelled by the same type; no theorem depends on its order.
\<close>

section \<open>Operations\<close>

type_synonym ('k, 'v) btree_map = "('k \<times> 'v) list"

definition btm_wf :: "('k::linorder, 'v) btree_map \<Rightarrow> bool" where
  "btm_wf m \<longleftrightarrow> sorted_wrt (<) (map fst m)"

definition btm_get :: "('k, 'v) btree_map \<Rightarrow> 'k \<Rightarrow> 'v option" where
  "btm_get m k = map_of m k"

fun btm_insert :: "'k::linorder \<Rightarrow> 'v \<Rightarrow> ('k, 'v) btree_map \<Rightarrow> ('k, 'v) btree_map" where
  "btm_insert k v [] = [(k, v)]"
| "btm_insert k v (e # m) =
    (if fst e < k then e # btm_insert k v m
     else if fst e = k then (k, v) # m
     else (k, v) # e # m)"

definition btm_remove :: "'k \<Rightarrow> ('k, 'v) btree_map \<Rightarrow> ('k, 'v) btree_map" where
  "btm_remove k m = filter (\<lambda>e. fst e \<noteq> k) m"

definition btm_retain :: "('k \<Rightarrow> 'v \<Rightarrow> bool) \<Rightarrow> ('k, 'v) btree_map \<Rightarrow> ('k, 'v) btree_map" where
  "btm_retain P m = filter (\<lambda>e. P (fst e) (snd e)) m"

definition btm_keys :: "('k, 'v) btree_map \<Rightarrow> 'k list" where
  "btm_keys m = map fst m"

definition btm_values :: "('k, 'v) btree_map \<Rightarrow> 'v list" where
  "btm_values m = map snd m"

text \<open>The entries of \<^verbatim>\<open>range(lo..)\<close> and \<^verbatim>\<open>range(lo..=hi)\<close>, in order.\<close>

definition btm_range_from :: "'k::linorder \<Rightarrow> ('k, 'v) btree_map \<Rightarrow> ('k \<times> 'v) list" where
  "btm_range_from lo m = filter (\<lambda>e. lo \<le> fst e) m"

definition btm_range :: "'k::linorder \<Rightarrow> 'k \<Rightarrow> ('k, 'v) btree_map \<Rightarrow> ('k \<times> 'v) list" where
  "btm_range lo hi m = filter (\<lambda>e. lo \<le> fst e \<and> fst e \<le> hi) m"

definition btm_contains :: "('k, 'v) btree_map \<Rightarrow> 'k \<Rightarrow> bool" where
  "btm_contains m k \<longleftrightarrow> btm_get m k \<noteq> None"

section \<open>The interface\<close>

locale ordered_map =
  fixes empty :: "'m"
    and insert :: "'k \<Rightarrow> 'v \<Rightarrow> 'm \<Rightarrow> 'm"
    and remove :: "'k \<Rightarrow> 'm \<Rightarrow> 'm"
    and get :: "'m \<Rightarrow> 'k \<Rightarrow> 'v option"
    and wf :: "'m \<Rightarrow> bool"
  assumes get_empty: "get empty k = None"
    and get_insert: "wf m \<Longrightarrow> get (insert k v m) k' = (if k' = k then Some v else get m k')"
    and get_remove: "wf m \<Longrightarrow> get (remove k m) k' = (if k' = k then None else get m k')"
    and wf_empty: "wf empty"
    and wf_insert: "wf m \<Longrightarrow> wf (insert k v m)"
    and wf_remove: "wf m \<Longrightarrow> wf (remove k m)"
    and extensional: "wf m \<Longrightarrow> wf m' \<Longrightarrow> (\<And>k. get m k = get m' k) \<Longrightarrow> m = m'"
begin

lemma insert_same: "wf m \<Longrightarrow> get m k = Some v \<Longrightarrow> insert k v m = m"
  by (rule extensional) (auto simp: get_insert wf_insert)

lemma insert_twice: "wf m \<Longrightarrow> insert k v' (insert k v m) = insert k v' m"
  by (rule extensional) (auto simp: get_insert wf_insert)

lemma insert_commute:
  "wf m \<Longrightarrow> k \<noteq> k' \<Longrightarrow> insert k v (insert k' v' m) = insert k' v' (insert k v m)"
  by (rule extensional) (auto simp: get_insert wf_insert)

lemma remove_absent: "wf m \<Longrightarrow> get m k = None \<Longrightarrow> remove k m = m"
  by (rule extensional) (auto simp: get_remove wf_remove)

text \<open>Collecting a list of entries, as \<^verbatim>\<open>collect\<close> and the decoding loops do.\<close>

lemma wf_insert_all: "wf m \<Longrightarrow> wf (foldl (\<lambda>m e. insert (fst e) (snd e) m) m es)"
  by (induction es arbitrary: m) (auto simp: wf_insert)

lemma get_insert_all:
  "wf m \<Longrightarrow> distinct (map fst es) \<Longrightarrow>
   get (foldl (\<lambda>m e. insert (fst e) (snd e) m) m es) k =
     (case map_of es k of None \<Rightarrow> get m k | Some v \<Rightarrow> Some v)"
proof (induction es arbitrary: m)
  case Nil
  then show ?case by simp
next
  case (Cons e es)
  then have absent: "map_of es (fst e) = None"
    by (force simp: map_of_eq_None_iff)
  from Cons.prems have "wf (insert (fst e) (snd e) m)" by (simp add: wf_insert)
  with Cons.IH Cons.prems(2)
  have "get (foldl (\<lambda>m e. insert (fst e) (snd e) m) (insert (fst e) (snd e) m) es) k =
      (case map_of es k of None \<Rightarrow> get (insert (fst e) (snd e) m) k | Some v \<Rightarrow> Some v)"
    by simp
  with absent Cons.prems(1) show ?case
    by (cases e) (auto simp: get_insert split: option.splits)
qed

end

section \<open>The interpretation\<close>

lemma btm_wf_Nil [simp]: "btm_wf []"
  by (simp add: btm_wf_def)

lemma btm_wf_Cons: "btm_wf (e # m) \<longleftrightarrow> btm_wf m \<and> (\<forall>k \<in> set (map fst m). fst e < k)"
  by (auto simp: btm_wf_def)

lemma btm_wf_distinct: "btm_wf m \<Longrightarrow> distinct (map fst m)"
  unfolding btm_wf_def by (metis strict_sorted_iff)

lemma btm_wf_filter [wf_intros]: "btm_wf m \<Longrightarrow> btm_wf (filter P m)"
  unfolding btm_wf_def by (rule sorted_wrt_filter_map)

lemma btm_get_Nil [simp]: "btm_get [] k = None"
  by (simp add: btm_get_def)

lemma btm_get_Cons: "btm_get (e # m) k = (if fst e = k then Some (snd e) else btm_get m k)"
  by (cases e) (simp add: btm_get_def)

lemma btm_get_Some_in_set: "btm_get m k = Some v \<Longrightarrow> (k, v) \<in> set m"
  by (simp add: btm_get_def map_of_SomeD)

lemma in_set_btm_get: "btm_wf m \<Longrightarrow> (k, v) \<in> set m \<longleftrightarrow> btm_get m k = Some v"
  by (simp add: btm_get_def btm_wf_distinct)

lemma btm_get_None_iff: "btm_get m k = None \<longleftrightarrow> k \<notin> fst ` set m"
  by (simp add: btm_get_def map_of_eq_None_iff)

lemma set_btm_keys: "k \<in> set (btm_keys m) \<longleftrightarrow> (\<exists>v. btm_get m k = Some v)"
  using btm_get_None_iff [of m k] by (auto simp: btm_keys_def)

lemma keys_btm_insert: "set (map fst (btm_insert k v m)) = insert k (set (map fst m))"
  by (induction m) auto

lemma btm_wf_insert: "btm_wf m \<Longrightarrow> btm_wf (btm_insert k v m)"
proof (induction m)
  case Nil
  then show ?case by (simp add: btm_wf_def)
next
  case (Cons e m)
  then show ?case
    using keys_btm_insert [of k v m] by (auto simp: btm_wf_Cons simp del: set_map)
qed

lemma btm_get_insert:
  "btm_wf m \<Longrightarrow> btm_get (btm_insert k v m) k' = (if k' = k then Some v else btm_get m k')"
  by (induction m) (auto simp: btm_get_Cons btm_wf_Cons)

lemma btm_get_remove:
  "btm_get (btm_remove k m) k' = (if k' = k then None else btm_get m k')"
  by (induction m) (auto simp: btm_get_Cons btm_remove_def)

lemma btm_wf_remove: "btm_wf m \<Longrightarrow> btm_wf (btm_remove k m)"
  by (simp add: btm_remove_def wf_intros)

lemma btm_get_retain:
  "btm_wf m \<Longrightarrow> btm_get (btm_retain P m) k =
     (case btm_get m k of None \<Rightarrow> None | Some v \<Rightarrow> if P k v then Some v else None)"
proof (induction m)
  case Nil
  then show ?case by (simp add: btm_retain_def)
next
  case (Cons e m)
  then have "btm_get m (fst e) = None"
    by (auto simp: btm_wf_Cons btm_get_None_iff)
  with Cons show ?case
    by (auto simp: btm_retain_def btm_get_Cons btm_wf_Cons split: option.splits)
qed

lemma btm_extensional:
  "btm_wf m \<Longrightarrow> btm_wf m' \<Longrightarrow> (\<And>k. btm_get m k = btm_get m' k) \<Longrightarrow> m = m'"
proof (rule map_sorted_distinct_set_unique [where f = fst])
  assume wf: "btm_wf m" "btm_wf m'" and eq: "\<And>k. btm_get m k = btm_get m' k"
  have "e \<in> set m \<longleftrightarrow> e \<in> set m'" for e
    using in_set_btm_get [OF wf(1), of "fst e" "snd e"] in_set_btm_get [OF wf(2), of "fst e" "snd e"]
      eq [of "fst e"] by simp
  then show "set m = set m'" by blast
  show "inj_on fst (set m \<union> set m')"
    using \<open>set m = set m'\<close> btm_wf_distinct [OF wf(1)] by (simp add: distinct_map)
  show "sorted (map fst m)" "distinct (map fst m)" "sorted (map fst m')" "distinct (map fst m')"
    using wf by (simp_all add: btm_wf_def strict_sorted_iff)
qed

interpretation btm: ordered_map "[]" btm_insert btm_remove btm_get btm_wf
  by unfold_locales
    (auto simp: btm_get_insert btm_wf_insert btm_get_remove btm_wf_remove intro: btm_extensional)

lemmas btm_simps [simp] = btm.get_insert btm.get_remove btm.wf_insert btm.wf_remove

lemma btm_wf_retain [simp]: "btm_wf m \<Longrightarrow> btm_wf (btm_retain P m)"
  by (simp add: btm_retain_def wf_intros)

lemma set_btm_insert:
  "btm_wf m \<Longrightarrow> e \<in> set (btm_insert k v m) \<longleftrightarrow> e = (k, v) \<or> (e \<in> set m \<and> fst e \<noteq> k)"
  using in_set_btm_get [of "btm_insert k v m" "fst e" "snd e"] in_set_btm_get [of m "fst e" "snd e"]
  by (cases e) auto

text \<open>Mapping the values of a well-formed map, as \<^verbatim>\<open>values_mut\<close> does.\<close>

definition btm_map_values :: "('v \<Rightarrow> 'w) \<Rightarrow> ('k, 'v) btree_map \<Rightarrow> ('k, 'w) btree_map" where
  "btm_map_values f m = map (\<lambda>e. (fst e, f (snd e))) m"

lemma btm_get_map_values [simp]:
  "btm_get (btm_map_values f m) k = map_option f (btm_get m k)"
  by (induction m) (auto simp: btm_map_values_def btm_get_Cons)

lemma btm_wf_map_values [simp]: "btm_wf (btm_map_values f m) = btm_wf m"
  by (simp add: btm_wf_def btm_map_values_def comp_def)

text \<open>Inserting entries in increasing key order rebuilds the list.\<close>

lemma btm_insert_all_sorted:
  assumes "btm_wf m"
  shows "foldl (\<lambda>m e. btm_insert (fst e) (snd e) m) [] m = m"
proof (rule btm_extensional)
  show "btm_wf (foldl (\<lambda>m e. btm_insert (fst e) (snd e) m) [] m)"
    by (rule btm.wf_insert_all) simp
  fix k
  have "btm_get (foldl (\<lambda>m e. btm_insert (fst e) (snd e) m) [] m) k =
      (case map_of m k of None \<Rightarrow> btm_get [] k | Some v \<Rightarrow> Some v)"
    by (rule btm.get_insert_all) (use assms in \<open>auto simp: btm_wf_distinct\<close>)
  then show "btm_get (foldl (\<lambda>m e. btm_insert (fst e) (snd e) m) [] m) k = btm_get m k"
    by (simp add: btm_get_def split: option.splits)
qed (use assms in simp)

end
