(* ===== verification/Types.thy ===== *)
theory Types
  imports Ordered_Map
begin

text \<open>
  The data of \<^verbatim>\<open>chitchat/src/types.rs\<close>: node identifiers with the order Rust derives for them,
  versioned values with their deletion status, the mutations that travel in deltas, and the
  heartbeat counter. Socket addresses are those of \<^verbatim>\<open>std::net\<close>.
\<close>

section \<open>Addresses\<close>

text \<open>An address holds the octets of the IP (4 or 16 of them, see \<open>ip_wf\<close>).\<close>

datatype IpAddr = IpV4 bytes | IpV6 bytes

datatype SocketAddr =
    SocketAddrV4 bytes u16
  | SocketAddrV6 bytes u16 u32 u32  \<comment> \<open>octets, port, flowinfo, scope id\<close>

fun ip :: "SocketAddr \<Rightarrow> IpAddr" where
  "ip (SocketAddrV4 os p) = IpV4 os"
| "ip (SocketAddrV6 os p fl sc) = IpV6 os"

fun port :: "SocketAddr \<Rightarrow> u16" where
  "port (SocketAddrV4 os p) = p"
| "port (SocketAddrV6 os p fl sc) = p"

fun SocketAddr_new :: "IpAddr \<Rightarrow> u16 \<Rightarrow> SocketAddr" where
  "SocketAddr_new (IpV4 os) p = SocketAddrV4 os p"
| "SocketAddr_new (IpV6 os) p = SocketAddrV6 os p 0 0"

fun ip_wf :: "IpAddr \<Rightarrow> bool" where
  "ip_wf (IpV4 os) \<longleftrightarrow> length os = 4"
| "ip_wf (IpV6 os) \<longleftrightarrow> length os = 16"

text \<open>The addresses that the wire format keeps whole: it drops flowinfo and scope id.\<close>

definition plain_addr :: "SocketAddr \<Rightarrow> bool" where
  "plain_addr a \<longleftrightarrow> ip_wf (ip a) \<and> SocketAddr_new (ip a) (port a) = a"

text \<open>The derived order of \<^verbatim>\<open>SocketAddr\<close>: IPv4 first, then octets, port, flowinfo, scope id.\<close>

fun addr_key :: "SocketAddr \<Rightarrow> nat \<times> bytes \<times> u16 \<times> u32 \<times> u32" where
  "addr_key (SocketAddrV4 os p) = (0, os, p, 0, 0)"
| "addr_key (SocketAddrV6 os p fl sc) = (1, os, p, fl, sc)"

lemma addr_key_inject: "addr_key a = addr_key b \<longleftrightarrow> a = b"
  by (cases a; cases b) auto

section \<open>Node identifiers\<close>

datatype ChitchatId = ChitchatId
  (node_id: string) (generation_id: u64) (gossip_advertise_addr: SocketAddr)

definition id_key :: "ChitchatId \<Rightarrow> string \<times> u64 \<times> nat \<times> bytes \<times> u16 \<times> u32 \<times> u32" where
  "id_key i = (node_id i, generation_id i, addr_key (gossip_advertise_addr i))"

lemma id_key_inject: "id_key a = id_key b \<longleftrightarrow> a = b"
  by (cases a; cases b) (auto simp: id_key_def addr_key_inject)

instantiation SocketAddr :: linorder
begin

definition less_eq_SocketAddr :: "SocketAddr \<Rightarrow> SocketAddr \<Rightarrow> bool" where
  "less_eq_SocketAddr a b \<longleftrightarrow> addr_key a \<le> addr_key b"

definition less_SocketAddr :: "SocketAddr \<Rightarrow> SocketAddr \<Rightarrow> bool" where
  "less_SocketAddr a b \<longleftrightarrow> addr_key a < addr_key b"

instance
  by standard (auto simp: less_eq_SocketAddr_def less_SocketAddr_def addr_key_inject [symmetric])

end

instantiation ChitchatId :: linorder
begin

definition less_eq_ChitchatId :: "ChitchatId \<Rightarrow> ChitchatId \<Rightarrow> bool" where
  "less_eq_ChitchatId a b \<longleftrightarrow> id_key a \<le> id_key b"

definition less_ChitchatId :: "ChitchatId \<Rightarrow> ChitchatId \<Rightarrow> bool" where
  "less_ChitchatId a b \<longleftrightarrow> id_key a < id_key b"

instance
  by standard (auto simp: less_eq_ChitchatId_def less_ChitchatId_def id_key_inject [symmetric])

end

definition ChitchatId_new :: "string \<Rightarrow> u64 \<Rightarrow> SocketAddr \<Rightarrow> ChitchatId" where
  "ChitchatId_new n g a = ChitchatId n g a"

text \<open>Identifiers that the wire format can carry.\<close>

definition id_wf :: "ChitchatId \<Rightarrow> bool" where
  "id_wf i \<longleftrightarrow> wire_string (node_id i) \<and> plain_addr (gossip_advertise_addr i)"

section \<open>Versions, heartbeats, values\<close>

type_synonym Version = u64
type_synonym Heartbeat = u64

text \<open>\<^verbatim>\<open>Heartbeat::inc\<close> is a \<^verbatim>\<open>wrapping_add(1)\<close>.\<close>

definition heartbeat_inc :: "Heartbeat \<Rightarrow> Heartbeat" where
  "heartbeat_inc h = h + 1"

datatype DeletionStatus =
    StatusSet
  | StatusDeleted instant
  | StatusDeleteAfterTtl instant

fun time_of_start_scheduled_for_deletion :: "DeletionStatus \<Rightarrow> instant option" where
  "time_of_start_scheduled_for_deletion StatusSet = None"
| "time_of_start_scheduled_for_deletion (StatusDeleted t) = Some t"
| "time_of_start_scheduled_for_deletion (StatusDeleteAfterTtl t) = Some t"

record VersionedValue =
  vv_value :: string
  vv_version :: Version
  vv_status :: DeletionStatus

definition VersionedValue_new :: "string \<Rightarrow> Version \<Rightarrow> bool \<Rightarrow> instant \<Rightarrow> VersionedValue" where
  "VersionedValue_new v ver is_tombstone now =
     \<lparr>vv_value = v, vv_version = ver,
      vv_status = (if is_tombstone then StatusDeleted now else StatusSet)\<rparr>"

definition is_deleted :: "VersionedValue \<Rightarrow> bool" where
  "is_deleted vv = (case vv_status vv of
     StatusSet \<Rightarrow> False | StatusDeleted _ \<Rightarrow> True | StatusDeleteAfterTtl _ \<Rightarrow> False)"

datatype DeletionStatusMutation = MutSet | MutDelete | MutDeleteAfterTtl

fun into_status :: "DeletionStatusMutation \<Rightarrow> instant \<Rightarrow> DeletionStatus" where
  "into_status MutSet now = StatusSet"
| "into_status MutDeleteAfterTtl now = StatusDeleteAfterTtl now"
| "into_status MutDelete now = StatusDeleted now"

fun scheduled_for_deletion :: "DeletionStatusMutation \<Rightarrow> bool" where
  "scheduled_for_deletion MutSet = False"
| "scheduled_for_deletion MutDelete = True"
| "scheduled_for_deletion MutDeleteAfterTtl = True"

text \<open>\<^verbatim>\<open>From<DeletionStatus> for DeletionStatusMutation\<close>: the instant is local and is dropped.\<close>

fun mutation_of_status :: "DeletionStatus \<Rightarrow> DeletionStatusMutation" where
  "mutation_of_status StatusSet = MutSet"
| "mutation_of_status (StatusDeleteAfterTtl _) = MutDeleteAfterTtl"
| "mutation_of_status (StatusDeleted _) = MutDelete"

fun status_to_u8 :: "DeletionStatusMutation \<Rightarrow> u8" where
  "status_to_u8 MutSet = 0"
| "status_to_u8 MutDelete = 1"
| "status_to_u8 MutDeleteAfterTtl = 2"

definition status_try_from_u8 :: "u8 \<Rightarrow> DeletionStatusMutation option" where
  "status_try_from_u8 code =
     (if code = 0 then Some MutSet
      else if code = 1 then Some MutDelete
      else if code = 2 then Some MutDeleteAfterTtl
      else None)"

record KeyValueMutation =
  kvm_key :: string
  kvm_value :: string
  kvm_version :: Version
  kvm_status :: DeletionStatusMutation

text \<open>\<^verbatim>\<open>VersionedValueForSerialization\<close>: what serde stores of a value, and how it comes back.\<close>

record VersionedValueForSerialization =
  vvs_value :: string
  vvs_version :: Version
  vvs_status :: DeletionStatusMutation

definition vv_for_serialization :: "VersionedValue \<Rightarrow> VersionedValueForSerialization" where
  "vv_for_serialization vv = \<lparr>vvs_value = vv_value vv, vvs_version = vv_version vv,
     vvs_status = mutation_of_status (vv_status vv)\<rparr>"

definition vv_from_serialization ::
    "VersionedValueForSerialization \<Rightarrow> instant \<Rightarrow> VersionedValue" where
  "vv_from_serialization s now = \<lparr>vv_value = vvs_value s, vv_version = vvs_version s,
     vv_status = into_status (vvs_status s) now\<rparr>"

section \<open>Facts\<close>

lemma mutation_of_into_status [simp]: "mutation_of_status (into_status m now) = m"
  by (cases m) auto

lemma scheduled_iff_time:
  "scheduled_for_deletion (mutation_of_status st) \<longleftrightarrow>
   time_of_start_scheduled_for_deletion st \<noteq> None"
  by (cases st) auto

lemma is_deleted_iff: "is_deleted vv \<longleftrightarrow> mutation_of_status (vv_status vv) = MutDelete"
  by (cases "vv_status vv") (auto simp: is_deleted_def)

lemma status_u8_roundtrip [simp]: "status_try_from_u8 (status_to_u8 m) = Some m"
  by (cases m) (auto simp: status_try_from_u8_def)

lemma status_try_from_u8_Some: "status_try_from_u8 c = Some m \<longleftrightarrow> c = status_to_u8 m"
  by (cases m) (auto simp: status_try_from_u8_def)

text \<open>
  A value loses only the instant of its deletion on its way through serde: value, version and
  the kind of status come back.
\<close>

lemma vv_serialization_roundtrip:
  "vv_for_serialization (vv_from_serialization s now) = s"
  by (simp add: vv_for_serialization_def vv_from_serialization_def)

lemma vv_from_for_serialization:
  "vv_from_serialization (vv_for_serialization vv) now =
     vv\<lparr>vv_status := into_status (mutation_of_status (vv_status vv)) now\<rparr>"
  by (simp add: vv_for_serialization_def vv_from_serialization_def)

end
