(* ===== verification/Serialize.thy ===== *)
theory Serialize
  imports Types
begin

text \<open>
  The binary format of \<^verbatim>\<open>chitchat/src/serialize.rs\<close> and of the value types of
  \<^verbatim>\<open>chitchat/src/types.rs\<close>. \<open>serialize\<close> functions return the bytes a call appends to the
  buffer; a decoder takes the buffer and returns the value and what is left of the buffer, or the
  error that \<^verbatim>\<open>anyhow\<close> would carry. The traits \<^verbatim>\<open>Serializable\<close> and \<^verbatim>\<open>Deserializable\<close> are the locale
  \<open>codec\<close>, interpreted for every type of the format.
\<close>

section \<open>Decoders\<close>

datatype de_error =
    BufferTooShort
  | InvalidIpVersion u8
  | StringTooShort
  | InvalidUtf8
  | InvalidDeletionStatus u8
  | UnknownTag u8
  | InvalidBlockType
  | BlockTooShort
  | DecompressFailed
  | HeaderTooShort
  | InvalidMagicNumber
  | InvalidProtocolVersion
  | InvalidMessageType
  | DuplicateNode
  | OpWithoutNode
  | VersionNotIncreasing
  | NeverReturns

type_synonym 'a decoder = "bytes \<Rightarrow> de_error + ('a \<times> bytes)"

definition de_return :: "'a \<Rightarrow> 'a decoder" where
  "de_return x buf = Inr (x, buf)"

definition de_fail :: "de_error \<Rightarrow> 'a decoder" where
  "de_fail e buf = Inl e"

definition de_bind :: "'a decoder \<Rightarrow> ('a \<Rightarrow> 'b decoder) \<Rightarrow> 'b decoder" where
  "de_bind d f buf = result_bind (d buf) (\<lambda>p. f (fst p) (snd p))"

lemma de_return_apply [simp]: "de_return x buf = Inr (x, buf)"
  by (simp add: de_return_def)

lemma de_fail_apply [simp]: "de_fail e buf = Inl e"
  by (simp add: de_fail_def)

lemma de_bind_Inr [codec_simps]: "d buf = Inr (x, rest) \<Longrightarrow> de_bind d f buf = f x rest"
  by (simp add: de_bind_def)

lemma de_bind_Inl: "d buf = Inl e \<Longrightarrow> de_bind d f buf = Inl e"
  by (simp add: de_bind_def)

lemma de_bind_eq_Inr:
  "de_bind d f buf = Inr r \<longleftrightarrow> (\<exists>x rest. d buf = Inr (x, rest) \<and> f x rest = Inr r)"
  by (auto simp: de_bind_def)

text \<open>A decoder shrinks when it takes at least \<open>n\<close> bytes off every buffer it accepts.\<close>

definition shrinks :: "nat \<Rightarrow> 'a decoder \<Rightarrow> bool" where
  "shrinks n d \<longleftrightarrow> (\<forall>buf x rest. d buf = Inr (x, rest) \<longrightarrow> length rest + n \<le> length buf)"

lemma shrinksD: "shrinks n d \<Longrightarrow> d buf = Inr (x, rest) \<Longrightarrow> length rest + n \<le> length buf"
  by (auto simp: shrinks_def)

lemma shrinks_return: "shrinks 0 (de_return x)"
  by (simp add: shrinks_def)

lemma shrinks_fail: "shrinks n (de_fail e)"
  by (simp add: shrinks_def)

lemma shrinks_bind:
  assumes "shrinks n d" and "\<And>x. shrinks 0 (f x)"
  shows "shrinks n (de_bind d f)"
  unfolding shrinks_def
proof (intro allI impI)
  fix buf y rest
  assume "de_bind d f buf = Inr (y, rest)"
  then obtain x r where "d buf = Inr (x, r)" "f x r = Inr (y, rest)"
    by (auto simp: de_bind_eq_Inr)
  with shrinksD [OF assms(1)] shrinksD [OF assms(2)] show "length rest + n \<le> length buf"
    by fastforce
qed

lemma shrinks_weaken: "shrinks n d \<Longrightarrow> m \<le> n \<Longrightarrow> shrinks m d"
  by (fastforce simp: shrinks_def)

lemma shrinks_option:
  "shrinks 0 (case r of None \<Rightarrow> de_fail e | Some x \<Rightarrow> de_return x)"
  by (cases r) (simp_all add: shrinks_return shrinks_fail)

lemma shrinks_if: "shrinks n d \<Longrightarrow> shrinks n d' \<Longrightarrow> shrinks n (if c then d else d')"
  by simp

lemmas shrinks_intros = shrinks_bind shrinks_return shrinks_fail shrinks_option shrinks_if

section \<open>The traits as an interface\<close>

text \<open>Decoding one item after the other until the buffer is empty, as \<^verbatim>\<open>deserialize_stream\<close> does
  with the decompressed bytes; \<open>None\<close> if the loop never ends.\<close>

partial_function (option) de_items ::
    "'a decoder \<Rightarrow> bytes \<Rightarrow> 'a list \<Rightarrow> (de_error + 'a list) option" where
  [code]: "de_items d buf acc =
    (if buf = [] then Some (Inr acc)
     else case d buf of
       Inl e \<Rightarrow> Some (Inl e)
     | Inr p \<Rightarrow> de_items d (snd p) (acc @ [fst p]))"

text \<open>Decoding a given number of items (\<^verbatim>\<open>for _ in 0..n\<close>).\<close>

fun de_times :: "'a decoder \<Rightarrow> nat \<Rightarrow> 'a list decoder" where
  "de_times d 0 = de_return []"
| "de_times d (Suc n) = de_bind d (\<lambda>x. de_bind (de_times d n) (\<lambda>xs. de_return (x # xs)))"

locale codec =
  fixes ser :: "'a \<Rightarrow> bytes"
    and slen :: "'a \<Rightarrow> nat"
    and de :: "'a decoder"
    and valid :: "'a \<Rightarrow> bool"
  assumes roundtrip: "valid x \<Longrightarrow> de (ser x @ rest) = Inr (x, rest)"
    and length_ser: "valid x \<Longrightarrow> length (ser x) = slen x"
    and progress: "shrinks (Suc 0) de"
begin

lemma roundtrip_whole: "valid x \<Longrightarrow> de (ser x) = Inr (x, [])"
  using roundtrip [of x "[]"] by simp

lemma ser_nonempty: "valid x \<Longrightarrow> ser x \<noteq> []"
proof
  assume "valid x" and "ser x = []"
  with roundtrip_whole [of x] shrinksD [OF progress] show False by fastforce
qed

lemma slen_pos: "valid x \<Longrightarrow> 0 < slen x"
  by (metis length_greater_0_conv length_ser ser_nonempty)

lemma prefix_free: "valid x \<Longrightarrow> valid y \<Longrightarrow> ser x @ r = ser y @ r' \<Longrightarrow> x = y \<and> r = r'"
  by (metis roundtrip sum.inject(2) prod.inject)

lemma bind_roundtrip: "valid x \<Longrightarrow> de_bind de f (ser x @ rest) = f x rest"
  by (simp add: roundtrip codec_simps)

lemma items_roundtrip:
  "\<forall>x \<in> set xs. valid x \<Longrightarrow> de_items de (concat (map ser xs)) acc = Some (Inr (acc @ xs))"
proof (induction xs arbitrary: acc)
  case Nil
  then show ?case by (simp add: de_items.simps)
next
  case (Cons x xs)
  then have "de (ser x @ concat (map ser xs)) = Inr (x, concat (map ser xs))"
    by (simp add: roundtrip)
  with Cons show ?case
    by (subst de_items.simps) (simp add: ser_nonempty)
qed

lemma items_terminates: "\<exists>r. de_items de buf acc = Some r"
proof (induction "length buf" arbitrary: buf acc rule: less_induct)
  case less
  show ?case
  proof (cases "de buf")
    case (Inl e)
    then show ?thesis by (subst de_items.simps) simp
  next
    case (Inr p)
    then have "length (snd p) < length buf"
      using shrinksD [OF progress, of buf "fst p" "snd p"] by simp
    with less Inr show ?thesis by (subst de_items.simps) simp
  qed
qed

lemma times_roundtrip:
  "\<forall>x \<in> set xs. valid x \<Longrightarrow>
   de_times de (length xs) (concat (map ser xs) @ rest) = Inr (xs, rest)"
  by (induction xs) (simp_all add: bind_roundtrip codec_simps)

lemma length_concat_ser:
  "\<forall>x \<in> set xs. valid x \<Longrightarrow> length (concat (map ser xs)) = sum_list (map slen xs)"
  by (induction xs) (simp_all add: length_ser)

end

text \<open>Two codecs in a row form a codec of pairs.\<close>

definition ser_pair :: "('a \<Rightarrow> bytes) \<Rightarrow> ('b \<Rightarrow> bytes) \<Rightarrow> 'a \<times> 'b \<Rightarrow> bytes" where
  "ser_pair s t p = s (fst p) @ t (snd p)"

definition de_pair :: "'a decoder \<Rightarrow> 'b decoder \<Rightarrow> ('a \<times> 'b) decoder" where
  "de_pair d e = de_bind d (\<lambda>x. de_bind e (\<lambda>y. de_return (x, y)))"

lemma codec_pair:
  assumes "codec s l d v" and "codec t k e w"
  shows "codec (ser_pair s t) (\<lambda>p. l (fst p) + k (snd p)) (de_pair d e)
    (\<lambda>p. v (fst p) \<and> w (snd p))"
proof
  fix p rest
  assume "v (fst p) \<and> w (snd p)"
  then show "de_pair d e (ser_pair s t p @ rest) = Inr (p, rest)"
    by (simp add: de_pair_def ser_pair_def codec.bind_roundtrip [OF assms(1)]
        codec.bind_roundtrip [OF assms(2)])
next
  fix p
  assume "v (fst p) \<and> w (snd p)"
  then show "length (ser_pair s t p) = l (fst p) + k (snd p)"
    by (simp add: ser_pair_def codec.length_ser [OF assms(1)] codec.length_ser [OF assms(2)])
next
  have "shrinks 0 (de_bind e (\<lambda>y. de_return (x, y)))" for x
    by (rule shrinks_bind) (auto intro: shrinks_weaken [OF codec.progress [OF assms(2)]] shrinks_return)
  then show "shrinks (Suc 0) (de_pair d e)"
    unfolding de_pair_def by (rule shrinks_bind [OF codec.progress [OF assms(1)]])
qed

section \<open>Byte arrays and integers\<close>

text \<open>\<^verbatim>\<open>[u8; N]\<close>: the decoder checks the length and consumes.\<close>

definition de_array :: "nat \<Rightarrow> bytes decoder" where
  "de_array n buf =
     (if length buf < n then Inl BufferTooShort else Inr (take n buf, drop n buf))"

lemma de_array_append [codec_simps]:
  "length bs = n \<Longrightarrow> de_array n (bs @ rest) = Inr (bs, rest)"
  by (simp add: de_array_def)

lemma shrinks_array: "shrinks n (de_array n)"
  by (simp add: shrinks_def de_array_def)

definition ser_u8 :: "u8 \<Rightarrow> bytes" where
  "ser_u8 b = [b]"

definition de_u8 :: "u8 decoder" where
  "de_u8 = de_bind (de_array (Suc 0)) (\<lambda>bs. de_return (bs ! 0))"

definition ser_u16 :: "u16 \<Rightarrow> bytes" where
  "ser_u16 w = to_le_bytes 2 w"

definition de_u16 :: "u16 decoder" where
  "de_u16 = de_bind (de_array 2) (\<lambda>bs. de_return (from_le_bytes bs))"

definition ser_u32 :: "u32 \<Rightarrow> bytes" where
  "ser_u32 w = to_le_bytes 4 w"

definition de_u32 :: "u32 decoder" where
  "de_u32 = de_bind (de_array 4) (\<lambda>bs. de_return (from_le_bytes bs))"

definition ser_u64 :: "u64 \<Rightarrow> bytes" where
  "ser_u64 w = to_le_bytes 8 w"

definition de_u64 :: "u64 decoder" where
  "de_u64 = de_bind (de_array 8) (\<lambda>bs. de_return (from_le_bytes bs))"

definition ser_bool :: "bool \<Rightarrow> bytes" where
  "ser_bool b = [if b then 1 else 0]"

definition de_bool :: "bool decoder" where
  "de_bool = de_bind (de_array (Suc 0)) (\<lambda>bs. de_return (bs ! 0 \<noteq> 0))"

lemma de_array_Cons [codec_simps]: "de_array (Suc 0) (b # rest) = Inr ([b], rest)"
  by (simp add: de_array_def)

lemma shrinks_array_bind: "(\<And>x. shrinks 0 (f x)) \<Longrightarrow> Suc 0 \<le> n \<Longrightarrow> shrinks (Suc 0) (de_bind (de_array n) f)"
  by (rule shrinks_bind) (auto intro: shrinks_weaken [OF shrinks_array])

interpretation u8: codec ser_u8 "\<lambda>_. 1" de_u8 "\<lambda>_. True"
  by unfold_locales
    (auto simp: ser_u8_def de_u8_def codec_simps intro!: shrinks_array_bind shrinks_return)

interpretation u16: codec ser_u16 "\<lambda>_. 2" de_u16 "\<lambda>_. True"
  by unfold_locales
    (auto simp: ser_u16_def de_u16_def codec_simps from_to_le_bytes
      intro!: shrinks_array_bind shrinks_return)

interpretation u32: codec ser_u32 "\<lambda>_. 4" de_u32 "\<lambda>_. True"
  by unfold_locales
    (auto simp: ser_u32_def de_u32_def codec_simps from_to_le_bytes
      intro!: shrinks_array_bind shrinks_return)

interpretation u64: codec ser_u64 "\<lambda>_. 8" de_u64 "\<lambda>_. True"
  by unfold_locales
    (auto simp: ser_u64_def de_u64_def codec_simps from_to_le_bytes
      intro!: shrinks_array_bind shrinks_return)

interpretation bool: codec ser_bool "\<lambda>_. 1" de_bool "\<lambda>_. True"
  by unfold_locales
    (auto simp: ser_bool_def de_bool_def codec_simps intro!: shrinks_array_bind shrinks_return)

lemmas int_bind_roundtrips [codec_simps] =
  u8.bind_roundtrip [OF TrueI] u16.bind_roundtrip [OF TrueI] u32.bind_roundtrip [OF TrueI]
  u64.bind_roundtrip [OF TrueI] bool.bind_roundtrip [OF TrueI]

lemmas int_length_ser [simp] =
  u8.length_ser [OF TrueI] u16.length_ser [OF TrueI] u32.length_ser [OF TrueI]
  u64.length_ser [OF TrueI] bool.length_ser [OF TrueI]

section \<open>Addresses, strings, identifiers\<close>

datatype IpVersion = IpVersionV4 | IpVersionV6

fun ip_version_code :: "IpVersion \<Rightarrow> u8" where
  "ip_version_code IpVersionV4 = 4"
| "ip_version_code IpVersionV6 = 6"

definition ip_version_try_from :: "u8 \<Rightarrow> IpVersion option" where
  "ip_version_try_from b =
     (if b = ip_version_code IpVersionV4 then Some IpVersionV4
      else if b = ip_version_code IpVersionV6 then Some IpVersionV6
      else None)"

fun ser_ip :: "IpAddr \<Rightarrow> bytes" where
  "ser_ip (IpV4 os) = ip_version_code IpVersionV4 # os"
| "ser_ip (IpV6 os) = ip_version_code IpVersionV6 # os"

fun len_ip :: "IpAddr \<Rightarrow> nat" where
  "len_ip (IpV4 os) = 1 + 4"
| "len_ip (IpV6 os) = 1 + 16"

definition de_ip :: "IpAddr decoder" where
  "de_ip = de_bind (de_array (Suc 0)) (\<lambda>v. case ip_version_try_from (v ! 0) of
     None \<Rightarrow> de_fail (InvalidIpVersion (v ! 0))
   | Some IpVersionV4 \<Rightarrow> de_bind (de_array 4) (\<lambda>os. de_return (IpV4 os))
   | Some IpVersionV6 \<Rightarrow> de_bind (de_array 16) (\<lambda>os. de_return (IpV6 os)))"

text \<open>A string is its length on two bytes (\<^verbatim>\<open>len() as u16\<close>, which truncates) and its bytes.\<close>

definition ser_str :: "string \<Rightarrow> bytes" where
  "ser_str s = ser_u16 (of_nat (length s)) @ as_bytes s"

definition len_str :: "string \<Rightarrow> nat" where
  "len_str s = 2 + length s"

definition de_str :: "string decoder" where
  "de_str = de_bind de_u16 (\<lambda>n buf.
     let len = unat n in
     if length buf < len then Inl StringTooShort
     else if \<not> valid_utf8 (take len buf) then Inl InvalidUtf8
     else Inr (string_of_bytes (take len buf), drop len buf))"

definition ser_addr :: "SocketAddr \<Rightarrow> bytes" where
  "ser_addr a = ser_ip (ip a) @ ser_u16 (port a)"

definition len_addr :: "SocketAddr \<Rightarrow> nat" where
  "len_addr a = len_ip (ip a) + 2"

definition de_addr :: "SocketAddr decoder" where
  "de_addr = de_bind de_ip (\<lambda>i. de_bind de_u16 (\<lambda>p. de_return (SocketAddr_new i p)))"

definition ser_id :: "ChitchatId \<Rightarrow> bytes" where
  "ser_id i = ser_str (node_id i) @ ser_u64 (generation_id i) @ ser_addr (gossip_advertise_addr i)"

definition len_id :: "ChitchatId \<Rightarrow> nat" where
  "len_id i = len_str (node_id i) + 8 + len_addr (gossip_advertise_addr i)"

definition de_id :: "ChitchatId decoder" where
  "de_id = de_bind de_str (\<lambda>n. de_bind de_u64 (\<lambda>g. de_bind de_addr (\<lambda>a.
     de_return (ChitchatId n g a))))"

definition ser_heartbeat :: "Heartbeat \<Rightarrow> bytes" where
  "ser_heartbeat h = ser_u64 h"

definition de_heartbeat :: "Heartbeat decoder" where
  "de_heartbeat = de_bind de_u64 de_return"

lemma ip_version_roundtrip [simp]: "ip_version_try_from (ip_version_code v) = Some v"
  by (cases v) (auto simp: ip_version_try_from_def)

lemma ip_version_codes [simp]:
  "ip_version_try_from 4 = Some IpVersionV4" "ip_version_try_from 6 = Some IpVersionV6"
  by (simp_all add: ip_version_try_from_def)

lemma de_ip_shrinks: "shrinks (Suc 0) de_ip"
  unfolding de_ip_def
  by (rule shrinks_array_bind)
    (auto split: option.split IpVersion.split
      intro!: shrinks_bind shrinks_return shrinks_fail shrinks_weaken [OF shrinks_array])

interpretation ip: codec ser_ip len_ip de_ip ip_wf
proof
  fix a rest
  assume "ip_wf a"
  then show "de_ip (ser_ip a @ rest) = Inr (a, rest)"
    by (cases a) (simp_all add: de_ip_def codec_simps)
qed (auto simp: de_ip_shrinks elim: ip_wf.elims)

lemma de_str_shrinks: "shrinks (Suc 0) de_str"
  unfolding de_str_def
  by (rule shrinks_bind [OF u16.progress]) (auto simp: shrinks_def Let_def split: if_splits)

interpretation str: codec ser_str len_str de_str wire_string
proof
  fix s rest
  assume "wire_string s"
  then show "de_str (ser_str s @ rest) = Inr (s, rest)"
    by (simp add: de_str_def ser_str_def codec_simps unat_of_nat_u16 wire_string_def rust_string_def)
qed (auto simp: de_str_shrinks ser_str_def len_str_def)

lemma de_addr_shrinks: "shrinks (Suc 0) de_addr"
  unfolding de_addr_def
  by (rule shrinks_bind [OF ip.progress])
    (intro shrinks_bind shrinks_return shrinks_weaken [OF u16.progress], simp)

interpretation addr: codec ser_addr len_addr de_addr plain_addr
proof
  fix a rest
  assume "plain_addr a"
  then show "de_addr (ser_addr a @ rest) = Inr (a, rest)"
    by (simp add: de_addr_def ser_addr_def ip.bind_roundtrip plain_addr_def codec_simps)
qed (auto simp: de_addr_shrinks ser_addr_def len_addr_def ip.length_ser plain_addr_def)

lemma de_id_shrinks: "shrinks (Suc 0) de_id"
  unfolding de_id_def
  by (rule shrinks_bind [OF str.progress])
    (intro shrinks_bind shrinks_return shrinks_weaken [OF u64.progress]
      shrinks_weaken [OF addr.progress], simp_all)

interpretation id: codec ser_id len_id de_id id_wf
proof
  fix i rest
  assume "id_wf i"
  then show "de_id (ser_id i @ rest) = Inr (i, rest)"
    by (simp add: de_id_def ser_id_def str.bind_roundtrip addr.bind_roundtrip id_wf_def codec_simps)
qed (auto simp: de_id_shrinks ser_id_def len_id_def str.length_ser addr.length_ser id_wf_def)

interpretation heartbeat: codec ser_heartbeat "\<lambda>_. 8" de_heartbeat "\<lambda>_. True"
  by unfold_locales
    (auto simp: ser_heartbeat_def de_heartbeat_def codec_simps
      intro!: shrinks_bind [OF u64.progress] shrinks_return)

section \<open>Deletion status and key-value mutations\<close>

definition ser_status :: "DeletionStatusMutation \<Rightarrow> bytes" where
  "ser_status m = [status_to_u8 m]"

definition de_status :: "DeletionStatusMutation decoder" where
  "de_status = de_bind de_u8 (\<lambda>c. case status_try_from_u8 c of
     None \<Rightarrow> de_fail (InvalidDeletionStatus c) | Some m \<Rightarrow> de_return m)"

text \<open>\<^verbatim>\<open>KeyValueMutationRef\<close> is a mutation with borrowed fields; both are written the same way.\<close>

definition ser_kvm :: "KeyValueMutation \<Rightarrow> bytes" where
  "ser_kvm m = ser_str (kvm_key m) @ ser_str (kvm_value m) @ ser_u64 (kvm_version m) @
     ser_status (kvm_status m)"

definition len_kvm :: "KeyValueMutation \<Rightarrow> nat" where
  "len_kvm m = len_str (kvm_key m) + len_str (kvm_value m) + 8 + 1"

definition de_kvm :: "KeyValueMutation decoder" where
  "de_kvm = de_bind de_str (\<lambda>k. de_bind de_str (\<lambda>v. de_bind de_u64 (\<lambda>n. de_bind de_status (\<lambda>st.
     de_return \<lparr>kvm_key = k, kvm_value = v, kvm_version = n, kvm_status = st\<rparr>))))"

definition kvm_wf :: "KeyValueMutation \<Rightarrow> bool" where
  "kvm_wf m \<longleftrightarrow> wire_string (kvm_key m) \<and> wire_string (kvm_value m)"

lemma de_u8_Cons [codec_simps]: "de_bind de_u8 f (b # rest) = f b rest"
  using u8.bind_roundtrip [OF TrueI, of f b rest] by (simp add: ser_u8_def)

interpretation status: codec ser_status "\<lambda>_. 1" de_status "\<lambda>_. True"
  by unfold_locales
    (auto simp: ser_status_def de_status_def codec_simps
      intro!: shrinks_bind [OF u8.progress] shrinks_option)

lemmas status_bind_roundtrip [codec_simps] = status.bind_roundtrip [OF TrueI]

lemma de_kvm_shrinks: "shrinks (Suc 0) de_kvm"
  unfolding de_kvm_def
  by (rule shrinks_bind [OF str.progress])
    (intro shrinks_bind shrinks_return shrinks_weaken [OF u64.progress]
      shrinks_weaken [OF str.progress] shrinks_weaken [OF status.progress], simp_all)

interpretation kvm: codec ser_kvm len_kvm de_kvm kvm_wf
proof
  fix m rest
  assume "kvm_wf m"
  then show "de_kvm (ser_kvm m @ rest) = Inr (m, rest)"
    by (simp add: de_kvm_def ser_kvm_def str.bind_roundtrip kvm_wf_def codec_simps)
qed (auto simp: de_kvm_shrinks ser_kvm_def len_kvm_def str.length_ser kvm_wf_def
    status.length_ser [OF TrueI])

lemma length_ser_kvm: "length (ser_kvm m) = len_kvm m"
  by (simp add: ser_kvm_def len_kvm_def ser_str_def len_str_def status.length_ser [OF TrueI])

section \<open>Properties\<close>

text \<open>
  An IPv6 address with a scope comes back without it: the node is known to its peers under
  another identifier than its own.
\<close>

lemma ipv6_scope_lost:
  "\<exists>i i'. de_id (ser_id i) = Inr (i', []) \<and> i' \<noteq> i \<and> node_id i' = node_id i
     \<and> generation_id i' = generation_id i"
proof -
  let ?os = "replicate 16 (1 :: u8)"
  let ?i = "ChitchatId ''n'' 0 (SocketAddrV6 ?os 80 0 5)" and ?j = "ChitchatId ''n'' 0 (SocketAddrV6 ?os 80 0 0)"
  have "ser_id ?i = ser_id ?j" by (simp add: ser_id_def ser_addr_def)
  moreover have "id_wf ?j" by (simp add: id_wf_def wire_string_ascii plain_addr_def)
  ultimately have "de_id (ser_id ?i) = Inr (?j, [])" using id.roundtrip_whole [of ?j] by simp
  then show ?thesis by force
qed

end
