(* ===== verification/Digest.thy ===== *)
theory Digest
  imports Serialize
begin

text \<open>
  \<^verbatim>\<open>chitchat/src/digest.rs\<close>: what a node tells its peer about how far it has replicated each member
  of the cluster, and its encoding.
\<close>

record NodeDigest =
  nd_heartbeat :: Heartbeat
  nd_last_gc_version :: Version
  nd_max_version :: Version

definition ser_node_digest :: "NodeDigest \<Rightarrow> bytes" where
  "ser_node_digest d =
     ser_heartbeat (nd_heartbeat d) @ ser_u64 (nd_last_gc_version d) @ ser_u64 (nd_max_version d)"

definition len_node_digest :: "NodeDigest \<Rightarrow> nat" where
  "len_node_digest d = 8 + 8 + 8"

definition de_node_digest :: "NodeDigest decoder" where
  "de_node_digest = de_bind de_heartbeat (\<lambda>h. de_bind de_u64 (\<lambda>g. de_bind de_u64 (\<lambda>m.
     de_return \<lparr>nd_heartbeat = h, nd_last_gc_version = g, nd_max_version = m\<rparr>)))"

record Digest =
  node_digests :: "(ChitchatId, NodeDigest) btree_map"

definition Digest_default :: Digest where
  "Digest_default = \<lparr>node_digests = []\<rparr>"

definition ser_digest :: "Digest \<Rightarrow> bytes" where
  "ser_digest d = ser_u16 (of_nat (length (node_digests d)))
     @ concat (map (\<lambda>(i, nd). ser_id i @ ser_node_digest nd) (node_digests d))"

definition len_digest :: "Digest \<Rightarrow> nat" where
  "len_digest d = 2 + sum_list (map (\<lambda>(i, nd). len_id i + len_node_digest nd) (node_digests d))"

text \<open>The decoding loop inserts each pair into the map as it reads it.\<close>

fun de_digest_entries ::
    "nat \<Rightarrow> (ChitchatId, NodeDigest) btree_map \<Rightarrow> (ChitchatId, NodeDigest) btree_map decoder" where
  "de_digest_entries 0 m = de_return m"
| "de_digest_entries (Suc n) m =
     de_bind de_id (\<lambda>i. de_bind de_node_digest (\<lambda>nd. de_digest_entries n (btm_insert i nd m)))"

definition de_digest :: "Digest decoder" where
  "de_digest = de_bind de_u16 (\<lambda>n. de_bind (de_digest_entries (unat n) []) (\<lambda>m.
     de_return \<lparr>node_digests = m\<rparr>))"

text \<open>The digests that survive the trip: a proper map, of ids that fit the format, and at most
  65535 of them, since the count is cast to 16 bits.\<close>

definition digest_wf :: "Digest \<Rightarrow> bool" where
  "digest_wf d \<longleftrightarrow> btm_wf (node_digests d) \<and> length (node_digests d) < 65536
     \<and> (\<forall>e \<in> set (node_digests d). id_wf (fst e))"

interpretation node_digest: codec ser_node_digest len_node_digest de_node_digest "\<lambda>_. True"
proof
  fix d rest
  show "de_node_digest (ser_node_digest d @ rest) = Inr (d, rest)"
    by (simp add: de_node_digest_def ser_node_digest_def heartbeat.bind_roundtrip codec_simps)
next
  fix d
  show "length (ser_node_digest d) = len_node_digest d"
    by (simp add: ser_node_digest_def len_node_digest_def heartbeat.length_ser)
next
  show "shrinks (Suc 0) de_node_digest"
    unfolding de_node_digest_def
    by (rule shrinks_bind [OF heartbeat.progress])
      (intro shrinks_bind shrinks_return shrinks_weaken [OF u64.progress], simp_all)
qed

lemma de_digest_entries_roundtrip:
  "\<forall>e \<in> set es. id_wf (fst e) \<Longrightarrow>
   de_digest_entries (length es) m (concat (map (\<lambda>(i, nd). ser_id i @ ser_node_digest nd) es) @ rest)
     = Inr (foldl (\<lambda>m e. btm_insert (fst e) (snd e) m) m es, rest)"
proof (induction es arbitrary: m)
  case Nil
  then show ?case by simp
next
  case (Cons e es)
  then show ?case
    by (cases e) (simp add: id.bind_roundtrip node_digest.bind_roundtrip [OF TrueI])
qed

lemma de_digest_entries_shrinks: "shrinks 0 (de_digest_entries n m)"
  by (induction n arbitrary: m)
    (auto intro!: shrinks_bind shrinks_return shrinks_weaken [OF id.progress]
      shrinks_weaken [OF node_digest.progress])

lemma length_ser_digest_entries:
  "\<forall>e \<in> set es. id_wf (fst e) \<Longrightarrow>
   length (concat (map (\<lambda>(i, nd). ser_id i @ ser_node_digest nd) es))
     = sum_list (map (\<lambda>(i, nd). len_id i + len_node_digest nd) es)"
  by (induction es) (auto simp: id.length_ser node_digest.length_ser)

interpretation digest: codec ser_digest len_digest de_digest digest_wf
proof
  fix d rest
  assume wf: "digest_wf d"
  then have "foldl (\<lambda>m e. btm_insert (fst e) (snd e) m) [] (node_digests d) = node_digests d"
    by (intro btm_insert_all_sorted) (simp add: digest_wf_def)
  with wf show "de_digest (ser_digest d @ rest) = Inr (d, rest)"
    using de_digest_entries_roundtrip [of "node_digests d" "[]" rest]
    by (simp add: de_digest_def ser_digest_def codec_simps unat_of_nat_u16 digest_wf_def)
next
  fix d
  assume "digest_wf d"
  then show "length (ser_digest d) = len_digest d"
    by (simp add: ser_digest_def len_digest_def digest_wf_def length_ser_digest_entries)
next
  show "shrinks (Suc 0) de_digest"
    unfolding de_digest_def
    by (intro shrinks_bind [OF u16.progress] shrinks_bind [OF de_digest_entries_shrinks] shrinks_return)
qed

text \<open>Whatever the network delivers, a decoded digest is a proper map.\<close>

lemma de_digest_entries_wf:
  "btm_wf m \<Longrightarrow> de_digest_entries n m buf = Inr (m', rest) \<Longrightarrow> btm_wf m'"
  by (induction n arbitrary: m buf) (auto simp: de_bind_eq_Inr intro: btm.wf_insert)

lemma de_digest_wf: "de_digest buf = Inr (d, rest) \<Longrightarrow> btm_wf (node_digests d)"
  by (auto simp: de_digest_def de_bind_eq_Inr dest: de_digest_entries_wf [OF btm_wf_Nil])

end
