(* ===== verification/Compressed_Stream.thy ===== *)
theory Compressed_Stream
  imports Serialize "HOL-Library.While_Combinator"
begin

text \<open>
  The block-compressed stream of \<^verbatim>\<open>chitchat/src/serialize.rs\<close>: \<^verbatim>\<open>CompressedStreamWriter\<close>,
  \<^verbatim>\<open>deserialize_stream\<close> and \<^verbatim>\<open>BlockType\<close>. The \<^verbatim>\<open>zstd\<close> crate is a parameter: \<open>zc src cap\<close> is
  \<^verbatim>\<open>compress_to_buffer\<close> into a buffer of \<open>cap\<close> bytes (\<open>None\<close>: it does not fit) and \<open>zd src cap\<close> is
  \<^verbatim>\<open>decompress_to_buffer\<close>. What the code relies on is \<open>zstd_fits\<close> and \<open>zstd_inverse\<close>.
\<close>

section \<open>The compressor's contract\<close>

type_synonym zstd = "bytes \<Rightarrow> nat \<Rightarrow> bytes option"

definition zstd_fits :: "zstd \<Rightarrow> bool" where
  "zstd_fits zc \<longleftrightarrow> (\<forall>src cap c. zc src cap = Some c \<longrightarrow> length c \<le> cap)"

definition zstd_inverse :: "zstd \<Rightarrow> zstd \<Rightarrow> bool" where
  "zstd_inverse zc zd \<longleftrightarrow>
     (\<forall>src cap c cap'. zc src cap = Some c \<longrightarrow> length src \<le> cap' \<longrightarrow> zd c cap' = Some src)"

text \<open>A compressor that copies its input, and one that never manages to compress.\<close>

definition zstd_copy :: zstd where
  "zstd_copy src cap = (if length src \<le> cap then Some src else None)"

definition zstd_never :: zstd where
  "zstd_never src cap = None"

lemma zstd_copy_contract: "zstd_fits zstd_copy" "zstd_inverse zstd_copy zstd_copy"
  by (auto simp: zstd_fits_def zstd_inverse_def zstd_copy_def split: if_splits)

lemma zstd_never_contract: "zstd_fits zstd_never" "zstd_inverse zstd_never zd"
  by (auto simp: zstd_fits_def zstd_inverse_def zstd_never_def)

section \<open>Block types\<close>

datatype BlockType = NoMoreBlocks | Compressed | Uncompressed

fun ser_block_type :: "BlockType \<Rightarrow> bytes" where
  "ser_block_type NoMoreBlocks = ser_u8 0"
| "ser_block_type Compressed = ser_u8 1"
| "ser_block_type Uncompressed = ser_u8 2"

definition de_block_type :: "BlockType decoder" where
  "de_block_type = de_bind de_u8 (\<lambda>b.
     if b = 0 then de_return NoMoreBlocks
     else if b = 1 then de_return Compressed
     else if b = 2 then de_return Uncompressed
     else de_fail InvalidBlockType)"

lemma de_block_type_shrinks: "shrinks (Suc 0) de_block_type"
  unfolding de_block_type_def
  by (rule shrinks_bind [OF u8.progress]) (auto intro!: shrinks_if shrinks_return shrinks_fail)

interpretation block_type: codec ser_block_type "\<lambda>_. 1" de_block_type "\<lambda>_. True"
proof
  fix b rest
  show "de_block_type (ser_block_type b @ rest) = Inr (b, rest)"
    by (cases b) (simp_all add: ser_block_type.simps de_block_type_def codec_simps)
next
  fix b
  show "length (ser_block_type b) = 1"
    by (cases b) simp_all
qed (rule de_block_type_shrinks)

lemmas length_ser_block_type [simp] = block_type.length_ser [OF TrueI]

declare ser_block_type.simps [simp del]

section \<open>The writer\<close>

text \<open>The writer's third buffer, \<^verbatim>\<open>compressed_block\<close>, only holds the output of one compression and
  carries nothing from one call to the next.\<close>

record CompressedStreamWriter =
  csw_output :: bytes
  csw_uncompressed_block :: bytes
  csw_block_threshold :: nat

definition with_block_threshold :: "u16 \<Rightarrow> CompressedStreamWriter" where
  "with_block_threshold t =
     \<lparr>csw_output = [], csw_uncompressed_block = [], csw_block_threshold = unat t\<rparr>"

definition serialized_len_upperbound_after ::
    "('a \<Rightarrow> nat) \<Rightarrow> CompressedStreamWriter \<Rightarrow> 'a \<Rightarrow> panic + nat" where
  "serialized_len_upperbound_after slen w item =
     (let new_item_serialized_len = slen item;
          BLOCK_META_LEN = 3;
          new_block_needed = (length (csw_uncompressed_block w) + new_item_serialized_len
            > csw_block_threshold w)
      in if \<not> new_item_serialized_len > 0 then Inl AssertItemLen
         else if new_block_needed then
           Inr (BLOCK_META_LEN + length (csw_output w) + length (csw_uncompressed_block w)
             + BLOCK_META_LEN + new_item_serialized_len + 1)
         else
           Inr (BLOCK_META_LEN + length (csw_output w) + length (csw_uncompressed_block w)
             + new_item_serialized_len + 1))"

definition flush_block :: "zstd \<Rightarrow> CompressedStreamWriter \<Rightarrow> panic + CompressedStreamWriter" where
  "flush_block zc w =
     (if csw_uncompressed_block w = [] then Inr w
      else
        let n = min (length (csw_uncompressed_block w)) (csw_block_threshold w);
            block = take n (csw_uncompressed_block w)
        in case zc block n of
             Some c \<Rightarrow>
               (if length c \<ge> 65536 then Inl UnwrapU16
                else Inr (w\<lparr>csw_output := csw_output w @ ser_block_type Compressed
                    @ ser_u16 (of_nat (length c)) @ c,
                  csw_uncompressed_block := drop n (csw_uncompressed_block w)\<rparr>))
           | None \<Rightarrow>
               (if n \<ge> 65536 then Inl UnwrapU16
                else Inr (w\<lparr>csw_output := csw_output w @ ser_block_type Uncompressed
                    @ ser_u16 (of_nat n) @ block,
                  csw_uncompressed_block := drop n (csw_uncompressed_block w)\<rparr>)))"

text \<open>The \<^verbatim>\<open>while\<close> loop of \<^verbatim>\<open>append\<close>; it would never end with a threshold of 0.\<close>

definition flush_loop :: "zstd \<Rightarrow> CompressedStreamWriter \<Rightarrow> panic + CompressedStreamWriter" where
  "flush_loop zc w =
     (case while_option
        (\<lambda>r. case r of Inl _ \<Rightarrow> False
             | Inr w \<Rightarrow> length (csw_uncompressed_block w) > csw_block_threshold w)
        (\<lambda>r. result_bind r (flush_block zc)) (Inr w)
      of None \<Rightarrow> Inl Diverges | Some r \<Rightarrow> r)"

definition append_item ::
    "zstd \<Rightarrow> ('a \<Rightarrow> bytes) \<Rightarrow> ('a \<Rightarrow> nat) \<Rightarrow> 'a \<Rightarrow> CompressedStreamWriter
     \<Rightarrow> panic + CompressedStreamWriter" where
  "append_item zc ser slen item w =
     (if \<not> slen item \<le> 65535 then Inl AssertItemLen
      else flush_loop zc (w\<lparr>csw_uncompressed_block := csw_uncompressed_block w @ ser item\<rparr>))"

definition finish_stream :: "zstd \<Rightarrow> CompressedStreamWriter \<Rightarrow> panic + bytes" where
  "finish_stream zc w =
     result_bind (flush_block zc w) (\<lambda>w. Inr (csw_output w @ ser_block_type NoMoreBlocks))"

section \<open>The reader\<close>

text \<open>
  The loop over the blocks: it returns the decompressed bytes and the rest of the buffer. Each
  turn consumes the block's type, so the loop ends.
\<close>

function decode_blocks :: "zstd \<Rightarrow> bytes \<Rightarrow> bytes \<Rightarrow> de_error + (bytes \<times> bytes)" where
  "decode_blocks zd acc buf =
     (case de_block_type buf of
        Inl e \<Rightarrow> Inl e
      | Inr (NoMoreBlocks, r) \<Rightarrow> Inr (acc, r)
      | Inr (Compressed, r) \<Rightarrow>
          (case de_u16 r of
             Inl e \<Rightarrow> Inl e
           | Inr (n, r) \<Rightarrow>
               if length r < unat n then Inl BlockTooShort
               else case zd (take (unat n) r) 65535 of
                      None \<Rightarrow> Inl DecompressFailed
                    | Some data \<Rightarrow> decode_blocks zd (acc @ data) (drop (unat n) r))
      | Inr (Uncompressed, r) \<Rightarrow>
          (case de_u16 r of
             Inl e \<Rightarrow> Inl e
           | Inr (n, r) \<Rightarrow>
               if length r < unat n then Inl BlockTooShort
               else decode_blocks zd (acc @ take (unat n) r) (drop (unat n) r)))"
  by pat_completeness auto
termination
  by (relation "measure (\<lambda>(zd, acc, buf). length buf)")
    (auto dest!: shrinksD [OF de_block_type_shrinks] shrinksD [OF u16.progress])

declare decode_blocks.simps [simp del]

definition deserialize_stream ::
    "zstd \<Rightarrow> 'a decoder \<Rightarrow> 'a list decoder" where
  "deserialize_stream zd d buf =
     result_bind (decode_blocks zd [] buf) (\<lambda>(data, rest).
       case de_items d data [] of
         None \<Rightarrow> Inl NeverReturns
       | Some (Inl e) \<Rightarrow> Inl e
       | Some (Inr items) \<Rightarrow> Inr (items, rest))"

section \<open>Flushing\<close>

lemma flush_loop_unfold:
  "flush_loop zc w =
     (if length (csw_uncompressed_block w) > csw_block_threshold w
      then result_bind (flush_block zc w) (flush_loop zc) else Inr w)"
proof (cases "length (csw_uncompressed_block w) > csw_block_threshold w")
  case True
  then show ?thesis
    by (cases "flush_block zc w") (simp_all add: flush_loop_def while_option_unfold)
next
  case False
  then show ?thesis by (simp add: flush_loop_def while_option_unfold)
qed

text \<open>A writer the constructors make: its threshold fits in 16 bits and is not 0.\<close>

definition writer_wf :: "CompressedStreamWriter \<Rightarrow> bool" where
  "writer_wf w \<longleftrightarrow> 0 < csw_block_threshold w \<and> csw_block_threshold w < 65536"

lemma flush_block_ok:
  assumes "zstd_fits zc" and "writer_wf w"
  shows "\<exists>w'. flush_block zc w = Inr w' \<and> writer_wf w'
    \<and> csw_block_threshold w' = csw_block_threshold w
    \<and> csw_uncompressed_block w' = drop (csw_block_threshold w) (csw_uncompressed_block w)
    \<and> length (csw_output w') \<le> length (csw_output w)
        + (if csw_uncompressed_block w = [] then 0
           else 3 + min (length (csw_uncompressed_block w)) (csw_block_threshold w))"
proof (cases "csw_uncompressed_block w = []")
  case True
  with assms show ?thesis by (simp add: flush_block_def)
next
  case False
  let ?n = "min (length (csw_uncompressed_block w)) (csw_block_threshold w)"
  have drop: "drop ?n (csw_uncompressed_block w) =
      drop (csw_block_threshold w) (csw_uncompressed_block w)"
    by (simp add: min_def)
  have small: "?n < 65536" using assms(2) unfolding writer_wf_def by linarith
  show ?thesis
  proof (cases "zc (take ?n (csw_uncompressed_block w)) ?n")
    case None
    with False small drop assms(2) show ?thesis
      by (simp add: flush_block_def writer_wf_def Let_def)
  next
    case (Some c)
    then have "length c \<le> ?n" using assms(1) unfolding zstd_fits_def by blast
    with Some False small drop assms(2) show ?thesis
      by (auto simp: flush_block_def writer_wf_def Let_def)
  qed
qed

text \<open>The loop ends, and leaves at most a threshold's worth of pending bytes.\<close>

lemma flush_loop_ok:
  assumes "zstd_fits zc" and "writer_wf w"
  shows "\<exists>w'. flush_loop zc w = Inr w' \<and> writer_wf w'
    \<and> csw_block_threshold w' = csw_block_threshold w
    \<and> length (csw_uncompressed_block w') \<le> csw_block_threshold w"
  using assms
proof (induction "length (csw_uncompressed_block w)" arbitrary: w rule: less_induct)
  case less
  show ?case
  proof (cases "length (csw_uncompressed_block w) > csw_block_threshold w")
    case True
    obtain w' where w': "flush_block zc w = Inr w'" "writer_wf w'"
      "csw_block_threshold w' = csw_block_threshold w"
      "csw_uncompressed_block w' = drop (csw_block_threshold w) (csw_uncompressed_block w)"
      using flush_block_ok [OF less.prems] by blast
    with True less.prems(2) have "length (csw_uncompressed_block w') < length (csw_uncompressed_block w)"
      unfolding writer_wf_def by (metis diff_less length_drop less_trans)
    from less.hyps [OF this less.prems(1) w'(2)] w' True show ?thesis
      by (subst flush_loop_unfold) simp
  next
    case False
    with less.prems show ?thesis by (subst flush_loop_unfold) simp
  qed
qed

lemma append_item_ok:
  assumes "zstd_fits zc" and "writer_wf w" and "slen item \<le> 65535"
  shows "\<exists>w'. append_item zc ser slen item w = Inr w' \<and> writer_wf w'
    \<and> csw_block_threshold w' = csw_block_threshold w
    \<and> length (csw_uncompressed_block w') \<le> csw_block_threshold w"
  using flush_loop_ok [OF assms(1), of "w\<lparr>csw_uncompressed_block := csw_uncompressed_block w @ ser item\<rparr>"]
    assms(2,3)
  by (simp add: append_item_def writer_wf_def)

lemma finish_stream_ok:
  assumes "zstd_fits zc" and "writer_wf w"
  shows "\<exists>bs. finish_stream zc w = Inr bs"
  using flush_block_ok [OF assms] by (auto simp: finish_stream_def)

lemma with_block_threshold_wf: "t \<noteq> 0 \<Longrightarrow> writer_wf (with_block_threshold t)"
proof -
  assume "t \<noteq> 0"
  have "unat t < 2 ^ LENGTH(16)" by (rule unsigned_less)
  with \<open>t \<noteq> 0\<close> show ?thesis
    by (simp add: with_block_threshold_def writer_wf_def unat_gt_0)
qed

section \<open>Round trip\<close>

text \<open>
  \<open>stream_holds zd w data\<close>: the bytes appended to the writer so far are \<open>data\<close>; the blocks already
  in its output decode to a prefix of them and the pending block holds the rest.
\<close>

definition stream_holds :: "zstd \<Rightarrow> CompressedStreamWriter \<Rightarrow> bytes \<Rightarrow> bool" where
  "stream_holds zd w data \<longleftrightarrow> (\<exists>done. data = done @ csw_uncompressed_block w \<and>
     (\<forall>acc rest. decode_blocks zd acc (csw_output w @ rest) = decode_blocks zd (acc @ done) rest))"

lemma de_block_type_ser [simp]: "de_block_type (ser_block_type b @ rest) = Inr (b, rest)"
  by (rule block_type.roundtrip) simp

lemma de_u16_ser [simp]: "de_u16 (ser_u16 w @ rest) = Inr (w, rest)"
  by (rule u16.roundtrip) simp

lemma decode_no_more_blocks: "decode_blocks zd acc (ser_block_type NoMoreBlocks @ rest) = Inr (acc, rest)"
  by (subst decode_blocks.simps) simp

lemma decode_compressed_block:
  "length c < 65536 \<Longrightarrow> zd c 65535 = Some data \<Longrightarrow>
   decode_blocks zd acc (ser_block_type Compressed @ ser_u16 (of_nat (length c)) @ c @ rest)
     = decode_blocks zd (acc @ data) rest"
  by (subst decode_blocks.simps) (simp add: unat_of_nat_u16)

lemma decode_uncompressed_block:
  "length block < 65536 \<Longrightarrow>
   decode_blocks zd acc (ser_block_type Uncompressed @ ser_u16 (of_nat (length block)) @ block @ rest)
     = decode_blocks zd (acc @ block) rest"
  by (subst decode_blocks.simps) (simp add: unat_of_nat_u16)

lemma stream_holds_initial: "stream_holds zd (with_block_threshold t) []"
  by (simp add: stream_holds_def with_block_threshold_def)

lemma flush_block_holds:
  assumes "zstd_inverse zc zd" and "writer_wf w" and "stream_holds zd w data"
    and "flush_block zc w = Inr w'"
  shows "stream_holds zd w' data"
proof (cases "csw_uncompressed_block w = []")
  case True
  with assms(3,4) show ?thesis by (simp add: flush_block_def)
next
  case False
  let ?n = "min (length (csw_uncompressed_block w)) (csw_block_threshold w)"
  let ?block = "take ?n (csw_uncompressed_block w)"
  have len: "length ?block = ?n" by simp
  have small: "?n < 65536" using assms(2) unfolding writer_wf_def by linarith
  obtain d where d: "data = d @ csw_uncompressed_block w"
    "\<And>acc rest. decode_blocks zd acc (csw_output w @ rest) = decode_blocks zd (acc @ d) rest"
    using assms(3) by (auto simp: stream_holds_def)
  then have data: "data = (d @ ?block) @ drop ?n (csw_uncompressed_block w)" by simp
  show ?thesis
  proof (cases "zc ?block ?n")
    case None
    with assms(4) False small have w': "w' = w\<lparr>csw_output := csw_output w
        @ ser_block_type Uncompressed @ ser_u16 (of_nat ?n) @ ?block,
        csw_uncompressed_block := drop ?n (csw_uncompressed_block w)\<rparr>"
      by (auto simp: flush_block_def Let_def split: if_splits)
    show ?thesis unfolding stream_holds_def
      using data d(2) decode_uncompressed_block [of ?block zd] small len
      by (intro exI [of _ "d @ ?block"]) (simp add: w')
  next
    case (Some c)
    with assms(4) False have c: "length c < 65536" and w': "w' = w\<lparr>csw_output := csw_output w
        @ ser_block_type Compressed @ ser_u16 (of_nat (length c)) @ c,
        csw_uncompressed_block := drop ?n (csw_uncompressed_block w)\<rparr>"
      by (auto simp: flush_block_def Let_def split: if_splits)
    have "length ?block \<le> 65535" using small len by linarith
    with Some assms(1) have "zd c 65535 = Some ?block"
      unfolding zstd_inverse_def by blast
    then show ?thesis unfolding stream_holds_def
      using data d(2) decode_compressed_block [OF c, of zd]
      by (intro exI [of _ "d @ ?block"]) (simp add: w')
  qed
qed

lemma flush_loop_holds:
  assumes "zstd_inverse zc zd" and "zstd_fits zc"
  shows "writer_wf w \<Longrightarrow> stream_holds zd w data \<Longrightarrow> flush_loop zc w = Inr w' \<Longrightarrow>
    stream_holds zd w' data"
proof (induction "length (csw_uncompressed_block w)" arbitrary: w rule: less_induct)
  case less
  show ?case
  proof (cases "length (csw_uncompressed_block w) > csw_block_threshold w")
    case True
    obtain v where v: "flush_block zc w = Inr v" "writer_wf v"
      "csw_uncompressed_block v = drop (csw_block_threshold w) (csw_uncompressed_block w)"
      using flush_block_ok [OF assms(2) less.prems(1)] by blast
    have "length (csw_uncompressed_block v) < length (csw_uncompressed_block w)"
      using v(3) True less.prems(1) unfolding writer_wf_def by (metis diff_less length_drop less_trans)
    moreover have "stream_holds zd v data"
      by (rule flush_block_holds [OF assms(1) less.prems(1,2) v(1)])
    moreover have "flush_loop zc v = Inr w'"
      using less.prems(3) True v(1) by (simp add: flush_loop_unfold [of zc w])
    ultimately show ?thesis using less.hyps v(2) by blast
  next
    case False
    with less.prems show ?thesis by (simp add: flush_loop_unfold [of zc w])
  qed
qed

lemma append_item_holds:
  assumes "zstd_inverse zc zd" and "zstd_fits zc" and "writer_wf w" and "stream_holds zd w data"
    and "append_item zc ser slen item w = Inr w'"
  shows "stream_holds zd w' (data @ ser item)"
proof (rule flush_loop_holds [OF assms(1,2)])
  let ?w = "w\<lparr>csw_uncompressed_block := csw_uncompressed_block w @ ser item\<rparr>"
  show "writer_wf ?w" using assms(3) by (simp add: writer_wf_def)
  show "stream_holds zd ?w (data @ ser item)"
    using assms(4) unfolding stream_holds_def by auto
  show "flush_loop zc ?w = Inr w'"
    using assms(5) by (simp add: append_item_def split: if_splits)
qed

text \<open>Appending a list of items, as \<^verbatim>\<open>Delta::serialize\<close> does.\<close>

fun append_items ::
    "zstd \<Rightarrow> ('a \<Rightarrow> bytes) \<Rightarrow> ('a \<Rightarrow> nat) \<Rightarrow> 'a list \<Rightarrow> CompressedStreamWriter
     \<Rightarrow> panic + CompressedStreamWriter" where
  "append_items zc ser slen [] w = Inr w"
| "append_items zc ser slen (x # xs) w =
     result_bind (append_item zc ser slen x w) (append_items zc ser slen xs)"

lemma append_items_ok:
  assumes "zstd_fits zc" and "zstd_inverse zc zd"
  shows "writer_wf w \<Longrightarrow> stream_holds zd w data \<Longrightarrow> \<forall>x \<in> set xs. slen x \<le> 65535 \<Longrightarrow>
    \<exists>w'. append_items zc ser slen xs w = Inr w' \<and> writer_wf w'
      \<and> stream_holds zd w' (data @ concat (map ser xs))"
proof (induction xs arbitrary: w data)
  case Nil
  then show ?case by simp
next
  case (Cons x xs)
  then obtain w' where w': "append_item zc ser slen x w = Inr w'" "writer_wf w'"
    using append_item_ok [OF assms(1)] by force
  have "stream_holds zd w' (data @ ser x)"
    by (rule append_item_holds [OF assms(2,1) Cons.prems(1,2) w'(1)])
  from Cons.IH [OF w'(2) this] Cons.prems(3) w'(1) show ?case by auto
qed

lemma finish_stream_decodes:
  assumes "zstd_fits zc" and "zstd_inverse zc zd" and "writer_wf w" and "stream_holds zd w data"
    and "length (csw_uncompressed_block w) \<le> csw_block_threshold w"
  shows "\<exists>bs. finish_stream zc w = Inr bs \<and> (\<forall>rest. decode_blocks zd [] (bs @ rest) = Inr (data, rest))"
proof -
  obtain w' where w': "flush_block zc w = Inr w'"
    "csw_uncompressed_block w' = drop (csw_block_threshold w) (csw_uncompressed_block w)"
    using flush_block_ok [OF assms(1,3)] by blast
  then have "csw_uncompressed_block w' = []" using assms(5) by simp
  with flush_block_holds [OF assms(2,3,4) w'(1)]
  have "decode_blocks zd acc (csw_output w' @ rest) = decode_blocks zd (acc @ data) rest" for acc rest
    by (simp add: stream_holds_def)
  with w'(1) show ?thesis
    by (simp add: finish_stream_def decode_no_more_blocks)
qed

section \<open>The announced length\<close>

text \<open>What \<^verbatim>\<open>finish\<close> can add to the output of a writer whose pending block fits in one block.\<close>

definition finished_len_bound :: "CompressedStreamWriter \<Rightarrow> nat" where
  "finished_len_bound w = length (csw_output w)
     + (if csw_uncompressed_block w = [] then 0 else 3 + length (csw_uncompressed_block w)) + 1"

lemma finish_stream_len:
  assumes "zstd_fits zc" and "writer_wf w"
    and "length (csw_uncompressed_block w) \<le> csw_block_threshold w"
    and "finish_stream zc w = Inr bs"
  shows "length bs \<le> finished_len_bound w"
proof -
  obtain w' where w': "flush_block zc w = Inr w'" "length (csw_output w') \<le> length (csw_output w)
        + (if csw_uncompressed_block w = [] then 0
           else 3 + min (length (csw_uncompressed_block w)) (csw_block_threshold w))"
    using flush_block_ok [OF assms(1,2)] by blast
  with assms(3,4) show ?thesis
    by (auto simp: finish_stream_def finished_len_bound_def split: if_splits)
qed

lemma append_item_len:
  assumes fits: "zstd_fits zc" and wf: "writer_wf w"
    and pending: "length (csw_uncompressed_block w) \<le> csw_block_threshold w"
    and len: "length (ser item) = slen item"
    and two_blocks: "length (csw_uncompressed_block w) + slen item \<le> 2 * csw_block_threshold w"
    and bound: "serialized_len_upperbound_after slen w item = Inr b"
    and app: "append_item zc ser slen item w = Inr w'"
  shows "finished_len_bound w' \<le> b"
proof -
  let ?u = "length (csw_uncompressed_block w)" and ?t = "csw_block_threshold w"
  let ?w = "w\<lparr>csw_uncompressed_block := csw_uncompressed_block w @ ser item\<rparr>"
  have pos: "0 < slen item"
    using bound by (auto simp: serialized_len_upperbound_after_def Let_def split: if_splits)
  have loop: "flush_loop zc ?w = Inr w'"
    using app by (simp add: append_item_def split: if_splits)
  have ub: "length (csw_uncompressed_block ?w) = ?u + slen item" using len by simp
  show ?thesis
  proof (cases "?u + slen item > ?t")
    case False
    with loop ub have w': "w' = ?w" by (simp add: flush_loop_unfold [of zc ?w])
    from False bound pos have b: "b = 3 + length (csw_output w) + ?u + slen item + 1"
      by (auto simp: serialized_len_upperbound_after_def Let_def)
    show ?thesis using ub by (auto simp: finished_len_bound_def w' b)
  next
    case True
    have wf': "writer_wf ?w" using wf by (simp add: writer_wf_def)
    obtain v where v0: "flush_block zc ?w = Inr v"
      "csw_block_threshold v = csw_block_threshold ?w"
      "csw_uncompressed_block v = drop (csw_block_threshold ?w) (csw_uncompressed_block ?w)"
      "length (csw_output v) \<le> length (csw_output ?w)
         + (if csw_uncompressed_block ?w = [] then 0
            else 3 + min (length (csw_uncompressed_block ?w)) (csw_block_threshold ?w))"
      using flush_block_ok [OF fits wf'] by blast
    have v: "flush_block zc ?w = Inr v" "csw_block_threshold v = ?t"
      using v0(1,2) by simp_all
    have vlen: "length (csw_uncompressed_block v) = ?u + slen item - ?t"
      using v0(3) len by simp
    then have "\<not> length (csw_uncompressed_block v) > csw_block_threshold v"
      using two_blocks v(2) by linarith
    then have "flush_loop zc v = Inr v"
      by (simp add: flush_loop_unfold [of zc v])
    with loop ub True v(1,2) have w': "w' = v" by (simp add: flush_loop_unfold [of zc ?w])
    from True bound pos have b: "b = 3 + length (csw_output w) + ?u + 3 + slen item + 1"
      by (auto simp: serialized_len_upperbound_after_def Let_def)
    have "length (csw_output v) \<le> length (csw_output w) + 3 + ?t"
      using v0(4) by (auto split: if_splits)
    with vlen True show ?thesis by (auto simp: finished_len_bound_def w' b)
  qed
qed

section \<open>Properties\<close>

lemma initial_writer: "csw_uncompressed_block (with_block_threshold t) = []"
  by (simp add: with_block_threshold_def)

lemma append_items_pending:
  "zstd_fits zc \<Longrightarrow> writer_wf w \<Longrightarrow> length (csw_uncompressed_block w) \<le> csw_block_threshold w \<Longrightarrow>
   append_items zc ser slen xs w = Inr w' \<Longrightarrow> length (csw_uncompressed_block w') \<le> csw_block_threshold w'"
proof (induction xs arbitrary: w)
  case (Cons x xs)
  then obtain v where v: "append_item zc ser slen x w = Inr v" "append_items zc ser slen xs v = Inr w'"
    by auto
  have "slen x \<le> 65535" using v(1) by (auto simp: append_item_def split: if_splits)
  from append_item_ok [where slen = slen and item = x and ser = ser, OF Cons.prems(1,2) this] v Cons
  show ?case by auto
qed simp

text \<open>
  Whatever the compressor does, as long as it respects the output size it is given and its
  decompressor inverts it, a stream of items is read back as it was written, whatever follows it in
  the buffer: for every item format with a round trip, every non-zero block threshold and items of
  at most 65535 bytes.
\<close>

lemma stream_roundtrip:
  assumes "zstd_fits zc" and "zstd_inverse zc zd" and "codec ser slen de valid" and "t \<noteq> 0"
    and "\<forall>x \<in> set xs. valid x \<and> slen x \<le> 65535"
  shows "\<exists>w bs. append_items zc ser slen xs (with_block_threshold t) = Inr w \<and> finish_stream zc w = Inr bs
    \<and> (\<forall>rest. deserialize_stream zd de (bs @ rest) = Inr (xs, rest))"
proof -
  have wf: "writer_wf (with_block_threshold t)" using assms(4) by (rule with_block_threshold_wf)
  obtain w where w: "append_items zc ser slen xs (with_block_threshold t) = Inr w" "writer_wf w"
      "stream_holds zd w (concat (map ser xs))"
    using append_items_ok [OF assms(1,2) wf stream_holds_initial, of xs slen ser] assms(5) by auto
  have "length (csw_uncompressed_block w) \<le> csw_block_threshold w"
    by (rule append_items_pending [OF assms(1) wf _ w(1)]) (simp add: initial_writer)
  then obtain bs where bs: "finish_stream zc w = Inr bs"
      "\<And>rest. decode_blocks zd [] (bs @ rest) = Inr (concat (map ser xs), rest)"
    using finish_stream_decodes [OF assms(1,2) w(2,3)] by blast
  have "de_items de (concat (map ser xs)) [] = Some (Inr xs)"
    using codec.items_roundtrip [OF assms(3), of xs "[]"] assms(5) by simp
  with w(1) bs show ?thesis by (auto simp: deserialize_stream_def)
qed

text \<open>
  C33. The bound that the writer announces before appending an item holds for the finished stream,
  provided the pending bytes and the item fit two blocks.
\<close>

theorem stream_len_bound:
  assumes "zstd_fits zc" and "writer_wf w" and "length (csw_uncompressed_block w) \<le> csw_block_threshold w"
    and "length (ser item) = slen item"
    and "length (csw_uncompressed_block w) + slen item \<le> 2 * csw_block_threshold w"
    and "serialized_len_upperbound_after slen w item = Inr bound"
    and "append_item zc ser slen item w = Inr w'" and "finish_stream zc w' = Inr bs"
  shows "length bs \<le> bound"
proof -
  have "slen item \<le> 65535" using assms(7) by (auto simp: append_item_def split: if_splits)
  from append_item_ok [where slen = slen and item = item and ser = ser, OF assms(1,2) this]
  have "writer_wf w'" "length (csw_uncompressed_block w') \<le> csw_block_threshold w'"
    using assms(7) by auto
  with finish_stream_len [OF assms(1) _ _ assms(8)] append_item_len [OF assms(1-7)] show ?thesis by simp
qed

theorem stream_len_bound_witness:
  "\<exists>bs. result_bind (append_item zstd_never ser_u16 (\<lambda>_. 2) 7 (with_block_threshold 3)) (finish_stream zstd_never) = Inr bs
    \<and> length bs \<le> 6"
proof -
  have wf: "writer_wf (with_block_threshold 3)" by (simp add: with_block_threshold_wf)
  obtain w' where w': "append_item zstd_never ser_u16 (\<lambda>_. 2) 7 (with_block_threshold 3) = Inr w'" "writer_wf w'"
    using append_item_ok [where slen = "\<lambda>_. 2" and item = 7 and ser = ser_u16, OF zstd_never_contract(1) wf] by auto
  obtain bs where bs: "finish_stream zstd_never w' = Inr bs"
    using finish_stream_ok [OF zstd_never_contract(1) w'(2)] by blast
  have "length bs \<le> 6"
    by (rule stream_len_bound [OF zstd_never_contract(1) wf _ _ _ _ w'(1) bs])
      (simp_all add: with_block_threshold_def serialized_len_upperbound_after_def Let_def)
  with w'(1) bs show ?thesis by simp
qed

text \<open>
  Beyond two blocks the announced bound is too low: with blocks of two bytes and a compressor
  that does not manage to compress, an item of five bytes is announced at 12 bytes and takes 15.
\<close>

lemma upperbound_exceeded:
  "serialized_len_upperbound_after length (with_block_threshold 2) [1, 2, 3, 4, 5 :: u8] = Inr 12
   \<and> (\<exists>bs. result_bind (append_item zstd_never (\<lambda>bs. bs) length [1, 2, 3, 4, 5] (with_block_threshold 2))
        (finish_stream zstd_never) = Inr bs \<and> length bs = 15)"
  by (simp add: serialized_len_upperbound_after_def with_block_threshold_def append_item_def
      flush_loop_unfold flush_block_def zstd_never_def finish_stream_def Let_def)

end
