(* ===== verification/Delta.thy ===== *)
theory Delta
  imports Compressed_Stream
begin

text \<open>
  \<^verbatim>\<open>chitchat/src/delta.rs\<close>: deltas, the sequence of operations they are sent as, the builder that
  puts a delta back together from the operations, and the serializer that fills a delta while
  respecting an \<^verbatim>\<open>mtu\<close>.
\<close>

section \<open>Deltas and their operations\<close>

record NodeDelta =
  ndl_chitchat_id :: ChitchatId
  ndl_from_version_excluded :: Version
  ndl_last_gc_version :: Version
  ndl_key_values :: "KeyValueMutation list"
  ndl_max_version :: "Version option"

record Delta =
  node_deltas :: "NodeDelta list"
  serialized_len :: nat

definition Delta_default :: Delta where
  "Delta_default = \<lparr>node_deltas = [], serialized_len = 1\<rparr>"

text \<open>\<^verbatim>\<open>DeltaOp\<close>; \<^verbatim>\<open>DeltaOpRef\<close> is the same data behind references.\<close>

datatype DeltaOp =
    OpNode ChitchatId Version Version  \<comment> \<open>chitchat id, last gc version, from version excluded\<close>
  | OpKeyValue KeyValueMutation
  | OpSetMaxVersion Version

definition node_delta_operations :: "NodeDelta \<Rightarrow> DeltaOp list" where
  "node_delta_operations nd =
     [OpNode (ndl_chitchat_id nd) (ndl_last_gc_version nd) (ndl_from_version_excluded nd)]
     @ map OpKeyValue (ndl_key_values nd)
     @ (case ndl_max_version nd of None \<Rightarrow> [] | Some v \<Rightarrow> [OpSetMaxVersion v])"

definition get_operations :: "Delta \<Rightarrow> DeltaOp list" where
  "get_operations d = concat (map node_delta_operations (node_deltas d))"

datatype DeltaOpTag = TagNode | TagKeyValue | TagSetMaxVersion

fun tag_to_u8 :: "DeltaOpTag \<Rightarrow> u8" where
  "tag_to_u8 TagNode = 0"
| "tag_to_u8 TagKeyValue = 1"
| "tag_to_u8 TagSetMaxVersion = 2"

definition tag_try_from :: "u8 \<Rightarrow> DeltaOpTag option" where
  "tag_try_from b =
     (if b = 0 then Some TagNode
      else if b = 1 then Some TagKeyValue
      else if b = 2 then Some TagSetMaxVersion
      else None)"

fun ser_op :: "DeltaOp \<Rightarrow> bytes" where
  "ser_op (OpNode i g f) = tag_to_u8 TagNode # ser_id i @ ser_u64 g @ ser_u64 f"
| "ser_op (OpKeyValue m) = tag_to_u8 TagKeyValue # ser_kvm m"
| "ser_op (OpSetMaxVersion v) = tag_to_u8 TagSetMaxVersion # ser_u64 v"

fun len_op :: "DeltaOp \<Rightarrow> nat" where
  "len_op (OpNode i g f) = 1 + (len_id i + 8 + 8)"
| "len_op (OpKeyValue m) = 1 + len_kvm m"
| "len_op (OpSetMaxVersion v) = 1 + 8"

definition de_op :: "DeltaOp decoder" where
  "de_op = de_bind (de_array (Suc 0)) (\<lambda>b. case tag_try_from (b ! 0) of
     None \<Rightarrow> de_fail (UnknownTag (b ! 0))
   | Some TagNode \<Rightarrow> de_bind de_id (\<lambda>i. de_bind de_u64 (\<lambda>g. de_bind de_u64 (\<lambda>f.
       de_return (OpNode i g f))))
   | Some TagKeyValue \<Rightarrow> de_bind de_str (\<lambda>k. de_bind de_str (\<lambda>v. de_bind de_u64 (\<lambda>n.
       de_bind de_status (\<lambda>st. de_return (OpKeyValue
         \<lparr>kvm_key = k, kvm_value = v, kvm_version = n, kvm_status = st\<rparr>)))))
   | Some TagSetMaxVersion \<Rightarrow> de_bind de_u64 (\<lambda>v. de_return (OpSetMaxVersion v)))"

fun op_wf :: "DeltaOp \<Rightarrow> bool" where
  "op_wf (OpNode i g f) = id_wf i"
| "op_wf (OpKeyValue m) = kvm_wf m"
| "op_wf (OpSetMaxVersion v) = True"

section \<open>The builder\<close>

record DeltaBuilder =
  db_existing_nodes :: "ChitchatId set"
  db_delta :: Delta
  db_current_node_delta :: "NodeDelta option"

definition DeltaBuilder_default :: DeltaBuilder where
  "DeltaBuilder_default = \<lparr>db_existing_nodes = {}, db_delta = Delta_default,
     db_current_node_delta = None\<rparr>"

definition builder_flush :: "DeltaBuilder \<Rightarrow> DeltaBuilder" where
  "builder_flush b = (case db_current_node_delta b of
     None \<Rightarrow> b
   | Some nd \<Rightarrow> b\<lparr>db_current_node_delta := None,
       db_delta := (db_delta b)\<lparr>node_deltas := node_deltas (db_delta b) @ [nd]\<rparr>\<rparr>)"

definition builder_finish :: "DeltaBuilder \<Rightarrow> nat \<Rightarrow> Delta" where
  "builder_finish b len = (db_delta (builder_flush b))\<lparr>serialized_len := len\<rparr>"

fun apply_op :: "DeltaBuilder \<Rightarrow> DeltaOp \<Rightarrow> de_error + DeltaBuilder" where
  "apply_op b (OpNode i g f) =
     (let b = builder_flush b in
      if i \<in> db_existing_nodes b then Inl DuplicateNode
      else Inr (b\<lparr>db_existing_nodes := insert i (db_existing_nodes b),
        db_current_node_delta := Some \<lparr>ndl_chitchat_id = i, ndl_from_version_excluded = f,
          ndl_last_gc_version = g, ndl_key_values = [], ndl_max_version = None\<rparr>\<rparr>))"
| "apply_op b (OpKeyValue m) =
     (case db_current_node_delta b of
        None \<Rightarrow> Inl OpWithoutNode
      | Some nd \<Rightarrow>
          if ndl_key_values nd \<noteq> [] \<and> \<not> kvm_version (last (ndl_key_values nd)) < kvm_version m
          then Inl VersionNotIncreasing
          else Inr (b\<lparr>db_current_node_delta :=
            Some (nd\<lparr>ndl_key_values := ndl_key_values nd @ [m]\<rparr>)\<rparr>))"
| "apply_op b (OpSetMaxVersion v) =
     (case db_current_node_delta b of
        None \<Rightarrow> Inl OpWithoutNode
      | Some nd \<Rightarrow> Inr (b\<lparr>db_current_node_delta := Some (nd\<lparr>ndl_max_version := Some v\<rparr>)\<rparr>))"

fun apply_ops :: "DeltaBuilder \<Rightarrow> DeltaOp list \<Rightarrow> de_error + DeltaBuilder" where
  "apply_ops b [] = Inr b"
| "apply_ops b (op # ops) = result_bind (apply_op b op) (\<lambda>b. apply_ops b ops)"

section \<open>Encoding a delta\<close>

definition BLOCK_THRESHOLD :: u16 where
  "BLOCK_THRESHOLD = 16384"

definition delta_serialize :: "zstd \<Rightarrow> Delta \<Rightarrow> panic + bytes" where
  "delta_serialize zc d =
     result_bind (append_items zc ser_op len_op (get_operations d) (with_block_threshold 16384))
       (\<lambda>w. result_bind (finish_stream zc w) (\<lambda>payload.
          if length payload \<noteq> serialized_len d then Inl AssertSerializedLen else Inr payload))"

definition delta_deserialize :: "zstd \<Rightarrow> Delta decoder" where
  "delta_deserialize zd buf =
     result_bind (deserialize_stream zd de_op buf) (\<lambda>(ops, rest).
       let consumed_len = length buf - length rest in
       result_bind (apply_ops DeltaBuilder_default ops) (\<lambda>b.
         Inr (builder_finish b consumed_len, rest)))"

section \<open>The serializer\<close>

record DeltaSerializer =
  ds_mtu :: nat
  ds_delta_builder :: DeltaBuilder
  ds_compressed_stream_writer :: CompressedStreamWriter

definition with_mtu :: "nat \<Rightarrow> panic + DeltaSerializer" where
  "with_mtu mtu =
     (if \<not> mtu \<ge> 100 then Inl AssertMtu
      else
        let block_threshold = min (unat BLOCK_THRESHOLD) mtu in
        if block_threshold \<ge> 65536 then Inl UnwrapU16
        else Inr \<lparr>ds_mtu = mtu, ds_delta_builder = DeltaBuilder_default,
          ds_compressed_stream_writer = with_block_threshold (of_nat block_threshold)\<rparr>)"

definition try_add_op :: "zstd \<Rightarrow> DeltaOp \<Rightarrow> DeltaSerializer \<Rightarrow> panic + (bool \<times> DeltaSerializer)" where
  "try_add_op zc op s =
     result_bind (serialized_len_upperbound_after len_op (ds_compressed_stream_writer s) op) (\<lambda>bound.
       if bound > ds_mtu s then Inr (False, s)
       else result_bind (append_item zc ser_op len_op op (ds_compressed_stream_writer s)) (\<lambda>w.
         case apply_op (ds_delta_builder s) op of
           Inl _ \<Rightarrow> Inl AssertBuilderOk
         | Inr b \<Rightarrow> Inr (True, s\<lparr>ds_compressed_stream_writer := w, ds_delta_builder := b\<rparr>)))"

definition try_set_max_version ::
    "zstd \<Rightarrow> Version \<Rightarrow> DeltaSerializer \<Rightarrow> panic + (bool \<times> DeltaSerializer)" where
  "try_set_max_version zc v s = try_add_op zc (OpSetMaxVersion v) s"

definition try_add_kv ::
    "zstd \<Rightarrow> string \<Rightarrow> VersionedValue \<Rightarrow> DeltaSerializer \<Rightarrow> panic + (bool \<times> DeltaSerializer)" where
  "try_add_kv zc key vv s = try_add_op zc (OpKeyValue \<lparr>kvm_key = key, kvm_value = vv_value vv,
     kvm_version = vv_version vv, kvm_status = mutation_of_status (vv_status vv)\<rparr>) s"

definition try_add_node ::
    "zstd \<Rightarrow> ChitchatId \<Rightarrow> Version \<Rightarrow> Version \<Rightarrow> DeltaSerializer
     \<Rightarrow> panic + (bool \<times> DeltaSerializer)" where
  "try_add_node zc i last_gc_version from_version s =
     try_add_op zc (OpNode i last_gc_version from_version) s"

definition finish_delta :: "zstd \<Rightarrow> DeltaSerializer \<Rightarrow> panic + Delta" where
  "finish_delta zc s =
     result_bind (finish_stream zc (ds_compressed_stream_writer s)) (\<lambda>buffer.
       Inr (builder_finish (ds_delta_builder s) (length buffer)))"

section \<open>Operations on the wire\<close>

lemma tag_roundtrip [simp]: "tag_try_from (tag_to_u8 t) = Some t"
  by (cases t) (auto simp: tag_try_from_def)

lemma tag_codes [simp]:
  "tag_try_from 0 = Some TagNode" "tag_try_from 1 = Some TagKeyValue"
  "tag_try_from 2 = Some TagSetMaxVersion"
  by (simp_all add: tag_try_from_def)

lemma de_op_shrinks: "shrinks (Suc 0) de_op"
  unfolding de_op_def
  by (rule shrinks_array_bind)
    (auto split: option.split DeltaOpTag.split intro!: shrinks_bind shrinks_return shrinks_fail
      shrinks_weaken [OF id.progress] shrinks_weaken [OF u64.progress]
      shrinks_weaken [OF str.progress] shrinks_weaken [OF status.progress])

interpretation op: codec ser_op len_op de_op op_wf
proof
  fix op rest
  assume "op_wf op"
  then show "de_op (ser_op op @ rest) = Inr (op, rest)"
    by (cases op) (simp_all add: de_op_def ser_kvm_def kvm_wf_def id.bind_roundtrip
        str.bind_roundtrip codec_simps)
next
  fix op
  assume "op_wf op"
  then show "length (ser_op op) = len_op op"
    by (cases op) (simp_all add: id.length_ser kvm.length_ser)
qed (rule de_op_shrinks)

lemma len_op_pos: "0 < len_op op"
  by (cases op) auto

section \<open>The builder's invariant\<close>

text \<open>What the format promises of a delta: no node twice, versions increasing inside a node.\<close>

definition node_delta_ordered :: "NodeDelta \<Rightarrow> bool" where
  "node_delta_ordered nd \<longleftrightarrow> sorted_wrt (<) (map kvm_version (ndl_key_values nd))"

definition delta_ordered :: "Delta \<Rightarrow> bool" where
  "delta_ordered d \<longleftrightarrow> distinct (map ndl_chitchat_id (node_deltas d))
     \<and> (\<forall>nd \<in> set (node_deltas d). node_delta_ordered nd)"

definition builder_nodes :: "DeltaBuilder \<Rightarrow> NodeDelta list" where
  "builder_nodes b = node_deltas (db_delta b)
     @ (case db_current_node_delta b of None \<Rightarrow> [] | Some nd \<Rightarrow> [nd])"

definition builder_inv :: "DeltaBuilder \<Rightarrow> bool" where
  "builder_inv b \<longleftrightarrow> db_existing_nodes b = set (map ndl_chitchat_id (builder_nodes b))
     \<and> distinct (map ndl_chitchat_id (builder_nodes b))
     \<and> (\<forall>nd \<in> set (builder_nodes b). node_delta_ordered nd)"

lemma builder_inv_default: "builder_inv DeltaBuilder_default"
  by (simp add: builder_inv_def builder_nodes_def DeltaBuilder_default_def Delta_default_def)

lemma builder_nodes_default [simp]: "builder_nodes DeltaBuilder_default = []"
  by (simp add: builder_nodes_def DeltaBuilder_default_def Delta_default_def)

lemma builder_flush_nodes [simp]: "builder_nodes (builder_flush b) = builder_nodes b"
  by (auto simp: builder_nodes_def builder_flush_def split: option.split)

lemma builder_flush_simps [simp]:
  "db_current_node_delta (builder_flush b) = None"
  "db_existing_nodes (builder_flush b) = db_existing_nodes b"
  by (auto simp: builder_flush_def split: option.split)

lemma builder_finish_eq:
  "builder_finish b len = \<lparr>node_deltas = builder_nodes b, serialized_len = len\<rparr>"
  by (auto simp: builder_finish_def builder_flush_def builder_nodes_def split: option.split)

text \<open>One operation on the list of node deltas: it adds a node, or changes the last one.\<close>

lemma apply_op_nodes:
  "apply_op b op = Inr b' \<Longrightarrow> builder_nodes b' =
    (case op of
       OpNode i g f \<Rightarrow> builder_nodes b @ [\<lparr>ndl_chitchat_id = i, ndl_from_version_excluded = f,
          ndl_last_gc_version = g, ndl_key_values = [], ndl_max_version = None\<rparr>]
     | OpKeyValue m \<Rightarrow> (let nd = last (builder_nodes b) in
          butlast (builder_nodes b) @ [nd\<lparr>ndl_key_values := ndl_key_values nd @ [m]\<rparr>])
     | OpSetMaxVersion v \<Rightarrow> (let nd = last (builder_nodes b) in
          butlast (builder_nodes b) @ [nd\<lparr>ndl_max_version := Some v\<rparr>]))"
proof (cases op)
  case (OpNode i g f)
  assume "apply_op b op = Inr b'"
  with OpNode show ?thesis
    using builder_flush_nodes [of b]
    by (auto simp: builder_nodes_def Let_def split: if_splits)
qed (auto simp: builder_nodes_def Let_def split: option.splits if_splits)

lemma node_delta_ordered_snoc:
  assumes "node_delta_ordered nd"
    and "ndl_key_values nd = [] \<or> kvm_version (last (ndl_key_values nd)) < kvm_version m"
  shows "node_delta_ordered (nd\<lparr>ndl_key_values := ndl_key_values nd @ [m]\<rparr>)"
proof -
  have "kvm_version x < kvm_version m" if "x \<in> set (ndl_key_values nd)" for x
  proof -
    from that have ne: "ndl_key_values nd \<noteq> []" by auto
    have "kvm_version x \<le> last (map kvm_version (ndl_key_values nd))"
      using assms(1) that by (intro sorted_wrt_last_greatest) (auto simp: node_delta_ordered_def)
    with ne assms(2) show ?thesis by (simp add: last_map)
  qed
  with assms(1) show ?thesis by (simp add: node_delta_ordered_def sorted_wrt_append)
qed

lemma builder_inv_apply_op:
  assumes "builder_inv b" and "apply_op b op = Inr b'"
  shows "builder_inv b'"
proof (cases op)
  case (OpNode i g f)
  have "builder_inv (builder_flush b)" using assms(1) by (simp add: builder_inv_def)
  with OpNode assms(2) show ?thesis
    unfolding builder_inv_def
    by (auto simp: builder_nodes_def Let_def node_delta_ordered_def split: if_splits)
next
  case (OpKeyValue m)
  with assms(2) obtain nd where nd: "db_current_node_delta b = Some nd"
    "ndl_key_values nd = [] \<or> kvm_version (last (ndl_key_values nd)) < kvm_version m"
    "b' = b\<lparr>db_current_node_delta := Some (nd\<lparr>ndl_key_values := ndl_key_values nd @ [m]\<rparr>)\<rparr>"
    by (auto split: option.splits if_splits)
  have "node_delta_ordered nd" using assms(1) nd(1) by (simp add: builder_inv_def builder_nodes_def)
  with nd(2) have "node_delta_ordered (nd\<lparr>ndl_key_values := ndl_key_values nd @ [m]\<rparr>)"
    by (rule node_delta_ordered_snoc [rotated])
  with assms(1) nd(1,3) show ?thesis by (auto simp: builder_inv_def builder_nodes_def)
next
  case (OpSetMaxVersion v)
  with assms show ?thesis
    by (auto simp: builder_inv_def builder_nodes_def node_delta_ordered_def split: option.splits)
qed

lemma builder_inv_apply_ops: "builder_inv b \<Longrightarrow> apply_ops b ops = Inr b' \<Longrightarrow> builder_inv b'"
  by (induction ops arbitrary: b) (auto dest: builder_inv_apply_op)

lemma builder_inv_finish: "builder_inv b \<Longrightarrow> delta_ordered (builder_finish b len)"
  by (simp add: builder_inv_def delta_ordered_def builder_finish_eq)

lemma apply_ops_append:
  "apply_ops b (xs @ ys) = result_bind (apply_ops b xs) (\<lambda>b. apply_ops b ys)"
  by (induction xs arbitrary: b) (simp_all add: result_bind_assoc)

section \<open>Rebuilding a delta from its operations\<close>

lemma apply_ops_key_values:
  "db_current_node_delta b = Some nd \<Longrightarrow>
   sorted_wrt (<) (map kvm_version (ndl_key_values nd @ kvs)) \<Longrightarrow>
   apply_ops b (map OpKeyValue kvs)
     = Inr (b\<lparr>db_current_node_delta := Some (nd\<lparr>ndl_key_values := ndl_key_values nd @ kvs\<rparr>)\<rparr>)"
proof (induction kvs arbitrary: b nd)
  case Nil
  then show ?case by simp
next
  case (Cons m kvs)
  let ?nd = "nd\<lparr>ndl_key_values := ndl_key_values nd @ [m]\<rparr>"
  have "ndl_key_values nd \<noteq> [] \<Longrightarrow> kvm_version (last (ndl_key_values nd)) < kvm_version m"
    using Cons.prems(2) by (auto simp: sorted_wrt_append)
  then have step: "apply_op b (OpKeyValue m) = Inr (b\<lparr>db_current_node_delta := Some ?nd\<rparr>)"
    using Cons.prems(1) by auto
  have "apply_ops (b\<lparr>db_current_node_delta := Some ?nd\<rparr>) (map OpKeyValue kvs)
    = Inr (b\<lparr>db_current_node_delta := Some (nd\<lparr>ndl_key_values := ndl_key_values nd @ m # kvs\<rparr>)\<rparr>)"
    using Cons.IH [of "b\<lparr>db_current_node_delta := Some ?nd\<rparr>" ?nd] Cons.prems(2) by simp
  with step show ?case by simp
qed

lemma apply_ops_node_delta:
  assumes "ndl_chitchat_id nd \<notin> db_existing_nodes b" and "node_delta_ordered nd"
  shows "\<exists>b'. apply_ops b (node_delta_operations nd) = Inr b'
    \<and> builder_nodes b' = builder_nodes b @ [nd]
    \<and> db_existing_nodes b' = insert (ndl_chitchat_id nd) (db_existing_nodes b)"
proof -
  let ?nd0 = "nd\<lparr>ndl_key_values := [], ndl_max_version := None\<rparr>"
  let ?nd1 = "nd\<lparr>ndl_max_version := None\<rparr>"
  let ?b0 = "(builder_flush b)\<lparr>db_existing_nodes := insert (ndl_chitchat_id nd) (db_existing_nodes b),
    db_current_node_delta := Some ?nd0\<rparr>"
  let ?b1 = "?b0\<lparr>db_current_node_delta := Some ?nd1\<rparr>"
  have op0: "apply_op b (OpNode (ndl_chitchat_id nd) (ndl_last_gc_version nd)
      (ndl_from_version_excluded nd)) = Inr ?b0"
    using assms(1) by simp
  have "apply_ops ?b0 (map OpKeyValue (ndl_key_values nd)) = Inr ?b1"
    using apply_ops_key_values [of ?b0 ?nd0 "ndl_key_values nd"] assms(2)
    by (simp add: node_delta_ordered_def)
  moreover have "apply_ops ?b1 (case ndl_max_version nd of None \<Rightarrow> [] | Some v \<Rightarrow> [OpSetMaxVersion v])
      = Inr (?b1\<lparr>db_current_node_delta := Some nd\<rparr>)"
    by (cases "ndl_max_version nd") simp_all
  ultimately have "apply_ops b (node_delta_operations nd)
      = Inr (?b1\<lparr>db_current_node_delta := Some nd\<rparr>)"
    using op0 by (simp add: node_delta_operations_def apply_ops_append del: apply_op.simps)
  then show ?thesis
    using builder_flush_nodes [of b] by (simp add: builder_nodes_def)
qed

lemma apply_ops_node_deltas:
  assumes "distinct (map ndl_chitchat_id nds)" and "\<forall>nd \<in> set nds. node_delta_ordered nd"
    and "db_existing_nodes b \<inter> set (map ndl_chitchat_id nds) = {}"
  shows "\<exists>b'. apply_ops b (concat (map node_delta_operations nds)) = Inr b'
    \<and> builder_nodes b' = builder_nodes b @ nds"
  using assms
proof (induction nds arbitrary: b)
  case Nil
  then show ?case by simp
next
  case (Cons nd nds)
  obtain b1 where b1: "apply_ops b (node_delta_operations nd) = Inr b1"
    "builder_nodes b1 = builder_nodes b @ [nd]"
    "db_existing_nodes b1 = insert (ndl_chitchat_id nd) (db_existing_nodes b)"
    using apply_ops_node_delta [of nd b] Cons.prems by auto
  have "db_existing_nodes b1 \<inter> set (map ndl_chitchat_id nds) = {}"
    using b1(3) Cons.prems(1,3) by auto
  from Cons.IH [OF _ _ this] Cons.prems b1 show ?case by (auto simp: apply_ops_append)
qed

lemma rebuild_delta:
  assumes "delta_ordered d"
  shows "\<exists>b. apply_ops DeltaBuilder_default (get_operations d) = Inr b
    \<and> builder_finish b (serialized_len d) = d"
proof -
  have empty: "db_existing_nodes DeltaBuilder_default = {}" "builder_nodes DeltaBuilder_default = []"
    by (simp_all add: DeltaBuilder_default_def builder_nodes_def Delta_default_def)
  then obtain b where "apply_ops DeltaBuilder_default (get_operations d) = Inr b"
    "builder_nodes b = node_deltas d"
    using apply_ops_node_deltas [of "node_deltas d" DeltaBuilder_default] assms
    by (auto simp: delta_ordered_def get_operations_def)
  then show ?thesis by (simp add: builder_finish_eq)
qed

section \<open>A delta on the wire\<close>

definition delta_codable :: "Delta \<Rightarrow> bool" where
  "delta_codable d \<longleftrightarrow> (\<forall>op \<in> set (get_operations d). op_wf op \<and> len_op op \<le> 65535)"

lemma append_items_threshold:
  assumes "zstd_fits zc" and "writer_wf w"
    and "length (csw_uncompressed_block w) \<le> csw_block_threshold w"
    and "append_items zc ser slen xs w = Inr w'"
  shows "length (csw_uncompressed_block w') \<le> csw_block_threshold w'
    \<and> csw_block_threshold w' = csw_block_threshold w \<and> writer_wf w'"
  using assms(2-4)
proof (induction xs arbitrary: w)
  case Nil
  then show ?case by simp
next
  case (Cons x xs)
  then obtain v where v: "append_item zc ser slen x w = Inr v" "append_items zc ser slen xs v = Inr w'"
    by auto
  have "slen x \<le> 65535" using v(1) by (auto simp: append_item_def split: if_splits)
  from append_item_ok [where slen = slen and item = x and ser = ser, OF assms(1) Cons.prems(1) this] v
  show ?case using Cons.IH [of v] by auto
qed

lemma threshold_16384: "writer_wf (with_block_threshold 16384)"
  "csw_block_threshold (with_block_threshold 16384) = 16384"
  "csw_uncompressed_block (with_block_threshold t) = []" "csw_output (with_block_threshold t) = []"
  by (simp_all add: writer_wf_def with_block_threshold_def)

lemma delta_wire_roundtrip_aux:
  assumes z: "zstd_fits zc" "zstd_inverse zc zd"
    and d: "delta_ordered d" "delta_codable d"
    and s: "delta_serialize zc d = Inr bs"
  shows "delta_deserialize zd (bs @ rest) = Inr (d, rest)"
proof -
  obtain w where w: "append_items zc ser_op len_op (get_operations d) (with_block_threshold 16384) = Inr w"
      "finish_stream zc w = Inr bs" "length bs = serialized_len d"
    using s by (auto simp: delta_serialize_def split: if_splits)
  have w_ok: "writer_wf w \<and> stream_holds zd w (concat (map ser_op (get_operations d)))"
    using append_items_ok [OF z threshold_16384(1) stream_holds_initial, of "get_operations d" len_op ser_op]
      d(2) w(1) by (auto simp: delta_codable_def)
  have "length (csw_uncompressed_block w) \<le> csw_block_threshold w"
    using append_items_threshold [OF z(1) threshold_16384(1) _ w(1)] by (simp add: threshold_16384)
  then have blocks: "decode_blocks zd [] (bs @ rest) = Inr (concat (map ser_op (get_operations d)), rest)"
    using finish_stream_decodes [OF z _ _ , of w] w_ok w(2) by auto
  have "de_items de_op (concat (map ser_op (get_operations d))) [] = Some (Inr (get_operations d))"
    using op.items_roundtrip [of "get_operations d" "[]"] d(2) by (simp add: delta_codable_def)
  with blocks have "deserialize_stream zd de_op (bs @ rest) = Inr (get_operations d, rest)"
    by (simp add: deserialize_stream_def)
  with rebuild_delta [OF d(1)] w(3) show ?thesis
    by (auto simp: delta_deserialize_def)
qed

lemma delta_deserialize_ordered:
  "delta_deserialize zd buf = Inr (d, rest) \<Longrightarrow> delta_ordered d"
  by (auto simp: delta_deserialize_def Let_def
      dest!: builder_inv_apply_ops [OF builder_inv_default] intro: builder_inv_finish)

section \<open>The serializer's invariant\<close>

definition builder_ops :: "DeltaBuilder \<Rightarrow> DeltaOp list" where
  "builder_ops b = concat (map node_delta_operations (builder_nodes b))"

text \<open>
  The operations reach the serializer in the order in which the finished delta lists them: a
  node, its key-values, its max version. An operation on the current node is in order as long as
  that node has no max version yet.
\<close>

fun op_in_order :: "DeltaBuilder \<Rightarrow> DeltaOp \<Rightarrow> bool" where
  "op_in_order b (OpNode i g f) = True"
| "op_in_order b op = (case db_current_node_delta b of
     None \<Rightarrow> True | Some nd \<Rightarrow> ndl_max_version nd = None)"

lemma apply_op_builder_ops:
  assumes "apply_op b op = Inr b'" and "op_in_order b op"
  shows "builder_ops b' = builder_ops b @ [op]"
proof (cases op)
  case (OpNode i g f)
  with apply_op_nodes [OF assms(1)] show ?thesis
    by (simp add: builder_ops_def node_delta_operations_def)
qed (use assms in \<open>auto simp: builder_ops_def builder_nodes_def node_delta_operations_def
      split: option.splits if_splits\<close>)

lemma append_items_snoc:
  "append_items zc ser slen (xs @ [x]) w =
     result_bind (append_items zc ser slen xs w) (append_item zc ser slen x)"
proof (induction xs arbitrary: w)
  case Nil
  then show ?case by (cases "append_item zc ser slen x w") simp_all
next
  case (Cons y ys)
  then show ?case by (cases "append_item zc ser slen y w") simp_all
qed

text \<open>
  \<open>serializer_inv\<close>: the writer holds the operations of the delta under construction. With an \<^verbatim>\<open>mtu\<close>
  below the block threshold nothing has been flushed yet. \<open>serializer_fits\<close> adds that finishing now
  stays within the \<^verbatim>\<open>mtu\<close>.
\<close>

definition threshold_for :: "nat \<Rightarrow> nat" where
  "threshold_for mtu = min 16384 mtu"

definition unflushed :: "CompressedStreamWriter \<Rightarrow> DeltaOp list \<Rightarrow> nat \<Rightarrow> bool" where
  "unflushed w ops n \<longleftrightarrow> csw_output w = [] \<and> csw_uncompressed_block w = concat (map ser_op ops)
     \<and> length (csw_uncompressed_block w) \<le> n"

definition serializer_inv :: "zstd \<Rightarrow> DeltaSerializer \<Rightarrow> bool" where
  "serializer_inv zc s \<longleftrightarrow> 100 \<le> ds_mtu s \<and> builder_inv (ds_delta_builder s)
     \<and> append_items zc ser_op len_op (builder_ops (ds_delta_builder s))
         (with_block_threshold (of_nat (threshold_for (ds_mtu s))))
       = Inr (ds_compressed_stream_writer s)
     \<and> (ds_mtu s < 16384 \<longrightarrow>
          unflushed (ds_compressed_stream_writer s) (builder_ops (ds_delta_builder s)) (ds_mtu s))"

definition serializer_fits :: "DeltaSerializer \<Rightarrow> bool" where
  "serializer_fits s \<longleftrightarrow> finished_len_bound (ds_compressed_stream_writer s) \<le> ds_mtu s"

lemma threshold_for_wf:
  assumes "100 \<le> mtu"
  shows "writer_wf (with_block_threshold (of_nat (threshold_for mtu)))"
    "csw_block_threshold (with_block_threshold (of_nat (threshold_for mtu))) = threshold_for mtu"
proof -
  have "threshold_for mtu < 65536" by (simp add: threshold_for_def)
  then show eq: "csw_block_threshold (with_block_threshold (of_nat (threshold_for mtu))) = threshold_for mtu"
    by (simp add: with_block_threshold_def unat_of_nat_u16)
  show "writer_wf (with_block_threshold (of_nat (threshold_for mtu)))"
    using assms eq by (auto simp: writer_wf_def threshold_for_def)
qed

lemma serializer_writer:
  assumes "zstd_fits zc" and "serializer_inv zc s"
  shows "writer_wf (ds_compressed_stream_writer s)"
    "csw_block_threshold (ds_compressed_stream_writer s) = threshold_for (ds_mtu s)"
    "length (csw_uncompressed_block (ds_compressed_stream_writer s)) \<le> threshold_for (ds_mtu s)"
proof -
  have mtu: "100 \<le> ds_mtu s" using assms(2) by (simp add: serializer_inv_def)
  have "length (csw_uncompressed_block (with_block_threshold (of_nat (threshold_for (ds_mtu s)))))
      \<le> csw_block_threshold (with_block_threshold (of_nat (threshold_for (ds_mtu s))))"
    by (simp add: threshold_16384)
  moreover have "append_items zc ser_op len_op (builder_ops (ds_delta_builder s))
      (with_block_threshold (of_nat (threshold_for (ds_mtu s)))) = Inr (ds_compressed_stream_writer s)"
    using assms(2) by (simp add: serializer_inv_def)
  ultimately have "length (csw_uncompressed_block (ds_compressed_stream_writer s))
      \<le> csw_block_threshold (ds_compressed_stream_writer s)
    \<and> csw_block_threshold (ds_compressed_stream_writer s) = threshold_for (ds_mtu s)
    \<and> writer_wf (ds_compressed_stream_writer s)"
    using append_items_threshold [OF assms(1) threshold_for_wf(1) [OF mtu]]
      threshold_for_wf(2) [OF mtu] by metis
  then show "writer_wf (ds_compressed_stream_writer s)"
    "csw_block_threshold (ds_compressed_stream_writer s) = threshold_for (ds_mtu s)"
    "length (csw_uncompressed_block (ds_compressed_stream_writer s)) \<le> threshold_for (ds_mtu s)"
    by simp_all
qed

lemma with_mtu_inv:
  "with_mtu mtu = Inr s \<Longrightarrow> serializer_inv zc s \<and> serializer_fits s \<and> ds_mtu s = mtu
    \<and> builder_nodes (ds_delta_builder s) = []"
  by (auto simp: with_mtu_def Let_def serializer_inv_def serializer_fits_def builder_inv_default
      builder_nodes_default builder_ops_def threshold_16384 unflushed_def
      finished_len_bound_def threshold_for_def BLOCK_THRESHOLD_def split: if_splits)

lemma with_mtu_ok: "100 \<le> mtu \<Longrightarrow> \<exists>s. with_mtu mtu = Inr s"
  by (auto simp: with_mtu_def Let_def BLOCK_THRESHOLD_def)

text \<open>\<open>append\<close> does not flush while the pending block stays within the threshold.\<close>

lemma append_item_no_flush:
  "slen x \<le> 65535 \<Longrightarrow> length (csw_uncompressed_block w @ ser x) \<le> csw_block_threshold w \<Longrightarrow>
   append_item zc ser slen x w
     = Inr (w\<lparr>csw_uncompressed_block := csw_uncompressed_block w @ ser x\<rparr>)"
  by (simp add: append_item_def flush_loop_unfold)

lemma try_add_op_cases:
  assumes "try_add_op zc op s = Inr (ok, s')"
  obtains "ok = False" and "s' = s"
  | bound w b where "ok = True"
      "serialized_len_upperbound_after len_op (ds_compressed_stream_writer s) op = Inr bound"
      "bound \<le> ds_mtu s"
      "append_item zc ser_op len_op op (ds_compressed_stream_writer s) = Inr w"
      "apply_op (ds_delta_builder s) op = Inr b"
      "s' = s\<lparr>ds_compressed_stream_writer := w, ds_delta_builder := b\<rparr>"
  using assms
  by (cases "apply_op (ds_delta_builder s) op") (auto simp: try_add_op_def split: if_splits)

lemma upperbound_returns:
  "0 < slen x \<Longrightarrow> \<exists>bound. serialized_len_upperbound_after slen w x = Inr bound"
  by (cases "length (csw_uncompressed_block w) + slen x > csw_block_threshold w")
    (simp_all add: serialized_len_upperbound_after_def Let_def)

lemma upperbound_ge:
  "serialized_len_upperbound_after slen w x = Inr bound \<Longrightarrow>
   length (csw_output w) + length (csw_uncompressed_block w) + slen x + 4 \<le> bound"
  by (auto simp: serialized_len_upperbound_after_def Let_def split: if_splits)

lemma try_add_op_inv:
  assumes z: "zstd_fits zc" and inv: "serializer_inv zc s" and wf: "op_wf op"
    and order: "op_in_order (ds_delta_builder s) op"
    and add: "try_add_op zc op s = Inr (ok, s')"
  shows "serializer_inv zc s'"
  using add
proof (cases rule: try_add_op_cases)
  case 1
  with inv show ?thesis by simp
next
  case (2 bound w b)
  let ?w = "ds_compressed_stream_writer s"
  have ops: "builder_ops b = builder_ops (ds_delta_builder s) @ [op]"
    by (rule apply_op_builder_ops [OF 2(5) order])
  have "builder_inv b"
    using builder_inv_apply_op [OF _ 2(5)] inv by (simp add: serializer_inv_def)
  moreover have "append_items zc ser_op len_op (builder_ops b)
      (with_block_threshold (of_nat (threshold_for (ds_mtu s)))) = Inr w"
    using inv 2(4) by (simp add: serializer_inv_def ops append_items_snoc)
  moreover have "unflushed w (builder_ops b) (ds_mtu s)"
    if small: "ds_mtu s < 16384"
  proof -
    have out: "csw_output ?w = []"
      "csw_uncompressed_block ?w = concat (map ser_op (builder_ops (ds_delta_builder s)))"
      using inv small by (simp_all add: serializer_inv_def unflushed_def)
    have len: "length (csw_uncompressed_block ?w @ ser_op op) \<le> ds_mtu s"
      using upperbound_ge [OF 2(2)] 2(3) op.length_ser [OF wf] by simp
    moreover have "csw_block_threshold ?w = ds_mtu s"
      using serializer_writer(2) [OF z inv] small by (simp add: threshold_for_def)
    moreover have "len_op op \<le> 65535"
      using 2(4) by (auto simp: append_item_def split: if_splits)
    ultimately have "w = ?w\<lparr>csw_uncompressed_block := csw_uncompressed_block ?w @ ser_op op\<rparr>"
      using append_item_no_flush [of len_op op ?w ser_op zc] 2(4) by simp
    with out len show ?thesis by (simp add: ops unflushed_def)
  qed
  ultimately show ?thesis using inv 2(6) by (simp add: serializer_inv_def)
qed

lemma try_add_op_fits:
  assumes z: "zstd_fits zc" and inv: "serializer_inv zc s" and fits: "serializer_fits s"
    and wf: "op_wf op" and small: "len_op op \<le> 16384"
    and add: "try_add_op zc op s = Inr (ok, s')"
  shows "serializer_fits s' \<and> ds_mtu s' = ds_mtu s"
  using add
proof (cases rule: try_add_op_cases)
  case 1
  with fits show ?thesis by simp
next
  case (2 bound w b)
  let ?w = "ds_compressed_stream_writer s"
  note sw = serializer_writer [OF z inv]
  have "length (csw_uncompressed_block ?w) + len_op op \<le> 2 * csw_block_threshold ?w"
    using sw(2,3) small upperbound_ge [OF 2(2)] 2(3) by (auto simp: threshold_for_def)
  then have "finished_len_bound w \<le> bound"
    using append_item_len [OF z sw(1) _ op.length_ser [OF wf] _ 2(2,4)] sw(2,3) by simp
  with 2(3,6) show ?thesis by (simp add: serializer_fits_def)
qed

section \<open>The finished delta\<close>

lemma append_items_small:
  "append_items zc ser slen xs w = Inr w' \<Longrightarrow> x \<in> set xs \<Longrightarrow> slen x \<le> 65535"
  by (induction xs arbitrary: w) (auto simp: append_item_def split: if_splits)

lemma append_items_no_flush:
  "\<forall>x \<in> set xs. slen x \<le> 65535 \<Longrightarrow>
   length (csw_uncompressed_block w @ concat (map ser xs)) \<le> csw_block_threshold w \<Longrightarrow>
   append_items zc ser slen xs w
     = Inr (w\<lparr>csw_uncompressed_block := csw_uncompressed_block w @ concat (map ser xs)\<rparr>)"
  by (induction xs arbitrary: w) (simp_all add: append_item_no_flush)

lemma finish_stream_threshold:
  assumes "csw_output w = csw_output v" "csw_uncompressed_block w = csw_uncompressed_block v"
    and "length (csw_uncompressed_block w) \<le> csw_block_threshold w"
    and "length (csw_uncompressed_block w) \<le> csw_block_threshold v"
  shows "finish_stream zc w = finish_stream zc v"
  using assms by (auto simp: finish_stream_def flush_block_def Let_def min_absorb1 split: option.split)

lemma serializer_reserialize:
  assumes z: "zstd_fits zc" and inv: "serializer_inv zc s"
  shows "\<exists>w. append_items zc ser_op len_op (builder_ops (ds_delta_builder s))
      (with_block_threshold 16384) = Inr w
    \<and> finish_stream zc w = finish_stream zc (ds_compressed_stream_writer s)"
proof (cases "ds_mtu s < 16384")
  case False
  then have "threshold_for (ds_mtu s) = 16384" by (simp add: threshold_for_def)
  with inv show ?thesis by (auto simp: serializer_inv_def)
next
  case True
  let ?ops = "builder_ops (ds_delta_builder s)" and ?w = "ds_compressed_stream_writer s"
  let ?v = "(with_block_threshold 16384)\<lparr>csw_uncompressed_block := concat (map ser_op ?ops)\<rparr>"
  have w: "csw_output ?w = []" "csw_uncompressed_block ?w = concat (map ser_op ?ops)"
    "length (csw_uncompressed_block ?w) \<le> ds_mtu s"
    using inv True unfolding serializer_inv_def unflushed_def by blast+
  have "\<forall>x \<in> set ?ops. len_op x \<le> 65535"
    using inv append_items_small by (fastforce simp: serializer_inv_def)
  then have "append_items zc ser_op len_op ?ops (with_block_threshold 16384) = Inr ?v"
    using append_items_no_flush [of ?ops len_op "with_block_threshold 16384" ser_op zc] w True
    by (simp add: threshold_16384)
  moreover have "finish_stream zc ?v = finish_stream zc ?w"
    using w True serializer_writer(2,3) [OF z inv]
    by (intro finish_stream_threshold) (simp_all add: threshold_16384)
  ultimately show ?thesis by blast
qed

lemma finish_delta_ok:
  assumes z: "zstd_fits zc" and inv: "serializer_inv zc s"
  shows "\<exists>d bs. finish_delta zc s = Inr d \<and> node_deltas d = builder_nodes (ds_delta_builder s)
    \<and> delta_ordered d \<and> delta_serialize zc d = Inr bs \<and> length bs = serialized_len d
    \<and> (serializer_fits s \<longrightarrow> serialized_len d \<le> ds_mtu s)"
proof -
  let ?w = "ds_compressed_stream_writer s"
  note sw = serializer_writer [OF z inv]
  obtain bs where bs: "finish_stream zc ?w = Inr bs" using finish_stream_ok [OF z sw(1)] by blast
  let ?d = "builder_finish (ds_delta_builder s) (length bs)"
  have "finish_delta zc s = Inr ?d" by (simp add: finish_delta_def bs)
  moreover have "delta_ordered ?d" using inv by (simp add: serializer_inv_def builder_inv_finish)
  moreover have "delta_serialize zc ?d = Inr bs"
    using serializer_reserialize [OF z inv] bs
    by (auto simp: delta_serialize_def get_operations_def builder_finish_eq builder_ops_def)
  moreover have "serializer_fits s \<longrightarrow> length bs \<le> ds_mtu s"
    using finish_stream_len [OF z sw(1) _ bs] sw(2,3) by (auto simp: serializer_fits_def)
  ultimately show ?thesis by (auto simp: builder_finish_eq)
qed

text \<open>\<open>try_add_op\<close> panics only when the builder refuses the operation.\<close>

lemma try_add_op_ok:
  assumes z: "zstd_fits zc" and inv: "serializer_inv zc s" and mtu: "ds_mtu s \<le> 65535"
    and ok: "apply_op (ds_delta_builder s) op = Inr b"
  shows "\<exists>added s'. try_add_op zc op s = Inr (added, s')
    \<and> (added \<longrightarrow> ds_delta_builder s' = b) \<and> (\<not> added \<longrightarrow> s' = s) \<and> ds_mtu s' = ds_mtu s"
proof -
  let ?w = "ds_compressed_stream_writer s"
  obtain bound where bound: "serialized_len_upperbound_after len_op ?w op = Inr bound"
    using upperbound_returns [of len_op op ?w] len_op_pos [of op] by blast
  show ?thesis
  proof (cases "bound > ds_mtu s")
    case True
    with bound show ?thesis by (auto simp: try_add_op_def)
  next
    case False
    then have "len_op op \<le> 65535" using upperbound_ge [OF bound] mtu by linarith
    then obtain w where "append_item zc ser_op len_op op ?w = Inr w"
      using append_item_ok [where slen = len_op and item = op and ser = ser_op,
          OF z serializer_writer(1) [OF z inv]] by blast
    with False bound ok show ?thesis by (auto simp: try_add_op_def)
  qed
qed

section \<open>Properties\<close>

text \<open>
  C12. A delta that is ordered and encodable is read back from its encoding, whatever follows it in
  the message, with the length it was announced with.
\<close>

theorem delta_wire_roundtrip:
  assumes "zstd_fits zc" and "zstd_inverse zc zd" and "delta_ordered d" and "delta_codable d"
    and "delta_serialize zc d = Inr bs"
  shows "delta_deserialize zd (bs @ rest) = Inr (d, rest) \<and> length bs = serialized_len d"
  using delta_wire_roundtrip_aux [OF assms] assms(5)
  by (auto simp: delta_serialize_def split: if_splits)

definition demo_wire_delta :: Delta where
  "demo_wire_delta = \<lparr>node_deltas = [\<lparr>ndl_chitchat_id = ChitchatId ''n'' 0 (SocketAddrV4 [127, 0, 0, 1] 80),
     ndl_from_version_excluded = 0, ndl_last_gc_version = 0, ndl_key_values =
       [\<lparr>kvm_key = ''k'', kvm_value = ''v'', kvm_version = 1, kvm_status = MutSet\<rparr>],
     ndl_max_version = None\<rparr>], serialized_len = 55\<rparr>"

lemma finish_stream_never:
  assumes "length (csw_uncompressed_block w) \<le> csw_block_threshold w" and "length (csw_uncompressed_block w) < 65536"
    and "0 < length (csw_uncompressed_block w)"
  shows "\<exists>bs. finish_stream zstd_never w = Inr bs
    \<and> length bs = length (csw_output w) + length (csw_uncompressed_block w) + 4"
  using assms by (simp add: finish_stream_def flush_block_def zstd_never_def Let_def)

theorem delta_wire_roundtrip_witness:
  "\<exists>bs. delta_serialize zstd_never demo_wire_delta = Inr bs
     \<and> delta_deserialize zstd_never (bs @ [9]) = Inr (demo_wire_delta, [9])"
proof -
  have ord: "delta_ordered demo_wire_delta" "delta_codable demo_wire_delta"
    by (simp_all add: demo_wire_delta_def delta_ordered_def node_delta_ordered_def delta_codable_def
        get_operations_def node_delta_operations_def id_wf_def wire_string_ascii plain_addr_def kvm_wf_def
        len_id_def len_str_def len_addr_def len_kvm_def)
  have ops: "\<forall>op \<in> set (get_operations demo_wire_delta). len_op op \<le> 65535"
    "length (concat (map ser_op (get_operations demo_wire_delta))) = 51"
    using ord(2) by (simp_all add: delta_codable_def demo_wire_delta_def get_operations_def
        node_delta_operations_def id.length_ser kvm.length_ser len_id_def len_str_def len_addr_def len_kvm_def)
  let ?data = "concat (map ser_op (get_operations demo_wire_delta))"
  let ?w = "(with_block_threshold 16384)\<lparr>csw_uncompressed_block := ?data\<rparr>"
  have "append_items zstd_never ser_op len_op (get_operations demo_wire_delta) (with_block_threshold 16384) = Inr ?w"
    using append_items_no_flush [of "get_operations demo_wire_delta" len_op "with_block_threshold 16384" ser_op zstd_never] ops
    by (simp add: threshold_16384)
  moreover obtain bs where "finish_stream zstd_never ?w = Inr bs" "length bs = 55"
    using finish_stream_never [of ?w] ops(2) by (auto simp: threshold_16384)
  ultimately have bs: "delta_serialize zstd_never demo_wire_delta = Inr bs"
    by (simp add: delta_serialize_def demo_wire_delta_def)
  from delta_wire_roundtrip [OF zstd_never_contract(1,2) ord bs] bs show ?thesis by blast
qed

text \<open>
  Whatever bytes the network delivers, a delta that is accepted names no node twice and lists
  the key-values of each node with strictly increasing versions.
\<close>

lemma delta_deserialize_safe:
  assumes "delta_deserialize zd buf = Inr (d, rest)"
  shows "distinct (map ndl_chitchat_id (node_deltas d))
    \<and> (\<forall>nd \<in> set (node_deltas d). sorted_wrt (<) (map kvm_version (ndl_key_values nd)))"
  using delta_deserialize_ordered [OF assms] by (simp add: delta_ordered_def node_delta_ordered_def)

end
