(* ===== verification/Message.thy ===== *)
theory Message
  imports Digest Delta
begin

text \<open>
  \<^verbatim>\<open>chitchat/src/message.rs\<close>: the messages of the gossip handshake and their encoding behind the
  magic number and the protocol version.
\<close>

definition MAGIC_NUMBER :: u16 where
  "MAGIC_NUMBER = 45139"

datatype ChitchatMessage =
    Syn string Digest
  | SynAck Digest Delta
  | Ack Delta
  | BadCluster

datatype ProtocolVersion = V0

fun protocol_from_code :: "u8 \<Rightarrow> ProtocolVersion option" where
  "protocol_from_code c = (if c = 0 then Some V0 else None)"

fun protocol_to_code :: "ProtocolVersion \<Rightarrow> u8" where
  "protocol_to_code V0 = 0"

datatype MessageType = TypeSyn | TypeSynAck | TypeAck | TypeBadCluster

definition message_type_from_code :: "u8 \<Rightarrow> MessageType option" where
  "message_type_from_code c =
     (if c = 0 then Some TypeSyn
      else if c = 1 then Some TypeSynAck
      else if c = 2 then Some TypeAck
      else if c = 3 then Some TypeBadCluster
      else None)"

fun message_type_to_code :: "MessageType \<Rightarrow> u8" where
  "message_type_to_code TypeSyn = 0"
| "message_type_to_code TypeSynAck = 1"
| "message_type_to_code TypeAck = 2"
| "message_type_to_code TypeBadCluster = 3"

text \<open>Encoding can panic, since the encoding of a delta checks its announced length.\<close>

definition message_header :: bytes where
  "message_header = to_le_bytes 2 MAGIC_NUMBER @ ser_u8 (protocol_to_code V0)"

fun message_serialize :: "zstd \<Rightarrow> ChitchatMessage \<Rightarrow> panic + bytes" where
  "message_serialize zc (Syn cluster_id digest) =
     Inr (message_header @ [message_type_to_code TypeSyn] @ ser_digest digest @ ser_str cluster_id)"
| "message_serialize zc (SynAck digest delta) =
     result_bind (delta_serialize zc delta) (\<lambda>bs.
       Inr (message_header @ [message_type_to_code TypeSynAck] @ ser_digest digest @ bs))"
| "message_serialize zc (Ack delta) =
     result_bind (delta_serialize zc delta) (\<lambda>bs.
       Inr (message_header @ [message_type_to_code TypeAck] @ bs))"
| "message_serialize zc BadCluster = Inr (message_header @ [message_type_to_code TypeBadCluster])"

fun message_len :: "ChitchatMessage \<Rightarrow> nat" where
  "message_len (Syn cluster_id digest) = 2 + 1 + (1 + len_str cluster_id + len_digest digest)"
| "message_len (SynAck digest delta) = 2 + 1 + (1 + len_digest digest + serialized_len delta)"
| "message_len (Ack delta) = 2 + 1 + (1 + serialized_len delta)"
| "message_len BadCluster = 2 + 1 + 1"

definition message_deserialize :: "zstd \<Rightarrow> ChitchatMessage decoder" where
  "message_deserialize zd buf =
     (if length buf < 3 then Inl HeaderTooShort
      else if from_le_bytes (take 2 buf) \<noteq> MAGIC_NUMBER then Inl InvalidMagicNumber
      else case protocol_from_code (buf ! 2) of
        None \<Rightarrow> Inl InvalidProtocolVersion
      | Some v \<Rightarrow>
          (if v \<noteq> V0 then Inl InvalidProtocolVersion
           else
             let buf = drop 3 buf in
             case (case buf of [] \<Rightarrow> None | c # _ \<Rightarrow> message_type_from_code c) of
               None \<Rightarrow> Inl InvalidMessageType
             | Some t \<Rightarrow>
                 let buf = drop 1 buf in
                 (case t of
                    TypeSyn \<Rightarrow> de_bind de_digest (\<lambda>digest. de_bind de_str (\<lambda>cluster_id.
                      de_return (Syn cluster_id digest))) buf
                  | TypeSynAck \<Rightarrow> de_bind de_digest (\<lambda>digest. de_bind (delta_deserialize zd) (\<lambda>delta.
                      de_return (SynAck digest delta))) buf
                  | TypeAck \<Rightarrow> de_bind (delta_deserialize zd) (\<lambda>delta. de_return (Ack delta)) buf
                  | TypeBadCluster \<Rightarrow> Inr (BadCluster, buf))))"

section \<open>Round trip\<close>

fun message_wf :: "ChitchatMessage \<Rightarrow> bool" where
  "message_wf (Syn cluster_id digest) \<longleftrightarrow> wire_string cluster_id \<and> digest_wf digest"
| "message_wf (SynAck digest delta) \<longleftrightarrow> digest_wf digest \<and> delta_ordered delta \<and> delta_codable delta"
| "message_wf (Ack delta) \<longleftrightarrow> delta_ordered delta \<and> delta_codable delta"
| "message_wf BadCluster \<longleftrightarrow> True"

lemma message_type_roundtrip [simp]:
  "message_type_from_code (message_type_to_code t) = Some t"
  by (cases t) (auto simp: message_type_from_code_def)

lemma length_message_header [simp]: "length message_header = 3"
  by (simp add: message_header_def)

lemma take_message_header: "from_le_bytes (take 2 (message_header @ rest)) = MAGIC_NUMBER"
  by (simp add: message_header_def from_to_le_bytes)

lemma message_header_protocol: "(message_header @ rest) ! 2 = 0"
  by (simp add: message_header_def nth_append ser_u8_def)

lemma message_deserialize_header:
  "message_deserialize zd (message_header @ [message_type_to_code t] @ body) =
     (case t of
        TypeSyn \<Rightarrow> de_bind de_digest (\<lambda>digest. de_bind de_str (\<lambda>cluster_id.
          de_return (Syn cluster_id digest))) body
      | TypeSynAck \<Rightarrow> de_bind de_digest (\<lambda>digest. de_bind (delta_deserialize zd) (\<lambda>delta.
          de_return (SynAck digest delta))) body
      | TypeAck \<Rightarrow> de_bind (delta_deserialize zd) (\<lambda>delta. de_return (Ack delta)) body
      | TypeBadCluster \<Rightarrow> Inr (BadCluster, body))"
  using take_message_header [of "message_type_to_code t # body"]
    message_header_protocol [of "message_type_to_code t # body"]
  by (simp add: message_deserialize_def Let_def)

lemma delta_bind_roundtrip:
  assumes "zstd_fits zc" "zstd_inverse zc zd" "delta_ordered d" "delta_codable d"
    "delta_serialize zc d = Inr bs"
  shows "de_bind (delta_deserialize zd) f (bs @ rest) = f d rest"
  using delta_wire_roundtrip_aux [OF assms] by (simp add: codec_simps)

lemma message_roundtrip_aux:
  assumes z: "zstd_fits zc" "zstd_inverse zc zd" and wf: "message_wf m"
    and s: "message_serialize zc m = Inr bs"
  shows "message_deserialize zd (bs @ rest) = Inr (m, rest)"
proof (cases m)
  case (Syn c d)
  with s have "bs = message_header @ [message_type_to_code TypeSyn] @ ser_digest d @ ser_str c"
    by simp
  with Syn wf show ?thesis
    using message_deserialize_header [of zd TypeSyn "ser_digest d @ ser_str c @ rest"]
    by (simp add: digest.bind_roundtrip str.bind_roundtrip)
next
  case (SynAck d e)
  with s obtain ds where ds: "delta_serialize zc e = Inr ds"
      "bs = message_header @ [message_type_to_code TypeSynAck] @ ser_digest d @ ds"
    by auto
  with SynAck wf show ?thesis
    using message_deserialize_header [of zd TypeSynAck "ser_digest d @ ds @ rest"]
      delta_bind_roundtrip [OF z _ _ ds(1), where f = "\<lambda>delta. de_return (SynAck d delta)"]
    by (simp add: digest.bind_roundtrip de_return_def)
next
  case (Ack e)
  with s obtain ds where ds: "delta_serialize zc e = Inr ds"
      "bs = message_header @ [message_type_to_code TypeAck] @ ds"
    by auto
  with Ack wf show ?thesis
    using message_deserialize_header [of zd TypeAck "ds @ rest"]
      delta_bind_roundtrip [OF z _ _ ds(1), where f = "\<lambda>delta. de_return (Ack delta)"]
    by (simp add: de_return_def)
next
  case BadCluster
  with s have "bs = message_header @ [message_type_to_code TypeBadCluster]"
    by simp
  with BadCluster show ?thesis
    using message_deserialize_header [of zd TypeBadCluster rest] by simp
qed

lemma delta_serialize_len: "delta_serialize zc d = Inr bs \<Longrightarrow> length bs = serialized_len d"
  by (auto simp: delta_serialize_def split: if_splits)

lemma message_len_correct:
  assumes "message_wf m" and "message_serialize zc m = Inr bs"
  shows "length bs = message_len m"
  using assms by (cases m) (auto simp: digest.length_ser str.length_ser delta_serialize_len)

section \<open>Properties\<close>

text \<open>
  C11. Every well-formed message of the protocol that can be encoded is decoded to itself, whatever
  follows it in the buffer, and takes the number of bytes that \<^verbatim>\<open>serialized_len\<close> announces.
\<close>

theorem message_roundtrip:
  assumes "zstd_fits zc" and "zstd_inverse zc zd" and "message_wf m" and "message_serialize zc m = Inr bs"
  shows "message_deserialize zd (bs @ rest) = Inr (m, rest) \<and> length bs = message_len m"
  using message_roundtrip_aux [OF assms] message_len_correct [OF assms(3,4)] by simp

definition demo_syn :: ChitchatMessage where
  "demo_syn = Syn ''cluster'' \<lparr>node_digests = [(ChitchatId ''n'' 0 (SocketAddrV4 [127, 0, 0, 1] 80),
     \<lparr>nd_heartbeat = 5, nd_last_gc_version = 0, nd_max_version = 3\<rparr>)]\<rparr>"

theorem message_roundtrip_witness:
  "\<exists>bs. message_serialize zstd_never demo_syn = Inr bs \<and> message_deserialize zstd_never (bs @ []) = Inr (demo_syn, [])"
proof -
  have wf: "message_wf demo_syn"
    by (simp add: demo_syn_def digest_wf_def btm_wf_def id_wf_def wire_string_ascii plain_addr_def)
  obtain bs where bs: "message_serialize zstd_never demo_syn = Inr bs" by (simp add: demo_syn_def)
  from message_roundtrip [OF zstd_never_contract(1,2) wf bs] bs show ?thesis by blast
qed

end
