(* ===== verification/Decoding.thy ===== *)
theory Decoding
  imports Message
begin

text \<open>
  What the decoders accept. Every decoder yields only well-formed values, whatever the bytes: strings
  are UTF-8 of less than 65536 bytes, addresses have the right number of octets, digests are maps, and
  deltas are ordered. The interface is the locale \<open>strict_codec\<close>, which extends \<open>codec\<close>. The loops
  of the decoders end on every input.
\<close>

section \<open>Codecs that decode to valid values only\<close>

definition yields :: "('a \<Rightarrow> bool) \<Rightarrow> 'a decoder \<Rightarrow> bool" where
  "yields P d \<longleftrightarrow> (\<forall>buf x rest. d buf = Inr (x, rest) \<longrightarrow> P x)"

lemma yieldsD: "yields P d \<Longrightarrow> d buf = Inr (x, rest) \<Longrightarrow> P x"
  by (auto simp: yields_def)

lemma yields_return: "P x \<Longrightarrow> yields P (de_return x)"
  by (simp add: yields_def)

lemma yields_fail: "yields P (de_fail e)"
  by (simp add: yields_def)

lemma yields_bind: "yields Q d \<Longrightarrow> (\<And>x. Q x \<Longrightarrow> yields P (f x)) \<Longrightarrow> yields P (de_bind d f)"
  by (fastforce simp: yields_def de_bind_eq_Inr)

lemma yields_any: "yields (\<lambda>_. True) d"
  by (simp add: yields_def)

lemma yields_bind_any: "(\<And>x. yields P (f x)) \<Longrightarrow> yields P (de_bind d f)"
  by (rule yields_bind [OF yields_any])

lemmas yields_intros = yields_return yields_fail

locale strict_codec = codec +
  assumes decodes_valid: "yields valid de"
begin

lemma decoded: "de buf = Inr (x, rest) \<Longrightarrow> valid x \<and> length rest < length buf"
  using yieldsD [OF decodes_valid] shrinksD [OF progress, of buf x rest] by fastforce

lemma items_valid:
  "de_items de buf acc = Some (Inr xs) \<Longrightarrow> \<forall>x \<in> set acc. valid x \<Longrightarrow> \<forall>x \<in> set xs. valid x"
proof (induction "length buf" arbitrary: buf acc rule: less_induct)
  case less
  show ?case
  proof (cases "buf = []")
    case True
    with less.prems show ?thesis by (simp add: de_items.simps [of _ "[]"])
  next
    case False
    then obtain x r where x: "de buf = Inr (x, r)" "de_items de r (acc @ [x]) = Some (Inr xs)"
      using less.prems(1) by (subst (asm) de_items.simps) (auto split: sum.splits)
    with less.hyps [of r "acc @ [x]"] less.prems(2) decoded [OF x(1)] show ?thesis by auto
  qed
qed

end

section \<open>The decoders\<close>

lemma yields_array: "yields (\<lambda>bs. length bs = n) (de_array n)"
  by (simp add: yields_def de_array_def)

interpretation strict_ip: strict_codec ser_ip len_ip de_ip ip_wf
proof
  show "yields ip_wf de_ip"
    unfolding de_ip_def
    by (intro yields_bind_any)
      (auto split: option.split IpVersion.split intro!: yields_fail yields_bind [OF yields_array] yields_return)
qed

lemma length_string_of_bytes [simp]: "length (string_of_bytes bs) = length bs"
  by (simp add: string_of_bytes_def)

interpretation strict_str: strict_codec ser_str len_str de_str wire_string
proof
  have "wire_string (string_of_bytes bs)" if "valid_utf8 bs" "length bs < 65536" for bs
    using that by (simp add: wire_string_def rust_string_def)
  moreover have "unat (n :: u16) < 65536" for n using unsigned_less [of n] by simp
  ultimately show "yields wire_string de_str"
    unfolding de_str_def by (intro yields_bind_any) (auto simp: yields_def Let_def split: if_splits)
qed

interpretation strict_addr: strict_codec ser_addr len_addr de_addr plain_addr
proof
  have "plain_addr (SocketAddr_new i p)" if "ip_wf i" for i p
    using that by (cases i) (simp_all add: plain_addr_def)
  then show "yields plain_addr de_addr"
    unfolding de_addr_def by (intro yields_bind [OF strict_ip.decodes_valid] yields_bind_any yields_return)
qed

interpretation strict_id: strict_codec ser_id len_id de_id id_wf
proof
  show "yields id_wf de_id"
    unfolding de_id_def
    by (intro yields_bind [OF strict_str.decodes_valid] yields_bind_any yields_bind [OF strict_addr.decodes_valid]
        yields_return) (simp add: id_wf_def)
qed

interpretation strict_kvm: strict_codec ser_kvm len_kvm de_kvm kvm_wf
proof
  show "yields kvm_wf de_kvm"
    unfolding de_kvm_def
    by (intro yields_bind [OF strict_str.decodes_valid] yields_bind_any yields_return) (simp add: kvm_wf_def)
qed

interpretation strict_op: strict_codec ser_op len_op de_op op_wf
proof
  have node: "yields op_wf (de_bind de_id (\<lambda>i. de_bind de_u64 (\<lambda>g. de_bind de_u64 (\<lambda>f. de_return (OpNode i g f)))))"
    by (intro yields_bind [OF strict_id.decodes_valid] yields_bind_any yields_return) simp
  have kv: "yields op_wf (de_bind de_str (\<lambda>k. de_bind de_str (\<lambda>v. de_bind de_u64 (\<lambda>n. de_bind de_status (\<lambda>st.
      de_return (OpKeyValue \<lparr>kvm_key = k, kvm_value = v, kvm_version = n, kvm_status = st\<rparr>))))))"
    by (intro yields_bind [OF strict_str.decodes_valid] yields_bind_any yields_return) (simp add: kvm_wf_def)
  have max: "yields op_wf (de_bind de_u64 (\<lambda>v. de_return (OpSetMaxVersion v)))"
    by (intro yields_bind_any yields_return) simp
  show "yields op_wf de_op"
    unfolding de_op_def
    by (intro yields_bind_any) (simp add: node kv max yields_fail split: option.split DeltaOpTag.split)
qed

lemma length_btm_insert: "length (btm_insert k v m) \<le> Suc (length m)"
  by (induction m) auto

lemma de_digest_entries_yields:
  "btm_wf m \<Longrightarrow> \<forall>e \<in> set m. id_wf (fst e) \<Longrightarrow>
   yields (\<lambda>r. btm_wf r \<and> length r \<le> length m + n \<and> (\<forall>e \<in> set r. id_wf (fst e))) (de_digest_entries n m)"
proof (induction n arbitrary: m)
  case 0
  then show ?case by (simp add: yields_def)
next
  case (Suc n)
  have "yields (\<lambda>r. btm_wf r \<and> length r \<le> length m + Suc n \<and> (\<forall>e \<in> set r. id_wf (fst e)))
      (de_digest_entries n (btm_insert i nd m))" if "id_wf i" for i nd
  proof -
    have "\<forall>e \<in> set (btm_insert i nd m). id_wf (fst e)"
      using Suc.prems that by (auto simp: set_btm_insert)
    from Suc.IH [OF _ this] Suc.prems(1) length_btm_insert [of i nd m]
    show ?thesis by (fastforce simp: yields_def)
  qed
  then show ?case
    unfolding de_digest_entries.simps
    by (intro yields_bind [OF strict_id.decodes_valid] yields_bind_any)
qed

interpretation strict_digest: strict_codec ser_digest len_digest de_digest digest_wf
proof
  have "unat (n :: u16) < 65536" for n using unsigned_less [of n] by simp
  then show "yields digest_wf de_digest"
    unfolding de_digest_def
    by (intro yields_bind_any yields_bind [OF de_digest_entries_yields] yields_return)
      (auto simp: digest_wf_def btm_wf_def intro: le_less_trans)
qed

section \<open>Deltas and messages\<close>

definition node_delta_codable :: "NodeDelta \<Rightarrow> bool" where
  "node_delta_codable nd \<longleftrightarrow> id_wf (ndl_chitchat_id nd) \<and> (\<forall>m \<in> set (ndl_key_values nd). kvm_wf m)"

definition builder_codable :: "DeltaBuilder \<Rightarrow> bool" where
  "builder_codable b \<longleftrightarrow> (\<forall>nd \<in> set (node_deltas (db_delta b)). node_delta_codable nd)
     \<and> (case db_current_node_delta b of None \<Rightarrow> True | Some nd \<Rightarrow> node_delta_codable nd)"

lemma builder_codable_flush: "builder_codable b \<Longrightarrow> builder_codable (builder_flush b)"
  by (auto simp: builder_codable_def builder_flush_def split: option.split)

lemma apply_op_codable:
  "builder_codable b \<Longrightarrow> op_wf op \<Longrightarrow> apply_op b op = Inr b' \<Longrightarrow> builder_codable b'"
  using builder_codable_flush [of b]
  by (cases op) (auto simp: builder_codable_def node_delta_codable_def Let_def split: if_splits option.splits)

lemma apply_ops_codable:
  "builder_codable b \<Longrightarrow> \<forall>op \<in> set ops. op_wf op \<Longrightarrow> apply_ops b ops = Inr b' \<Longrightarrow> builder_codable b'"
  by (induction ops arbitrary: b) (auto dest: apply_op_codable)

lemma deserialize_stream_items:
  assumes "deserialize_stream zd d buf = Inr (xs, rest)"
  shows "\<exists>data. de_items d data [] = Some (Inr xs)"
proof -
  obtain data r where data: "decode_blocks zd [] buf = Inr (data, r)"
    using assms by (cases "decode_blocks zd [] buf") (auto simp: deserialize_stream_def)
  show ?thesis
  proof (cases "de_items d data []")
    case None
    with assms data show ?thesis by (simp add: deserialize_stream_def)
  next
    case (Some y)
    with assms data have "y = Inr xs" by (cases y) (simp_all add: deserialize_stream_def)
    with Some show ?thesis by blast
  qed
qed

lemma delta_deserialize_codable:
  assumes "delta_deserialize zd buf = Inr (d, rest)"
  shows "\<forall>nd \<in> set (node_deltas d). node_delta_codable nd"
proof -
  obtain ops b where ops: "deserialize_stream zd de_op buf = Inr (ops, rest)"
      "apply_ops DeltaBuilder_default ops = Inr b" "d = builder_finish b (length buf - length rest)"
    using assms by (auto simp: delta_deserialize_def Let_def)
  obtain data where "de_items de_op data [] = Some (Inr ops)"
    using ops(1) deserialize_stream_items by blast
  then have "\<forall>op \<in> set ops. op_wf op" using strict_op.items_valid by force
  moreover have "builder_codable DeltaBuilder_default"
    by (simp add: builder_codable_def DeltaBuilder_default_def Delta_default_def)
  ultimately have "builder_codable (builder_flush b)"
    using apply_ops_codable [OF _ _ ops(2)] builder_codable_flush by blast
  then show ?thesis by (simp add: ops(3) builder_finish_def builder_codable_def)
qed

text \<open>What every decoded delta and every decoded message satisfies.\<close>

definition delta_typed :: "Delta \<Rightarrow> bool" where
  "delta_typed d \<longleftrightarrow> delta_ordered d \<and> (\<forall>nd \<in> set (node_deltas d). node_delta_codable nd)"

lemma delta_codable_typed: "delta_ordered d \<Longrightarrow> delta_codable d \<Longrightarrow> delta_typed d"
  unfolding delta_typed_def delta_codable_def get_operations_def node_delta_codable_def
  by (auto simp: node_delta_operations_def ball_Un dest!: bspec)

fun message_typed :: "ChitchatMessage \<Rightarrow> bool" where
  "message_typed (Syn c g) \<longleftrightarrow> wire_string c \<and> digest_wf g"
| "message_typed (SynAck g d) \<longleftrightarrow> digest_wf g \<and> delta_typed d"
| "message_typed (Ack d) \<longleftrightarrow> delta_typed d"
| "message_typed BadCluster \<longleftrightarrow> True"

lemma yields_delta:
  "yields delta_typed (delta_deserialize zd)"
  unfolding yields_def delta_typed_def using delta_deserialize_ordered delta_deserialize_codable by blast

lemma message_deserialize_typed: "yields message_typed (message_deserialize zd)"
proof -
  have "yields message_typed (de_bind de_digest (\<lambda>g. de_bind de_str (\<lambda>c. de_return (Syn c g))))"
    by (intro yields_bind [OF strict_digest.decodes_valid] yields_bind [OF strict_str.decodes_valid] yields_return) simp
  moreover have "yields message_typed (de_bind de_digest (\<lambda>g. de_bind (delta_deserialize zd) (\<lambda>d. de_return (SynAck g d))))"
    by (intro yields_bind [OF strict_digest.decodes_valid] yields_bind [OF yields_delta] yields_return) simp
  moreover have "yields message_typed (de_bind (delta_deserialize zd) (\<lambda>d. de_return (Ack d)))"
    by (intro yields_bind [OF yields_delta] yields_return) simp
  ultimately show ?thesis
    by (auto simp: yields_def message_deserialize_def Let_def split: if_splits option.splits MessageType.splits)
qed

section \<open>Termination\<close>

text \<open>The loop over the blocks ends because every turn consumes a byte, the loop over the items
  because every item does; no input makes a decoder run forever.\<close>

definition always_returns :: "'a decoder \<Rightarrow> bool" where
  "always_returns d \<longleftrightarrow> (\<forall>buf. d buf \<noteq> Inl NeverReturns)"

lemma returns_return: "always_returns (de_return x)"
  by (simp add: always_returns_def)

lemma returns_fail: "e \<noteq> NeverReturns \<Longrightarrow> always_returns (de_fail e)"
  by (simp add: always_returns_def)

lemma returns_bind: "always_returns d \<Longrightarrow> (\<And>x. always_returns (f x)) \<Longrightarrow> always_returns (de_bind d f)"
  by (auto simp: always_returns_def de_bind_def) (metis old.sum.exhaust result_bind.simps)

lemma returns_array: "always_returns (de_array n)"
  by (simp add: always_returns_def de_array_def)

lemmas returns_intros = returns_bind returns_return returns_fail returns_array

lemma returns_ints: "always_returns de_u8" "always_returns de_u16" "always_returns de_u64"
  unfolding de_u8_def de_u16_def de_u64_def by (intro returns_intros)+

lemma returns_str: "always_returns de_str"
  unfolding de_str_def
  by (intro returns_bind returns_ints) (simp add: always_returns_def Let_def)

lemma returns_id: "always_returns de_id"
proof -
  have "always_returns de_ip"
    unfolding de_ip_def
    by (intro returns_bind returns_array) (auto split: option.split IpVersion.split intro!: returns_intros)
  then show ?thesis
    unfolding de_id_def de_addr_def by (intro returns_intros returns_str returns_ints)
qed

lemma returns_status: "always_returns de_status"
  unfolding de_status_def
  by (intro returns_bind returns_ints) (auto split: option.split intro!: returns_intros)

lemma returns_op: "always_returns de_op"
  unfolding de_op_def
  by (intro returns_bind returns_array)
    (auto split: option.split DeltaOpTag.split
      intro!: returns_intros returns_id returns_ints returns_str returns_status)

lemma returns_digest: "always_returns de_digest"
proof -
  have nd: "always_returns de_node_digest"
    unfolding de_node_digest_def de_heartbeat_def by (intro returns_intros returns_ints)
  have "always_returns (de_digest_entries n m)" for n m
  proof (induction n arbitrary: m)
    case 0
    show ?case unfolding de_digest_entries.simps by (rule returns_return)
  next
    case (Suc n)
    show ?case unfolding de_digest_entries.simps by (intro returns_bind returns_id nd Suc.IH)
  qed
  then show ?thesis unfolding de_digest_def by (intro returns_intros returns_ints)
qed

lemma decode_blocks_returns: "decode_blocks zd acc buf \<noteq> Inl NeverReturns"
proof (induction zd acc buf rule: decode_blocks.induct)
  case (1 zd acc buf)
  have "always_returns de_block_type"
    unfolding de_block_type_def by (intro returns_bind returns_ints) (auto intro!: returns_intros)
  then have "de_block_type buf \<noteq> Inl NeverReturns" "\<And>r. de_u16 r \<noteq> Inl NeverReturns"
    using returns_ints(2) by (simp_all add: always_returns_def)
  with 1 show ?case
    by (subst decode_blocks.simps) (auto split: sum.split BlockType.split option.split)
qed

lemma items_returns:
  assumes "codec ser slen de valid" and "always_returns de"
  shows "de_items de buf acc \<noteq> Some (Inl NeverReturns)"
proof (induction "length buf" arbitrary: buf acc rule: less_induct)
  case less
  have "length (snd p) < length buf" if "de buf = Inr p" for p
    using shrinksD [OF codec.progress [OF assms(1)], of buf "fst p" "snd p"] that by simp
  moreover have "de buf \<noteq> Inl NeverReturns" using assms(2) by (simp add: always_returns_def)
  ultimately show ?case using less by (subst de_items.simps) (auto split: sum.split)
qed

lemma returns_delta: "always_returns (delta_deserialize zd)"
proof -
  have ops: "apply_ops b xs \<noteq> Inl NeverReturns" for b xs
  proof (induction xs arbitrary: b)
    case (Cons op xs)
    have "apply_op b op \<noteq> Inl NeverReturns" by (cases op) (auto simp: Let_def split: option.split)
    with Cons show ?case by (cases "apply_op b op") auto
  qed simp
  have "deserialize_stream zd de_op buf \<noteq> Inl NeverReturns" for buf
  proof (cases "decode_blocks zd [] buf")
    case (Inl e)
    with decode_blocks_returns [of zd "[]" buf] show ?thesis by (simp add: deserialize_stream_def)
  next
    case (Inr p)
    then obtain data rest where p: "decode_blocks zd [] buf = Inr (data, rest)" by (cases p) simp
    obtain y where y: "de_items de_op data [] = Some y" using op.items_terminates by blast
    then have "y \<noteq> Inl NeverReturns" using items_returns [OF op.codec_axioms returns_op] by metis
    with p y show ?thesis by (cases y) (simp_all add: deserialize_stream_def)
  qed
  then show ?thesis
    using ops [of DeltaBuilder_default] unfolding always_returns_def delta_deserialize_def
    by (auto simp: result_bind_eq_Inl)
qed

lemma message_deserialize_returns: "message_deserialize zd buf \<noteq> Inl NeverReturns"
proof -
  have "always_returns (de_bind de_digest (\<lambda>g. de_bind de_str (\<lambda>c. de_return (Syn c g))))"
    "always_returns (de_bind de_digest (\<lambda>g. de_bind (delta_deserialize zd) (\<lambda>d. de_return (SynAck g d))))"
    "always_returns (de_bind (delta_deserialize zd) (\<lambda>d. de_return (Ack d)))"
    by (intro returns_intros returns_digest returns_str returns_delta)+
  then show ?thesis
    by (auto simp: always_returns_def message_deserialize_def Let_def split: option.split MessageType.split)
qed

lemma append_items_returns:
  "zstd_fits zc \<Longrightarrow> writer_wf w \<Longrightarrow> \<forall>x \<in> set xs. slen x \<le> 65535 \<Longrightarrow>
   \<exists>w'. append_items zc ser slen xs w = Inr w'"
proof (induction xs arbitrary: w)
  case (Cons x xs)
  then obtain w1 where "append_item zc ser slen x w = Inr w1" "writer_wf w1"
    using append_item_ok [of zc w slen x ser] by auto
  with Cons show ?case by simp
qed simp

section \<open>Properties\<close>

text \<open>
  C19. Whatever bytes the network delivers, a message that is accepted is well-typed: its strings are
  UTF-8 of less than 65536 bytes, its identifiers have proper addresses, its digest is a map, and its
  delta names no node twice and lists the key-values of each node with strictly increasing versions.
\<close>

theorem decoded_message_typed:
  assumes "message_deserialize zd buf = Inr (m, rest)"
  shows "message_typed m"
  by (rule yieldsD [OF message_deserialize_typed assms])

theorem decoded_message_typed_witness:
  "\<exists>bs. message_serialize zstd_never demo_syn = Inr bs \<and> message_deserialize zstd_never bs = Inr (demo_syn, [])
     \<and> message_typed demo_syn"
proof -
  have wf: "message_wf demo_syn"
    by (simp add: demo_syn_def digest_wf_def btm_wf_def id_wf_def wire_string_ascii plain_addr_def)
  obtain bs where bs: "message_serialize zstd_never demo_syn = Inr bs" by (simp add: demo_syn_def)
  have "message_deserialize zstd_never bs = Inr (demo_syn, [])"
    using message_roundtrip_aux [OF zstd_never_contract(1,2) wf bs, of zstd_never "[]"] by simp
  with decoded_message_typed [OF this] bs show ?thesis by blast
qed

text \<open>
  C20. The loops of the codec end: no buffer and no decompressor makes the decoder of messages run
  forever, and with a positive block threshold the writer takes any number of items of at most 65535
  bytes each.
\<close>

theorem codec_loops_end:
  assumes "zstd_fits zc" and "threshold \<noteq> 0" and "\<forall>x \<in> set xs. slen x \<le> 65535"
  shows "message_deserialize zd buf \<noteq> Inl NeverReturns
    \<and> (\<exists>w. append_items zc ser slen xs (with_block_threshold threshold) = Inr w)"
  using message_deserialize_returns append_items_returns [OF assms(1) with_block_threshold_wf [OF assms(2)] assms(3)]
  by blast

theorem codec_loops_end_witness:
  "\<exists>w. append_items zstd_copy ser_op len_op [OpSetMaxVersion 7, OpSetMaxVersion 9] (with_block_threshold 1) = Inr w"
  using codec_loops_end [OF zstd_copy_contract(1), of 1 "[OpSetMaxVersion 7, OpSetMaxVersion 9]" len_op]
  by simp

end
