(* ===== verification/Transport.thy ===== *)
theory Transport
  imports Message Complex_Main "HOL-Library.Sublist" "HOL-Library.Multiset"
begin

text \<open>
  The transports of \<^verbatim>\<open>chitchat/src/transport\<close>: the in-memory channels of \<^verbatim>\<open>channel.rs\<close>, the codec
  side of the UDP socket of \<^verbatim>\<open>udp.rs\<close> and the sockets of \<^verbatim>\<open>utils.rs\<close> that drop and delay messages. What
  a server may expect of a \<^verbatim>\<open>Socket\<close> (\<^verbatim>\<open>mod.rs\<close>), that an inbox holds messages that were sent to it
  in the order of the sends, some of them lost, is the locale \<open>message_network\<close>. The theories \<open>Sockets\<close> and
  \<open>Udp_Socket\<close> build on it.
\<close>

section \<open>The in-memory transport\<close>

datatype transport_error = AddressNotAvailable | ExceedsMtu | ChannelClosed | IoError

definition MAX_MESSAGE_PER_CHANNEL :: nat where
  "MAX_MESSAGE_PER_CHANNEL = 100"

record Statistics =
  num_bytes_total :: u64
  num_messages_total :: u64

definition record_message_len :: "nat \<Rightarrow> Statistics \<Rightarrow> Statistics" where
  "record_message_len message_num_bytes s =
     s\<lparr>num_bytes_total := num_bytes_total s + of_nat message_num_bytes,
       num_messages_total := num_messages_total s + 1\<rparr>"

text \<open>
  The sender of a channel is in the map exactly as long as the socket that owns the receiver is open,
  so the entry holds the messages in the channel, oldest first.
\<close>

type_synonym envelope = "SocketAddr \<times> ChitchatMessage"

record ChannelTransportInner =
  send_channels :: "(SocketAddr, envelope list) btree_map"
  statistics :: Statistics
  removed_links :: "(SocketAddr, SocketAddr set) btree_map"

record ChannelTransport =
  ct_inner :: ChannelTransportInner
  ct_mtu_opt :: "nat option"

definition ChannelTransport_with_mtu :: "nat \<Rightarrow> ChannelTransport" where
  "ChannelTransport_with_mtu mtu = \<lparr>ct_inner = \<lparr>send_channels = [],
     statistics = \<lparr>num_bytes_total = 0, num_messages_total = 0\<rparr>, removed_links = []\<rparr>, ct_mtu_opt = Some mtu\<rparr>"

definition channel_open :: "SocketAddr \<Rightarrow> ChannelTransport \<Rightarrow> transport_error + ChannelTransport" where
  "channel_open listen_addr t =
     (let inner = ct_inner t
      in if btm_contains (send_channels inner) listen_addr then Inl AddressNotAvailable
         else Inr (t\<lparr>ct_inner := inner\<lparr>send_channels := btm_insert listen_addr [] (send_channels inner)\<rparr>\<rparr>))"

definition channel_close :: "SocketAddr \<Rightarrow> ChannelTransport \<Rightarrow> ChannelTransport" where
  "channel_close addr t = t\<lparr>ct_inner := (ct_inner t)\<lparr>send_channels := btm_remove addr (send_channels (ct_inner t))\<rparr>\<rparr>"

text \<open>The message is encoded and decoded again, with assertions that nothing changed.\<close>

definition serialize_deserialize_chitchat_message ::
    "zstd \<Rightarrow> zstd \<Rightarrow> ChitchatMessage \<Rightarrow> panic + ChitchatMessage" where
  "serialize_deserialize_chitchat_message zc zd message =
     result_bind (message_serialize zc message) (\<lambda>buf.
       if length buf \<noteq> message_len message then Inl AssertSerializedLen
       else case message_deserialize zd buf of
         Inl _ \<Rightarrow> Inl UnwrapDeserialize
       | Inr (message_ser_deser, read_cursor) \<Rightarrow>
           if message \<noteq> message_ser_deser then Inl AssertSameMessage
           else if read_cursor \<noteq> [] then Inl AssertFullyRead
           else Inr message)"

definition link_removed :: "SocketAddr \<Rightarrow> SocketAddr \<Rightarrow> ChannelTransportInner \<Rightarrow> bool" where
  "link_removed from_addr to_addr inner \<longleftrightarrow>
     (case btm_get (removed_links inner) from_addr of None \<Rightarrow> False | Some to_addrs \<Rightarrow> to_addr \<in> to_addrs)"

definition try_send :: "envelope \<Rightarrow> envelope list \<Rightarrow> envelope list" where
  "try_send e q = (if length q < MAX_MESSAGE_PER_CHANNEL then q @ [e] else q)"

definition channel_send ::
    "zstd \<Rightarrow> zstd \<Rightarrow> SocketAddr \<Rightarrow> SocketAddr \<Rightarrow> ChitchatMessage \<Rightarrow> ChannelTransport
     \<Rightarrow> panic + ((transport_error + unit) \<times> ChannelTransport)" where
  "channel_send zc zd from_addr to_addr message t =
     result_bind (serialize_deserialize_chitchat_message zc zd message) (\<lambda>message.
       let num_bytes = message_len message in
       if (case ct_mtu_opt t of None \<Rightarrow> False | Some mtu \<Rightarrow> num_bytes > mtu) then Inr (Inl ExceedsMtu, t)
       else
         let inner = (ct_inner t)\<lparr>statistics := record_message_len num_bytes (statistics (ct_inner t))\<rparr> in
         if link_removed from_addr to_addr inner then Inr (Inr (), t\<lparr>ct_inner := inner\<rparr>)
         else
           let inner = (case btm_get (send_channels inner) to_addr of
                 None \<Rightarrow> inner
               | Some q \<Rightarrow> inner\<lparr>send_channels :=
                   btm_insert to_addr (try_send (from_addr, message) q) (send_channels inner)\<rparr>)
           in Inr (Inr (), t\<lparr>ct_inner := inner\<rparr>))"

text \<open>Receiving takes the oldest message; without one the receiver waits (\<^term>\<open>None\<close>).\<close>

definition channel_recv ::
    "SocketAddr \<Rightarrow> ChannelTransport \<Rightarrow> transport_error + (envelope option \<times> ChannelTransport)" where
  "channel_recv addr t = (case btm_get (send_channels (ct_inner t)) addr of
     None \<Rightarrow> Inl ChannelClosed
   | Some [] \<Rightarrow> Inr (None, t)
   | Some (e # q) \<Rightarrow> Inr (Some e, t\<lparr>ct_inner := (ct_inner t)\<lparr>send_channels :=
       btm_insert addr q (send_channels (ct_inner t))\<rparr>\<rparr>))"

definition unlink :: "SocketAddr \<Rightarrow> SocketAddr \<Rightarrow> (SocketAddr, SocketAddr set) btree_map \<Rightarrow> (SocketAddr, SocketAddr set) btree_map" where
  "unlink a b links = btm_insert a (insert b (case btm_get links a of None \<Rightarrow> {} | Some s \<Rightarrow> s)) links"

definition relink :: "SocketAddr \<Rightarrow> SocketAddr \<Rightarrow> (SocketAddr, SocketAddr set) btree_map \<Rightarrow> (SocketAddr, SocketAddr set) btree_map" where
  "relink a b links = (case btm_get links a of None \<Rightarrow> links | Some s \<Rightarrow> btm_insert a (s - {b}) links)"

definition remove_link :: "SocketAddr \<Rightarrow> SocketAddr \<Rightarrow> ChannelTransport \<Rightarrow> ChannelTransport" where
  "remove_link from_addr to_addr t = t\<lparr>ct_inner := (ct_inner t)\<lparr>removed_links :=
     unlink to_addr from_addr (unlink from_addr to_addr (removed_links (ct_inner t)))\<rparr>\<rparr>"

definition add_link :: "SocketAddr \<Rightarrow> SocketAddr \<Rightarrow> ChannelTransport \<Rightarrow> ChannelTransport" where
  "add_link from_addr to_addr t = t\<lparr>ct_inner := (ct_inner t)\<lparr>removed_links :=
     relink to_addr from_addr (relink from_addr to_addr (removed_links (ct_inner t)))\<rparr>\<rparr>"

section \<open>UDP\<close>

definition MAX_UDP_DATAGRAM_PAYLOAD_SIZE :: nat where
  "MAX_UDP_DATAGRAM_PAYLOAD_SIZE = 65507"

text \<open>
  Sending encodes the message into a cleared buffer. A received datagram is cut to the size of the
  receive buffer; one that does not decode is skipped. The datagrams that arrive are a list: when
  none of them decodes, the socket still waits.
\<close>

definition udp_payload :: "zstd \<Rightarrow> ChitchatMessage \<Rightarrow> panic + bytes" where
  "udp_payload zc message = message_serialize zc message"

definition receive_one :: "zstd \<Rightarrow> SocketAddr \<times> bytes \<Rightarrow> envelope option" where
  "receive_one zd d = (case message_deserialize zd (take MAX_UDP_DATAGRAM_PAYLOAD_SIZE (snd d)) of
     Inl _ \<Rightarrow> None | Inr (msg, _) \<Rightarrow> Some (fst d, msg))"

fun udp_recv :: "zstd \<Rightarrow> (SocketAddr \<times> bytes) list \<Rightarrow> (envelope \<times> (SocketAddr \<times> bytes) list) option" where
  "udp_recv zd [] = None"
| "udp_recv zd (d # ds) = (case receive_one zd d of
     Some message \<Rightarrow> Some (message, ds)
   | None \<Rightarrow> udp_recv zd ds)"

section \<open>The contract of a network\<close>

text \<open>
  A send to an address may be lost, and otherwise adds one envelope at the end of the inbox of that
  address; no other inbox changes. Then whatever arrives was sent, in the order of the sends.
\<close>

fun send_all ::
    "(SocketAddr \<Rightarrow> SocketAddr \<Rightarrow> ChitchatMessage \<Rightarrow> 'n \<Rightarrow> 'n)
     \<Rightarrow> (SocketAddr \<times> SocketAddr \<times> ChitchatMessage) list \<Rightarrow> 'n \<Rightarrow> 'n" where
  "send_all send [] n = n"
| "send_all send ((a, b, m) # ms) n = send_all send ms (send a b m n)"

text \<open>The envelopes that were addressed to a node.\<close>

definition addressed_to :: "SocketAddr \<Rightarrow> (SocketAddr \<times> SocketAddr \<times> ChitchatMessage) list \<Rightarrow> envelope list" where
  "addressed_to b ms = map (\<lambda>(a, _, m). (a, m)) (filter (\<lambda>(_, c, _). c = b) ms)"

text \<open>
  The socket of \<^verbatim>\<open>utils.rs\<close> that delays messages: a send spawns a task that sleeps for a sampled
  number of seconds and then sends over the socket below; the tasks that sleep are a list. A number of
  seconds that is no duration panics. As any delay may be sampled, the tasks wake up in any order.
\<close>

type_synonym posted = "SocketAddr \<times> SocketAddr \<times> ChitchatMessage"

record 'n SocketWithDelay =
  sd_socket :: 'n
  sd_sleeping :: "posted list"

definition send_with_delay :: "real \<Rightarrow> posted \<Rightarrow> 'n SocketWithDelay \<Rightarrow> panic + 'n SocketWithDelay" where
  "send_with_delay delay_secs p d =
     (if delay_secs < 0 \<or> 2 ^ 64 \<le> delay_secs then Inl NegativeDuration
      else Inr (d\<lparr>sd_sleeping := sd_sleeping d @ [p]\<rparr>))"

definition wake_sender ::
    "(SocketAddr \<Rightarrow> SocketAddr \<Rightarrow> ChitchatMessage \<Rightarrow> 'n \<Rightarrow> 'n) \<Rightarrow> nat \<Rightarrow> 'n SocketWithDelay \<Rightarrow> 'n SocketWithDelay" where
  "wake_sender send i d =
     (if i < length (sd_sleeping d) then
        let (a, b, m) = sd_sleeping d ! i
        in \<lparr>sd_socket = send a b m (sd_socket d), sd_sleeping = take i (sd_sleeping d) @ drop (Suc i) (sd_sleeping d)\<rparr>
      else d)"

lemma addressed_to_simps [simp]:
  "addressed_to b [] = []"
  "addressed_to b (ms @ ms') = addressed_to b ms @ addressed_to b ms'"
  "addressed_to b ((a, c, m) # ms) = (if c = b then (a, m) # addressed_to b ms else addressed_to b ms)"
  by (simp_all add: addressed_to_def)

locale message_network =
  fixes inbox :: "'n \<Rightarrow> SocketAddr \<Rightarrow> envelope list"
    and send :: "SocketAddr \<Rightarrow> SocketAddr \<Rightarrow> ChitchatMessage \<Rightarrow> 'n \<Rightarrow> 'n"
    and wf :: "'n \<Rightarrow> bool"
  assumes send_wf: "wf n \<Longrightarrow> wf (send a b m n)"
    and send_other: "wf n \<Longrightarrow> c \<noteq> b \<Longrightarrow> inbox (send a b m n) c = inbox n c"
    and send_lossy: "wf n \<Longrightarrow> inbox (send a b m n) b \<in> {inbox n b, inbox n b @ [(a, m)]}"
begin

lemma inbox_grows:
  assumes "wf n"
  shows "\<exists>new. inbox (send_all send ms n) b = inbox n b @ new \<and> subseq new (addressed_to b ms)"
  using assms
proof (induction ms arbitrary: n)
  case Nil
  then show ?case by simp
next
  case (Cons e ms)
  obtain a c m where e: "e = (a, c, m)" by (cases e)
  obtain new where new: "inbox (send_all send ms (send a c m n)) b = inbox (send a c m n) b @ new"
      "subseq new (addressed_to b ms)"
    using Cons.IH [OF send_wf [OF Cons.prems]] by blast
  show ?case
  proof (cases "c = b")
    case False
    then have "inbox (send a c m n) b = inbox n b" using send_other [OF Cons.prems, of b c a m] by simp
    with False new show ?thesis by (simp add: e addressed_to_def)
  next
    case True
    with new send_lossy [OF Cons.prems, of a b m] show ?thesis by (auto simp: e addressed_to_def)
  qed
qed

end

text \<open>A socket that drops messages keeps the contract of the one below it (\<^verbatim>\<open>utils.rs\<close>).\<close>

definition send_with_drop ::
    "(SocketAddr \<Rightarrow> SocketAddr \<Rightarrow> ChitchatMessage \<Rightarrow> 'n \<Rightarrow> 'n) \<Rightarrow> bool
     \<Rightarrow> SocketAddr \<Rightarrow> SocketAddr \<Rightarrow> ChitchatMessage \<Rightarrow> 'n \<Rightarrow> 'n" where
  "send_with_drop send should_drop a b m n = (if should_drop then n else send a b m n)"

locale dropping_network = message_network inbox send wf
  for inbox :: "'n \<Rightarrow> SocketAddr \<Rightarrow> envelope list"
    and send :: "SocketAddr \<Rightarrow> SocketAddr \<Rightarrow> ChitchatMessage \<Rightarrow> 'n \<Rightarrow> 'n"
    and wf :: "'n \<Rightarrow> bool" +
  fixes sample :: "SocketAddr \<Rightarrow> SocketAddr \<Rightarrow> ChitchatMessage \<Rightarrow> 'n \<Rightarrow> bool"

sublocale dropping_network \<subseteq> dropped: message_network inbox "\<lambda>a b m n. send_with_drop send (sample a b m n) a b m n" wf
  by unfold_locales (auto simp: send_with_drop_def send_wf send_other dest: send_lossy)

section \<open>The in-memory transport keeps the contract\<close>

definition transport_wf :: "ChannelTransport \<Rightarrow> bool" where
  "transport_wf t \<longleftrightarrow> btm_wf (send_channels (ct_inner t)) \<and> btm_wf (removed_links (ct_inner t))
     \<and> (\<forall>(_, q) \<in> set (send_channels (ct_inner t)). length q \<le> MAX_MESSAGE_PER_CHANNEL)"

definition channel_inbox :: "ChannelTransport \<Rightarrow> SocketAddr \<Rightarrow> envelope list" where
  "channel_inbox t a = (case btm_get (send_channels (ct_inner t)) a of None \<Rightarrow> [] | Some q \<Rightarrow> q)"

definition channel_bound :: "ChannelTransport \<Rightarrow> SocketAddr \<Rightarrow> bool" where
  "channel_bound t a \<longleftrightarrow> btm_contains (send_channels (ct_inner t)) a"

text \<open>The state a send leaves; a panic happens before anything is touched.\<close>

definition channel_after_send ::
    "zstd \<Rightarrow> zstd \<Rightarrow> SocketAddr \<Rightarrow> SocketAddr \<Rightarrow> ChitchatMessage \<Rightarrow> ChannelTransport \<Rightarrow> ChannelTransport" where
  "channel_after_send zc zd a b m t = (case channel_send zc zd a b m t of Inl _ \<Rightarrow> t | Inr (_, t') \<Rightarrow> t')"

lemma transport_wf_channels:
  "transport_wf t \<Longrightarrow> btm_wf (send_channels (ct_inner t))"
  "transport_wf t \<Longrightarrow> btm_wf (removed_links (ct_inner t))"
  by (simp_all add: transport_wf_def)

lemma set_btm_insert_cases: "e \<in> set (btm_insert k v m) \<Longrightarrow> e = (k, v) \<or> e \<in> set m"
  by (induction m) (auto split: if_splits)

lemma transport_wf_insert:
  assumes "transport_wf t" and "length q \<le> MAX_MESSAGE_PER_CHANNEL"
  shows "transport_wf (t\<lparr>ct_inner := (ct_inner t)\<lparr>statistics := s, send_channels := btm_insert a q (send_channels (ct_inner t))\<rparr>\<rparr>)"
  using assms by (auto simp: transport_wf_def dest!: set_btm_insert_cases)

lemma serialize_deserialize_Inr:
  "serialize_deserialize_chitchat_message zc zd m = Inr m' \<Longrightarrow> m' = m"
  by (auto simp: serialize_deserialize_chitchat_message_def split: if_splits sum.splits)

lemma serialize_deserialize_ok:
  assumes "zstd_fits zc" and "zstd_inverse zc zd" and "message_wf m" and "message_serialize zc m = Inr bs"
  shows "serialize_deserialize_chitchat_message zc zd m = Inr m"
  using message_roundtrip_aux [OF assms, of "[]"] message_len_correct [OF assms(3,4)]
  by (simp add: serialize_deserialize_chitchat_message_def assms(4))

lemma channel_send_state:
  assumes "transport_wf t" and "channel_send zc zd a b m t = Inr (r, t')"
  shows "transport_wf t'" and "c \<noteq> b \<Longrightarrow> channel_inbox t' c = channel_inbox t c"
    and "channel_inbox t' b = (if r = Inr () \<and> channel_bound t b \<and> \<not> link_removed a b (ct_inner t)
      then try_send (a, m) (channel_inbox t b) else channel_inbox t b)"
proof -
  let ?s = "record_message_len (message_len m) (statistics (ct_inner t))"
  let ?t = "t\<lparr>ct_inner := (ct_inner t)\<lparr>statistics := ?s\<rparr>\<rparr>"
  note btm = transport_wf_channels(1) [OF assms(1)]
  have wf: "transport_wf ?t" using assms(1) by (simp add: transport_wf_def)
  have cases: "t' = t \<and> r = Inl ExceedsMtu
    \<or> t' = ?t \<and> r = Inr () \<and> (link_removed a b (ct_inner t) \<or> \<not> channel_bound t b)
    \<or> r = Inr () \<and> channel_bound t b \<and> \<not> link_removed a b (ct_inner t)
      \<and> t' = t\<lparr>ct_inner := (ct_inner t)\<lparr>statistics := ?s, send_channels := btm_insert b
          (try_send (a, m) (channel_inbox t b)) (send_channels (ct_inner t))\<rparr>\<rparr>"
    using assms(2) serialize_deserialize_Inr [of zc zd m]
    by (auto simp: channel_send_def Let_def link_removed_def channel_bound_def channel_inbox_def
        btm_contains_def split: if_splits option.splits)
  have "length (try_send (a, m) (channel_inbox t b)) \<le> MAX_MESSAGE_PER_CHANNEL" if "channel_bound t b"
    using assms(1) that
    by (fastforce simp: try_send_def channel_inbox_def channel_bound_def btm_contains_def transport_wf_def
        dest: btm_get_Some_in_set split: option.splits)
  then show "transport_wf t'" using cases assms(1) wf transport_wf_insert by blast
  show "channel_inbox t' c = channel_inbox t c" if "c \<noteq> b"
    using cases that btm by (auto simp: channel_inbox_def)
  show "channel_inbox t' b = (if r = Inr () \<and> channel_bound t b \<and> \<not> link_removed a b (ct_inner t)
      then try_send (a, m) (channel_inbox t b) else channel_inbox t b)"
    using cases btm by (auto simp: channel_inbox_def)
qed

lemma channel_send_result:
  assumes "serialize_deserialize_chitchat_message zc zd m = Inr m"
  shows "\<exists>r t'. channel_send zc zd a b m t = Inr (r, t') \<and> r \<in> {Inl ExceedsMtu, Inr ()}
    \<and> (r = Inl ExceedsMtu \<longleftrightarrow> (\<exists>mtu. ct_mtu_opt t = Some mtu \<and> mtu < message_len m))"
proof (cases "\<exists>mtu. ct_mtu_opt t = Some mtu \<and> mtu < message_len m")
  case True
  with assms show ?thesis by (auto simp: channel_send_def)
next
  case False
  then have "\<not> (case ct_mtu_opt t of None \<Rightarrow> False | Some mtu \<Rightarrow> message_len m > mtu)"
    by (auto split: option.splits)
  with False assms show ?thesis by (auto simp: channel_send_def Let_def)
qed

interpretation channel: message_network channel_inbox "channel_after_send zc zd" transport_wf
  for zc zd
proof
  fix n :: ChannelTransport and a b c m
  assume wf: "transport_wf n"
  show "transport_wf (channel_after_send zc zd a b m n)"
    using wf channel_send_state(1) [OF wf, of zc zd a b m]
    by (auto simp: channel_after_send_def split: sum.split)
  show "channel_inbox (channel_after_send zc zd a b m n) c = channel_inbox n c" if "c \<noteq> b"
    using that channel_send_state(2) [OF wf, of zc zd a b m _ _ c]
    by (auto simp: channel_after_send_def split: sum.split)
  show "channel_inbox (channel_after_send zc zd a b m n) b \<in> {channel_inbox n b, channel_inbox n b @ [(a, m)]}"
    using channel_send_state(3) [OF wf, of zc zd a b m]
    by (auto simp: channel_after_send_def try_send_def split: sum.split)
qed

interpretation lossy_channel: dropping_network channel_inbox "channel_after_send zc zd" transport_wf sample
  for zc zd sample
  by unfold_locales

section \<open>Properties\<close>

text \<open>
  Sending a well-formed message over the in-memory transport never fails one of its assertions:
  it is refused when it is longer than the MTU, and otherwise arrives unchanged, last in the inbox of
  its receiver, exactly when that address is bound, the link was not removed and the channel holds
  less than 100 messages. No other inbox changes.
\<close>

lemma channel_send_delivers:
  assumes "zstd_fits zc" and "zstd_inverse zc zd" and "message_wf m" and "message_serialize zc m = Inr bs"
    and "transport_wf t"
  shows "\<exists>r t'. channel_send zc zd a b m t = Inr (r, t') \<and> transport_wf t'
    \<and> (r = Inl ExceedsMtu \<longleftrightarrow> (\<exists>mtu. ct_mtu_opt t = Some mtu \<and> mtu < length bs))
    \<and> r \<in> {Inl ExceedsMtu, Inr ()}
    \<and> channel_inbox t' c =
        (if c = b \<and> r = Inr () \<and> channel_bound t b \<and> \<not> link_removed a b (ct_inner t) \<and> length (channel_inbox t b) < 100
         then channel_inbox t b @ [(a, m)] else channel_inbox t c)"
proof -
  have len: "message_len m = length bs" by (rule message_len_correct [OF assms(3,4), symmetric])
  obtain r t' where s: "channel_send zc zd a b m t = Inr (r, t')"
    and r: "r \<in> {Inl ExceedsMtu, Inr ()}"
      "r = Inl ExceedsMtu \<longleftrightarrow> (\<exists>mtu. ct_mtu_opt t = Some mtu \<and> mtu < length bs)"
    using channel_send_result [OF serialize_deserialize_ok [OF assms(1-4)], of a b t] len by auto
  have "try_send (a, m) (channel_inbox t b) = (if length (channel_inbox t b) < 100
      then channel_inbox t b @ [(a, m)] else channel_inbox t b)"
    by (simp add: try_send_def MAX_MESSAGE_PER_CHANNEL_def)
  with channel_send_state [OF assms(5) s] s r show ?thesis by (cases "c = b") auto
qed

definition demo_transport :: ChannelTransport where
  "demo_transport = (case channel_open (SocketAddrV4 [127, 0, 0, 1] 2) (ChannelTransport_with_mtu 1000) of
     Inl _ \<Rightarrow> ChannelTransport_with_mtu 0 | Inr t \<Rightarrow> t)"

lemma demo_transport_wf: "transport_wf demo_transport"
  "channel_inbox demo_transport (SocketAddrV4 [127, 0, 0, 1] 2) = []"
  by (auto simp: demo_transport_def channel_open_def ChannelTransport_with_mtu_def transport_wf_def
      btm_contains_def btm_wf_def channel_inbox_def btm_get_def)

lemma demo_syn_wf: "message_wf demo_syn"
  by (simp add: demo_syn_def digest_wf_def btm_wf_def id_wf_def wire_string_ascii plain_addr_def)

text \<open>
  Whatever sequence of sends happens over the in-memory transport, through sockets that may drop
  messages, a node finds in its inbox what it held before followed by messages that were sent to it,
  in the order of the sends: nothing is invented, duplicated or reordered.
\<close>

lemma lossy_channel_fifo:
  assumes "transport_wf t"
    and "lossy_send = (\<lambda>a b m t. send_with_drop (channel_after_send zc zd) (sample a b m t) a b m t)"
  shows "\<exists>new. channel_inbox (send_all lossy_send ms t) b = channel_inbox t b @ new
    \<and> subseq new (addressed_to b ms)"
  unfolding assms(2) by (rule lossy_channel.dropped.inbox_grows [OF assms(1)])

text \<open>
  A UDP socket survives junk: datagrams that do not decode are skipped, and the next datagram
  that carries a well-formed message no longer than the receive buffer is received as sent, from its
  sender, with the later datagrams still to come.
\<close>

lemma udp_recv_skips_junk:
  assumes "zstd_fits zc" and "zstd_inverse zc zd" and "message_wf m" and "udp_payload zc m = Inr bs"
    and "length bs \<le> MAX_UDP_DATAGRAM_PAYLOAD_SIZE" and "list_all (\<lambda>d. receive_one zd d = None) junk"
  shows "udp_recv zd (junk @ (a, bs) # ds) = Some ((a, m), ds)"
proof -
  have "message_deserialize zd bs = Inr (m, [])"
    using message_roundtrip_aux [OF assms(1-3), of bs "[]"] assms(4) by (simp add: udp_payload_def)
  then have "receive_one zd (a, bs) = Some (a, m)" using assms(5) by (simp add: receive_one_def)
  with assms(6) show ?thesis by (induction junk) auto
qed

end
