(* ===== verification/Listener.thy ===== *)
theory Listener
  imports Types
begin

text \<open>
  \<^verbatim>\<open>chitchat/src/listener.rs\<close>: the listeners of key changes, subscribed under a key prefix, and the
  event they receive (\<^verbatim>\<open>KeyChangeEvent\<close> of \<^verbatim>\<open>lib.rs\<close>). A callback is an opaque closure of the
  application: the model names it, and triggering an event returns the calls made, in order.
\<close>

section \<open>Events\<close>

record KeyChangeEvent =
  kce_key :: string
  kce_value :: string
  kce_node :: ChitchatId

definition starts_with :: "string \<Rightarrow> string \<Rightarrow> bool" where
  "starts_with key p \<longleftrightarrow> take (length p) key = p"

definition strip_key_prefix :: "KeyChangeEvent \<Rightarrow> string \<Rightarrow> KeyChangeEvent option" where
  "strip_key_prefix e p =
     (if starts_with (kce_key e) p
      then Some (e\<lparr>kce_key := drop (length p) (kce_key e)\<rparr>)
      else None)"

section \<open>Listeners\<close>

type_synonym callback = nat
type_synonym listener_id = u64
type_synonym calls = "(callback \<times> KeyChangeEvent) list"

record InnerListeners =
  il_listeners :: "(string, (listener_id, callback) btree_map) btree_map"
  il_listener_idx :: listener_id

definition InnerListeners_default :: InnerListeners where
  "InnerListeners_default = \<lparr>il_listeners = [], il_listener_idx = 0\<rparr>"

text \<open>The handle of a subscription; \<open>lh_attached\<close> tells whether its weak reference still leads to
  the listeners (\<^verbatim>\<open>forever\<close> replaces it by a dangling one).\<close>

record ListenerHandle =
  lh_prefix :: string
  lh_listener_id :: listener_id
  lh_attached :: bool

definition inner_subscribe_event ::
    "InnerListeners \<Rightarrow> string \<Rightarrow> listener_id \<Rightarrow> callback \<Rightarrow> InnerListeners" where
  "inner_subscribe_event ls key_prefix idx cb =
     (case btm_get (il_listeners ls) key_prefix of
        Some callbacks \<Rightarrow>
          ls\<lparr>il_listeners := btm_insert key_prefix (btm_insert idx cb callbacks) (il_listeners ls)\<rparr>
      | None \<Rightarrow>
          ls\<lparr>il_listeners := btm_insert key_prefix (btm_insert idx cb []) (il_listeners ls)\<rparr>)"

definition subscribe_event ::
    "InnerListeners \<Rightarrow> string \<Rightarrow> callback \<Rightarrow> InnerListeners \<times> ListenerHandle" where
  "subscribe_event ls key_prefix cb =
     (let new_idx = il_listener_idx ls;
          ls = ls\<lparr>il_listener_idx := new_idx + 1\<rparr>;
          ls = inner_subscribe_event ls key_prefix new_idx cb
      in (ls, \<lparr>lh_prefix = key_prefix, lh_listener_id = new_idx, lh_attached = True\<rparr>))"

definition remove_listener :: "InnerListeners \<Rightarrow> string \<Rightarrow> listener_id \<Rightarrow> InnerListeners" where
  "remove_listener ls key_prefix idx =
     (case btm_get (il_listeners ls) key_prefix of
        Some callbacks \<Rightarrow>
          ls\<lparr>il_listeners := btm_insert key_prefix (btm_remove idx callbacks) (il_listeners ls)\<rparr>
      | None \<Rightarrow> ls)"

definition handle_forever :: "ListenerHandle \<Rightarrow> ListenerHandle" where
  "handle_forever h = h\<lparr>lh_attached := False\<rparr>"

definition handle_drop :: "InnerListeners \<Rightarrow> ListenerHandle \<Rightarrow> InnerListeners" where
  "handle_drop ls h =
     (if lh_attached h then remove_listener ls (lh_prefix h) (lh_listener_id h) else ls)"

definition call_all :: "(listener_id, callback) btree_map \<Rightarrow> KeyChangeEvent \<Rightarrow> calls" where
  "call_all cbs e = map (\<lambda>cb. (cb, e)) (btm_values cbs)"

text \<open>
  The scan of \<^verbatim>\<open>trigger_event\<close>: the listeners of the empty prefix, then the range from the first
  byte of the key up to the key. Taking \<^verbatim>\<open>key[0..1]\<close> panics off a character boundary.
\<close>

definition trigger_event :: "InnerListeners \<Rightarrow> KeyChangeEvent \<Rightarrow> panic + calls" where
  "trigger_event ls e =
     (let key = kce_key e;
          on_empty = (case btm_get (il_listeners ls) [] of None \<Rightarrow> [] | Some cbs \<Rightarrow> call_all cbs e)
      in if key = [] then Inr on_empty
         else if \<not> is_char_boundary key 1 then Inl NotCharBoundary
         else
           let scanned = takeWhile (\<lambda>(p, _). \<not> key < p) (btm_range (take 1 key) key (il_listeners ls))
           in Inr (on_empty @ concat (map (\<lambda>(p, cbs).
                case strip_key_prefix e p of None \<Rightarrow> [] | Some e' \<Rightarrow> call_all cbs e') scanned)))"

text \<open>
  The operations on a node state return the events they emit; this delivers them in order. A panic
  of one delivery ends the operation.
\<close>

fun deliver :: "InnerListeners \<Rightarrow> KeyChangeEvent list \<Rightarrow> panic + calls" where
  "deliver ls [] = Inr []"
| "deliver ls (e # es) = result_bind (trigger_event ls e) (\<lambda>c. result_bind (deliver ls es) (\<lambda>cs. Inr (c @ cs)))"

section \<open>Behaviour\<close>

definition listeners_wf :: "InnerListeners \<Rightarrow> bool" where
  "listeners_wf ls \<longleftrightarrow>
     btm_wf (il_listeners ls) \<and> (\<forall>(p, cbs) \<in> set (il_listeners ls). btm_wf cbs)"

text \<open>The listener stored under a prefix and an index.\<close>

definition listener_at :: "InnerListeners \<Rightarrow> string \<Rightarrow> listener_id \<Rightarrow> callback option" where
  "listener_at ls p idx =
     (case btm_get (il_listeners ls) p of None \<Rightarrow> None | Some cbs \<Rightarrow> btm_get cbs idx)"

lemma listeners_wf_default [wf_intros]: "listeners_wf InnerListeners_default"
  by (simp add: listeners_wf_def InnerListeners_default_def)

lemma listeners_wf_get:
  "listeners_wf ls \<Longrightarrow> btm_get (il_listeners ls) p = Some cbs \<Longrightarrow> btm_wf cbs"
  by (auto simp: listeners_wf_def dest: btm_get_Some_in_set)

lemma listeners_wf_insert:
  "listeners_wf ls \<Longrightarrow> btm_wf cbs \<Longrightarrow>
   listeners_wf (ls\<lparr>il_listeners := btm_insert p cbs (il_listeners ls)\<rparr>)"
  by (auto simp: listeners_wf_def set_btm_insert)

lemma inner_subscribe_event_eq:
  "inner_subscribe_event ls p idx cb = ls\<lparr>il_listeners := btm_insert p (btm_insert idx cb
     (case btm_get (il_listeners ls) p of None \<Rightarrow> [] | Some cbs \<Rightarrow> cbs)) (il_listeners ls)\<rparr>"
  by (simp add: inner_subscribe_event_def split: option.splits)

lemma subscribe_event_eq:
  "subscribe_event ls p cb =
     (inner_subscribe_event (ls\<lparr>il_listener_idx := il_listener_idx ls + 1\<rparr>) p (il_listener_idx ls) cb,
      \<lparr>lh_prefix = p, lh_listener_id = il_listener_idx ls, lh_attached = True\<rparr>)"
  by (simp add: subscribe_event_def Let_def)

lemma listeners_wf_idx [simp]: "listeners_wf (ls\<lparr>il_listener_idx := i\<rparr>) = listeners_wf ls"
  by (simp add: listeners_wf_def)

lemma subscribe_event_wf [wf_intros]:
  assumes "listeners_wf ls"
  shows "listeners_wf (fst (subscribe_event ls p cb))"
proof -
  let ?ls = "ls\<lparr>il_listener_idx := il_listener_idx ls + 1\<rparr>"
  have "btm_wf (case btm_get (il_listeners ls) p of None \<Rightarrow> [] | Some cbs \<Rightarrow> cbs)"
    using listeners_wf_get [OF assms, of p] by (simp split: option.splits)
  then show ?thesis
    using listeners_wf_insert [of ?ls] assms by (simp add: subscribe_event_eq inner_subscribe_event_eq)
qed

lemma remove_listener_wf [wf_intros]:
  "listeners_wf ls \<Longrightarrow> listeners_wf (remove_listener ls p idx)"
  by (auto simp: remove_listener_def listeners_wf_insert listeners_wf_get split: option.splits)

lemma handle_drop_wf [wf_intros]: "listeners_wf ls \<Longrightarrow> listeners_wf (handle_drop ls h)"
  by (simp add: handle_drop_def wf_intros)

lemma listener_at_subscribe:
  assumes "listeners_wf ls"
  shows "listener_at (fst (subscribe_event ls p cb)) q i =
    (if q = p \<and> i = il_listener_idx ls then Some cb else listener_at ls q i)"
  using assms listeners_wf_get [OF assms, of p]
  by (cases "btm_get (il_listeners ls) p")
    (simp_all add: subscribe_event_eq inner_subscribe_event_eq listener_at_def listeners_wf_def
      del: btm_insert.simps)

lemma listener_at_remove:
  assumes "listeners_wf ls"
  shows "listener_at (remove_listener ls p idx) q i =
    (if q = p \<and> i = idx then None else listener_at ls q i)"
  using assms listeners_wf_get [OF assms, of p]
  by (auto simp: remove_listener_def listener_at_def listeners_wf_def split: option.splits)

subsection \<open>The range scan finds exactly the prefixes of the key\<close>

lemma starts_with_between:
  assumes "starts_with key p" and "p \<noteq> []"
  shows "take 1 key \<le> p \<and> p \<le> key"
proof
  obtain c p' where p: "p = c # p'" using assms(2) by (cases p) auto
  obtain r where key: "key = p @ r"
    using assms(1) by (metis append_take_drop_id starts_with_def)
  show "take 1 key \<le> p" using p key by simp
  show "p \<le> key" unfolding key by (induction p) auto
qed

lemma takeWhile_btm_range:
  "takeWhile (\<lambda>(p, _). \<not> key < p) (btm_range lo key m) = btm_range lo key m"
  by (auto simp: takeWhile_eq_all_conv btm_range_def)

text \<open>What the listeners are promised: every subscription whose prefix starts the key is called,
  in the order of the prefixes, with the rest of the key.\<close>

definition matching_calls :: "InnerListeners \<Rightarrow> KeyChangeEvent \<Rightarrow> calls" where
  "matching_calls ls e =
     concat (map (\<lambda>(p, cbs). call_all cbs (e\<lparr>kce_key := drop (length p) (kce_key e)\<rparr>))
       (filter (\<lambda>(p, _). starts_with (kce_key e) p) (il_listeners ls)))"

lemma btm_wf_nonempty_keys:
  assumes "btm_wf ((p, v) # m)" and "q \<in> fst ` set m"
  shows "q \<noteq> ([] :: string)"
proof -
  have "p < q" using assms by (auto simp: btm_wf_Cons)
  then show ?thesis by auto
qed

lemma scan_eq_matching:
  fixes m :: "(string, (listener_id, callback) btree_map) btree_map"
  assumes "\<And>p. p \<in> fst ` set m \<Longrightarrow> p \<noteq> []"
  shows "concat (map (\<lambda>(p, cbs). case strip_key_prefix e p of None \<Rightarrow> [] | Some e' \<Rightarrow> call_all cbs e')
           (btm_range (take 1 (kce_key e)) (kce_key e) m))
       = concat (map (\<lambda>(p, cbs). call_all cbs (e\<lparr>kce_key := drop (length p) (kce_key e)\<rparr>))
           (filter (\<lambda>(p, _). starts_with (kce_key e) p) m))"
  using assms
proof (induction m)
  case Nil
  then show ?case by (simp add: btm_range_def)
next
  case (Cons x m)
  obtain p cbs where x: "x = (p, cbs)" by fastforce
  have "p \<noteq> []" using Cons.prems x by auto
  then show ?case
    using Cons starts_with_between [of "kce_key e" p]
    by (auto simp: x btm_range_def strip_key_prefix_def)
qed

lemma trigger_event_aux:
  assumes wf: "listeners_wf ls" and b: "kce_key e = [] \<or> is_char_boundary (kce_key e) 1"
  shows "trigger_event ls e = Inr (matching_calls ls e)"
proof -
  let ?F = "\<lambda>(p, cbs). call_all cbs (e\<lparr>kce_key := drop (length p) (kce_key e)\<rparr>)"
  let ?on_empty = "case btm_get (il_listeners ls) [] of None \<Rightarrow> [] | Some cbs \<Rightarrow> call_all cbs e"
  define rest where "rest = filter (\<lambda>x. fst x \<noteq> []) (il_listeners ls)"
  have range: "btm_range (take 1 (kce_key e)) (kce_key e) (il_listeners ls)
      = btm_range (take 1 (kce_key e)) (kce_key e) rest" if "kce_key e \<noteq> []"
    using that by (cases "kce_key e") (auto simp: btm_range_def rest_def intro!: filter_cong)
  have split: "matching_calls ls e = ?on_empty @
      concat (map ?F (filter (\<lambda>(p, _). starts_with (kce_key e) p) rest))"
  proof (cases "il_listeners ls")
    case Nil
    then show ?thesis by (simp add: matching_calls_def rest_def)
  next
    case (Cons x m)
    obtain p cbs where x: "x = (p, cbs)" by fastforce
    have ne: "q \<noteq> []" if "q \<in> fst ` set m" for q
      using btm_wf_nonempty_keys [of p cbs m q] wf that by (simp add: listeners_wf_def Cons x)
    have m: "filter (\<lambda>x. fst x \<noteq> []) m = m" using ne by (auto simp: filter_id_conv)
    have "btm_get m [] = None" using ne by (auto simp: btm_get_None_iff)
    with m show ?thesis
      by (auto simp: matching_calls_def rest_def Cons x btm_get_Cons starts_with_def)
  qed
  show ?thesis
  proof (cases "kce_key e = []")
    case True
    have "filter (\<lambda>(p, _). starts_with (kce_key e) p) rest = []"
      using True by (auto simp: rest_def filter_empty_conv starts_with_def)
    then show ?thesis using True split by (simp add: trigger_event_def)
  next
    case False
    have "concat (map (\<lambda>(p, cbs). case strip_key_prefix e p of None \<Rightarrow> [] | Some e' \<Rightarrow> call_all cbs e')
           (btm_range (take 1 (kce_key e)) (kce_key e) rest))
        = concat (map ?F (filter (\<lambda>(p, _). starts_with (kce_key e) p) rest))"
      by (rule scan_eq_matching) (auto simp: rest_def)
    with False b range [OF False] show ?thesis
      by (simp add: trigger_event_def Let_def takeWhile_btm_range split)
  qed
qed

lemma trigger_event_panics:
  assumes "kce_key e \<noteq> []" and "\<not> is_char_boundary (kce_key e) 1"
  shows "trigger_event ls e = Inl NotCharBoundary"
  using assms by (simp add: trigger_event_def)

text \<open>Delivery succeeds when every key is empty or starts with a one-byte character.\<close>

definition event_deliverable :: "KeyChangeEvent \<Rightarrow> bool" where
  "event_deliverable e \<longleftrightarrow> kce_key e = [] \<or> is_char_boundary (kce_key e) 1"

lemma deliver_ok:
  "listeners_wf ls \<Longrightarrow> \<forall>e \<in> set es. event_deliverable e \<Longrightarrow>
   deliver ls es = Inr (concat (map (matching_calls ls) es))"
  by (induction es) (auto simp: event_deliverable_def trigger_event_aux)

lemma deliver_panics:
  assumes "listeners_wf ls" and "\<exists>e \<in> set es. \<not> event_deliverable e"
  shows "deliver ls es = Inl NotCharBoundary"
  using assms(2)
proof (induction es)
  case Nil
  then show ?case by simp
next
  case (Cons e es)
  show ?case
  proof (cases "event_deliverable e")
    case True
    with Cons have "deliver ls es = Inl NotCharBoundary" by auto
    with True assms(1) show ?thesis by (auto simp: event_deliverable_def trigger_event_aux)
  next
    case False
    then show ?thesis by (simp add: event_deliverable_def trigger_event_panics)
  qed
qed

section \<open>Properties\<close>

text \<open>
  C27. An event reaches exactly the listeners whose prefix starts the key, in the order of the
  prefixes, with the key stripped of the prefix, provided the key is empty or its first character
  takes one byte.
\<close>

theorem trigger_event_correct:
  assumes "listeners_wf ls" and "kce_key e = [] \<or> is_char_boundary (kce_key e) 1"
  shows "trigger_event ls e = Inr (matching_calls ls e)"
  by (rule trigger_event_aux [OF assms])

text \<open>Two listeners, on all keys and on the keys that start with \<^verbatim>\<open>se\<close>.\<close>

definition demo_listeners :: InnerListeners where
  "demo_listeners = fst (subscribe_event (fst (subscribe_event InnerListeners_default [] 10)) ''se'' 20)"

definition demo_event :: "string \<Rightarrow> KeyChangeEvent" where
  "demo_event key = \<lparr>kce_key = key, kce_value = ''v'', kce_node = ChitchatId ''n'' 0 (SocketAddrV4 [127, 0, 0, 1] 1)\<rparr>"

theorem trigger_event_correct_witness:
  "trigger_event demo_listeners (demo_event ''self'')
   = Inr [(10, demo_event ''self''), (20, demo_event ''lf'')]"
proof -
  have "listeners_wf demo_listeners" by (simp add: demo_listeners_def wf_intros)
  moreover have "is_char_boundary (kce_key (demo_event ''self'')) 1"
    "matching_calls demo_listeners (demo_event ''self'') = [(10, demo_event ''self''), (20, demo_event ''lf'')]"
    by code_simp+
  ultimately show ?thesis using trigger_event_correct [of demo_listeners "demo_event ''self''"] by simp
qed

text \<open>
  A subscription adds its callback under a fresh index, and dropping its handle removes that
  callback and no other; after \<^verbatim>\<open>forever\<close> dropping the handle removes nothing.
\<close>

lemma subscription_lifetime:
  assumes "listeners_wf ls" and "subscribe_event ls p cb = (ls', h)"
  shows "listeners_wf ls' \<and> listeners_wf (handle_drop ls' h)
    \<and> listener_at ls' p (lh_listener_id h) = Some cb
    \<and> listener_at (handle_drop ls' h) q i = (if q = p \<and> i = lh_listener_id h then None else listener_at ls q i)
    \<and> handle_drop ls' (handle_forever h) = ls'"
proof -
  have wf: "listeners_wf ls'" using subscribe_event_wf [OF assms(1), of p cb] assms(2) by simp
  have h: "lh_prefix h = p" "lh_listener_id h = il_listener_idx ls" "lh_attached h"
    using assms(2) by (auto simp: subscribe_event_eq)
  note at = listener_at_subscribe [OF assms(1), of p cb, unfolded assms(2) fst_conv]
  have drop: "handle_drop ls' h = remove_listener ls' p (il_listener_idx ls)" using h by (simp add: handle_drop_def)
  show ?thesis
    using wf h at listener_at_remove [OF wf] remove_listener_wf [OF wf]
    by (auto simp: drop handle_forever_def handle_drop_def)
qed

end
