(* ===== verification/Node_State.thy ===== *)
theory Node_State
  imports Digest Delta Listener
begin

text \<open>
  The state of one node, \<^verbatim>\<open>NodeState\<close> of \<^verbatim>\<open>chitchat/src/state.rs\<close>: its versioned key-values, its
  heartbeat, \<^verbatim>\<open>max_version\<close> and \<^verbatim>\<open>last_gc_version\<close>. The operations that may notify listeners return
  the events they emit along with the new state; \<^const>\<open>deliver\<close> of theory \<^verbatim>\<open>Listener\<close> hands them
  over. Versions are 64-bit words: adding one wraps, as in a release build. \<^verbatim>\<open>Instant::now()\<close> is the
  argument \<open>now\<close>.
\<close>

section \<open>State and reads\<close>

record NodeState =
  ns_chitchat_id :: ChitchatId
  ns_heartbeat :: Heartbeat
  ns_key_values :: "(string, VersionedValue) btree_map"
  ns_max_version :: Version
  ns_last_gc_version :: Version

definition NodeState_new :: "ChitchatId \<Rightarrow> NodeState" where
  "NodeState_new i = \<lparr>ns_chitchat_id = i, ns_heartbeat = 0, ns_key_values = [],
     ns_max_version = 0, ns_last_gc_version = 0\<rparr>"

definition NodeState_for_test :: NodeState where
  "NodeState_for_test = \<lparr>ns_chitchat_id = ChitchatId ''test-node'' 0 (SocketAddrV4 [127, 0, 0, 1] 7280),
     ns_heartbeat = 0, ns_key_values = [], ns_max_version = 0, ns_last_gc_version = 0\<rparr>"

definition set_last_gc_version :: "Version \<Rightarrow> NodeState \<Rightarrow> NodeState" where
  "set_last_gc_version v ns = ns\<lparr>ns_last_gc_version := v\<rparr>"

definition set_max_version :: "Version \<Rightarrow> NodeState \<Rightarrow> NodeState" where
  "set_max_version v ns = ns\<lparr>ns_max_version := v\<rparr>"

definition key_values_including_deleted :: "NodeState \<Rightarrow> (string \<times> VersionedValue) list" where
  "key_values_including_deleted ns = ns_key_values ns"

definition key_values :: "NodeState \<Rightarrow> (string \<times> string) list" where
  "key_values ns = map (\<lambda>(k, vv). (k, vv_value vv))
     (filter (\<lambda>(_, vv). \<not> is_deleted vv) (key_values_including_deleted ns))"

definition iter_prefix :: "NodeState \<Rightarrow> string \<Rightarrow> (string \<times> VersionedValue) list" where
  "iter_prefix ns prefix =
     filter (\<lambda>(_, vv). \<not> is_deleted vv)
       (takeWhile (\<lambda>(key, _). starts_with key prefix) (btm_range_from prefix (ns_key_values ns)))"

definition num_key_values :: "NodeState \<Rightarrow> nat" where
  "num_key_values ns = length (key_values ns)"

definition get_versioned :: "NodeState \<Rightarrow> string \<Rightarrow> VersionedValue option" where
  "get_versioned ns key = btm_get (ns_key_values ns) key"

definition get :: "NodeState \<Rightarrow> string \<Rightarrow> string option" where
  "get ns key = (case get_versioned ns key of
     None \<Rightarrow> None
   | Some vv \<Rightarrow> if is_deleted vv then None else Some (vv_value vv))"

definition contains_key :: "NodeState \<Rightarrow> string \<Rightarrow> bool" where
  "contains_key ns key \<longleftrightarrow> get ns key \<noteq> None"

definition stale_key_values :: "NodeState \<Rightarrow> Version \<Rightarrow> (string \<times> VersionedValue) list" where
  "stale_key_values ns floor_version =
     filter (\<lambda>(_, vv). vv_version vv > floor_version) (key_values_including_deleted ns)"

definition node_digest_of :: "NodeState \<Rightarrow> NodeDigest" where
  "node_digest_of ns = \<lparr>nd_heartbeat = ns_heartbeat ns, nd_last_gc_version = ns_last_gc_version ns,
     nd_max_version = ns_max_version ns\<rparr>"

section \<open>Writes of the owner\<close>

definition set_versioned_value ::
    "string \<Rightarrow> VersionedValue \<Rightarrow> NodeState \<Rightarrow> NodeState \<times> KeyChangeEvent list" where
  "set_versioned_value key update ns =
     (let event = \<lparr>kce_key = key, kce_value = vv_value update, kce_node = ns_chitchat_id ns\<rparr>;
          ns = ns\<lparr>ns_max_version := max (vv_version update) (ns_max_version ns)\<rparr>;
          events = (if \<not> is_deleted update then [event] else [])
      in case btm_get (ns_key_values ns) key of
           Some occupied \<Rightarrow>
             if vv_version occupied \<ge> vv_version update then (ns, [])
             else (ns\<lparr>ns_key_values := btm_insert key update (ns_key_values ns)\<rparr>, events)
         | None \<Rightarrow> (ns\<lparr>ns_key_values := btm_insert key update (ns_key_values ns)\<rparr>, events))"

definition set_with_version ::
    "string \<Rightarrow> string \<Rightarrow> Version \<Rightarrow> NodeState \<Rightarrow> panic + (NodeState \<times> KeyChangeEvent list)" where
  "set_with_version key value version ns =
     (if \<not> version > ns_max_version ns then Inl AssertVersionIncreases
      else Inr (set_versioned_value key
        \<lparr>vv_value = value, vv_version = version, vv_status = StatusSet\<rparr> ns))"

definition node_set ::
    "string \<Rightarrow> string \<Rightarrow> NodeState \<Rightarrow> panic + (NodeState \<times> KeyChangeEvent list)" where
  "node_set key value ns =
     (let unchanged = (case get_versioned ns key of
            Some prev \<Rightarrow> vv_value prev = value \<and> vv_status prev = StatusSet
          | None \<Rightarrow> False)
      in if unchanged then Inr (ns, [])
         else set_with_version key value (ns_max_version ns + 1) ns)"

definition set_with_ttl ::
    "string \<Rightarrow> string \<Rightarrow> instant \<Rightarrow> NodeState \<Rightarrow> NodeState \<times> KeyChangeEvent list" where
  "set_with_ttl key value now ns =
     (let unchanged = (case get_versioned ns key of
            Some prev \<Rightarrow> vv_value prev = value
              \<and> (case vv_status prev of StatusDeleteAfterTtl _ \<Rightarrow> True | _ \<Rightarrow> False)
          | None \<Rightarrow> False)
      in if unchanged then (ns, [])
         else set_versioned_value key \<lparr>vv_value = value, vv_version = ns_max_version ns + 1,
           vv_status = StatusDeleteAfterTtl now\<rparr> ns)"

definition delete :: "string \<Rightarrow> instant \<Rightarrow> NodeState \<Rightarrow> NodeState" where
  "delete key now ns = (case btm_get (ns_key_values ns) key of
     None \<Rightarrow> ns
   | Some vv \<Rightarrow>
       let ns = ns\<lparr>ns_max_version := ns_max_version ns + 1\<rparr>;
           vv = vv\<lparr>vv_version := ns_max_version ns, vv_value := [],
             vv_status := into_status MutDelete now\<rparr>
       in ns\<lparr>ns_key_values := btm_insert key vv (ns_key_values ns)\<rparr>)"

definition delete_after_ttl :: "string \<Rightarrow> instant \<Rightarrow> NodeState \<Rightarrow> NodeState" where
  "delete_after_ttl key now ns = (case btm_get (ns_key_values ns) key of
     None \<Rightarrow> ns
   | Some vv \<Rightarrow>
       let ns = ns\<lparr>ns_max_version := ns_max_version ns + 1\<rparr>;
           vv = vv\<lparr>vv_version := ns_max_version ns, vv_status := into_status MutDeleteAfterTtl now\<rparr>
       in ns\<lparr>ns_key_values := btm_insert key vv (ns_key_values ns)\<rparr>)"

definition remove_key_value_internal :: "string \<Rightarrow> NodeState \<Rightarrow> NodeState" where
  "remove_key_value_internal key ns = ns\<lparr>ns_key_values := btm_remove key (ns_key_values ns)\<rparr>"

section \<open>Heartbeats\<close>

definition inc_heartbeat :: "NodeState \<Rightarrow> NodeState" where
  "inc_heartbeat ns = ns\<lparr>ns_heartbeat := heartbeat_inc (ns_heartbeat ns)\<rparr>"

definition try_set_heartbeat :: "Heartbeat \<Rightarrow> NodeState \<Rightarrow> bool \<times> NodeState" where
  "try_set_heartbeat h ns =
     (if ns_heartbeat ns = 0 then (False, ns\<lparr>ns_heartbeat := h\<rparr>)
      else if h > ns_heartbeat ns then (True, ns\<lparr>ns_heartbeat := h\<rparr>)
      else (False, ns))"

section \<open>Garbage collection of deleted keys\<close>

definition past_grace_period :: "duration \<Rightarrow> instant \<Rightarrow> VersionedValue \<Rightarrow> bool" where
  "past_grace_period grace_period now vv =
     (case time_of_start_scheduled_for_deletion (vv_status vv) of
        None \<Rightarrow> False
      | Some deleted_start_instant \<Rightarrow> \<not> now < deleted_start_instant + grace_period)"

definition node_gc_keys_marked_for_deletion :: "duration \<Rightarrow> instant \<Rightarrow> NodeState \<Rightarrow> NodeState" where
  "node_gc_keys_marked_for_deletion grace_period now ns =
     (let max_deleted_version = foldl (\<lambda>m (_, vv).
            if past_grace_period grace_period now vv then max (vv_version vv) m else m)
            (ns_last_gc_version ns) (ns_key_values ns)
      in ns\<lparr>ns_key_values := btm_retain (\<lambda>_ vv. \<not> past_grace_period grace_period now vv) (ns_key_values ns),
           ns_last_gc_version := max_deleted_version\<rparr>)"

section \<open>Applying a delta\<close>

text \<open>\<^verbatim>\<open>Iterator::max\<close>.\<close>

fun iter_max :: "'a::linorder list \<Rightarrow> 'a option" where
  "iter_max [] = None"
| "iter_max (x # xs) = (case iter_max xs of None \<Rightarrow> Some x | Some y \<Rightarrow> Some (max x y))"

definition delta_max_version :: "NodeDelta \<Rightarrow> Version option" where
  "delta_max_version nd = (case iter_max (map kvm_version (ndl_key_values nd)) of
     None \<Rightarrow> ndl_max_version nd
   | Some v \<Rightarrow> Some v)"

definition prepare_apply_delta :: "NodeDelta \<Rightarrow> NodeState \<Rightarrow> bool \<times> NodeState" where
  "prepare_apply_delta nd ns =
     (if ndl_from_version_excluded nd > ns_max_version ns then (False, ns)
      else if ns_max_version ns > ndl_last_gc_version nd then (True, ns)
      else if ns_last_gc_version ns \<ge> ndl_last_gc_version nd then (True, ns)
      else case delta_max_version nd of
        None \<Rightarrow> (False, ns)
      | Some dmv \<Rightarrow>
          if (ndl_last_gc_version nd, dmv) \<le> (ns_last_gc_version ns, ns_max_version ns)
          then (False, ns)
          else
            let ns = NodeState_new (ndl_chitchat_id nd);
                ns = (case ndl_max_version nd of
                  Some max_version \<Rightarrow>
                    if ndl_key_values nd = [] then ns\<lparr>ns_max_version := max_version\<rparr> else ns
                | None \<Rightarrow> ns)
            in (True, ns\<lparr>ns_last_gc_version := ndl_last_gc_version nd\<rparr>))"

text \<open>The body of the loop over the key-values of a delta.\<close>

definition apply_mutation ::
    "Version \<Rightarrow> instant \<Rightarrow> KeyValueMutation \<Rightarrow> NodeState \<Rightarrow> NodeState \<times> KeyChangeEvent list" where
  "apply_mutation current_max_version now m ns =
     (if kvm_version m \<le> current_max_version then (ns, [])
      else if scheduled_for_deletion (kvm_status m) \<and> kvm_version m \<le> ns_last_gc_version ns
      then (ns, [])
      else set_versioned_value (kvm_key m)
        \<lparr>vv_value = kvm_value m, vv_version = kvm_version m, vv_status = into_status (kvm_status m) now\<rparr> ns)"

fun apply_mutations ::
    "Version \<Rightarrow> instant \<Rightarrow> KeyValueMutation list \<Rightarrow> NodeState \<Rightarrow> NodeState \<times> KeyChangeEvent list" where
  "apply_mutations current_max_version now [] ns = (ns, [])"
| "apply_mutations current_max_version now (m # ms) ns =
     (let (ns, es) = apply_mutation current_max_version now m ns;
          (ns, es') = apply_mutations current_max_version now ms ns
      in (ns, es @ es'))"

definition node_apply_delta ::
    "NodeDelta \<Rightarrow> instant \<Rightarrow> NodeState \<Rightarrow> NodeState \<times> KeyChangeEvent list" where
  "node_apply_delta nd now ns =
     (let (ok, ns) = prepare_apply_delta nd ns
      in if \<not> ok then (ns, [])
         else apply_mutations (ns_max_version ns) now (ndl_key_values nd) ns)"

section \<open>The invariant\<close>

text \<open>
  Every entry has a version between 1 and \<^verbatim>\<open>max_version\<close>, and no two entries share one: the
  versions identify the entries of a node, which is what deltas rely on.
\<close>

definition ns_wf :: "NodeState \<Rightarrow> bool" where
  "ns_wf ns \<longleftrightarrow> btm_wf (ns_key_values ns)
     \<and> list_all (\<lambda>(k, vv). 0 < vv_version vv \<and> vv_version vv \<le> ns_max_version ns) (ns_key_values ns)
     \<and> distinct (map (\<lambda>(k, vv). vv_version vv) (ns_key_values ns))"

lemma distinct_map_get_iff:
  assumes "btm_wf m"
  shows "distinct (map (\<lambda>(k, v). f v) m) \<longleftrightarrow>
    (\<forall>k k' v v'. btm_get m k = Some v \<and> btm_get m k' = Some v' \<and> f v = f v' \<longrightarrow> k = k')"
proof -
  have "distinct m" using btm_wf_distinct [OF assms] by (simp add: distinct_map)
  then have "distinct (map (\<lambda>(k, v). f v) m) \<longleftrightarrow>
      (\<forall>k k' v v'. (k, v) \<in> set m \<and> (k', v') \<in> set m \<and> f v = f v' \<longrightarrow> k = k' \<and> v = v')"
    by (auto simp: distinct_map inj_on_def split_beta) (metis fst_conv snd_conv)+
  then show ?thesis unfolding in_set_btm_get [OF assms] by (metis option.inject)
qed

lemma ns_wf_iff:
  "ns_wf ns \<longleftrightarrow> btm_wf (ns_key_values ns)
     \<and> (\<forall>k vv. get_versioned ns k = Some vv \<longrightarrow> 0 < vv_version vv \<and> vv_version vv \<le> ns_max_version ns)
     \<and> (\<forall>k k' vv vv'. get_versioned ns k = Some vv \<and> get_versioned ns k' = Some vv'
          \<and> vv_version vv = vv_version vv' \<longrightarrow> k = k')"
proof (cases "btm_wf (ns_key_values ns)")
  case True
  then show ?thesis
    using distinct_map_get_iff [OF True, of vv_version]
    by (auto simp: ns_wf_def get_versioned_def list_all_iff in_set_btm_get [OF True])
qed (simp add: ns_wf_def)

lemma ns_wf_btm [simp]: "ns_wf ns \<Longrightarrow> btm_wf (ns_key_values ns)"
  by (simp add: ns_wf_def)

lemma ns_wf_version:
  "ns_wf ns \<Longrightarrow> get_versioned ns k = Some vv \<Longrightarrow> 0 < vv_version vv \<and> vv_version vv \<le> ns_max_version ns"
  unfolding ns_wf_iff by blast

lemma ns_wf_new [wf_intros]: "ns_wf (NodeState_new i)"
  by (simp add: ns_wf_def NodeState_new_def)

lemma ns_wf_raise [wf_intros]:
  "ns_wf ns \<Longrightarrow> ns_max_version ns \<le> v \<Longrightarrow> ns_wf (ns\<lparr>ns_max_version := v\<rparr>)"
  unfolding ns_wf_iff get_versioned_def by (simp, meson order_trans)

lemma ns_wf_gc_version [simp]: "ns_wf (ns\<lparr>ns_last_gc_version := v\<rparr>) = ns_wf ns"
  by (simp add: ns_wf_def)

lemma ns_wf_heartbeat [simp]: "ns_wf (ns\<lparr>ns_heartbeat := h\<rparr>) = ns_wf ns"
  by (simp add: ns_wf_def)

text \<open>What every successful write does: store an entry whose version is the new \<^verbatim>\<open>max_version\<close>.\<close>

definition put :: "string \<Rightarrow> VersionedValue \<Rightarrow> NodeState \<Rightarrow> NodeState" where
  "put key vv ns = ns\<lparr>ns_max_version := vv_version vv,
     ns_key_values := btm_insert key vv (ns_key_values ns)\<rparr>"

lemma put_simps [simp]:
  "ns_max_version (put k vv ns) = vv_version vv"
  "ns_last_gc_version (put k vv ns) = ns_last_gc_version ns"
  "ns_heartbeat (put k vv ns) = ns_heartbeat ns"
  "ns_chitchat_id (put k vv ns) = ns_chitchat_id ns"
  by (simp_all add: put_def)

lemma get_versioned_put:
  "ns_wf ns \<Longrightarrow> get_versioned (put k vv ns) k' = (if k' = k then Some vv else get_versioned ns k')"
  by (simp add: get_versioned_def put_def)

lemma ns_wf_put [wf_intros]:
  assumes wf: "ns_wf ns" and less: "ns_max_version ns < vv_version vv"
  shows "ns_wf (put k vv ns)"
proof -
  note gv = get_versioned_put [OF wf, of k vv]
  have bound: "0 < vv_version w \<and> vv_version w < vv_version vv" if "get_versioned ns k' = Some w" for k' w
    using ns_wf_version [OF wf that] less by (meson le_less_trans)
  have pos: "0 < vv_version vv" using less by (metis word_neq_0_conv word_not_simps(1))
  have uniq: "k1 = k2" if "get_versioned ns k1 = Some w1" "get_versioned ns k2 = Some w2"
      "vv_version w1 = vv_version w2" for k1 k2 w1 w2
    using wf that unfolding ns_wf_iff by blast
  show ?thesis
    unfolding ns_wf_iff
  proof (intro conjI allI impI)
    show "btm_wf (ns_key_values (put k vv ns))" using wf by (simp add: put_def)
    fix k1 w1
    assume 1: "get_versioned (put k vv ns) k1 = Some w1"
    then show "0 < vv_version w1" using bound pos by (auto simp: gv split: if_splits)
    show "vv_version w1 \<le> ns_max_version (put k vv ns)"
      using 1 bound by (auto simp: gv split: if_splits intro: less_imp_le)
  next
    fix k1 k2 w1 w2
    assume "get_versioned (put k vv ns) k1 = Some w1 \<and> get_versioned (put k vv ns) k2 = Some w2
      \<and> vv_version w1 = vv_version w2"
    then show "k1 = k2"
      using bound [of k1 w1] bound [of k2 w2] uniq [of k1 w1 k2 w2] by (auto simp: gv split: if_splits)
  qed
qed

lemma set_versioned_value_fresh:
  assumes "ns_wf ns" and "ns_max_version ns < vv_version u"
  shows "set_versioned_value k u ns = (put k u ns,
    if is_deleted u then []
    else [\<lparr>kce_key = k, kce_value = vv_value u, kce_node = ns_chitchat_id ns\<rparr>])"
proof -
  have "max (vv_version u) (ns_max_version ns) = vv_version u" using assms(2) by (simp add: max_absorb1 less_imp_le)
  moreover have "vv_version w < vv_version u" if "btm_get (ns_key_values ns) k = Some w" for w
    using ns_wf_version [OF assms(1), of k w] assms(2) that by (auto simp: get_versioned_def)
  ultimately show ?thesis
    by (auto simp: set_versioned_value_def put_def Let_def split: option.splits)
qed

section \<open>The owner's writes\<close>

definition already_set :: "string \<Rightarrow> string \<Rightarrow> NodeState \<Rightarrow> bool" where
  "already_set k v ns \<longleftrightarrow> (case get_versioned ns k of
     None \<Rightarrow> False | Some vv \<Rightarrow> vv_value vv = v \<and> vv_status vv = StatusSet)"

definition already_set_with_ttl :: "string \<Rightarrow> string \<Rightarrow> NodeState \<Rightarrow> bool" where
  "already_set_with_ttl k v ns \<longleftrightarrow> (case get_versioned ns k of
     None \<Rightarrow> False
   | Some vv \<Rightarrow> vv_value vv = v \<and> mutation_of_status (vv_status vv) = MutDeleteAfterTtl)"

lemma node_set_eq:
  assumes "ns_wf ns" and "ns_max_version ns \<noteq> - 1"
  shows "node_set k v ns = Inr (if already_set k v ns then (ns, [])
    else (put k \<lparr>vv_value = v, vv_version = ns_max_version ns + 1, vv_status = StatusSet\<rparr> ns,
      [\<lparr>kce_key = k, kce_value = v, kce_node = ns_chitchat_id ns\<rparr>]))"
  using assms word_less_add_one [OF assms(2)]
  by (auto simp: node_set_def already_set_def set_with_version_def set_versioned_value_fresh
      is_deleted_def split: option.splits)

lemma node_set_panic:
  assumes "ns_max_version ns = - 1"
  shows "node_set k v ns = (if already_set k v ns then Inr (ns, []) else Inl AssertVersionIncreases)"
  using assms
  by (auto simp: node_set_def already_set_def set_with_version_def split: option.splits)

lemma set_with_ttl_eq:
  assumes "ns_wf ns" and "ns_max_version ns \<noteq> - 1"
  shows "set_with_ttl k v now ns = (if already_set_with_ttl k v ns then (ns, [])
    else (put k \<lparr>vv_value = v, vv_version = ns_max_version ns + 1, vv_status = StatusDeleteAfterTtl now\<rparr> ns,
      [\<lparr>kce_key = k, kce_value = v, kce_node = ns_chitchat_id ns\<rparr>]))"
proof -
  have "(case st of StatusDeleteAfterTtl _ \<Rightarrow> True | _ \<Rightarrow> False) \<longleftrightarrow>
      mutation_of_status st = MutDeleteAfterTtl" for st
    by (cases st) auto
  then show ?thesis
    using assms word_less_add_one [OF assms(2)]
    by (auto simp: set_with_ttl_def already_set_with_ttl_def set_versioned_value_fresh
        is_deleted_def split: option.splits)
qed

lemma vv_update_eq:
  "vv\<lparr>vv_version := n, vv_value := v, vv_status := st\<rparr> = \<lparr>vv_value = v, vv_version = n, vv_status = st\<rparr>"
  "vv\<lparr>vv_version := n, vv_status := st\<rparr> = \<lparr>vv_value = vv_value vv, vv_version = n, vv_status = st\<rparr>"
  by (cases vv, simp)+

lemma delete_eq:
  "delete k now ns = (case get_versioned ns k of None \<Rightarrow> ns
    | Some vv \<Rightarrow> put k \<lparr>vv_value = [], vv_version = ns_max_version ns + 1,
        vv_status = StatusDeleted now\<rparr> ns)"
  by (auto simp: delete_def put_def get_versioned_def Let_def vv_update_eq split: option.splits)

lemma delete_after_ttl_eq:
  "delete_after_ttl k now ns = (case get_versioned ns k of None \<Rightarrow> ns
    | Some vv \<Rightarrow> put k \<lparr>vv_value = vv_value vv, vv_version = ns_max_version ns + 1,
        vv_status = StatusDeleteAfterTtl now\<rparr> ns)"
  by (auto simp: delete_after_ttl_def put_def get_versioned_def Let_def vv_update_eq split: option.splits)

lemmas owner_ops = node_set_eq set_with_ttl_eq delete_eq delete_after_ttl_eq

lemma node_set_wf:
  "ns_wf ns \<Longrightarrow> node_set k v ns = Inr (ns', es) \<Longrightarrow> ns_wf ns'"
  by (cases "ns_max_version ns = - 1")
    (auto simp: node_set_eq node_set_panic word_less_add_one split: if_splits intro!: ns_wf_put)

lemma set_with_ttl_wf [wf_intros]:
  "ns_wf ns \<Longrightarrow> ns_max_version ns \<noteq> - 1 \<Longrightarrow> ns_wf (fst (set_with_ttl k v now ns))"
  by (auto simp: set_with_ttl_eq word_less_add_one intro!: ns_wf_put)

lemma delete_wf [wf_intros]:
  "ns_wf ns \<Longrightarrow> ns_max_version ns \<noteq> - 1 \<Longrightarrow> ns_wf (delete k now ns)"
  by (auto simp: delete_eq word_less_add_one split: option.splits intro!: ns_wf_put)

lemma delete_after_ttl_wf [wf_intros]:
  "ns_wf ns \<Longrightarrow> ns_max_version ns \<noteq> - 1 \<Longrightarrow> ns_wf (delete_after_ttl k now ns)"
  by (auto simp: delete_after_ttl_eq word_less_add_one split: option.splits intro!: ns_wf_put)

lemma remove_key_value_internal_wf [wf_intros]:
  "ns_wf ns \<Longrightarrow> ns_wf (remove_key_value_internal k ns)"
  by (auto simp: ns_wf_iff get_versioned_def remove_key_value_internal_def split: if_splits)

lemma inc_heartbeat_wf [wf_intros]: "ns_wf ns \<Longrightarrow> ns_wf (inc_heartbeat ns)"
  by (simp add: inc_heartbeat_def)

lemma try_set_heartbeat_wf [wf_intros]: "ns_wf ns \<Longrightarrow> ns_wf (snd (try_set_heartbeat h ns))"
  by (simp add: try_set_heartbeat_def)

section \<open>Garbage collection\<close>

lemma foldl_max_deleted:
  "foldl (\<lambda>m (_, vv). if P vv then max (vv_version vv) m else m) g kvs
   = Max (insert g (vv_version ` {vv. \<exists>k. (k, vv) \<in> set kvs \<and> P vv}))"
proof (induction kvs arbitrary: g)
  case Nil
  then show ?case by simp
next
  case (Cons e kvs)
  obtain k vv where e: "e = (k, vv)" by fastforce
  define S where "S = {vv. \<exists>k. (k, vv) \<in> set kvs \<and> P vv}"
  have fin: "finite S"
    unfolding S_def by (rule finite_subset [of _ "snd ` set kvs"]) force+
  have S: "{w. \<exists>j. (j, w) \<in> set (e # kvs) \<and> P w} = (if P vv then insert vv S else S)"
    by (auto simp: e S_def)
  have "Max (insert (max (vv_version vv) g) (vv_version ` S)) = Max (insert g (insert (vv_version vv) (vv_version ` S)))"
    using fin by (cases "S = {}") (simp_all add: max.commute max.left_commute)
  moreover have "foldl (\<lambda>m (_, vv). if P vv then max (vv_version vv) m else m) h kvs
      = Max (insert h (vv_version ` S))" for h
    unfolding S_def by (rule Cons.IH)
  ultimately show ?case unfolding S by (simp add: e)
qed

lemma gc_simps [simp]:
  "ns_max_version (node_gc_keys_marked_for_deletion gp now ns) = ns_max_version ns"
  "ns_heartbeat (node_gc_keys_marked_for_deletion gp now ns) = ns_heartbeat ns"
  "ns_chitchat_id (node_gc_keys_marked_for_deletion gp now ns) = ns_chitchat_id ns"
  by (simp_all add: node_gc_keys_marked_for_deletion_def Let_def)

lemma get_versioned_gc:
  "ns_wf ns \<Longrightarrow> get_versioned (node_gc_keys_marked_for_deletion gp now ns) k =
     (case get_versioned ns k of None \<Rightarrow> None
      | Some vv \<Rightarrow> if past_grace_period gp now vv then None else Some vv)"
  by (simp add: node_gc_keys_marked_for_deletion_def Let_def get_versioned_def btm_get_retain
      split: option.splits)

lemma gc_last_gc_version:
  assumes "ns_wf ns"
  shows "ns_last_gc_version (node_gc_keys_marked_for_deletion gp now ns) =
    Max (insert (ns_last_gc_version ns)
      (vv_version ` {vv. \<exists>k. get_versioned ns k = Some vv \<and> past_grace_period gp now vv}))"
  using foldl_max_deleted [of "past_grace_period gp now" "ns_last_gc_version ns" "ns_key_values ns"]
    in_set_btm_get [OF ns_wf_btm [OF assms]]
  by (simp add: node_gc_keys_marked_for_deletion_def Let_def get_versioned_def)

lemma finite_entries: "ns_wf ns \<Longrightarrow> finite {vv. \<exists>k. get_versioned ns k = Some vv \<and> P vv}"
  unfolding get_versioned_def
  by (rule finite_subset [of _ "snd ` set (ns_key_values ns)"])
    (force dest: btm_get_Some_in_set)+

lemma gc_last_gc_ge:
  assumes "ns_wf ns"
  shows "ns_last_gc_version ns \<le> ns_last_gc_version (node_gc_keys_marked_for_deletion gp now ns)"
    and "get_versioned ns k = Some vv \<Longrightarrow> past_grace_period gp now vv \<Longrightarrow>
      vv_version vv \<le> ns_last_gc_version (node_gc_keys_marked_for_deletion gp now ns)"
  using finite_entries [OF assms, of "past_grace_period gp now"]
  by (auto simp: gc_last_gc_version [OF assms] intro!: Max_ge)

lemma gc_last_gc_cases:
  assumes "ns_wf ns"
  obtains "ns_last_gc_version (node_gc_keys_marked_for_deletion gp now ns) = ns_last_gc_version ns"
  | k vv where "get_versioned ns k = Some vv" "past_grace_period gp now vv"
      "ns_last_gc_version (node_gc_keys_marked_for_deletion gp now ns) = vv_version vv"
  using Max_in [of "insert (ns_last_gc_version ns)
      (vv_version ` {vv. \<exists>k. get_versioned ns k = Some vv \<and> past_grace_period gp now vv})"]
    finite_entries [OF assms, of "past_grace_period gp now"]
  by (auto simp: gc_last_gc_version [OF assms])

lemma ns_wf_gc [wf_intros]:
  assumes "ns_wf ns"
  shows "ns_wf (node_gc_keys_marked_for_deletion gp now ns)"
proof -
  have "btm_wf (ns_key_values (node_gc_keys_marked_for_deletion gp now ns))"
    using assms by (simp add: node_gc_keys_marked_for_deletion_def Let_def)
  moreover have sub: "get_versioned ns k = Some vv"
    if "get_versioned (node_gc_keys_marked_for_deletion gp now ns) k = Some vv" for k vv
    using that by (auto simp: get_versioned_gc [OF assms] split: option.splits if_splits)
  ultimately show ?thesis
    using assms unfolding ns_wf_iff gc_simps by blast
qed

section \<open>Applying a delta\<close>

lemma iter_max_None [simp]: "iter_max xs = None \<longleftrightarrow> xs = []"
  by (cases xs) (auto split: option.splits)

lemma iter_max_Some: "iter_max xs = Some y \<Longrightarrow> y \<in> set xs \<and> (\<forall>x \<in> set xs. x \<le> y)"
  by (induction xs arbitrary: y) (fastforce simp: max_def split: option.splits if_splits)+

text \<open>The three outcomes of \<^verbatim>\<open>prepare_apply_delta\<close>.\<close>

definition delta_is_reset :: "NodeDelta \<Rightarrow> NodeState \<Rightarrow> bool" where
  "delta_is_reset nd ns \<longleftrightarrow> ndl_from_version_excluded nd \<le> ns_max_version ns
     \<and> ns_max_version ns \<le> ndl_last_gc_version nd
     \<and> ns_last_gc_version ns < ndl_last_gc_version nd
     \<and> delta_max_version nd \<noteq> None"

definition delta_is_update :: "NodeDelta \<Rightarrow> NodeState \<Rightarrow> bool" where
  "delta_is_update nd ns \<longleftrightarrow> ndl_from_version_excluded nd \<le> ns_max_version ns
     \<and> (ndl_last_gc_version nd < ns_max_version ns \<or> ndl_last_gc_version nd \<le> ns_last_gc_version ns)"

definition reset_state :: "NodeDelta \<Rightarrow> NodeState" where
  "reset_state nd = \<lparr>ns_chitchat_id = ndl_chitchat_id nd, ns_heartbeat = 0, ns_key_values = [],
     ns_max_version = (case ndl_max_version nd of Some v \<Rightarrow> if ndl_key_values nd = [] then v else 0
       | None \<Rightarrow> 0),
     ns_last_gc_version = ndl_last_gc_version nd\<rparr>"

lemma prepare_apply_delta_eq:
  "prepare_apply_delta nd ns =
     (if delta_is_update nd ns then (True, ns)
      else if delta_is_reset nd ns then (True, reset_state nd)
      else (False, ns))"
  by (auto simp: prepare_apply_delta_def delta_is_update_def delta_is_reset_def reset_state_def
      NodeState_new_def Let_def split: option.splits)

lemma node_apply_delta_eq:
  "node_apply_delta nd now ns =
     (if delta_is_update nd ns then apply_mutations (ns_max_version ns) now (ndl_key_values nd) ns
      else if delta_is_reset nd ns
      then apply_mutations (ns_max_version (reset_state nd)) now (ndl_key_values nd) (reset_state nd)
      else (ns, []))"
  by (simp add: node_apply_delta_def prepare_apply_delta_eq)

lemma ns_wf_reset [wf_intros]: "ns_wf (reset_state nd)"
  by (simp add: ns_wf_def reset_state_def)

lemma apply_mutation_simps [simp]:
  "ns_last_gc_version (fst (apply_mutation c now m ns)) = ns_last_gc_version ns"
  "ns_heartbeat (fst (apply_mutation c now m ns)) = ns_heartbeat ns"
  "ns_chitchat_id (fst (apply_mutation c now m ns)) = ns_chitchat_id ns"
  by (auto simp: apply_mutation_def set_versioned_value_def Let_def split: option.splits)

lemma apply_mutations_Cons:
  "fst (apply_mutations c now (m # ms) ns) = fst (apply_mutations c now ms (fst (apply_mutation c now m ns)))"
  by (simp add: Let_def split_beta)

lemma apply_mutations_simps [simp]:
  "ns_last_gc_version (fst (apply_mutations c now ms ns)) = ns_last_gc_version ns"
  "ns_heartbeat (fst (apply_mutations c now ms ns)) = ns_heartbeat ns"
  "ns_chitchat_id (fst (apply_mutations c now ms ns)) = ns_chitchat_id ns"
  by (induction ms arbitrary: ns) (simp_all add: apply_mutations_Cons del: apply_mutations.simps(2))

lemma apply_mutation_max_version:
  "ns_max_version (fst (apply_mutation c now m ns)) =
     (if kvm_version m \<le> c \<or> scheduled_for_deletion (kvm_status m) \<and> kvm_version m \<le> ns_last_gc_version ns
      then ns_max_version ns else max (kvm_version m) (ns_max_version ns))"
  by (auto simp: apply_mutation_def set_versioned_value_def Let_def split: option.splits)

lemma apply_mutation_max_version_ge:
  "ns_max_version ns \<le> ns_max_version (fst (apply_mutation c now m ns))"
  by (simp add: apply_mutation_max_version)

lemma apply_mutations_max_version_ge:
  "ns_max_version ns \<le> ns_max_version (fst (apply_mutations c now ms ns))"
proof (induction ms arbitrary: ns)
  case (Cons m ms)
  show ?case
    using apply_mutation_max_version_ge [of ns c now m] Cons.IH [of "fst (apply_mutation c now m ns)"]
    by (auto simp: apply_mutations_Cons simp del: apply_mutations.simps(2))
qed simp

lemma apply_mutations_max_version:
  "m \<in> set ms \<Longrightarrow> c < kvm_version m \<Longrightarrow>
   \<not> (scheduled_for_deletion (kvm_status m) \<and> kvm_version m \<le> ns_last_gc_version ns) \<Longrightarrow>
   kvm_version m \<le> ns_max_version (fst (apply_mutations c now ms ns))"
proof (induction ms arbitrary: ns)
  case (Cons x ms)
  let ?ns = "fst (apply_mutation c now x ns)"
  show ?case
  proof (cases "m = x")
    case True
    then have "kvm_version m \<le> ns_max_version ?ns" using Cons.prems by (auto simp: apply_mutation_max_version)
    with apply_mutations_max_version_ge [of ?ns c now ms] show ?thesis
      by (auto simp: apply_mutations_Cons simp del: apply_mutations.simps(2))
  next
    case False
    with Cons.prems Cons.IH [of ?ns] show ?thesis
      by (auto simp: apply_mutations_Cons simp del: apply_mutations.simps(2))
  qed
qed simp

text \<open>A second application finds every mutation already known, or refused again.\<close>

lemma apply_mutations_skip:
  assumes "\<forall>m \<in> set ms. kvm_version m \<le> c
    \<or> scheduled_for_deletion (kvm_status m) \<and> kvm_version m \<le> ns_last_gc_version ns"
  shows "apply_mutations c now ms ns = (ns, [])"
  using assms by (induction ms) (auto simp: apply_mutation_def)

lemma apply_mutations_again:
  assumes "ns' = fst (apply_mutations (ns_max_version ns) now ms ns)"
  shows "apply_mutations (ns_max_version ns') now' ms ns' = (ns', [])"
proof (rule apply_mutations_skip, rule ballI)
  fix m
  assume m: "m \<in> set ms"
  show "kvm_version m \<le> ns_max_version ns'
    \<or> scheduled_for_deletion (kvm_status m) \<and> kvm_version m \<le> ns_last_gc_version ns'"
  proof (cases "kvm_version m \<le> ns_max_version ns")
    case True
    with apply_mutations_max_version_ge [of ns "ns_max_version ns" now ms] assms show ?thesis
      by (auto intro: order_trans)
  next
    case False
    then have "ns_max_version ns < kvm_version m" by simp
    then show ?thesis
      using apply_mutations_max_version [OF m, of "ns_max_version ns" ns now] assms by auto
  qed
qed

lemma apply_delta_idempotent_aux:
  "node_apply_delta nd now' (fst (node_apply_delta nd now ns)) = (fst (node_apply_delta nd now ns), [])"
proof -
  let ?ns = "fst (node_apply_delta nd now ns)"
  consider "delta_is_update nd ns" | "\<not> delta_is_update nd ns" "delta_is_reset nd ns"
    | "\<not> delta_is_update nd ns" "\<not> delta_is_reset nd ns"
    by blast
  then show ?thesis
  proof cases
    case 1
    have ns: "?ns = fst (apply_mutations (ns_max_version ns) now (ndl_key_values nd) ns)"
      using 1 by (simp add: node_apply_delta_eq)
    have "delta_is_update nd ?ns"
      using 1 apply_mutations_max_version_ge [of ns "ns_max_version ns" now "ndl_key_values nd"]
      unfolding ns delta_is_update_def by auto
    then show ?thesis
      using apply_mutations_again [OF ns, of now'] by (simp add: node_apply_delta_eq [of nd now'])
  next
    case 2
    have ns: "?ns = fst (apply_mutations (ns_max_version (reset_state nd)) now (ndl_key_values nd) (reset_state nd))"
      using 2 by (simp add: node_apply_delta_eq)
    have "ns_last_gc_version ?ns = ndl_last_gc_version nd" unfolding ns by (simp add: reset_state_def)
    then have "\<not> delta_is_reset nd ?ns" by (simp add: delta_is_reset_def)
    then show ?thesis
      using apply_mutations_again [OF ns, of now'] by (simp add: node_apply_delta_eq [of nd now'])
  next
    case 3
    then have "node_apply_delta nd t ns = (ns, [])" for t by (simp add: node_apply_delta_eq)
    then show ?thesis by simp
  qed
qed

text \<open>
  A delta never moves a node backwards in the order on (\<^verbatim>\<open>last_gc_version\<close>, \<^verbatim>\<open>max_version\<close>) pairs.
\<close>

lemma apply_delta_monotone_aux:
  "(ns_last_gc_version ns, ns_max_version ns)
     \<le> (ns_last_gc_version (fst (node_apply_delta nd now ns)), ns_max_version (fst (node_apply_delta nd now ns)))"
  using apply_mutations_max_version_ge [of ns "ns_max_version ns" now "ndl_key_values nd"]
  by (auto simp: node_apply_delta_eq delta_is_reset_def reset_state_def)

subsection \<open>Deltas with increasing versions\<close>

text \<open>
  On an ordered delta the loop stores, in order, exactly the mutations that are new and are not
  tombstones below \<^verbatim>\<open>last_gc_version\<close>, each with a version above all earlier ones.
\<close>

definition mutation_entry :: "instant \<Rightarrow> KeyValueMutation \<Rightarrow> VersionedValue" where
  "mutation_entry now m = \<lparr>vv_value = kvm_value m, vv_version = kvm_version m,
     vv_status = into_status (kvm_status m) now\<rparr>"

definition mutation_applies :: "Version \<Rightarrow> Version \<Rightarrow> KeyValueMutation \<Rightarrow> bool" where
  "mutation_applies c g m \<longleftrightarrow> c < kvm_version m
     \<and> \<not> (scheduled_for_deletion (kvm_status m) \<and> kvm_version m \<le> g)"

definition mutation_events :: "ChitchatId \<Rightarrow> KeyValueMutation list \<Rightarrow> KeyChangeEvent list" where
  "mutation_events i ms = map (\<lambda>m. \<lparr>kce_key = kvm_key m, kce_value = kvm_value m, kce_node = i\<rparr>)
     (filter (\<lambda>m. kvm_status m \<noteq> MutDelete) ms)"

definition put_all :: "instant \<Rightarrow> KeyValueMutation list \<Rightarrow> NodeState \<Rightarrow> NodeState" where
  "put_all now ms ns = foldl (\<lambda>ns m. put (kvm_key m) (mutation_entry now m) ns) ns ms"

lemma put_all_simps [simp]:
  "put_all now [] ns = ns"
  "put_all now (m # ms) ns = put_all now ms (put (kvm_key m) (mutation_entry now m) ns)"
  by (simp_all add: put_all_def)

lemma mutation_entry_simps [simp]:
  "vv_version (mutation_entry now m) = kvm_version m" "vv_value (mutation_entry now m) = kvm_value m"
  "vv_status (mutation_entry now m) = into_status (kvm_status m) now"
  by (simp_all add: mutation_entry_def)

lemma is_deleted_mutation_entry [simp]: "is_deleted (mutation_entry now m) \<longleftrightarrow> kvm_status m = MutDelete"
  by (simp add: is_deleted_iff)

lemma apply_mutation_eq:
  assumes "ns_wf ns" and "kvm_version m \<le> c \<or> ns_max_version ns < kvm_version m"
  shows "apply_mutation c now m ns =
    (if mutation_applies c (ns_last_gc_version ns) m
     then (put (kvm_key m) (mutation_entry now m) ns, mutation_events (ns_chitchat_id ns) [m])
     else (ns, []))"
proof -
  have "set_versioned_value (kvm_key m) (mutation_entry now m) ns
      = (put (kvm_key m) (mutation_entry now m) ns, mutation_events (ns_chitchat_id ns) [m])"
    if "ns_max_version ns < kvm_version m"
    using set_versioned_value_fresh [OF assms(1), of "mutation_entry now m" "kvm_key m"] that
    by (simp add: mutation_events_def)
  then show ?thesis
    using assms(2) by (auto simp: apply_mutation_def mutation_applies_def mutation_entry_def [symmetric])
qed

lemma apply_mutations_eq:
  assumes "ns_wf ns" and "sorted_wrt (<) (map kvm_version ms)" and "c \<le> ns_max_version ns"
    and "\<forall>m \<in> set ms. kvm_version m \<le> c \<or> ns_max_version ns < kvm_version m"
  shows "apply_mutations c now ms ns =
      (put_all now (filter (mutation_applies c (ns_last_gc_version ns)) ms) ns,
       mutation_events (ns_chitchat_id ns) (filter (mutation_applies c (ns_last_gc_version ns)) ms))
    \<and> ns_wf (put_all now (filter (mutation_applies c (ns_last_gc_version ns)) ms) ns)"
  using assms
proof (induction ms arbitrary: ns)
  case Nil
  then show ?case by (simp add: mutation_events_def)
next
  case (Cons m ms)
  let ?put = "put (kvm_key m) (mutation_entry now m) ns"
  have step: "apply_mutation c now m ns =
    (if mutation_applies c (ns_last_gc_version ns) m
     then (?put, mutation_events (ns_chitchat_id ns) [m]) else (ns, []))"
    using Cons.prems by (intro apply_mutation_eq) auto
  show ?case
  proof (cases "mutation_applies c (ns_last_gc_version ns) m")
    case True
    then have less: "ns_max_version ns < kvm_version m"
      using Cons.prems(4) by (auto simp: mutation_applies_def)
    then have "ns_wf ?put" using Cons.prems(1) by (simp add: ns_wf_put)
    moreover have "c \<le> kvm_version m" using less Cons.prems(3) by simp
    moreover have "\<forall>x \<in> set ms. kvm_version m < kvm_version x" using Cons.prems(2) by auto
    ultimately show ?thesis
      using Cons.IH [of ?put] Cons.prems(2) True step by (auto simp: mutation_events_def)
  next
    case False
    then show ?thesis using Cons step by simp
  qed
qed

lemma apply_mutations_ordered:
  assumes "ns_wf ns" and "node_delta_ordered nd"
  shows "apply_mutations (ns_max_version ns) now (ndl_key_values nd) ns =
      (put_all now (filter (mutation_applies (ns_max_version ns) (ns_last_gc_version ns)) (ndl_key_values nd)) ns,
       mutation_events (ns_chitchat_id ns)
         (filter (mutation_applies (ns_max_version ns) (ns_last_gc_version ns)) (ndl_key_values nd)))
    \<and> ns_wf (put_all now (filter (mutation_applies (ns_max_version ns) (ns_last_gc_version ns)) (ndl_key_values nd)) ns)"
  using assms by (intro apply_mutations_eq) (auto simp: node_delta_ordered_def)

lemma node_apply_delta_wf [wf_intros]:
  assumes "ns_wf ns" and "node_delta_ordered nd"
  shows "ns_wf (fst (node_apply_delta nd now ns))"
  using apply_mutations_ordered [OF assms] apply_mutations_ordered [OF ns_wf_reset assms(2)] assms(1)
  by (simp add: node_apply_delta_eq)

text \<open>The entries after a delta: a key keeps its entry unless the delta stores a newer one.\<close>

lemma get_versioned_put_all:
  assumes "ns_wf ns" and "sorted_wrt (<) (map kvm_version ms)"
    and "\<forall>m \<in> set ms. ns_max_version ns < kvm_version m"
  shows "get_versioned (put_all now ms ns) k =
    (case filter (\<lambda>m. kvm_key m = k) ms of [] \<Rightarrow> get_versioned ns k
     | m # r \<Rightarrow> Some (mutation_entry now (last (m # r))))"
  using assms
proof (induction ms arbitrary: ns)
  case Nil
  then show ?case by simp
next
  case (Cons m ms)
  let ?put = "put (kvm_key m) (mutation_entry now m) ns"
  have "get_versioned (put_all now ms ?put) k =
    (case filter (\<lambda>m. kvm_key m = k) ms of [] \<Rightarrow> get_versioned ?put k
     | m # r \<Rightarrow> Some (mutation_entry now (last (m # r))))"
    using Cons.prems by (intro Cons.IH ns_wf_put) auto
  then show ?case
    using Cons.prems(1) by (auto simp: get_versioned_put split: list.splits)
qed

lemma put_all_max_version:
  "ns_max_version (put_all now ms ns) = (if ms = [] then ns_max_version ns else kvm_version (last ms))"
  by (induction ms arbitrary: ns) auto

section \<open>Prefix scan\<close>

lemma lex_prefix_between:
  assumes "starts_with k2 p" and "p \<le> k1" and "k1 \<le> (k2 :: string)"
  shows "starts_with k1 p"
  using assms
proof (induction p arbitrary: k1 k2)
  case Nil
  then show ?case by (simp add: starts_with_def)
next
  case (Cons c p)
  from Cons.prems(1) obtain k2' where k2: "k2 = c # k2'" "starts_with k2' p"
    by (cases k2) (auto simp: starts_with_def)
  from Cons.prems(2) obtain d k1' where k1: "k1 = d # k1'" by (cases k1) auto
  with Cons.prems(2,3) k2(1) have "d = c" "p \<le> k1'" "k1' \<le> k2'" by auto
  with Cons.IH [OF k2(2)] k1 show ?case by (simp add: starts_with_def)
qed

lemma starts_with_ge: "starts_with k p \<Longrightarrow> p \<le> k"
  using starts_with_between [of k p] by (cases p) auto

lemma takeWhile_starts_with:
  assumes "btm_wf m" and "\<forall>e \<in> set m. p \<le> fst e"
  shows "takeWhile (\<lambda>(k, _). starts_with k p) m = filter (\<lambda>(k, _). starts_with k p) m"
  using assms
proof (induction m)
  case (Cons e m)
  then have IH: "takeWhile (\<lambda>(k, _). starts_with k p) m = filter (\<lambda>(k, _). starts_with k p) m"
    by (simp add: btm_wf_Cons)
  show ?case
  proof (cases "starts_with (fst e) p")
    case False
    have "\<not> starts_with (fst x) p" if "x \<in> set m" for x
      using False Cons.prems that lex_prefix_between [of "fst x" p "fst e"]
      by (auto simp: btm_wf_Cons less_imp_le)
    with False show ?thesis by (auto simp: split_beta filter_empty_conv)
  qed (use IH in \<open>cases e, simp\<close>)
qed simp

text \<open>
  The range scan of \<^verbatim>\<open>iter_prefix\<close>, which stops at the first key without the prefix, returns
  exactly the readable entries whose key has the prefix, in key order.
\<close>

lemma iter_prefix_correct:
  assumes "ns_wf ns"
  shows "iter_prefix ns p =
    filter (\<lambda>(k, vv). starts_with k p \<and> \<not> is_deleted vv) (key_values_including_deleted ns)"
proof -
  have "takeWhile (\<lambda>(k, _). starts_with k p) (btm_range_from p (ns_key_values ns))
      = filter (\<lambda>(k, _). starts_with k p) (btm_range_from p (ns_key_values ns))"
    using assms by (intro takeWhile_starts_with) (auto simp: btm_range_from_def wf_intros)
  moreover have "filter (\<lambda>(k, _). starts_with k p) (btm_range_from p (ns_key_values ns))
      = filter (\<lambda>(k, _). starts_with k p) (ns_key_values ns)"
    by (auto simp: btm_range_from_def split_beta intro!: filter_cong dest: starts_with_ge)
  ultimately show ?thesis
    by (auto simp: iter_prefix_def key_values_including_deleted_def split_beta intro!: filter_cong)
qed

text \<open>
  A heartbeat counts as news only when it exceeds a heartbeat that is already known, and the known
  heartbeat never decreases; the first one is recorded without counting.
\<close>

lemma try_set_heartbeat_eq:
  "try_set_heartbeat h ns = (ns_heartbeat ns \<noteq> 0 \<and> ns_heartbeat ns < h,
     ns\<lparr>ns_heartbeat := max (ns_heartbeat ns) h\<rparr>)"
  by (auto simp: try_set_heartbeat_def max_def)

section \<open>Properties\<close>

text \<open>A node state with one value, to exercise the properties below.\<close>

definition demo_node :: NodeState where
  "demo_node = NodeState_for_test\<lparr>ns_key_values := [(''a'', \<lparr>vv_value = ''1'', vv_version = 1, vv_status = StatusSet\<rparr>)],
     ns_max_version := 1\<rparr>"

definition demo_delta :: NodeDelta where
  "demo_delta = \<lparr>ndl_chitchat_id = ns_chitchat_id NodeState_for_test, ndl_from_version_excluded = 1,
     ndl_last_gc_version = 0, ndl_key_values =
       [\<lparr>kvm_key = ''a'', kvm_value = ''2'', kvm_version = 2, kvm_status = MutSet\<rparr>,
        \<lparr>kvm_key = ''b'', kvm_value = [], kvm_version = 3, kvm_status = MutDelete\<rparr>],
     ndl_max_version = None\<rparr>"

lemma demo_node_wf: "ns_wf demo_node"
  by code_simp

text \<open>
  C9. A delta never moves a node backwards: the pair of \<^verbatim>\<open>last_gc_version\<close> and \<^verbatim>\<open>max_version\<close> grows in
  the lexicographic order, and only a reset changes \<^verbatim>\<open>last_gc_version\<close>. Applying it again, at any later
  time, changes nothing and notifies nobody.
\<close>

theorem apply_delta_monotone:
  "(ns_last_gc_version ns, ns_max_version ns)
     \<le> (ns_last_gc_version (fst (node_apply_delta nd now ns)), ns_max_version (fst (node_apply_delta nd now ns)))
   \<and> (ns_last_gc_version (fst (node_apply_delta nd now ns)) = ns_last_gc_version ns
      \<or> (delta_is_reset nd ns \<and> ns_last_gc_version (fst (node_apply_delta nd now ns)) = ndl_last_gc_version nd))
   \<and> node_apply_delta nd now' (fst (node_apply_delta nd now ns)) = (fst (node_apply_delta nd now ns), [])"
  using apply_delta_monotone_aux [of ns nd now] apply_delta_idempotent_aux [of nd now' now ns]
  by (simp add: node_apply_delta_eq [of nd now ns] reset_state_def)

text \<open>
  C30. Setting a value that differs from the current one gives the key the next version and tells
  the listeners; setting the same value again does nothing. No other key is touched.
\<close>

theorem node_set_correct:
  assumes "ns_wf ns" and "ns_max_version ns \<noteq> - 1"
  shows "\<exists>ns' es. node_set k v ns = Inr (ns', es) \<and> ns_wf ns' \<and> get ns' k = Some v
    \<and> (\<forall>k'. k' = k \<or> get_versioned ns' k' = get_versioned ns k')
    \<and> (if already_set k v ns then ns' = ns \<and> es = []
       else ns_max_version ns' = ns_max_version ns + 1
         \<and> get_versioned ns' k = Some \<lparr>vv_value = v, vv_version = ns_max_version ns + 1, vv_status = StatusSet\<rparr>
         \<and> es = [\<lparr>kce_key = k, kce_value = v, kce_node = ns_chitchat_id ns\<rparr>])"
proof -
  obtain ns' es where set: "node_set k v ns = Inr (ns', es)"
    using node_set_eq [OF assms, of k v] by (cases "already_set k v ns") auto
  note eq = node_set_eq [OF assms, of k v, unfolded set]
  have "ns_wf ns'" by (rule node_set_wf [OF assms(1) set])
  moreover have "get ns' k = Some v"
    using eq by (auto simp: get_def get_versioned_put [OF assms(1)] is_deleted_def already_set_def
        split: if_splits option.splits)
  ultimately show ?thesis
    using eq set by (auto simp: get_versioned_put [OF assms(1)] split: if_splits)
qed

theorem node_set_correct_witness:
  "\<exists>ns' es. node_set ''b'' ''x'' demo_node = Inr (ns', es) \<and> ns_max_version ns' = 2 \<and> get ns' ''b'' = Some ''x''"
proof -
  have "ns_max_version demo_node \<noteq> - 1" "\<not> already_set ''b'' ''x'' demo_node" "ns_max_version demo_node + 1 = 2"
    by code_simp+
  with node_set_correct [OF demo_node_wf, of "''b''" "''x''"] show ?thesis by auto
qed

text \<open>
  C31. Deleting a present key hides it at once and leaves a tombstone with the next version; deleting
  it after its time to live leaves it readable. An absent key changes nothing, and no other key is
  touched.
\<close>

theorem delete_correct:
  assumes "ns_wf ns" and "ns_max_version ns \<noteq> - 1"
  shows "ns_wf (delete k now ns) \<and> ns_wf (delete_after_ttl k now ns)
    \<and> get (delete k now ns) k = None \<and> get (delete_after_ttl k now ns) k =
        (case get_versioned ns k of None \<Rightarrow> None | Some vv \<Rightarrow> Some (vv_value vv))
    \<and> (\<forall>k'. k' = k \<or> (get_versioned (delete k now ns) k' = get_versioned ns k'
         \<and> get_versioned (delete_after_ttl k now ns) k' = get_versioned ns k'))
    \<and> (case get_versioned ns k of
         None \<Rightarrow> delete k now ns = ns \<and> delete_after_ttl k now ns = ns
       | Some vv \<Rightarrow>
           get_versioned (delete k now ns) k
             = Some \<lparr>vv_value = [], vv_version = ns_max_version ns + 1, vv_status = StatusDeleted now\<rparr>
           \<and> get_versioned (delete_after_ttl k now ns) k
             = Some \<lparr>vv_value = vv_value vv, vv_version = ns_max_version ns + 1, vv_status = StatusDeleteAfterTtl now\<rparr>)"
  using delete_wf [OF assms, of k now] delete_after_ttl_wf [OF assms, of k now]
  by (auto simp: delete_eq delete_after_ttl_eq get_def get_versioned_put [OF assms(1)] is_deleted_def
      split: option.splits)

theorem delete_correct_witness:
  "get (delete ''a'' 7 demo_node) ''a'' = None \<and> get (delete_after_ttl ''a'' 7 demo_node) ''a'' = Some ''1''"
proof -
  have "ns_max_version demo_node \<noteq> - 1" "map_option vv_value (get_versioned demo_node ''a'') = Some ''1''"
    by code_simp+
  with delete_correct [OF demo_node_wf, of "''a''" 7] show ?thesis by auto
qed

text \<open>
  C32. Garbage collection removes exactly the entries that have been scheduled for deletion for the
  whole grace period, and raises \<^verbatim>\<open>last_gc_version\<close> to the highest version it removed.
\<close>

theorem gc_keys_correct:
  fixes gp now
  assumes "ns_wf ns"
  defines "ns' \<equiv> node_gc_keys_marked_for_deletion gp now ns"
  shows "ns_wf ns' \<and> ns_max_version ns' = ns_max_version ns
    \<and> (\<forall>k. get_versioned ns' k = (case get_versioned ns k of None \<Rightarrow> None
         | Some vv \<Rightarrow> if past_grace_period gp now vv then None else Some vv))
    \<and> ns_last_gc_version ns' = Max (insert (ns_last_gc_version ns)
        (vv_version ` {vv. \<exists>k. get_versioned ns k = Some vv \<and> past_grace_period gp now vv}))"
  unfolding ns'_def
  using ns_wf_gc [OF assms(1)] get_versioned_gc [OF assms(1)] gc_last_gc_version [OF assms(1)] by simp

theorem gc_keys_correct_witness:
  "get_versioned (node_gc_keys_marked_for_deletion 5 20 (delete ''a'' 7 demo_node)) ''a'' = None"
proof -
  have wf: "ns_wf (delete ''a'' 7 demo_node)" by code_simp
  have "map_option (past_grace_period 5 20) (get_versioned (delete ''a'' 7 demo_node) ''a'') = Some True"
    by code_simp
  with gc_keys_correct [OF wf, of 5 20] show ?thesis by auto
qed

text \<open>
  C29. A delta whose versions increase keeps the invariant. It stores, in order, the mutations above
  the node's \<^verbatim>\<open>max_version\<close> (0 after a reset) that are not collected deletions, and emits one event for
  each of them that is not a tombstone.
\<close>

theorem node_apply_delta_correct:
  assumes "ns_wf ns" and "node_delta_ordered nd"
  defines "base \<equiv> if delta_is_update nd ns then ns else reset_state nd"
  defines "applied \<equiv> filter (mutation_applies (ns_max_version base) (ns_last_gc_version base)) (ndl_key_values nd)"
  shows "ns_wf (fst (node_apply_delta nd now ns))
    \<and> node_apply_delta nd now ns =
        (if delta_is_update nd ns \<or> delta_is_reset nd ns
         then (put_all now applied base, mutation_events (ns_chitchat_id base) applied)
         else (ns, []))"
  using node_apply_delta_wf [OF assms(1,2)] apply_mutations_ordered [OF assms(1,2)]
    apply_mutations_ordered [OF ns_wf_reset assms(2)]
  by (simp add: node_apply_delta_eq base_def applied_def)

theorem node_apply_delta_correct_witness:
  "ns_wf (fst (node_apply_delta demo_delta 5 demo_node))
   \<and> get (fst (node_apply_delta demo_delta 5 demo_node)) ''a'' = Some ''2''
   \<and> map kce_key (snd (node_apply_delta demo_delta 5 demo_node)) = [''a'']"
proof -
  have ord: "node_delta_ordered demo_delta" by code_simp
  have "get (fst (node_apply_delta demo_delta 5 demo_node)) ''a'' = Some ''2''"
    "map kce_key (snd (node_apply_delta demo_delta 5 demo_node)) = [''a'']"
    by code_simp+
  with node_apply_delta_correct [OF demo_node_wf ord, of 5] show ?thesis by blast
qed

text \<open>
  At the last version, 2^64 - 1, setting a new value panics, while setting it with a time to
  live wraps around: the entry gets version 0, which breaks the invariant.
\<close>

lemma writes_at_last_version:
  assumes "ns_wf ns" and "ns_max_version ns = - 1" and "get_versioned ns k = None"
  shows "node_set k v ns = Inl AssertVersionIncreases
    \<and> get_versioned (fst (set_with_ttl k v now ns)) k
        = Some \<lparr>vv_value = v, vv_version = 0, vv_status = StatusDeleteAfterTtl now\<rparr>
    \<and> \<not> ns_wf (fst (set_with_ttl k v now ns))"
proof -
  have stored: "get_versioned (fst (set_with_ttl k v now ns)) k
      = Some \<lparr>vv_value = v, vv_version = 0, vv_status = StatusDeleteAfterTtl now\<rparr>"
    using assms by (auto simp: set_with_ttl_def set_versioned_value_def get_versioned_def Let_def)
  moreover from this have "\<not> ns_wf (fst (set_with_ttl k v now ns))"
    using ns_wf_version by fastforce
  ultimately show ?thesis using node_set_panic [OF assms(2)] assms(3) by (simp add: already_set_def)
qed

end
