(* ===== verification/Cluster_State.thy ===== *)
theory Cluster_State
  imports Node_State "HOL-Library.Multiset"
begin

text \<open>
  The state of the cluster as one node knows it, \<^verbatim>\<open>ClusterState\<close> of \<^verbatim>\<open>chitchat/src/state.rs\<close>: digests,
  the application of deltas, and the computation of a delta that respects an \<^verbatim>\<open>mtu\<close>, which sends the
  stale nodes in the order of their staleness. \<^verbatim>\<open>SliceRandom::shuffle\<close> is the parameter \<open>shuffle\<close>
  (its first argument numbers the calls); the theorems assume only that it permutes its argument.
\<close>

section \<open>Cluster state\<close>

record ClusterState =
  cs_node_states :: "(ChitchatId, NodeState) btree_map"
  cs_seed_addrs :: "SocketAddr set"
  cs_listeners :: InnerListeners

definition with_seed_addrs :: "SocketAddr set \<Rightarrow> ClusterState" where
  "with_seed_addrs addrs = \<lparr>cs_node_states = [], cs_seed_addrs = addrs,
     cs_listeners = InnerListeners_default\<rparr>"

definition node_state :: "ClusterState \<Rightarrow> ChitchatId \<Rightarrow> NodeState option" where
  "node_state cs i = btm_get (cs_node_states cs) i"

definition nodes :: "ClusterState \<Rightarrow> ChitchatId list" where
  "nodes cs = btm_keys (cs_node_states cs)"

text \<open>The state behind the reference that \<^verbatim>\<open>node_state_mut\<close> returns, and writing back through it.\<close>

definition node_state_mut :: "ClusterState \<Rightarrow> ChitchatId \<Rightarrow> NodeState" where
  "node_state_mut cs i = (case btm_get (cs_node_states cs) i of
     Some ns \<Rightarrow> ns | None \<Rightarrow> NodeState_new i)"

definition put_node_state :: "ChitchatId \<Rightarrow> NodeState \<Rightarrow> ClusterState \<Rightarrow> ClusterState" where
  "put_node_state i ns cs = cs\<lparr>cs_node_states := btm_insert i ns (cs_node_states cs)\<rparr>"

definition remove_node :: "ChitchatId \<Rightarrow> ClusterState \<Rightarrow> ClusterState" where
  "remove_node i cs = cs\<lparr>cs_node_states := btm_remove i (cs_node_states cs)\<rparr>"

fun apply_node_deltas ::
    "NodeDelta list \<Rightarrow> instant \<Rightarrow> ClusterState \<Rightarrow> ClusterState \<times> KeyChangeEvent list" where
  "apply_node_deltas [] now cs = (cs, [])"
| "apply_node_deltas (nd # nds) now cs =
     (let (ns, es) = node_apply_delta nd now (node_state_mut cs (ndl_chitchat_id nd));
          (cs, es') = apply_node_deltas nds now (put_node_state (ndl_chitchat_id nd) ns cs)
      in (cs, es @ es'))"

definition cluster_apply_delta ::
    "Delta \<Rightarrow> instant \<Rightarrow> ClusterState \<Rightarrow> ClusterState \<times> KeyChangeEvent list" where
  "cluster_apply_delta d now cs = apply_node_deltas (node_deltas d) now cs"

definition cluster_compute_digest :: "ClusterState \<Rightarrow> ChitchatId set \<Rightarrow> Digest" where
  "cluster_compute_digest cs scheduled =
     \<lparr>node_digests = map (\<lambda>(i, ns). (i, node_digest_of ns))
        (filter (\<lambda>(i, _). i \<notin> scheduled) (cs_node_states cs))\<rparr>"

definition cluster_gc_keys_marked_for_deletion ::
    "duration \<Rightarrow> instant \<Rightarrow> ClusterState \<Rightarrow> ClusterState" where
  "cluster_gc_keys_marked_for_deletion grace_period now cs =
     cs\<lparr>cs_node_states := btm_map_values (node_gc_keys_marked_for_deletion grace_period now)
       (cs_node_states cs)\<rparr>"

record ClusterStateSnapshot =
  css_node_states :: "NodeState list"
  css_seed_addrs :: "SocketAddr set"

definition snapshot_of :: "ClusterState \<Rightarrow> ClusterStateSnapshot" where
  "snapshot_of cs = \<lparr>css_node_states = btm_values (cs_node_states cs), css_seed_addrs = cs_seed_addrs cs\<rparr>"

section \<open>Staleness\<close>

record Staleness =
  st_is_unknown :: bool
  st_max_version :: u64
  st_num_stale_key_values :: nat

datatype ordering = Less | Equal | Greater

definition ord_cmp :: "'a::linorder \<Rightarrow> 'a \<Rightarrow> ordering" where
  "ord_cmp a b = (if a < b then Less else if a = b then Equal else Greater)"

fun ordering_reverse :: "ordering \<Rightarrow> ordering" where
  "ordering_reverse Less = Greater"
| "ordering_reverse Equal = Equal"
| "ordering_reverse Greater = Less"

definition staleness_cmp :: "Staleness \<Rightarrow> Staleness \<Rightarrow> ordering" where
  "staleness_cmp a b = (case ord_cmp (st_is_unknown a) (st_is_unknown b) of
     Equal \<Rightarrow>
       if st_is_unknown a then ordering_reverse (ord_cmp (st_max_version a) (st_max_version b))
       else ord_cmp (st_num_stale_key_values a) (st_num_stale_key_values b)
   | o' \<Rightarrow> o')"

definition staleness_score :: "NodeState \<Rightarrow> Version \<Rightarrow> Staleness option" where
  "staleness_score ns floor_version =
     (if ns_max_version ns \<le> floor_version then None
      else
        let is_unknown = (floor_version = 0);
            num_stale = (if is_unknown then num_key_values ns
              else length (stale_key_values ns floor_version))
        in Some \<lparr>st_is_unknown = is_unknown, st_max_version = ns_max_version ns,
             st_num_stale_key_values = num_stale\<rparr>)"

record StaleNode =
  sn_chitchat_id :: ChitchatId
  sn_node_state :: NodeState
  sn_from_version_excluded :: Version

definition sn_stale_key_values :: "StaleNode \<Rightarrow> (string \<times> VersionedValue) list" where
  "sn_stale_key_values sn = sort_key (\<lambda>(_, vv). vv_version vv)
     (stale_key_values (sn_node_state sn) (sn_from_version_excluded sn))"

text \<open>\<^verbatim>\<open>SortedStaleNodes\<close>: a \<^verbatim>\<open>BTreeMap\<close> from staleness to the nodes offered with it. Its order is
  \<^const>\<open>staleness_cmp\<close>, for which known nodes with equally many stale keys are equal.\<close>

type_synonym SortedStaleNodes = "(Staleness \<times> StaleNode list) list"

fun push_stale :: "Staleness \<Rightarrow> StaleNode \<Rightarrow> SortedStaleNodes \<Rightarrow> SortedStaleNodes" where
  "push_stale st sn [] = [(st, [sn])]"
| "push_stale st sn ((st', sns) # r) = (case staleness_cmp st' st of
     Less \<Rightarrow> (st', sns) # push_stale st sn r
   | Equal \<Rightarrow> (st', sns @ [sn]) # r
   | Greater \<Rightarrow> (st, [sn]) # (st', sns) # r)"

definition offer :: "ChitchatId \<Rightarrow> NodeState \<Rightarrow> Version \<Rightarrow> SortedStaleNodes \<Rightarrow> SortedStaleNodes" where
  "offer i ns from_version_excluded ssn = (case staleness_score ns from_version_excluded of
     None \<Rightarrow> ssn
   | Some st \<Rightarrow> push_stale st \<lparr>sn_chitchat_id = i, sn_node_state = ns,
       sn_from_version_excluded = from_version_excluded\<rparr> ssn)"

type_synonym shuffle = "nat \<Rightarrow> StaleNode list \<Rightarrow> StaleNode list"

definition stale_into_iter :: "shuffle \<Rightarrow> SortedStaleNodes \<Rightarrow> StaleNode list" where
  "stale_into_iter shuffle ssn =
     concat (map (\<lambda>(i, sns). shuffle i sns) (List.enumerate 0 (rev (map snd ssn))))"

section \<open>Computing a delta\<close>

definition offer_node ::
    "Digest \<Rightarrow> ChitchatId set \<Rightarrow> ChitchatId \<times> NodeState \<Rightarrow> SortedStaleNodes \<Rightarrow> SortedStaleNodes" where
  "offer_node digest scheduled e ssn =
     (let (i, ns) = e in
      if i \<in> scheduled then ssn
      else
        let (digest_last_gc_version, digest_max_version) =
              (case btm_get (node_digests digest) i of
                 Some nd \<Rightarrow> (nd_last_gc_version nd, nd_max_version nd)
               | None \<Rightarrow> (0, 0))
        in if ns_max_version ns \<le> digest_max_version then ssn
           else
             let should_reset = digest_last_gc_version < ns_last_gc_version ns
                   \<and> digest_max_version < ns_last_gc_version ns;
                 from_version_excluded = (if should_reset then 0 else digest_max_version)
             in offer i ns from_version_excluded ssn)"

fun add_stale_key_values ::
    "zstd \<Rightarrow> (string \<times> VersionedValue) list \<Rightarrow> bool \<Rightarrow> DeltaSerializer
     \<Rightarrow> panic + (bool \<times> bool \<times> DeltaSerializer)" where
  "add_stale_key_values zc [] added_something s = Inr (False, added_something, s)"
| "add_stale_key_values zc ((key, vv) # kvs) added_something s =
     result_bind (try_add_kv zc key vv s) (\<lambda>(ok, s).
       if \<not> ok then Inr (True, added_something, s)
       else add_stale_key_values zc kvs True s)"

text \<open>The body of the loop over the stale nodes; its flag tells whether the loop goes on.\<close>

definition add_stale_node :: "zstd \<Rightarrow> StaleNode \<Rightarrow> DeltaSerializer \<Rightarrow> panic + (bool \<times> DeltaSerializer)" where
  "add_stale_node zc sn s =
     result_bind (try_add_node zc (sn_chitchat_id sn) (ns_last_gc_version (sn_node_state sn))
         (sn_from_version_excluded sn) s) (\<lambda>(ok, s).
       if \<not> ok then Inr (False, s)
       else
         result_bind (add_stale_key_values zc (sn_stale_key_values sn) False s)
           (\<lambda>(mtu_reached, added_something, s).
             if mtu_reached then Inr (False, s)
             else if \<not> added_something then
               result_bind (try_set_max_version zc (ns_max_version (sn_node_state sn)) s)
                 (\<lambda>(_, s). Inr (True, s))
             else Inr (True, s)))"

fun add_stale_nodes :: "zstd \<Rightarrow> StaleNode list \<Rightarrow> DeltaSerializer \<Rightarrow> panic + DeltaSerializer" where
  "add_stale_nodes zc [] s = Inr s"
| "add_stale_nodes zc (sn # sns) s =
     result_bind (add_stale_node zc sn s) (\<lambda>(continue, s).
       if continue then add_stale_nodes zc sns s else Inr s)"

definition compute_partial_delta_respecting_mtu ::
    "zstd \<Rightarrow> shuffle \<Rightarrow> ClusterState \<Rightarrow> Digest \<Rightarrow> nat \<Rightarrow> ChitchatId set \<Rightarrow> panic + Delta" where
  "compute_partial_delta_respecting_mtu zc shuffle cs digest mtu scheduled =
     (let stale_nodes = foldl (\<lambda>ssn e. offer_node digest scheduled e ssn) [] (cs_node_states cs)
      in result_bind (with_mtu mtu) (\<lambda>s.
           result_bind (add_stale_nodes zc (stale_into_iter shuffle stale_nodes) s) (\<lambda>s.
             finish_delta zc s)))"

section \<open>The invariant\<close>

definition cs_wf :: "ClusterState \<Rightarrow> bool" where
  "cs_wf cs \<longleftrightarrow> btm_wf (cs_node_states cs)
     \<and> list_all (\<lambda>(i, ns). ns_wf ns \<and> ns_chitchat_id ns = i) (cs_node_states cs)"

lemma cs_wf_node:
  "cs_wf cs \<Longrightarrow> node_state cs i = Some ns \<Longrightarrow> ns_wf ns \<and> ns_chitchat_id ns = i"
  by (auto simp: cs_wf_def node_state_def list_all_iff dest: btm_get_Some_in_set)

lemma cs_wf_node_mut [wf_intros]: "cs_wf cs \<Longrightarrow> ns_wf (node_state_mut cs i)"
  using cs_wf_node [of cs i] by (auto simp: node_state_mut_def node_state_def wf_intros split: option.splits)

lemma cs_wf_node_mut_id: "cs_wf cs \<Longrightarrow> ns_chitchat_id (node_state_mut cs i) = i"
  using cs_wf_node [of cs i]
  by (auto simp: node_state_mut_def node_state_def NodeState_new_def split: option.splits)

lemma cs_wf_put [wf_intros]:
  "cs_wf cs \<Longrightarrow> ns_wf ns \<Longrightarrow> ns_chitchat_id ns = i \<Longrightarrow> cs_wf (put_node_state i ns cs)"
  by (auto simp: cs_wf_def put_node_state_def list_all_iff set_btm_insert)

lemma cs_wf_with_seed_addrs [wf_intros]: "cs_wf (with_seed_addrs a)"
  by (simp add: cs_wf_def with_seed_addrs_def)

lemma cs_wf_remove [wf_intros]: "cs_wf cs \<Longrightarrow> cs_wf (remove_node i cs)"
  by (auto simp: cs_wf_def remove_node_def btm_remove_def list_all_iff wf_intros)

lemma cs_wf_gc [wf_intros]: "cs_wf cs \<Longrightarrow> cs_wf (cluster_gc_keys_marked_for_deletion gp now cs)"
  by (auto simp: cs_wf_def cluster_gc_keys_marked_for_deletion_def list_all_iff btm_map_values_def
      btm_wf_def comp_def wf_intros)

lemma node_apply_delta_id:
  "ns_chitchat_id ns = ndl_chitchat_id nd \<Longrightarrow>
   ns_chitchat_id (fst (node_apply_delta nd now ns)) = ndl_chitchat_id nd"
  by (simp add: node_apply_delta_eq reset_state_def)

lemma apply_node_deltas_Cons:
  "fst (apply_node_deltas (nd # nds) now cs) = fst (apply_node_deltas nds now
     (put_node_state (ndl_chitchat_id nd)
       (fst (node_apply_delta nd now (node_state_mut cs (ndl_chitchat_id nd)))) cs))"
  by (simp add: Let_def split_beta)

lemma apply_node_deltas_wf:
  "cs_wf cs \<Longrightarrow> \<forall>nd \<in> set nds. node_delta_ordered nd \<Longrightarrow> cs_wf (fst (apply_node_deltas nds now cs))"
  by (induction nds arbitrary: cs)
    (simp_all add: apply_node_deltas_Cons wf_intros node_apply_delta_id cs_wf_node_mut_id
      del: apply_node_deltas.simps(2))

lemma cluster_apply_delta_wf [wf_intros]:
  "cs_wf cs \<Longrightarrow> delta_ordered d \<Longrightarrow> cs_wf (fst (cluster_apply_delta d now cs))"
  by (simp add: cluster_apply_delta_def delta_ordered_def apply_node_deltas_wf)

lemma node_state_put [simp]:
  "cs_wf cs \<Longrightarrow> node_state (put_node_state i ns cs) j = (if j = i then Some ns else node_state cs j)"
  by (simp add: node_state_def put_node_state_def cs_wf_def)

lemma node_state_mut_put [simp]:
  "cs_wf cs \<Longrightarrow> node_state_mut (put_node_state i ns cs) j = (if j = i then ns else node_state_mut cs j)"
  by (simp add: node_state_mut_def put_node_state_def cs_wf_def)

text \<open>A delta acts on each node on its own.\<close>

lemma node_state_mut_apply_node_deltas:
  assumes "cs_wf cs" and "\<forall>nd \<in> set nds. node_delta_ordered nd"
    and "distinct (map ndl_chitchat_id nds)"
  shows "node_state_mut (fst (apply_node_deltas nds now cs)) i =
    (case map_of (map (\<lambda>nd. (ndl_chitchat_id nd, nd)) nds) i of
       None \<Rightarrow> node_state_mut cs i
     | Some nd \<Rightarrow> fst (node_apply_delta nd now (node_state_mut cs i)))"
  using assms
proof (induction nds arbitrary: cs)
  case Nil
  then show ?case by simp
next
  case (Cons nd nds)
  let ?cs = "put_node_state (ndl_chitchat_id nd)
      (fst (node_apply_delta nd now (node_state_mut cs (ndl_chitchat_id nd)))) cs"
  have wf: "cs_wf ?cs"
    using Cons.prems by (simp add: wf_intros node_apply_delta_id cs_wf_node_mut_id)
  have absent: "map_of (map (\<lambda>nd. (ndl_chitchat_id nd, nd)) nds) (ndl_chitchat_id nd) = None"
    using Cons.prems(3) by (auto simp: map_of_eq_None_iff)
  from Cons.IH [OF wf] Cons.prems absent show ?case
    by (auto simp: apply_node_deltas_Cons simp del: apply_node_deltas.simps(2) split: option.splits)
qed

section \<open>The order of the stale nodes\<close>

text \<open>The order of \<^const>\<open>staleness_cmp\<close> is that of a key: it is a total preorder.\<close>

definition staleness_key :: "Staleness \<Rightarrow> bool \<times> int" where
  "staleness_key st = (st_is_unknown st,
     if st_is_unknown st then - uint (st_max_version st) else int (st_num_stale_key_values st))"

lemma staleness_cmp_key: "staleness_cmp a b = ord_cmp (staleness_key a) (staleness_key b)"
  by (auto simp: staleness_cmp_def staleness_key_def ord_cmp_def word_less_def word_uint_eq_iff)

lemma ord_cmp_simps:
  "ord_cmp a b = Less \<longleftrightarrow> a < b" "ord_cmp a b = Equal \<longleftrightarrow> a = b" "ord_cmp a b = Greater \<longleftrightarrow> b < a"
  by (auto simp: ord_cmp_def)

definition sn_key :: "StaleNode \<Rightarrow> (bool \<times> int) option" where
  "sn_key sn = map_option staleness_key (staleness_score (sn_node_state sn) (sn_from_version_excluded sn))"

definition ssn_wf :: "SortedStaleNodes \<Rightarrow> bool" where
  "ssn_wf ssn \<longleftrightarrow> sorted_wrt (<) (map (staleness_key \<circ> fst) ssn)
     \<and> (\<forall>(st, sns) \<in> set ssn. \<forall>sn \<in> set sns. sn_key sn = Some (staleness_key st))"

lemma keys_push_stale:
  "staleness_key ` fst ` set (push_stale st sn ssn) = insert (staleness_key st) (staleness_key ` fst ` set ssn)"
  by (induction st sn ssn rule: push_stale.induct)
    (auto simp: staleness_cmp_key ord_cmp_simps split: ordering.splits)

lemma push_stale_sorted:
  "sorted_wrt (<) (map (staleness_key \<circ> fst) ssn) \<Longrightarrow>
   sorted_wrt (<) (map (staleness_key \<circ> fst) (push_stale st sn ssn))"
proof (induction ssn)
  case (Cons e ssn)
  obtain st' sns where e: "e = (st', sns)" by fastforce
  have "staleness_key st' < k" if "staleness_key st' < staleness_key st"
      "k \<in> staleness_key ` fst ` set (push_stale st sn ssn)" for k
    using that Cons.prems unfolding keys_push_stale by (auto simp: e)
  then show ?case
    using Cons by (auto simp: e staleness_cmp_key ord_cmp_simps image_image split: ordering.splits)
qed simp

lemma set_push_stale:
  "(t, ts) \<in> set (push_stale st sn ssn) \<Longrightarrow>
     (t, ts) \<in> set ssn \<or> (t, ts) = (st, [sn])
     \<or> (\<exists>sns. (t, sns) \<in> set ssn \<and> ts = sns @ [sn] \<and> staleness_key t = staleness_key st)"
  by (induction st sn ssn rule: push_stale.induct)
    (auto simp: staleness_cmp_key ord_cmp_simps split: ordering.splits)

lemma push_stale_wf:
  assumes "ssn_wf ssn" and "sn_key sn = Some (staleness_key st)"
  shows "ssn_wf (push_stale st sn ssn)"
  using assms push_stale_sorted [of ssn st sn]
  by (fastforce simp: ssn_wf_def dest!: set_push_stale)

lemma mset_push_stale:
  "mset (concat (map snd (push_stale st sn ssn))) = add_mset sn (mset (concat (map snd ssn)))"
  by (induction st sn ssn rule: push_stale.induct) (auto split: ordering.splits)

text \<open>The nodes that are offered, in the order of the map.\<close>

definition stale_node_of :: "Digest \<Rightarrow> ChitchatId set \<Rightarrow> ChitchatId \<times> NodeState \<Rightarrow> StaleNode option" where
  "stale_node_of digest scheduled e =
     (let (i, ns) = e;
          (g, m) = (case btm_get (node_digests digest) i of
            Some nd \<Rightarrow> (nd_last_gc_version nd, nd_max_version nd) | None \<Rightarrow> (0, 0));
          from = (if g < ns_last_gc_version ns \<and> m < ns_last_gc_version ns then 0 else m)
      in if i \<in> scheduled \<or> ns_max_version ns \<le> m then None
         else Some \<lparr>sn_chitchat_id = i, sn_node_state = ns, sn_from_version_excluded = from\<rparr>)"

lemma staleness_score_eq:
  "staleness_score ns floor = (if ns_max_version ns \<le> floor then None
     else Some \<lparr>st_is_unknown = (floor = 0), st_max_version = ns_max_version ns,
       st_num_stale_key_values = (if floor = 0 then num_key_values ns
         else length (stale_key_values ns floor))\<rparr>)"
  by (simp add: staleness_score_def Let_def)

lemma offer_node_eq:
  "offer_node digest scheduled e ssn = (case stale_node_of digest scheduled e of
     None \<Rightarrow> ssn
   | Some sn \<Rightarrow> push_stale (the (staleness_score (sn_node_state sn) (sn_from_version_excluded sn))) sn ssn)"
  by (auto simp: offer_node_def stale_node_of_def offer_def staleness_score_eq Let_def
      split: option.splits prod.splits if_splits)

lemma sn_key_stale_node_of:
  "stale_node_of digest scheduled e = Some sn \<Longrightarrow>
   sn_key sn = Some (staleness_key (the (staleness_score (sn_node_state sn) (sn_from_version_excluded sn))))"
  by (auto simp: stale_node_of_def sn_key_def staleness_score_eq Let_def
      split: option.splits prod.splits if_splits)

definition offered :: "Digest \<Rightarrow> ChitchatId set \<Rightarrow> (ChitchatId \<times> NodeState) list \<Rightarrow> StaleNode list" where
  "offered digest scheduled es = List.map_filter (stale_node_of digest scheduled) es"

lemma offered_simps [simp]:
  "offered digest scheduled [] = []"
  "offered digest scheduled (e # es) = (case stale_node_of digest scheduled e of
     None \<Rightarrow> offered digest scheduled es | Some sn \<Rightarrow> sn # offered digest scheduled es)"
  by (simp_all add: offered_def List.map_filter_simps split: option.split)

lemma offer_all:
  assumes "ssn_wf ssn"
  shows "ssn_wf (foldl (\<lambda>ssn e. offer_node digest scheduled e ssn) ssn es)
    \<and> mset (concat (map snd (foldl (\<lambda>ssn e. offer_node digest scheduled e ssn) ssn es)))
      = mset (concat (map snd ssn)) + mset (offered digest scheduled es)"
  using assms
proof (induction es arbitrary: ssn)
  case (Cons e es)
  have "ssn_wf (offer_node digest scheduled e ssn)"
    using Cons.prems sn_key_stale_node_of [of digest scheduled e]
    by (auto simp: offer_node_eq push_stale_wf split: option.split)
  from Cons.IH [OF this] show ?case
    by (auto simp: offer_node_eq mset_push_stale split: option.splits)
qed simp

definition permutes :: "shuffle \<Rightarrow> bool" where
  "permutes shuffle \<longleftrightarrow> (\<forall>i xs. mset (shuffle i xs) = mset xs)"

lemma permutes_set: "permutes shuffle \<Longrightarrow> set (shuffle i xs) = set xs"
  unfolding permutes_def by (metis set_mset_mset)

lemma mset_shuffled:
  assumes "permutes shuffle"
  shows "mset (concat (map (\<lambda>(i, sns). shuffle i sns) (List.enumerate n xss))) = mset (concat xss)"
proof (induction xss arbitrary: n)
  case (Cons xs xss)
  then show ?case using assms by (simp add: permutes_def)
qed simp

lemma mset_concat_rev: "mset (concat (rev xss)) = mset (concat xss)"
  by (induction xss) simp_all

lemma mset_stale_into_iter:
  assumes "permutes shuffle"
  shows "mset (stale_into_iter shuffle ssn) = mset (concat (map snd ssn))"
  using mset_shuffled [OF assms] mset_concat_rev by (simp add: stale_into_iter_def)

text \<open>The iteration is in decreasing order of staleness, whatever the shuffling.\<close>

lemma sorted_same_key:
  "\<forall>sn \<in> set sns. sn_key sn = Some k \<Longrightarrow> sorted_wrt (\<lambda>a b. the (sn_key b) \<le> the (sn_key a)) sns"
  by (induction sns) auto

lemma shuffled_decreasing:
  assumes "permutes shuffle" and "sorted_wrt (>) ks"
    and "list_all2 (\<lambda>k sns. \<forall>sn \<in> set sns. sn_key sn = Some k) ks xss"
  shows "sorted_wrt (\<lambda>a b. the (sn_key b) \<le> the (sn_key a))
    (concat (map (\<lambda>(i, sns). shuffle i sns) (List.enumerate n xss)))"
  using assms(3,2)
proof (induction ks xss arbitrary: n rule: list_all2_induct)
  case (Cons k ks xs xss)
  have tail: "set (concat (map (\<lambda>(i, sns). shuffle i sns) (List.enumerate (Suc n) xss))) = set (concat xss)"
    using arg_cong [OF mset_shuffled [OF assms(1)], of set_mset] by simp
  have le: "the (sn_key b) \<le> k" if b: "b \<in> set (concat xss)" for b
  proof -
    obtain sns where "sns \<in> set xss" "b \<in> set sns" using b by auto
    then obtain j where j: "j < length xss" "b \<in> set (xss ! j)"
      by (auto simp: in_set_conv_nth [of sns])
    with Cons.hyps(2) have "sn_key b = Some (ks ! j)" "ks ! j \<in> set ks"
      by (auto simp: list_all2_conv_all_nth)
    with Cons.prems show ?thesis by auto
  qed
  have "sorted_wrt (\<lambda>a b. the (sn_key b) \<le> the (sn_key a)) (shuffle n xs)"
    using Cons.hyps(1) permutes_set [OF assms(1), of n xs] by (intro sorted_same_key [of _ k]) simp
  moreover have "sorted_wrt (\<lambda>a b. the (sn_key b) \<le> the (sn_key a))
      (concat (map (\<lambda>(i, sns). shuffle i sns) (List.enumerate (Suc n) xss)))"
    using Cons.prems by (intro Cons.IH) simp
  moreover have "the (sn_key b) \<le> the (sn_key a)"
    if "a \<in> set (shuffle n xs)" "b \<in> set (concat (map (\<lambda>(i, sns). shuffle i sns) (List.enumerate (Suc n) xss)))"
    for a b
    using that le [of b] Cons.hyps(1) permutes_set [OF assms(1), of n xs] unfolding tail by simp
  ultimately show ?case by (simp add: sorted_wrt_append)
qed simp

lemma stale_into_iter_decreasing:
  assumes "permutes shuffle" and "ssn_wf ssn"
  shows "sorted_wrt (\<lambda>a b. the (sn_key b) \<le> the (sn_key a)) (stale_into_iter shuffle ssn)"
  unfolding stale_into_iter_def
proof (rule shuffled_decreasing [OF assms(1)])
  show "sorted_wrt (>) (rev (map (staleness_key \<circ> fst) ssn))"
    using assms(2) by (simp add: ssn_wf_def sorted_wrt_rev)
  show "list_all2 (\<lambda>k sns. \<forall>sn \<in> set sns. sn_key sn = Some k)
      (rev (map (staleness_key \<circ> fst) ssn)) (rev (map snd ssn))"
    using assms(2) by (auto simp: ssn_wf_def list.rel_map intro!: list.rel_refl_strong)
qed

section \<open>The computed delta\<close>

text \<open>What a delta says of one stale node: its header, the first of its stale key-values in the
  order of versions, and its max version when it has none.\<close>

definition kv_mutation :: "string \<times> VersionedValue \<Rightarrow> KeyValueMutation" where
  "kv_mutation e = \<lparr>kvm_key = fst e, kvm_value = vv_value (snd e), kvm_version = vv_version (snd e),
     kvm_status = mutation_of_status (vv_status (snd e))\<rparr>"

definition sn_mutations :: "StaleNode \<Rightarrow> KeyValueMutation list" where
  "sn_mutations sn = map kv_mutation (sn_stale_key_values sn)"

definition sn_node_delta :: "StaleNode \<Rightarrow> NodeDelta" where
  "sn_node_delta sn = \<lparr>ndl_chitchat_id = sn_chitchat_id sn,
     ndl_from_version_excluded = sn_from_version_excluded sn,
     ndl_last_gc_version = ns_last_gc_version (sn_node_state sn),
     ndl_key_values = [], ndl_max_version = None\<rparr>"

definition node_delta_covers :: "StaleNode \<Rightarrow> NodeDelta \<Rightarrow> bool" where
  "node_delta_covers sn nd \<longleftrightarrow>
     ndl_chitchat_id nd = sn_chitchat_id sn
     \<and> ndl_from_version_excluded nd = sn_from_version_excluded sn
     \<and> ndl_last_gc_version nd = ns_last_gc_version (sn_node_state sn)
     \<and> ndl_key_values nd = take (length (ndl_key_values nd)) (sn_mutations sn)
     \<and> (case ndl_max_version nd of None \<Rightarrow> True
        | Some v \<Rightarrow> sn_mutations sn = [] \<and> v = ns_max_version (sn_node_state sn))"

text \<open>What makes the operations of a stale node encodable, and short enough for the size bound.\<close>

definition sn_codable :: "StaleNode \<Rightarrow> bool" where
  "sn_codable sn \<longleftrightarrow> id_wf (sn_chitchat_id sn) \<and> (\<forall>m \<in> set (sn_mutations sn). kvm_wf m)"

definition sn_small :: "StaleNode \<Rightarrow> bool" where
  "sn_small sn \<longleftrightarrow> 1 + (len_id (sn_chitchat_id sn) + 8 + 8) \<le> 16384
     \<and> (\<forall>m \<in> set (sn_mutations sn). 1 + len_kvm m \<le> 16384)"

lemma try_add_op_step:
  assumes z: "zstd_fits zc" and inv: "serializer_inv zc s" and mtu: "ds_mtu s \<le> 65535"
    and op: "op_wf op" "op_in_order (ds_delta_builder s) op"
    and ok: "apply_op (ds_delta_builder s) op = Inr b"
    and cap: "cap \<longrightarrow> len_op op \<le> 16384 \<and> serializer_fits s"
  obtains added s' where "try_add_op zc op s = Inr (added, s')" "serializer_inv zc s'"
    "cap \<longrightarrow> serializer_fits s'" "ds_mtu s' = ds_mtu s"
    "ds_delta_builder s' = (if added then b else ds_delta_builder s)"
proof -
  obtain added s' where s': "try_add_op zc op s = Inr (added, s')"
      "added \<longrightarrow> ds_delta_builder s' = b" "\<not> added \<longrightarrow> s' = s" "ds_mtu s' = ds_mtu s"
    using try_add_op_ok [OF z inv mtu ok] by blast
  moreover have "cap \<longrightarrow> serializer_fits s'"
    using try_add_op_fits [OF z inv _ op(1) _ s'(1)] cap by blast
  ultimately show thesis using that try_add_op_inv [OF z inv op s'(1)] by auto
qed

lemma sorted_sn_mutations:
  assumes "ns_wf (sn_node_state sn)"
  shows "sorted_wrt (<) (map kvm_version (sn_mutations sn))"
proof -
  let ?kvs = "stale_key_values (sn_node_state sn) (sn_from_version_excluded sn)"
  have "distinct (map (\<lambda>(_, vv). vv_version vv) ?kvs)"
    using assms by (simp add: ns_wf_def stale_key_values_def key_values_including_deleted_def distinct_map_filter)
  then have "sorted_wrt (<) (map (\<lambda>(_, vv). vv_version vv) (sn_stale_key_values sn))"
    unfolding sn_stale_key_values_def by (rule sorted_wrt_map_sort_key)
  then show ?thesis by (simp add: sn_mutations_def kv_mutation_def comp_def case_prod_unfold)
qed

text \<open>Adding the key-values of the current node.\<close>

lemma add_stale_key_values_ok:
  assumes z: "zstd_fits zc" and inv: "serializer_inv zc s" and mtu: "ds_mtu s \<le> 65535"
    and cur: "db_current_node_delta (ds_delta_builder s) = Some nd" "ndl_max_version nd = None"
    and sorted: "sorted_wrt (<) (map kvm_version (ndl_key_values nd @ map kv_mutation kvs))"
    and wf: "\<forall>m \<in> set (map kv_mutation kvs). kvm_wf m"
    and cap: "cap \<longrightarrow> serializer_fits s \<and> (\<forall>m \<in> set (map kv_mutation kvs). 1 + len_kvm m \<le> 16384)"
  shows "\<exists>reached added' s' n. add_stale_key_values zc kvs added s = Inr (reached, added', s')
    \<and> serializer_inv zc s' \<and> (cap \<longrightarrow> serializer_fits s') \<and> ds_mtu s' = ds_mtu s
    \<and> n \<le> length kvs \<and> (\<not> reached \<longrightarrow> n = length kvs \<and> added' = (added \<or> kvs \<noteq> []))
    \<and> ds_delta_builder s' = (ds_delta_builder s)\<lparr>db_current_node_delta :=
        Some (nd\<lparr>ndl_key_values := ndl_key_values nd @ map kv_mutation (take n kvs)\<rparr>)\<rparr>"
  using inv mtu cur sorted wf cap
proof (induction kvs arbitrary: s nd added)
  case Nil
  then show ?case by (cases "ds_delta_builder s") auto
next
  case (Cons e kvs)
  let ?m = "kv_mutation e" and ?b = "ds_delta_builder s"
  let ?nd = "nd\<lparr>ndl_key_values := ndl_key_values nd @ [?m]\<rparr>"
  have "ndl_key_values nd \<noteq> [] \<Longrightarrow> kvm_version (last (ndl_key_values nd)) < kvm_version ?m"
    using Cons.prems(5) by (auto simp: sorted_wrt_append)
  then have ok: "apply_op ?b (OpKeyValue ?m) = Inr (?b\<lparr>db_current_node_delta := Some ?nd\<rparr>)"
    using Cons.prems(3) by auto
  have op: "op_wf (OpKeyValue ?m)" "op_in_order ?b (OpKeyValue ?m)"
    "cap \<longrightarrow> len_op (OpKeyValue ?m) \<le> 16384 \<and> serializer_fits s"
    using Cons.prems by auto
  obtain ok' s1 where s1: "try_add_op zc (OpKeyValue ?m) s = Inr (ok', s1)" "serializer_inv zc s1"
      "cap \<longrightarrow> serializer_fits s1" "ds_mtu s1 = ds_mtu s"
      "ds_delta_builder s1 = (if ok' then ?b\<lparr>db_current_node_delta := Some ?nd\<rparr> else ?b)"
    by (rule try_add_op_step [OF z Cons.prems(1,2) op(1,2) ok op(3)])
  have add: "try_add_kv zc (fst e) (snd e) s = Inr (ok', s1)"
    using s1(1) by (simp add: try_add_kv_def kv_mutation_def)
  show ?case
  proof (cases ok')
    case False
    have "?b = ?b\<lparr>db_current_node_delta := Some (nd\<lparr>ndl_key_values := ndl_key_values nd @ map kv_mutation (take 0 (e # kvs))\<rparr>)\<rparr>"
      using Cons.prems(3) by (cases ?b) simp
    with False s1 add show ?thesis by (cases e) (auto intro!: exI [of _ 0])
  next
    case True
    have "\<exists>reached added' s' n. add_stale_key_values zc kvs True s1 = Inr (reached, added', s')
      \<and> serializer_inv zc s' \<and> (cap \<longrightarrow> serializer_fits s') \<and> ds_mtu s' = ds_mtu s1
      \<and> n \<le> length kvs \<and> (\<not> reached \<longrightarrow> n = length kvs \<and> added' = (True \<or> kvs \<noteq> []))
      \<and> ds_delta_builder s' = (ds_delta_builder s1)\<lparr>db_current_node_delta :=
          Some (?nd\<lparr>ndl_key_values := ndl_key_values ?nd @ map kv_mutation (take n kvs)\<rparr>)\<rparr>"
      using Cons.prems s1 True by (intro Cons.IH) auto
    then obtain reached added' s' n where r: "add_stale_key_values zc kvs True s1 = Inr (reached, added', s')"
      "serializer_inv zc s'" "cap \<longrightarrow> serializer_fits s'" "ds_mtu s' = ds_mtu s1" "n \<le> length kvs"
      "\<not> reached \<longrightarrow> n = length kvs \<and> added'"
      "ds_delta_builder s' = (ds_delta_builder s1)\<lparr>db_current_node_delta :=
          Some (?nd\<lparr>ndl_key_values := ndl_key_values ?nd @ map kv_mutation (take n kvs)\<rparr>)\<rparr>"
      by auto
    have "add_stale_key_values zc (e # kvs) added s = Inr (reached, added', s')"
      using add r(1) True by (cases e) simp
    with r True s1 show ?thesis by (intro exI [of _ reached] exI [of _ added'] exI [of _ s'] exI [of _ "Suc n"]) simp
  qed
qed

lemma covers_sn_node_delta:
  assumes "maxv = None \<or> (sn_stale_key_values sn = [] \<and> maxv = Some (ns_max_version (sn_node_state sn)))"
  shows "node_delta_covers sn ((sn_node_delta sn)\<lparr>
    ndl_key_values := map kv_mutation (take n (sn_stale_key_values sn)), ndl_max_version := maxv\<rparr>)"
proof -
  have "take n xs = take (min (length xs) n) xs" 
    for xs :: "(string \<times> VersionedValue) list" by (simp add: min_def)
  then have "map kv_mutation (take n xs) = take (min (length xs) n) (map kv_mutation xs)" for xs
    by (simp add: take_map)
  with assms show ?thesis by (auto simp: node_delta_covers_def sn_node_delta_def sn_mutations_def)
qed

lemma builder_nodes_current:
  "db_current_node_delta b = None \<Longrightarrow>
   builder_nodes (b\<lparr>db_existing_nodes := e, db_current_node_delta := Some nd\<rparr>) = builder_nodes b @ [nd]"
  by (simp add: builder_nodes_def)

text \<open>One stale node: it adds nothing, or a node delta that covers it.\<close>

lemma add_stale_node_ok:
  assumes z: "zstd_fits zc" and inv: "serializer_inv zc s" and mtu: "ds_mtu s \<le> 65535"
    and fresh: "sn_chitchat_id sn \<notin> ndl_chitchat_id ` set (builder_nodes (ds_delta_builder s))"
    and wf: "ns_wf (sn_node_state sn)" "sn_codable sn"
    and cap: "cap \<longrightarrow> serializer_fits s \<and> sn_small sn"
  shows "\<exists>cont s' nds. add_stale_node zc sn s = Inr (cont, s') \<and> serializer_inv zc s'
    \<and> (cap \<longrightarrow> serializer_fits s') \<and> ds_mtu s' = ds_mtu s
    \<and> builder_nodes (ds_delta_builder s') = builder_nodes (ds_delta_builder s) @ nds
    \<and> (nds = [] \<and> \<not> cont \<or> (\<exists>nd. nds = [nd] \<and> node_delta_covers sn nd))"
proof -
  let ?b = "ds_delta_builder s" and ?i = "sn_chitchat_id sn" and ?ns = "sn_node_state sn"
  let ?op = "OpNode ?i (ns_last_gc_version ?ns) (sn_from_version_excluded sn)"
  let ?kvs = "sn_stale_key_values sn"
  let ?b1 = "\<lambda>nd. (builder_flush ?b)\<lparr>db_existing_nodes := insert ?i (db_existing_nodes ?b),
    db_current_node_delta := Some nd\<rparr>"
  have b1: "builder_nodes (?b1 nd) = builder_nodes ?b @ [nd]" for nd
    by (simp add: builder_nodes_current)
  have "?i \<notin> db_existing_nodes ?b" using fresh inv by (simp add: serializer_inv_def builder_inv_def)
  then have ok: "apply_op ?b ?op = Inr (?b1 (sn_node_delta sn))"
    by (simp add: Let_def sn_node_delta_def)
  have op: "op_wf ?op" "op_in_order ?b ?op" "cap \<longrightarrow> len_op ?op \<le> 16384 \<and> serializer_fits s"
    using wf cap by (auto simp: sn_codable_def sn_small_def)
  obtain ok1 s1 where s1: "try_add_op zc ?op s = Inr (ok1, s1)" "serializer_inv zc s1"
      "cap \<longrightarrow> serializer_fits s1" "ds_mtu s1 = ds_mtu s"
      "ds_delta_builder s1 = (if ok1 then ?b1 (sn_node_delta sn) else ?b)"
    by (rule try_add_op_step [OF z inv mtu op(1,2) ok op(3)])
  show ?thesis
  proof (cases ok1)
    case False
    with s1 show ?thesis by (auto simp: add_stale_node_def try_add_node_def)
  next
    case True
    have cur: "db_current_node_delta (ds_delta_builder s1) = Some (sn_node_delta sn)"
      "ndl_max_version (sn_node_delta sn) = None" "ndl_key_values (sn_node_delta sn) = []"
      using s1(5) True by (simp_all add: sn_node_delta_def)
    have "sorted_wrt (<) (map kvm_version (ndl_key_values (sn_node_delta sn) @ map kv_mutation ?kvs))"
      using sorted_sn_mutations [OF wf(1)] by (simp add: cur(3) sn_mutations_def)
    moreover have "\<forall>m \<in> set (map kv_mutation ?kvs). kvm_wf m"
      using wf(2) by (simp add: sn_codable_def sn_mutations_def)
    moreover have "cap \<longrightarrow> serializer_fits s1 \<and> (\<forall>m \<in> set (map kv_mutation ?kvs). 1 + len_kvm m \<le> 16384)"
      using s1(3) cap by (simp add: sn_small_def sn_mutations_def)
    ultimately obtain reached added s2 n where
      s2: "add_stale_key_values zc ?kvs False s1 = Inr (reached, added, s2)"
      "serializer_inv zc s2" "cap \<longrightarrow> serializer_fits s2" "ds_mtu s2 = ds_mtu s"
      "\<not> reached \<longrightarrow> added = (?kvs \<noteq> [])"
      "ds_delta_builder s2 = ?b1 ((sn_node_delta sn)\<lparr>ndl_key_values := map kv_mutation (take n ?kvs)\<rparr>)"
      using add_stale_key_values_ok [OF z s1(2) _ cur(1,2), of ?kvs cap False] mtu s1(4,5) True cur(3)
      by auto
    let ?nd = "(sn_node_delta sn)\<lparr>ndl_key_values := map kv_mutation (take n ?kvs)\<rparr>"
    have covers: "node_delta_covers sn ?nd"
      using covers_sn_node_delta [of None sn n] by (simp add: sn_node_delta_def)
    show ?thesis
    proof (cases "reached \<or> added")
      case True
      with \<open>ok1\<close> s1(1) s2 covers show ?thesis
        by (auto simp: add_stale_node_def try_add_node_def b1 simp del: apply_op.simps)
    next
      case False
      let ?v = "ns_max_version ?ns"
      have empty: "?kvs = []" using False s2(5) by simp
      have ok2: "apply_op (ds_delta_builder s2) (OpSetMaxVersion ?v)
          = Inr (?b1 (?nd\<lparr>ndl_max_version := Some ?v\<rparr>))"
        using s2(6) by simp
      have op2: "op_in_order (ds_delta_builder s2) (OpSetMaxVersion ?v)"
        using s2(6) by (simp add: sn_node_delta_def)
      obtain ok3 s3 where s3: "try_add_op zc (OpSetMaxVersion ?v) s2 = Inr (ok3, s3)" "serializer_inv zc s3"
          "cap \<longrightarrow> serializer_fits s3" "ds_mtu s3 = ds_mtu s2"
          "ds_delta_builder s3 = (if ok3 then ?b1 (?nd\<lparr>ndl_max_version := Some ?v\<rparr>) else ds_delta_builder s2)"
        using try_add_op_step [OF z s2(2) _ _ op2 ok2, of cap] mtu s2(3,4) by auto
      have "node_delta_covers sn (?nd\<lparr>ndl_max_version := Some ?v\<rparr>)"
        using covers_sn_node_delta [of "Some ?v" sn n] empty by simp
      then have "\<exists>nd. builder_nodes (ds_delta_builder s3) = builder_nodes ?b @ [nd] \<and> node_delta_covers sn nd"
        using s3(5) s2(6) covers b1 by (cases ok3) metis+
      moreover have "add_stale_node zc sn s = Inr (True, s3)"
        using False \<open>ok1\<close> s1(1) s2(1) s3(1) by (simp add: add_stale_node_def try_add_node_def try_set_max_version_def)
      ultimately show ?thesis using s3(2,3,4) s2(4) by auto
    qed
  qed
qed

lemma add_stale_nodes_ok:
  assumes z: "zstd_fits zc" and inv: "serializer_inv zc s" and mtu: "ds_mtu s \<le> 65535"
    and distinct: "distinct (map sn_chitchat_id sns)"
    and fresh: "ndl_chitchat_id ` set (builder_nodes (ds_delta_builder s)) \<inter> sn_chitchat_id ` set sns = {}"
    and wf: "\<forall>sn \<in> set sns. ns_wf (sn_node_state sn) \<and> sn_codable sn"
    and cap: "cap \<longrightarrow> serializer_fits s \<and> (\<forall>sn \<in> set sns. sn_small sn)"
  shows "\<exists>s' nds. add_stale_nodes zc sns s = Inr s' \<and> serializer_inv zc s'
    \<and> (cap \<longrightarrow> serializer_fits s') \<and> ds_mtu s' = ds_mtu s
    \<and> builder_nodes (ds_delta_builder s') = builder_nodes (ds_delta_builder s) @ nds
    \<and> length nds \<le> length sns \<and> list_all2 node_delta_covers (take (length nds) sns) nds"
  using inv mtu distinct fresh wf cap
proof (induction sns arbitrary: s)
  case Nil
  then show ?case by (auto intro!: exI [of _ "[]"])
next
  case (Cons sn sns)
  have "\<exists>cont s' nds. add_stale_node zc sn s = Inr (cont, s') \<and> serializer_inv zc s'
    \<and> (cap \<longrightarrow> serializer_fits s') \<and> ds_mtu s' = ds_mtu s
    \<and> builder_nodes (ds_delta_builder s') = builder_nodes (ds_delta_builder s) @ nds
    \<and> (nds = [] \<and> \<not> cont \<or> (\<exists>nd. nds = [nd] \<and> node_delta_covers sn nd))"
    using Cons.prems by (intro add_stale_node_ok [OF z]) auto
  then obtain cont s1 nds1 where s1: "add_stale_node zc sn s = Inr (cont, s1)" "serializer_inv zc s1"
    "cap \<longrightarrow> serializer_fits s1" "ds_mtu s1 = ds_mtu s"
    "builder_nodes (ds_delta_builder s1) = builder_nodes (ds_delta_builder s) @ nds1"
    "nds1 = [] \<and> \<not> cont \<or> (\<exists>nd. nds1 = [nd] \<and> node_delta_covers sn nd)"
    by blast
  show ?case
  proof (cases cont)
    case False
    with s1 show ?thesis by (intro exI [of _ s1] exI [of _ nds1]) auto
  next
    case True
    with s1(6) obtain nd where nd: "nds1 = [nd]" "node_delta_covers sn nd" by blast
    then have "ndl_chitchat_id nd = sn_chitchat_id sn" by (simp add: node_delta_covers_def)
    then have "ndl_chitchat_id ` set (builder_nodes (ds_delta_builder s1)) \<inter> sn_chitchat_id ` set sns = {}"
      using s1(5) nd(1) Cons.prems(3,4) by auto
    then obtain s' nds where s': "add_stale_nodes zc sns s1 = Inr s'" "serializer_inv zc s'"
      "cap \<longrightarrow> serializer_fits s'" "ds_mtu s' = ds_mtu s1"
      "builder_nodes (ds_delta_builder s') = builder_nodes (ds_delta_builder s1) @ nds"
      "length nds \<le> length sns" "list_all2 node_delta_covers (take (length nds) sns) nds"
      using Cons.IH [of s1] Cons.prems s1 by auto
    then show ?thesis
      using True s1 nd by (intro exI [of _ s'] exI [of _ "nd # nds"]) auto
  qed
qed

text \<open>States whose identifiers, keys and values the wire format can carry, and states whose entries
  each fit one block of the stream.\<close>

definition ns_codable :: "NodeState \<Rightarrow> bool" where
  "ns_codable ns \<longleftrightarrow> list_all (\<lambda>(k, vv). wire_string k \<and> wire_string (vv_value vv)) (ns_key_values ns)"

definition cs_codable :: "ClusterState \<Rightarrow> bool" where
  "cs_codable cs \<longleftrightarrow> list_all (\<lambda>(i, ns). id_wf i \<and> ns_codable ns) (cs_node_states cs)"

definition cs_small :: "ClusterState \<Rightarrow> bool" where
  "cs_small cs \<longleftrightarrow> list_all (\<lambda>(i, ns). len_id i \<le> 16000
     \<and> list_all (\<lambda>(k, vv). length k + length (vv_value vv) \<le> 16000) (ns_key_values ns)) (cs_node_states cs)"

lemma offered_in_set:
  "sn \<in> set (offered digest scheduled es) \<longleftrightarrow> (\<exists>e \<in> set es. stale_node_of digest scheduled e = Some sn)"
  by (induction es) (auto split: option.splits)

lemma stale_node_of_Some:
  assumes "stale_node_of digest scheduled (i, ns) = Some sn"
  shows "sn_chitchat_id sn = i" "sn_node_state sn = ns" "i \<notin> scheduled"
    "sn_from_version_excluded sn < ns_max_version ns"
  using assms
  by (auto simp: stale_node_of_def Let_def word_pos_iff split: option.splits prod.splits if_splits)

lemma map_filter_ids:
  "set (map sn_chitchat_id (offered digest scheduled es)) \<subseteq> set (map fst es)"
  by (force simp: offered_in_set dest: stale_node_of_Some)

lemma distinct_offered:
  "distinct (map fst es) \<Longrightarrow> distinct (map sn_chitchat_id (offered digest scheduled es))"
proof (induction es)
  case (Cons e es)
  obtain i ns where e: "e = (i, ns)" by fastforce
  show ?case
    using Cons map_filter_ids [of digest scheduled es] stale_node_of_Some(1) [of digest scheduled i ns]
    by (auto simp: e split: option.split)
qed simp

lemma set_sn_mutations:
  "m \<in> set (sn_mutations sn) \<longleftrightarrow> (\<exists>k vv. m = kv_mutation (k, vv)
     \<and> (k, vv) \<in> set (ns_key_values (sn_node_state sn)) \<and> sn_from_version_excluded sn < vv_version vv)"
  by (auto simp: sn_mutations_def sn_stale_key_values_def stale_key_values_def
      key_values_including_deleted_def)

lemma offered_wf:
  assumes "cs_wf cs" and "cs_codable cs" and "sn \<in> set (offered digest scheduled (cs_node_states cs))"
  shows "ns_wf (sn_node_state sn)" "sn_codable sn" "cs_small cs \<Longrightarrow> sn_small sn"
proof -
  obtain i ns where e: "(i, ns) \<in> set (cs_node_states cs)" "stale_node_of digest scheduled (i, ns) = Some sn"
    using assms(3) by (auto simp: offered_in_set)
  note sn = stale_node_of_Some(1,2) [OF e(2)]
  show "ns_wf (sn_node_state sn)" using assms(1) e(1) sn by (auto simp: cs_wf_def list_all_iff)
  show "sn_codable sn"
    using assms(2) e(1) sn
    by (fastforce simp: cs_codable_def ns_codable_def sn_codable_def list_all_iff set_sn_mutations
        kv_mutation_def kvm_wf_def)
  show "sn_small sn" if "cs_small cs"
    using that e(1) sn
    by (fastforce simp: cs_small_def sn_small_def list_all_iff set_sn_mutations kv_mutation_def
        len_kvm_def len_str_def)
qed

lemma compute_partial_delta_aux:
  assumes z: "zstd_fits zc" and sh: "permutes shuffle" and wf: "cs_wf cs" "cs_codable cs"
    and mtu: "100 \<le> mtu" "mtu \<le> 65535"
  obtains d sns bs where
    "compute_partial_delta_respecting_mtu zc shuffle cs digest mtu scheduled = Inr d"
    "delta_ordered d"
    "mset sns = mset (offered digest scheduled (cs_node_states cs))"
    "sorted_wrt (\<lambda>a b. the (sn_key b) \<le> the (sn_key a)) sns"
    "length (node_deltas d) \<le> length sns"
    "list_all2 node_delta_covers (take (length (node_deltas d)) sns) (node_deltas d)"
    "delta_serialize zc d = Inr bs" "length bs = serialized_len d"
    "cs_small cs \<longrightarrow> serialized_len d \<le> mtu"
proof -
  let ?es = "cs_node_states cs"
  define ssn where "ssn = foldl (\<lambda>ssn e. offer_node digest scheduled e ssn) [] ?es"
  define sns where "sns = stale_into_iter shuffle ssn"
  have ssn: "ssn_wf ssn" "mset (concat (map snd ssn)) = mset (offered digest scheduled ?es)"
    using offer_all [of "[]" digest scheduled ?es] by (simp_all add: ssn_def ssn_wf_def)
  have sns: "mset sns = mset (offered digest scheduled ?es)"
    by (simp add: sns_def mset_stale_into_iter [OF sh] ssn(2))
  then have set_sns: "set sns = set (offered digest scheduled ?es)" by (metis set_mset_mset)
  have "distinct (map sn_chitchat_id (offered digest scheduled ?es))"
    using wf(1) by (intro distinct_offered btm_wf_distinct) (simp add: cs_wf_def)
  then have distinct: "distinct (map sn_chitchat_id sns)"
    using sns by (metis mset_eq_imp_distinct_iff mset_map)
  obtain s0 where s0: "with_mtu mtu = Inr s0" using with_mtu_ok [OF mtu(1)] by blast
  note s0_inv = with_mtu_inv [OF s0, of zc]
  obtain s nds where s: "add_stale_nodes zc sns s0 = Inr s" "serializer_inv zc s"
    "cs_small cs \<longrightarrow> serializer_fits s" "ds_mtu s = ds_mtu s0"
    "builder_nodes (ds_delta_builder s) = nds"
    "length nds \<le> length sns" "list_all2 node_delta_covers (take (length nds) sns) nds"
    using add_stale_nodes_ok [OF z _ _ distinct, of s0 "cs_small cs"] s0_inv mtu(2)
      offered_wf [OF wf, of _ digest scheduled] set_sns by auto
  obtain d bs where d: "finish_delta zc s = Inr d" "node_deltas d = nds" "delta_ordered d"
    "delta_serialize zc d = Inr bs" "length bs = serialized_len d"
    "serializer_fits s \<longrightarrow> serialized_len d \<le> ds_mtu s"
    using finish_delta_ok [OF z s(2)] s(5) by blast
  have "compute_partial_delta_respecting_mtu zc shuffle cs digest mtu scheduled = Inr d"
    using s0 s(1) d(1)
    by (simp add: compute_partial_delta_respecting_mtu_def ssn_def [symmetric] sns_def [symmetric])
  with d s sns s0_inv stale_into_iter_decreasing [OF sh ssn(1)] show thesis
    by (intro that [of d sns bs]) (simp_all add: sns_def)
qed

section \<open>Properties\<close>

text \<open>
  C10. On a well-formed cluster state whose strings fit the wire format, and for every digest, set of
  nodes scheduled for deletion, shuffling and \<^verbatim>\<open>mtu\<close> from 100 to 65535, computing a delta does not
  panic. The delta is ordered and encodes to the length it announces. Its nodes are the first of the
  stale nodes in decreasing order of staleness, none of them scheduled for deletion, each with the
  first of its stale key-values in the order of versions; and if every entry is at most 16000 bytes
  long the encoding respects the \<^verbatim>\<open>mtu\<close>.
\<close>

theorem compute_partial_delta_correct:
  assumes "zstd_fits zc" and "permutes shuffle" and "cs_wf cs" and "cs_codable cs"
    and "100 \<le> mtu" and "mtu \<le> 65535"
  shows "\<exists>d sns bs. compute_partial_delta_respecting_mtu zc shuffle cs digest mtu scheduled = Inr d
    \<and> delta_ordered d \<and> delta_serialize zc d = Inr bs \<and> length bs = serialized_len d
    \<and> mset sns = mset (offered digest scheduled (cs_node_states cs))
    \<and> sorted_wrt (\<lambda>a b. the (sn_key b) \<le> the (sn_key a)) sns
    \<and> list_all2 node_delta_covers (take (length (node_deltas d)) sns) (node_deltas d)
    \<and> (\<forall>nd \<in> set (node_deltas d). ndl_chitchat_id nd \<notin> scheduled)
    \<and> (cs_small cs \<longrightarrow> serialized_len d \<le> mtu)"
proof -
  obtain d sns bs where d:
    "compute_partial_delta_respecting_mtu zc shuffle cs digest mtu scheduled = Inr d" "delta_ordered d"
    "mset sns = mset (offered digest scheduled (cs_node_states cs))"
    "sorted_wrt (\<lambda>a b. the (sn_key b) \<le> the (sn_key a)) sns"
    "length (node_deltas d) \<le> length sns"
    "list_all2 node_delta_covers (take (length (node_deltas d)) sns) (node_deltas d)"
    "delta_serialize zc d = Inr bs" "length bs = serialized_len d" "cs_small cs \<longrightarrow> serialized_len d \<le> mtu"
    using compute_partial_delta_aux [OF assms] by metis
  have "ndl_chitchat_id nd \<notin> scheduled" if nd: "nd \<in> set (node_deltas d)" for nd
  proof -
    obtain sn where sn: "sn \<in> set sns" "node_delta_covers sn nd"
      using d(6) nd by (metis in_set_conv_nth in_set_takeD list_all2_conv_all_nth nth_mem)
    then have "sn \<in> set (offered digest scheduled (cs_node_states cs))" using d(3) by (metis set_mset_mset)
    then have "sn_chitchat_id sn \<notin> scheduled"
      by (auto simp: offered_in_set dest: stale_node_of_Some(1,3))
    with sn(2) show ?thesis by (simp add: node_delta_covers_def)
  qed
  with d show ?thesis by (intro exI [of _ d] exI [of _ sns] exI [of _ bs]) blast
qed

definition demo_cluster :: ClusterState where
  "demo_cluster = put_node_state (ns_chitchat_id demo_node) demo_node (with_seed_addrs {})"

lemma demo_cluster_wf: "cs_wf demo_cluster" "cs_codable demo_cluster"
proof -
  show "cs_wf demo_cluster"
    unfolding demo_cluster_def by (intro cs_wf_put cs_wf_with_seed_addrs demo_node_wf refl)
  show "cs_codable demo_cluster"
    by (simp add: demo_cluster_def cs_codable_def put_node_state_def with_seed_addrs_def ns_codable_def
        demo_node_def NodeState_for_test_def id_wf_def plain_addr_def wire_string_ascii)
qed

theorem compute_partial_delta_correct_witness:
  "\<exists>d. compute_partial_delta_respecting_mtu zstd_never (\<lambda>_ xs. xs) demo_cluster \<lparr>node_digests = []\<rparr> 1000 {} = Inr d
     \<and> delta_ordered d"
proof -
  have "permutes (\<lambda>_ xs. xs)" by (simp add: permutes_def)
  from compute_partial_delta_correct [OF zstd_never_contract(1) this demo_cluster_wf, of 1000]
  show ?thesis by fastforce
qed

text \<open>
  A delta acts on every node on its own: the state of a node it names becomes that of applying
  its part of the delta, a node it does not name keeps its state, and the invariant is kept.
\<close>

lemma cluster_apply_delta_pointwise:
  assumes "cs_wf cs" and "delta_ordered d"
  shows "cs_wf (fst (cluster_apply_delta d now cs))
    \<and> node_state_mut (fst (cluster_apply_delta d now cs)) i =
        (case map_of (map (\<lambda>nd. (ndl_chitchat_id nd, nd)) (node_deltas d)) i of
           None \<Rightarrow> node_state_mut cs i
         | Some nd \<Rightarrow> fst (node_apply_delta nd now (node_state_mut cs i)))"
  using assms cluster_apply_delta_wf [OF assms]
    node_state_mut_apply_node_deltas [OF assms(1), of "node_deltas d" now i]
  by (simp add: cluster_apply_delta_def delta_ordered_def)

end
