(* ===== verification/Floating_Point.thy ===== *)
theory Floating_Point
  imports Complex_Main "HOL-Library.Log_Nat"
begin

text \<open>
  The arithmetic of \<^verbatim>\<open>f64\<close> that the failure detector uses. A finite floating-point number is the real number
  it stands for, and an operation returns the exact result rounded to 53 significant bits, to the nearest
  and with ties to the even one. The range of the exponent is not bounded: durations are at most
  \<open>2 ^ 64\<close> seconds and at least a nanosecond when they are not zero, far from where \<^verbatim>\<open>f64\<close> overflows or has
  fewer bits. What the proofs use is that rounding is exact on integers up to \<open>2 ^ 53\<close> and off by at
  most \<open>f64_eps\<close> of the exact value. The definitions evaluate on rational numbers.
\<close>

section \<open>Rounding\<close>

definition round_half_even :: "real \<Rightarrow> int" where
  "round_half_even x = (let n = \<lfloor>x\<rfloor>; d = x - of_int n
     in if d < 1 / 2 \<or> (d = 1 / 2 \<and> even n) then n else n + 1)"

definition f64_exponent :: "real \<Rightarrow> int" where
  "f64_exponent x = \<lfloor>log 2 \<bar>x\<bar>\<rfloor>"

definition f64_round :: "real \<Rightarrow> real" where
  "f64_round x = (if x = 0 then 0
     else let ulp = 2 powi (f64_exponent x - 52) in of_int (round_half_even (x / ulp)) * ulp)"

definition f64_eps :: real where
  "f64_eps = 1 / 2 ^ 53"

definition f64_add :: "real \<Rightarrow> real \<Rightarrow> real" where
  "f64_add a b = f64_round (a + b)"

definition f64_sub :: "real \<Rightarrow> real \<Rightarrow> real" where
  "f64_sub a b = f64_round (a - b)"

definition f64_mul :: "real \<Rightarrow> real \<Rightarrow> real" where
  "f64_mul a b = f64_round (a * b)"

definition f64_quotient :: "real \<Rightarrow> real \<Rightarrow> real" where
  "f64_quotient a b = f64_round (a / b)"

text \<open>The conversion \<^verbatim>\<open>as f64\<close> of an unsigned integer.\<close>

definition f64_of_nat :: "nat \<Rightarrow> real" where
  "f64_of_nat n = f64_round (real n)"

section \<open>Rounding to an integer\<close>

lemma round_half_even_error: "\<bar>of_int (round_half_even x) - x\<bar> \<le> 1 / 2"
proof -
  have "of_int \<lfloor>x\<rfloor> \<le> x" "x < of_int \<lfloor>x\<rfloor> + 1" by linarith+
  then show ?thesis by (auto simp: round_half_even_def Let_def)
qed

lemma round_half_even_of_int [simp]: "round_half_even (of_int k) = k"
  by (simp add: round_half_even_def)

section \<open>The exponent\<close>

lemma exponent_bounds:
  assumes "x \<noteq> 0"
  shows "2 powi f64_exponent x \<le> \<bar>x\<bar>" and "\<bar>x\<bar> < 2 powi (f64_exponent x + 1)"
proof -
  have pos: "0 < \<bar>x\<bar>" using assms by simp
  have "of_int (f64_exponent x) \<le> log 2 \<bar>x\<bar>" "log 2 \<bar>x\<bar> < of_int (f64_exponent x) + 1"
    unfolding f64_exponent_def by linarith+
  then have "2 powr of_int (f64_exponent x) \<le> \<bar>x\<bar>" "\<bar>x\<bar> < 2 powr of_int (f64_exponent x + 1)"
    using pos by (simp_all add: le_log_iff log_less_iff)
  then show "2 powi f64_exponent x \<le> \<bar>x\<bar>" "\<bar>x\<bar> < 2 powi (f64_exponent x + 1)"
    using powr_real_of_int' [of "2 :: real" "f64_exponent x"] powr_real_of_int' [of "2 :: real" "f64_exponent x + 1"]
    by simp_all
qed

lemma f64_ulp:
  assumes "x \<noteq> 0"
  shows "0 < (2 :: real) powi (f64_exponent x - 52)" and "2 ^ 52 * 2 powi (f64_exponent x - 52) \<le> \<bar>x\<bar>"
    and "\<bar>x\<bar> < 2 ^ 53 * 2 powi (f64_exponent x - 52)"
proof -
  have e: "(2 :: real) powi f64_exponent x = 2 ^ 52 * 2 powi (f64_exponent x - 52)"
    "(2 :: real) powi (f64_exponent x + 1) = 2 ^ 53 * 2 powi (f64_exponent x - 52)"
    using power_int_add [of "2 :: real" "f64_exponent x - 52" 52] power_int_add [of "2 :: real" "f64_exponent x - 52" 53]
    by (simp_all add: add.commute)
  show "0 < (2 :: real) powi (f64_exponent x - 52)" by simp
  show "2 ^ 52 * 2 powi (f64_exponent x - 52) \<le> \<bar>x\<bar>" "\<bar>x\<bar> < 2 ^ 53 * 2 powi (f64_exponent x - 52)"
    using exponent_bounds [OF assms] unfolding e by simp_all
qed

section \<open>The error of rounding\<close>

lemma f64_eps_bounds: "0 < f64_eps" "f64_eps \<le> 1 / 1000"
  by (simp_all add: f64_eps_def)

lemma f64_round_0 [simp]: "f64_round 0 = 0"
  by (simp add: f64_round_def)

lemma f64_round_error: "\<bar>f64_round x - x\<bar> \<le> f64_eps * \<bar>x\<bar>"
proof (cases "x = 0")
  case False
  let ?u = "2 powi (f64_exponent x - 52) :: real"
  note u = f64_ulp [OF False]
  have "f64_round x - x = (of_int (round_half_even (x / ?u)) - x / ?u) * ?u"
    using u(1) False by (simp add: f64_round_def Let_def left_diff_distrib)
  then have "\<bar>f64_round x - x\<bar> = \<bar>of_int (round_half_even (x / ?u)) - x / ?u\<bar> * ?u" using u(1) by (simp add: abs_mult)
  also have "\<dots> \<le> 1 / 2 * ?u" using round_half_even_error u(1) by (intro mult_right_mono) simp_all
  also have "\<dots> \<le> f64_eps * \<bar>x\<bar>" using u(2) by (simp add: f64_eps_def field_simps)
  finally show ?thesis .
qed simp

lemma f64_round_pos:
  assumes "0 \<le> x"
  shows "(1 - f64_eps) * x \<le> f64_round x" and "f64_round x \<le> (1 + f64_eps) * x" and "0 \<le> f64_round x"
proof -
  show low: "(1 - f64_eps) * x \<le> f64_round x" and "f64_round x \<le> (1 + f64_eps) * x"
    using f64_round_error [of x] assms by (auto simp: algebra_simps abs_le_iff)
  have "0 \<le> (1 - f64_eps) * x" using assms f64_eps_bounds by simp
  with low show "0 \<le> f64_round x" by linarith
qed

lemma eps_cube: "1 \<le> (1 + f64_eps) ^ (2 * k) * (1 - f64_eps) ^ k"
proof -
  have "1 \<le> (1 + f64_eps)\<^sup>2 * (1 - f64_eps)" by (simp add: f64_eps_def power2_eq_square)
  from one_le_power [OF this, of k] show ?thesis by (simp add: power_mult power_mult_distrib)
qed

lemma eps_power_le:
  assumes "2 * real k * f64_eps \<le> 1"
  shows "(1 + f64_eps) ^ k \<le> 1 + 2 * real k * f64_eps"
  using assms
proof (induction k)
  case (Suc k)
  have le: "2 * real k * f64_eps \<le> 1" using Suc.prems f64_eps_bounds by (simp add: distrib_left distrib_right)
  have "(1 + f64_eps) ^ Suc k \<le> (1 + f64_eps) * (1 + 2 * real k * f64_eps)"
    using Suc.IH [OF le] f64_eps_bounds by simp
  also have "\<dots> = 1 + (2 * real k + 1) * f64_eps + f64_eps * (2 * real k * f64_eps)" by (simp add: algebra_simps)
  also have "\<dots> \<le> 1 + (2 * real k + 1) * f64_eps + f64_eps * 1"
    using le f64_eps_bounds by (intro add_left_mono mult_left_mono) simp_all
  also have "\<dots> = 1 + 2 * real (Suc k) * f64_eps" by (simp add: algebra_simps)
  finally show ?case .
qed simp

section \<open>Integers\<close>

lemma f64_round_of_int:
  assumes "\<bar>k\<bar> \<le> 2 ^ 53"
  shows "f64_round (of_int k) = of_int k"
proof (cases "k = 0")
  case False
  let ?e = "f64_exponent (of_int k) - 52" and ?x = "of_int k :: real"
  have x: "?x \<noteq> 0" using False by simp
  note u = f64_ulp [OF x]
  have "\<exists>j. ?x / 2 powi ?e = of_int j"
  proof (cases "?e \<le> 0")
    case True
    have "(2 :: real) powi ?e * 2 powi (- ?e) = 1" using power_int_add [of "2 :: real" ?e "- ?e"] by simp
    then have "?x / 2 powi ?e = ?x * 2 powi (- ?e)" by (simp add: field_simps)
    also have "\<dots> = of_int (k * 2 ^ nat (- ?e))" using True by (simp add: power_int_def)
    finally show ?thesis by blast
  next
    case False
    have "\<bar>?x\<bar> \<le> 2 ^ 53" using assms by (metis of_int_abs of_int_le_numeral_power_cancel_iff)
    then have "2 ^ 52 * (2 :: real) powi ?e \<le> 2 ^ 53" using u(2) by linarith
    then have "(2 :: real) powi ?e \<le> 2 powi 1" by simp
    then have "?e \<le> 1" by (rule power_int_le_imp_le_exp [rotated]) simp_all
    with False have e: "?e = 1" by linarith
    with u(2) have "2 ^ 53 \<le> \<bar>?x\<bar>" by simp
    then have "of_int (2 ^ 53) \<le> (of_int \<bar>k\<bar> :: real)" by simp
    with assms have "\<bar>k\<bar> = 2 ^ 53" by (simp only: of_int_le_iff)
    then have "k = 2 ^ 53 \<or> k = - (2 ^ 53)" by linarith
    then have "k = 2 * (k div 2)" by auto
    then have "?x = 2 * of_int (k div 2)" by (metis of_int_mult of_int_numeral)
    with e show ?thesis by simp
  qed
  then obtain j where j: "?x / 2 powi ?e = of_int j" by blast
  then have "f64_round ?x = of_int j * 2 powi ?e" using False by (simp add: f64_round_def)
  also have "\<dots> = ?x" using j u(1) by (simp add: field_simps)
  finally show ?thesis .
qed simp

lemma f64_round_of_nat: "n \<le> 2 ^ 53 \<Longrightarrow> f64_round (real n) = real n"
  using f64_round_of_int [of "int n"] by simp

section \<open>Evaluation\<close>

lemma f64_exponent_eq:
  assumes "2 powi e \<le> \<bar>x\<bar>" and "\<bar>x\<bar> < 2 powi (e + 1)"
  shows "f64_exponent x = e"
proof -
  have pos: "0 < \<bar>x\<bar>" using assms(1) zero_less_power_int [of "2 :: real" e] by linarith
  have "2 powr of_int e \<le> \<bar>x\<bar>" "\<bar>x\<bar> < 2 powr of_int (e + 1)"
    using assms powr_real_of_int' [of "2 :: real" e] powr_real_of_int' [of "2 :: real" "e + 1"] by simp_all
  then have "of_int e \<le> log 2 \<bar>x\<bar>" "log 2 \<bar>x\<bar> < of_int e + 1" using pos by (simp_all add: le_log_iff log_less_iff)
  then show ?thesis unfolding f64_exponent_def by (rule floor_unique)
qed

text \<open>The exponent of a fraction, from the lengths of its numerator and its denominator.\<close>

definition ratio_exponent :: "int \<Rightarrow> int \<Rightarrow> int" where
  "ratio_exponent p q = (let e = bitlen p - bitlen q
     in if 0 \<le> e then (if 2 ^ nat e * q \<le> p then e else e - 1) else (if q \<le> 2 ^ nat (- e) * p then e else e - 1))"

lemma bitlen_powi:
  assumes "0 < n"
  shows "2 powi (bitlen n - 1) \<le> real_of_int n" and "real_of_int n < 2 powi bitlen n"
proof -
  have pos: "0 < bitlen n" using assms bitlen_nonneg [of n] bitlen_eq_zero_iff [of n] by linarith
  have "real_of_int (2 ^ nat (bitlen n - 1)) \<le> real_of_int n" "real_of_int n < real_of_int (2 ^ nat (bitlen n))"
    using bitlen_bounds [OF assms] by (simp_all only: of_int_le_iff of_int_less_iff)
  with pos show "2 powi (bitlen n - 1) \<le> real_of_int n" "real_of_int n < 2 powi bitlen n" by (simp_all add: power_int_def)
qed

lemma ratio_exponent:
  assumes "0 < p" and "0 < q"
  shows "f64_exponent (real_of_int p / real_of_int q) = ratio_exponent p q"
proof -
  define e where "e = bitlen p - bitlen q"
  let ?x = "real_of_int p / real_of_int q"
  have q: "0 < real_of_int q" and abs: "\<bar>?x\<bar> = ?x" using assms by simp_all
  have test: "(if 0 \<le> e then 2 ^ nat e * q \<le> p else q \<le> 2 ^ nat (- e) * p) \<longleftrightarrow> 2 powi e * real_of_int q \<le> real_of_int p"
  proof (cases "0 \<le> e")
    case True
    then have "2 powi e * real_of_int q = real_of_int (2 ^ nat e * q)" by (simp add: power_int_def)
    with True show ?thesis by (simp only: of_int_le_iff if_True)
  next
    case False
    then have "2 powi e * real_of_int q \<le> real_of_int p \<longleftrightarrow> real_of_int q \<le> real_of_int (2 ^ nat (- e) * p)"
      by (simp add: power_int_def field_simps)
    with False show ?thesis by (simp only: of_int_le_iff if_False)
  qed
  have up: "real_of_int p < 2 powi (e + 1) * real_of_int q"
  proof -
    have "real_of_int p < 2 powi bitlen p" by (rule bitlen_powi [OF assms(1)])
    also have "\<dots> = 2 powi (e + 1) * 2 powi (bitlen q - 1)" by (simp add: e_def flip: power_int_add)
    also have "\<dots> \<le> 2 powi (e + 1) * real_of_int q" using bitlen_powi [OF assms(2)] by (intro mult_left_mono) simp_all
    finally show ?thesis .
  qed
  have low: "2 powi (e - 1) * real_of_int q \<le> real_of_int p"
  proof -
    have "2 powi (e - 1) * real_of_int q \<le> 2 powi (e - 1) * 2 powi bitlen q" using bitlen_powi [OF assms(2)] by (intro mult_left_mono) simp_all
    also have "\<dots> = 2 powi (bitlen p - 1)" by (simp add: e_def flip: power_int_add)
    also have "\<dots> \<le> real_of_int p" by (rule bitlen_powi [OF assms(1)])
    finally show ?thesis .
  qed
  show ?thesis
  proof (cases "2 powi e * real_of_int q \<le> real_of_int p")
    case True
    then have "f64_exponent ?x = e" using up q assms(1) by (intro f64_exponent_eq) (simp_all add: field_simps)
    with True test show ?thesis by (simp add: ratio_exponent_def Let_def flip: e_def split: if_splits)
  next
    case False
    then have "f64_exponent ?x = e - 1" using low q assms(1) by (intro f64_exponent_eq) (simp_all add: field_simps)
    with False test show ?thesis by (simp add: ratio_exponent_def Let_def flip: e_def split: if_splits)
  qed
qed

text \<open>Rounding a fraction, as a numerator and a denominator.\<close>

definition round_ratio :: "int \<Rightarrow> int \<Rightarrow> int" where
  "round_ratio n d = (let k = n div d; r = n mod d in if 2 * r < d \<or> (2 * r = d \<and> even k) then k else k + 1)"

definition f64_fraction :: "int \<Rightarrow> int \<Rightarrow> int \<times> int" where
  "f64_fraction p q = (if p = 0 then (0, 1)
     else let e = ratio_exponent \<bar>p\<bar> q - 52
       in if 0 \<le> e then (round_ratio p (q * 2 ^ nat e) * 2 ^ nat e, 1)
          else (round_ratio (p * 2 ^ nat (- e)) q, 2 ^ nat (- e)))"

lemma round_ratio:
  assumes "0 < d"
  shows "round_half_even (real_of_int n / real_of_int d) = round_ratio n d"
proof -
  have fl: "\<lfloor>real_of_int n / real_of_int d\<rfloor> = n div d" by (rule floor_divide_of_int_eq)
  have "real_of_int n = real_of_int (n div d) * real_of_int d + real_of_int (n mod d)" by (metis div_mult_mod_eq of_int_add of_int_mult)
  then have rest: "real_of_int n / real_of_int d - real_of_int (n div d) = real_of_int (n mod d) / real_of_int d"
    using assms by (simp add: field_simps)
  have "real_of_int (n mod d) / real_of_int d < 1 / 2 \<longleftrightarrow> real_of_int (2 * (n mod d)) < real_of_int d"
    "real_of_int (n mod d) / real_of_int d = 1 / 2 \<longleftrightarrow> real_of_int (2 * (n mod d)) = real_of_int d"
    using assms by (auto simp: field_simps)
  then show ?thesis unfolding round_half_even_def round_ratio_def Let_def fl rest by (simp only: of_int_less_iff of_int_eq_iff)
qed

lemma f64_fraction:
  assumes "0 < q"
  shows "f64_round (real_of_int p / real_of_int q) = (case f64_fraction p q of (n, d) \<Rightarrow> real_of_int n / real_of_int d)"
proof (cases "p = 0")
  case True
  then show ?thesis by (simp add: f64_fraction_def)
next
  case False
  let ?x = "real_of_int p / real_of_int q"
  define e where "e = ratio_exponent \<bar>p\<bar> q - 52"
  have "f64_exponent ?x = f64_exponent (real_of_int \<bar>p\<bar> / real_of_int q)" using assms by (simp add: f64_exponent_def)
  then have "f64_exponent ?x - 52 = e" using ratio_exponent [of "\<bar>p\<bar>" q] False assms by (simp add: e_def)
  then have r: "f64_round ?x = of_int (round_half_even (?x / 2 powi e)) * 2 powi e" using False assms by (simp add: f64_round_def Let_def)
  show ?thesis
  proof (cases "0 \<le> e")
    case True
    then have "?x / 2 powi e = real_of_int p / real_of_int (q * 2 ^ nat e)" by (simp add: power_int_def)
    with r True False round_ratio [of "q * 2 ^ nat e" p] assms show ?thesis
      by (simp add: f64_fraction_def power_int_def Let_def flip: e_def)
  next
    case neg: False
    then have "?x / 2 powi e = real_of_int (p * 2 ^ nat (- e)) / real_of_int q" by (simp add: power_int_def field_simps)
    with r neg False round_ratio [of q "p * 2 ^ nat (- e)"] assms show ?thesis
      by (simp add: f64_fraction_def power_int_def Let_def field_simps flip: e_def)
  qed
qed

text \<open>A rational number is known to the code generator by its quotient.\<close>

definition rat_round :: "rat \<Rightarrow> rat" where
  "rat_round r = (case quotient_of r of (p, q) \<Rightarrow> Frct (f64_fraction p q))"

lemma rat_round_code [code abstract]:
  "quotient_of (rat_round r) = (case quotient_of r of (p, q) \<Rightarrow> Rat.normalize (f64_fraction p q))"
  by (cases "quotient_of r", cases "f64_fraction (fst (quotient_of r)) (snd (quotient_of r))") (simp add: rat_round_def quotient_of_Fract)

lemma f64_round_code [code]: "f64_round (Ratreal r) = Ratreal (rat_round r)"
proof -
  obtain p q where pq: "quotient_of r = (p, q)" by fastforce
  then have r: "r = of_int p / of_int q" "0 < q" by (simp_all add: quotient_of_div quotient_of_denom_pos)
  obtain n d where nd: "f64_fraction p q = (n, d)" by fastforce
  then have "d \<noteq> 0" using r(2) by (auto simp: f64_fraction_def Let_def split: if_splits)
  with f64_fraction [OF r(2), of p] pq nd r show ?thesis by (simp add: rat_round_def of_rat_divide Fract_of_int_quotient)
qed

text \<open>Sums of zeros stay small when they are evaluated.\<close>

lemma f64_add_code [code]: "f64_add a b = (if a = 0 \<and> b = 0 then 0 else f64_round (a + b))"
  by (simp add: f64_add_def)

lemma f64_sub_code [code]: "f64_sub a b = (if a = 0 \<and> b = 0 then 0 else f64_round (a - b))"
  by (simp add: f64_sub_def)

end
