(* ===== verification/Failure_Detector.thy ===== *)
theory Failure_Detector
  imports Types Floating_Point
begin

text \<open>
  \<^verbatim>\<open>chitchat/src/failure_detector.rs\<close>: the phi accrual failure detector, with the arithmetic of \<^verbatim>\<open>f64\<close> from
  \<open>Floating_Point\<close>, every operation rounded. A division by zero, whose result is not a finite number in
  Rust, is kept apart (\<open>NotFinite\<close>). \<^verbatim>\<open>Duration::div_f32(2.0)\<close>, which rounds to single precision, is the
  parameter \<open>half\<close>.
\<close>

section \<open>The array of the most recent intervals\<close>

record BoundedArrayStats =
  bas_values :: "real list"
  bas_is_filled :: bool
  bas_index :: nat
  bas_sum :: real

definition bas_with_capacity :: "nat \<Rightarrow> BoundedArrayStats" where
  "bas_with_capacity capacity = \<lparr>bas_values = replicate capacity 0, bas_is_filled = False,
     bas_index = 0, bas_sum = 0\<rparr>"

definition bas_append :: "real \<Rightarrow> BoundedArrayStats \<Rightarrow> panic + BoundedArrayStats" where
  "bas_append interval b =
     (if \<not> bas_index b < length (bas_values b) then Inl IndexOutOfBounds
      else
        let s = (if bas_is_filled b then f64_sub (bas_sum b) (bas_values b ! bas_index b) else bas_sum b);
            b = b\<lparr>bas_values := (bas_values b)[bas_index b := interval], bas_sum := f64_add s interval\<rparr>
        in if bas_index b = length (bas_values b) - 1
           then Inr (b\<lparr>bas_is_filled := True, bas_index := 0\<rparr>)
           else Inr (b\<lparr>bas_index := bas_index b + 1\<rparr>))"

definition bas_clear :: "BoundedArrayStats \<Rightarrow> BoundedArrayStats" where
  "bas_clear b = b\<lparr>bas_index := 0, bas_is_filled := False, bas_sum := 0\<rparr>"

definition bas_len :: "BoundedArrayStats \<Rightarrow> nat" where
  "bas_len b = (if bas_is_filled b then length (bas_values b) else bas_index b)"

section \<open>The sampling window of a node\<close>

record AdditiveSmoothing =
  as_prior_mean :: real
  as_prior_weight :: real

definition compute_mean :: "AdditiveSmoothing \<Rightarrow> nat \<Rightarrow> real \<Rightarrow> real" where
  "compute_mean a len s = f64_quotient (f64_add s (f64_mul (as_prior_weight a) (as_prior_mean a)))
     (f64_add (f64_of_nat len) (as_prior_weight a))"

record SamplingWindow =
  sw_intervals :: BoundedArrayStats
  sw_last_heartbeat :: "instant option"
  sw_max_interval :: duration
  sw_additive_smoothing :: AdditiveSmoothing

text \<open>\<^verbatim>\<open>Duration::as_secs_f64\<close>: the whole seconds plus the rest in nanoseconds over \<open>10 ^ 9\<close>.\<close>

definition as_secs_f64 :: "duration \<Rightarrow> real" where
  "as_secs_f64 d = f64_add (f64_of_nat (d div 1000000000)) (f64_quotient (f64_of_nat (d mod 1000000000)) 1000000000)"

definition SamplingWindow_new :: "nat \<Rightarrow> duration \<Rightarrow> duration \<Rightarrow> SamplingWindow" where
  "SamplingWindow_new window_size max_interval prior_interval =
     \<lparr>sw_intervals = bas_with_capacity window_size, sw_last_heartbeat = None,
      sw_max_interval = max_interval,
      sw_additive_smoothing = \<lparr>as_prior_mean = as_secs_f64 prior_interval, as_prior_weight = 5\<rparr>\<rparr>"

text \<open>\<^verbatim>\<open>duration_since\<close> and \<^verbatim>\<open>elapsed\<close> saturate at zero, as subtraction of naturals does.\<close>

definition sw_report_heartbeat :: "instant \<Rightarrow> SamplingWindow \<Rightarrow> panic + SamplingWindow" where
  "sw_report_heartbeat now w =
     result_bind
       (case sw_last_heartbeat w of
          Some last_value \<Rightarrow>
            (let interval = now - last_value in
             if interval \<le> sw_max_interval w
             then result_bind (bas_append (as_secs_f64 interval) (sw_intervals w)) (\<lambda>b.
               Inr (w\<lparr>sw_intervals := b\<rparr>))
             else Inr w)
        | None \<Rightarrow> Inr w)
       (\<lambda>w. Inr (w\<lparr>sw_last_heartbeat := Some now\<rparr>))"

definition sw_reset :: "SamplingWindow \<Rightarrow> SamplingWindow" where
  "sw_reset w = w\<lparr>sw_intervals := bas_clear (sw_intervals w)\<rparr>"

datatype phi_value = Finite real | NotFinite

definition f64_div :: "real \<Rightarrow> real \<Rightarrow> phi_value" where
  "f64_div a b = (if b = 0 then NotFinite else Finite (f64_quotient a b))"

fun phi_le :: "phi_value \<Rightarrow> real \<Rightarrow> bool" where
  "phi_le (Finite p) t = (p \<le> t)"
| "phi_le NotFinite t = False"

definition sw_phi :: "instant \<Rightarrow> SamplingWindow \<Rightarrow> phi_value option" where
  "sw_phi now w =
     (if bas_len (sw_intervals w) = 0 then None
      else case sw_last_heartbeat w of
        None \<Rightarrow> None
      | Some last_heartbeat \<Rightarrow>
          let interval_mean = compute_mean (sw_additive_smoothing w) (bas_len (sw_intervals w))
                (bas_sum (sw_intervals w));
              elapsed_time = as_secs_f64 (now - last_heartbeat)
          in Some (f64_div elapsed_time interval_mean))"

section \<open>The failure detector\<close>

record FailureDetectorConfig =
  fdc_phi_threshold :: real
  fdc_sampling_window_size :: nat
  fdc_max_interval :: duration
  fdc_initial_interval :: duration
  fdc_dead_node_grace_period :: duration

definition FailureDetectorConfig_new ::
    "real \<Rightarrow> nat \<Rightarrow> duration \<Rightarrow> duration \<Rightarrow> duration \<Rightarrow> FailureDetectorConfig" where
  "FailureDetectorConfig_new phi_threshold window_size max_interval initial_interval grace_period =
     \<lparr>fdc_phi_threshold = phi_threshold, fdc_sampling_window_size = window_size,
      fdc_max_interval = max_interval, fdc_initial_interval = initial_interval,
      fdc_dead_node_grace_period = grace_period\<rparr>"

definition from_secs :: "nat \<Rightarrow> duration" where
  "from_secs s = s * 1000000000"

definition FailureDetectorConfig_default :: FailureDetectorConfig where
  "FailureDetectorConfig_default = \<lparr>fdc_phi_threshold = 8, fdc_sampling_window_size = 1000,
     fdc_max_interval = from_secs 10, fdc_initial_interval = from_secs 5,
     fdc_dead_node_grace_period = from_secs (24 * 60 * 60)\<rparr>"

record FailureDetector =
  fd_node_samples :: "(ChitchatId, SamplingWindow) btree_map"
  fd_config :: FailureDetectorConfig
  fd_live_nodes :: "ChitchatId set"
  fd_dead_nodes :: "(ChitchatId, instant) btree_map"

definition FailureDetector_new :: "FailureDetectorConfig \<Rightarrow> FailureDetector" where
  "FailureDetector_new config = \<lparr>fd_node_samples = [], fd_config = config, fd_live_nodes = {},
     fd_dead_nodes = []\<rparr>"

text \<open>The window behind the reference \<^verbatim>\<open>get_or_create_sampling_window\<close> returns, together with the
  detector that now holds it.\<close>

definition get_or_create_sampling_window ::
    "ChitchatId \<Rightarrow> FailureDetector \<Rightarrow> SamplingWindow \<times> FailureDetector" where
  "get_or_create_sampling_window i fd = (case btm_get (fd_node_samples fd) i of
     Some w \<Rightarrow> (w, fd)
   | None \<Rightarrow>
       let w = SamplingWindow_new (fdc_sampling_window_size (fd_config fd))
                 (fdc_max_interval (fd_config fd)) (fdc_initial_interval (fd_config fd))
       in (w, fd\<lparr>fd_node_samples := btm_insert i w (fd_node_samples fd)\<rparr>))"

definition fd_report_heartbeat :: "ChitchatId \<Rightarrow> instant \<Rightarrow> FailureDetector \<Rightarrow> panic + FailureDetector" where
  "fd_report_heartbeat i now fd =
     (let (w, fd) = get_or_create_sampling_window i fd
      in result_bind (sw_report_heartbeat now w) (\<lambda>w.
           Inr (fd\<lparr>fd_node_samples := btm_insert i w (fd_node_samples fd)\<rparr>)))"

definition fd_phi :: "ChitchatId \<Rightarrow> instant \<Rightarrow> FailureDetector \<Rightarrow> phi_value option" where
  "fd_phi i now fd = (case btm_get (fd_node_samples fd) i of None \<Rightarrow> None | Some w \<Rightarrow> sw_phi now w)"

definition fd_is_alive :: "ChitchatId \<Rightarrow> instant \<Rightarrow> FailureDetector \<Rightarrow> bool" where
  "fd_is_alive i now fd = (case fd_phi i now fd of
     None \<Rightarrow> False | Some p \<Rightarrow> phi_le p (fdc_phi_threshold (fd_config fd)))"

definition update_node_liveness :: "ChitchatId \<Rightarrow> instant \<Rightarrow> FailureDetector \<Rightarrow> FailureDetector" where
  "update_node_liveness i now fd =
     (if fd_is_alive i now fd
      then fd\<lparr>fd_live_nodes := insert i (fd_live_nodes fd),
              fd_dead_nodes := btm_remove i (fd_dead_nodes fd)\<rparr>
      else
        let fd = fd\<lparr>fd_live_nodes := fd_live_nodes fd - {i}\<rparr>;
            fd = (if \<not> btm_contains (fd_dead_nodes fd) i
                  then fd\<lparr>fd_dead_nodes := btm_insert i now (fd_dead_nodes fd)\<rparr> else fd)
        in case btm_get (fd_node_samples fd) i of
             Some w \<Rightarrow> fd\<lparr>fd_node_samples := btm_insert i (sw_reset w) (fd_node_samples fd)\<rparr>
           | None \<Rightarrow> fd)"

definition fd_garbage_collect :: "instant \<Rightarrow> FailureDetector \<Rightarrow> ChitchatId list \<times> FailureDetector" where
  "fd_garbage_collect now fd =
     (let collected = map fst (filter (\<lambda>(_, time_of_death).
            now \<ge> time_of_death + fdc_dead_node_grace_period (fd_config fd)) (fd_dead_nodes fd));
          fd = foldl (\<lambda>fd i. fd\<lparr>fd_dead_nodes := btm_remove i (fd_dead_nodes fd),
                 fd_node_samples := btm_remove i (fd_node_samples fd)\<rparr>) fd collected
      in (collected, fd))"

definition fd_scheduled_for_deletion_nodes ::
    "(duration \<Rightarrow> duration) \<Rightarrow> instant \<Rightarrow> FailureDetector \<Rightarrow> ChitchatId set" where
  "fd_scheduled_for_deletion_nodes half now fd =
     (let half_dead_node_grace_period = half (fdc_dead_node_grace_period (fd_config fd))
      in set (map fst (filter (\<lambda>(_, time_of_death).
           time_of_death + half_dead_node_grace_period < now) (fd_dead_nodes fd))))"

definition fd_dead_node_ids :: "FailureDetector \<Rightarrow> ChitchatId list" where
  "fd_dead_node_ids fd = btm_keys (fd_dead_nodes fd)"

section \<open>The array is a queue of the last intervals\<close>

text \<open>The contents of the array, oldest first, and the queue it implements.\<close>

definition bas_window :: "BoundedArrayStats \<Rightarrow> real list" where
  "bas_window b = (if bas_is_filled b
     then drop (bas_index b) (bas_values b) @ take (bas_index b) (bas_values b)
     else take (bas_index b) (bas_values b))"

definition bas_capacity :: "BoundedArrayStats \<Rightarrow> nat" where
  "bas_capacity b = length (bas_values b)"

definition queue_append :: "nat \<Rightarrow> 'a \<Rightarrow> 'a list \<Rightarrow> 'a list" where
  "queue_append capacity x q = (if length q = capacity then tl q @ [x] else q @ [x])"

definition bas_wf :: "BoundedArrayStats \<Rightarrow> bool" where
  "bas_wf b \<longleftrightarrow> bas_index b < length (bas_values b)"

lemma bas_len_window: "bas_wf b \<Longrightarrow> bas_len b = length (bas_window b)"
  by (simp add: bas_wf_def bas_len_def bas_window_def)

lemma take_Suc_update: "i < length xs \<Longrightarrow> take (Suc i) (xs[i := x]) = take i xs @ [x]"
  by (simp add: take_Suc_conv_app_nth)

lemma bas_append_ok:
  assumes "bas_wf b"
  shows "\<exists>b'. bas_append x b = Inr b' \<and> bas_wf b' \<and> bas_capacity b' = bas_capacity b
    \<and> bas_window b' = queue_append (bas_capacity b) x (bas_window b)"
proof -
  let ?i = "bas_index b" and ?vs = "bas_values b"
  have i: "?i < length ?vs" using assms by (simp add: bas_wf_def)
  define s where "s = f64_add (if bas_is_filled b then f64_sub (bas_sum b) (?vs ! ?i) else bas_sum b) x"
  define b' where "b' = (if ?i = length ?vs - 1
    then b\<lparr>bas_values := ?vs[?i := x], bas_sum := s, bas_is_filled := True, bas_index := 0\<rparr>
    else b\<lparr>bas_values := ?vs[?i := x], bas_sum := s, bas_index := ?i + 1\<rparr>)"
  have app: "bas_append x b = Inr b'"
    using i by (simp add: bas_append_def b'_def s_def Let_def)
  have drop: "drop ?i ?vs = ?vs ! ?i # drop (Suc ?i) ?vs" using i by (simp add: Cons_nth_drop_Suc)
  have full: "drop (Suc ?i) ?vs = []" if "?i = length ?vs - 1" using that i by simp
  have win: "bas_window b' = queue_append (bas_capacity b) x (bas_window b)"
    using i drop full take_Suc_update [of ?i ?vs x]
    by (auto simp: b'_def bas_window_def queue_append_def bas_capacity_def)
  have "bas_wf b'" using i by (auto simp: bas_wf_def b'_def)
  with app win show ?thesis by (auto simp: b'_def bas_capacity_def)
qed

lemma bas_wf_new: "0 < n \<Longrightarrow> bas_wf (bas_with_capacity n)"
  by (simp add: bas_wf_def bas_with_capacity_def bas_window_def)

lemma bas_window_new [simp]: "bas_window (bas_with_capacity n) = []"
  by (simp add: bas_with_capacity_def bas_window_def)

lemma bas_sum_empty [simp]: "bas_sum (bas_with_capacity n) = 0" "bas_sum (bas_clear b) = 0"
  by (simp_all add: bas_with_capacity_def bas_clear_def)

lemma bas_clear_wf: "bas_wf b \<Longrightarrow> bas_wf (bas_clear b) \<and> bas_window (bas_clear b) = []"
  by (auto simp: bas_wf_def bas_clear_def bas_window_def)

subsection \<open>The interface of a bounded queue\<close>

text \<open>
  What the sampling windows rely on. The client's fact: after any number of appends to an empty
  queue the window holds the last values, oldest first.
\<close>

fun append_all :: "('a \<Rightarrow> 'q \<Rightarrow> panic + 'q) \<Rightarrow> 'a list \<Rightarrow> 'q \<Rightarrow> panic + 'q" where
  "append_all enq [] q = Inr q"
| "append_all enq (x # xs) q = result_bind (enq x q) (append_all enq xs)"

lemma queue_append_last:
  assumes "0 < n"
  shows "queue_append n x (drop (length xs - n) xs) = drop (length (xs @ [x]) - n) (xs @ [x])"
proof (cases "n \<le> length xs")
  case True
  then have "tl (drop (length xs - n) xs) = drop (Suc (length xs) - n) xs"
    by (simp add: Suc_diff_le flip: drop_Suc drop_tl)
  with True assms show ?thesis by (simp add: queue_append_def)
next
  case False
  then show ?thesis by (simp add: queue_append_def)
qed

locale bounded_queue =
  fixes enq :: "'a \<Rightarrow> 'q \<Rightarrow> panic + 'q"
    and window :: "'q \<Rightarrow> 'a list"
    and capacity :: "'q \<Rightarrow> nat"
    and wf :: "'q \<Rightarrow> bool"
  assumes append_spec: "wf q \<Longrightarrow> \<exists>q'. enq x q = Inr q' \<and> wf q' \<and> capacity q' = capacity q
      \<and> window q' = queue_append (capacity q) x (window q)"
    and capacity_pos: "wf q \<Longrightarrow> 0 < capacity q"
begin

lemma append_all_from:
  assumes "wf q" and "window q = drop (length ys - capacity q) ys"
  shows "\<exists>q'. append_all enq xs q = Inr q' \<and> wf q' \<and> capacity q' = capacity q
    \<and> window q' = drop (length (ys @ xs) - capacity q) (ys @ xs)"
  using assms
proof (induction xs arbitrary: q ys)
  case (Cons x xs)
  obtain q1 where q1: "enq x q = Inr q1" "wf q1" "capacity q1 = capacity q"
      "window q1 = queue_append (capacity q) x (window q)"
    using append_spec [OF Cons.prems(1), of x] by blast
  then have "window q1 = drop (length (ys @ [x]) - capacity q1) (ys @ [x])"
    using Cons.prems queue_append_last [OF capacity_pos, of q x ys] by simp
  from Cons.IH [OF q1(2) this] q1 show ?case by simp
qed simp

lemma last_values:
  assumes "wf q" and "window q = []"
  shows "\<exists>q'. append_all enq xs q = Inr q' \<and> wf q' \<and> window q' = drop (length xs - capacity q) xs"
  using append_all_from [OF assms(1), of "[]" xs] assms(2) by auto

end

interpretation bas: bounded_queue bas_append bas_window bas_capacity bas_wf
proof
  fix b x
  assume wf: "bas_wf b"
  show "\<exists>b'. bas_append x b = Inr b' \<and> bas_wf b' \<and> bas_capacity b' = bas_capacity b
      \<and> bas_window b' = queue_append (bas_capacity b) x (bas_window b)"
    by (rule bas_append_ok [OF wf])
  show "0 < bas_capacity b" using wf by (auto simp: bas_wf_def bas_capacity_def)
qed

section \<open>The invariant of the detector\<close>

definition no_longer :: "duration \<Rightarrow> real \<Rightarrow> bool" where
  "no_longer hi x \<longleftrightarrow> (\<exists>g \<le> hi. x = as_secs_f64 g)"

definition sw_wf :: "FailureDetectorConfig \<Rightarrow> SamplingWindow \<Rightarrow> bool" where
  "sw_wf c w \<longleftrightarrow> bas_wf (sw_intervals w)
     \<and> list_all (no_longer (fdc_max_interval c)) (bas_window (sw_intervals w))
     \<and> sw_max_interval w = fdc_max_interval c
     \<and> sw_additive_smoothing w = \<lparr>as_prior_mean = as_secs_f64 (fdc_initial_interval c), as_prior_weight = 5\<rparr>"

definition fd_wf :: "FailureDetector \<Rightarrow> bool" where
  "fd_wf fd \<longleftrightarrow> 0 < fdc_sampling_window_size (fd_config fd)
     \<and> btm_wf (fd_node_samples fd) \<and> btm_wf (fd_dead_nodes fd)
     \<and> (\<forall>(i, w) \<in> set (fd_node_samples fd). sw_wf (fd_config fd) w)
     \<and> fd_live_nodes fd \<inter> fst ` set (fd_dead_nodes fd) = {}
     \<and> fd_live_nodes fd \<subseteq> fst ` set (fd_node_samples fd)"

lemma f64_of_nat_nonneg [simp]: "0 \<le> f64_of_nat n"
  by (simp add: f64_of_nat_def f64_round_pos)

lemma as_secs_f64_nonneg [simp]: "0 \<le> as_secs_f64 d"
  by (simp add: as_secs_f64_def f64_add_def f64_quotient_def f64_round_pos)

text \<open>Whole seconds are exact; this is how they are evaluated.\<close>

lemma as_secs_f64_code [code]:
  "as_secs_f64 d = (if d mod 1000000000 = 0 \<and> d div 1000000000 \<le> 9007199254740992 then real (d div 1000000000)
     else f64_add (f64_of_nat (d div 1000000000)) (f64_quotient (f64_of_nat (d mod 1000000000)) 1000000000))"
proof (cases "d mod 1000000000 = 0 \<and> d div 1000000000 \<le> 9007199254740992")
  case True
  then have "f64_round (real (d div 1000000000)) = real (d div 1000000000)" by (intro f64_round_of_nat) simp
  with True show ?thesis by (simp add: as_secs_f64_def f64_add_def f64_of_nat_def f64_quotient_def)
next
  case False
  then show ?thesis by (simp only: if_False as_secs_f64_def)
qed

text \<open>The exact number of seconds, and how far the computed one is from it.\<close>

definition secs :: "duration \<Rightarrow> real" where
  "secs d = real d / 1000000000"

lemma secs_nonneg [simp]: "0 \<le> secs d"
  by (simp add: secs_def)

lemma secs_mono: "a \<le> b \<Longrightarrow> secs a \<le> secs b"
  by (simp add: secs_def divide_right_mono)

lemma as_secs_f64_bounds:
  shows "(1 - f64_eps)\<^sup>2 * secs d \<le> as_secs_f64 d" and "as_secs_f64 d \<le> (1 + f64_eps)\<^sup>2 * secs d"
proof -
  let ?s = "real (d div 1000000000)" and ?n = "real (d mod 1000000000) / 1000000000" and ?e = f64_eps
  let ?a = "f64_round ?s" and ?b = "f64_round ?n"
  have "real d = ?s * 1000000000 + real (d mod 1000000000)"
    by (metis div_mult_mod_eq of_nat_add of_nat_mult of_nat_numeral)
  then have d: "secs d = ?s + ?n" by (simp add: secs_def add_divide_distrib)
  have "d mod 1000000000 < 1000000000" by simp
  then have nanos: "f64_of_nat (d mod 1000000000) = real (d mod 1000000000)"
    unfolding f64_of_nat_def by (intro f64_round_of_nat) simp
  have eq: "as_secs_f64 d = f64_round (?a + ?b)"
    unfolding as_secs_f64_def f64_add_def f64_quotient_def nanos by (simp add: f64_of_nat_def)
  note a = f64_round_pos [of ?s, simplified] and b = f64_round_pos [of ?n, simplified]
  note r = f64_round_pos [of "?a + ?b", folded eq]
  have up: "?a + ?b \<le> (1 + ?e) * secs d" using a(2) b(2) by (simp add: d distrib_left)
  have low: "(1 - ?e) * secs d \<le> ?a + ?b" using a(1) b(1) by (simp add: d distrib_left)
  have e: "0 \<le> 1 - ?e" "0 \<le> 1 + ?e" using f64_eps_bounds by simp_all
  have "(1 - ?e)\<^sup>2 * secs d \<le> (1 - ?e) * (?a + ?b)" using mult_left_mono [OF low e(1)] by (simp add: power2_eq_square mult.assoc)
  also have "\<dots> \<le> as_secs_f64 d" using r(1) a(3) b(3) by simp
  finally show "(1 - ?e)\<^sup>2 * secs d \<le> as_secs_f64 d" .
  have "as_secs_f64 d \<le> (1 + ?e) * (?a + ?b)" using r(2) a(3) b(3) by simp
  also have "\<dots> \<le> (1 + ?e)\<^sup>2 * secs d" using mult_left_mono [OF up e(2)] by (simp add: power2_eq_square mult.assoc)
  finally show "as_secs_f64 d \<le> (1 + ?e)\<^sup>2 * secs d" .
qed

lemma list_all_queue_append: "list_all P q \<Longrightarrow> P x \<Longrightarrow> list_all P (queue_append n x q)"
  by (cases q) (auto simp: queue_append_def)

lemma sw_wf_new [wf_intros]:
  "0 < fdc_sampling_window_size c \<Longrightarrow> sw_wf c (SamplingWindow_new (fdc_sampling_window_size c)
     (fdc_max_interval c) (fdc_initial_interval c))"
  by (simp add: sw_wf_def SamplingWindow_new_def bas_wf_new)

lemma sw_wf_reset [wf_intros]: "sw_wf c w \<Longrightarrow> sw_wf c (sw_reset w)"
  by (simp add: sw_wf_def sw_reset_def bas_clear_wf)

lemma sw_report_heartbeat_ok:
  assumes "sw_wf c w"
  shows "\<exists>w'. sw_report_heartbeat now w = Inr w' \<and> sw_wf c w' \<and> sw_last_heartbeat w' = Some now"
proof (cases "sw_last_heartbeat w")
  case None
  with assms show ?thesis by (simp add: sw_report_heartbeat_def sw_wf_def)
next
  case (Some t)
  obtain b where b: "bas_append (as_secs_f64 (now - t)) (sw_intervals w) = Inr b" "bas_wf b"
      "bas_window b = queue_append (bas_capacity (sw_intervals w)) (as_secs_f64 (now - t)) (bas_window (sw_intervals w))"
    using bas_append_ok [of "sw_intervals w" "as_secs_f64 (now - t)"] assms by (auto simp: sw_wf_def)
  moreover have "no_longer (fdc_max_interval c) (as_secs_f64 (now - t))" if "now - t \<le> fdc_max_interval c"
    using that by (auto simp: no_longer_def)
  ultimately show ?thesis
    using Some assms by (auto simp: sw_report_heartbeat_def sw_wf_def list_all_queue_append Let_def)
qed

lemma fd_wf_sample: "fd_wf fd \<Longrightarrow> btm_get (fd_node_samples fd) i = Some w \<Longrightarrow> sw_wf (fd_config fd) w"
  by (auto simp: fd_wf_def dest: btm_get_Some_in_set)

lemma fd_wf_insert_sample:
  "fd_wf fd \<Longrightarrow> sw_wf (fd_config fd) w \<Longrightarrow>
   fd_wf (fd\<lparr>fd_node_samples := btm_insert i w (fd_node_samples fd)\<rparr>)"
  using keys_btm_insert [of i w "fd_node_samples fd"] by (auto simp: fd_wf_def set_btm_insert)

lemma get_or_create_wf:
  assumes "fd_wf fd" and "get_or_create_sampling_window i fd = (w, fd')"
  shows "fd_wf fd' \<and> sw_wf (fd_config fd) w \<and> fd_config fd' = fd_config fd
    \<and> fd_live_nodes fd' = fd_live_nodes fd \<and> fd_dead_nodes fd' = fd_dead_nodes fd"
proof -
  have "0 < fdc_sampling_window_size (fd_config fd)" using assms(1) by (simp add: fd_wf_def)
  note new = sw_wf_new [OF this]
  show ?thesis
    using assms(2) assms(1) new fd_wf_insert_sample [OF assms(1) new, of i] fd_wf_sample [OF assms(1), of i]
    by (auto simp: get_or_create_sampling_window_def Let_def split: option.splits)
qed

lemma fd_report_heartbeat_ok:
  assumes "fd_wf fd"
  shows "\<exists>fd'. fd_report_heartbeat i now fd = Inr fd' \<and> fd_wf fd' \<and> fd_config fd' = fd_config fd
    \<and> fd_live_nodes fd' = fd_live_nodes fd \<and> fd_dead_nodes fd' = fd_dead_nodes fd"
proof -
  obtain w fd1 where w: "get_or_create_sampling_window i fd = (w, fd1)" by fastforce
  note wf = get_or_create_wf [OF assms w]
  obtain w' where w': "sw_report_heartbeat now w = Inr w'" "sw_wf (fd_config fd) w'"
    using sw_report_heartbeat_ok [of "fd_config fd" w now] wf by auto
  with w wf show ?thesis
    by (auto simp: fd_report_heartbeat_def intro!: fd_wf_insert_sample)
qed

lemma fd_is_alive_sampled: "fd_is_alive i now fd \<Longrightarrow> i \<in> fst ` set (fd_node_samples fd)"
  by (force simp: fd_is_alive_def fd_phi_def split: option.splits dest: btm_get_Some_in_set)

lemma keys_btm_remove: "fst ` set (btm_remove i m) = fst ` set m - {i}"
  by (auto simp: btm_remove_def)

lemma btm_contains_iff: "btm_contains m i \<longleftrightarrow> i \<in> fst ` set m"
  using btm_get_None_iff [of m i] by (auto simp: btm_contains_def)

lemma keys_insert_image: "fst ` set (btm_insert i v m) = insert i (fst ` set m)"
  using keys_btm_insert [of i v m] by simp

text \<open>After an update a node is in exactly one of the two sets, live exactly when its phi is at
  most the threshold, and keeps its first time of death.\<close>

lemma update_node_liveness_eq:
  "update_node_liveness i now fd =
     (if fd_is_alive i now fd
      then fd\<lparr>fd_live_nodes := insert i (fd_live_nodes fd), fd_dead_nodes := btm_remove i (fd_dead_nodes fd)\<rparr>
      else fd\<lparr>fd_live_nodes := fd_live_nodes fd - {i},
        fd_dead_nodes := (if btm_contains (fd_dead_nodes fd) i then fd_dead_nodes fd
          else btm_insert i now (fd_dead_nodes fd)),
        fd_node_samples := (case btm_get (fd_node_samples fd) i of None \<Rightarrow> fd_node_samples fd
          | Some w \<Rightarrow> btm_insert i (sw_reset w) (fd_node_samples fd))\<rparr>)"
  by (auto simp: update_node_liveness_def Let_def split: option.splits)

lemma update_node_liveness_wf [wf_intros]:
  assumes "fd_wf fd"
  shows "fd_wf (update_node_liveness i now fd)"
proof (cases "fd_is_alive i now fd")
  case True
  with assms show ?thesis
    using fd_is_alive_sampled [OF True] by (auto simp: update_node_liveness_eq fd_wf_def keys_btm_remove)
next
  case False
  let ?dead = "if btm_contains (fd_dead_nodes fd) i then fd_dead_nodes fd else btm_insert i now (fd_dead_nodes fd)"
  have dead: "btm_wf ?dead" "fst ` set ?dead = insert i (fst ` set (fd_dead_nodes fd))"
    using assms by (auto simp: fd_wf_def keys_insert_image btm_contains_iff)
  let ?fd = "fd\<lparr>fd_live_nodes := fd_live_nodes fd - {i}, fd_dead_nodes := ?dead\<rparr>"
  have fd: "fd_wf ?fd"
    using assms dead(1) unfolding fd_wf_def by (auto simp: dead(2))
  show ?thesis
  proof (cases "btm_get (fd_node_samples fd) i")
    case None
    with False fd show ?thesis by (simp add: update_node_liveness_eq)
  next
    case (Some w)
    have "sw_wf (fd_config ?fd) (sw_reset w)"
      using fd_wf_sample [OF assms Some] by (simp add: wf_intros)
    from fd_wf_insert_sample [OF fd this, of i] False Some show ?thesis
      by (simp add: update_node_liveness_eq)
  qed
qed

lemma update_node_liveness_live:
  "j \<in> fd_live_nodes (update_node_liveness i now fd) \<longleftrightarrow>
     (if j = i then fd_is_alive i now fd else j \<in> fd_live_nodes fd)"
  by (auto simp: update_node_liveness_eq)

lemma update_node_liveness_dead:
  "btm_wf (fd_dead_nodes fd) \<Longrightarrow> btm_get (fd_dead_nodes (update_node_liveness i now fd)) j =
     (if j = i then
        if fd_is_alive i now fd then None
        else (case btm_get (fd_dead_nodes fd) i of None \<Rightarrow> Some now | Some t \<Rightarrow> Some t)
      else btm_get (fd_dead_nodes fd) j)"
  by (auto simp: update_node_liveness_eq btm_contains_def split: option.splits)

section \<open>Garbage collection of dead nodes\<close>

lemma fd_garbage_collect_eq:
  "fd_garbage_collect now fd =
     (let collected = map fst (filter (\<lambda>(_, t). t + fdc_dead_node_grace_period (fd_config fd) \<le> now) (fd_dead_nodes fd))
      in (collected, fd\<lparr>fd_dead_nodes := filter (\<lambda>e. fst e \<notin> set collected) (fd_dead_nodes fd),
            fd_node_samples := filter (\<lambda>e. fst e \<notin> set collected) (fd_node_samples fd)\<rparr>))"
proof -
  have "foldl (\<lambda>fd i. fd\<lparr>fd_dead_nodes := btm_remove i (fd_dead_nodes fd),
          fd_node_samples := btm_remove i (fd_node_samples fd)\<rparr>) f is
      = f\<lparr>fd_dead_nodes := filter (\<lambda>e. fst e \<notin> set is) (fd_dead_nodes f),
          fd_node_samples := filter (\<lambda>e. fst e \<notin> set is) (fd_node_samples f)\<rparr>"
    for f :: FailureDetector and "is"
    by (induction "is" arbitrary: f) (auto simp: btm_remove_def)
  then show ?thesis by (simp add: fd_garbage_collect_def Let_def)
qed

lemma fd_garbage_collect_collected:
  assumes "fd_wf fd"
  shows "i \<in> set (fst (fd_garbage_collect now fd)) \<longleftrightarrow>
    (\<exists>t. btm_get (fd_dead_nodes fd) i = Some t \<and> t + fdc_dead_node_grace_period (fd_config fd) \<le> now)"
proof -
  have "btm_wf (fd_dead_nodes fd)" using assms by (simp add: fd_wf_def)
  note get = in_set_btm_get [OF this]
  show ?thesis by (force simp: fd_garbage_collect_eq Let_def get [symmetric])
qed

lemma fd_garbage_collect_state:
  assumes "fd_wf fd" and "fd_garbage_collect now fd = (collected, fd')"
  shows "fd_live_nodes fd' = fd_live_nodes fd" "fd_config fd' = fd_config fd"
    "btm_get (fd_dead_nodes fd') i = (if i \<in> set collected then None else btm_get (fd_dead_nodes fd) i)"
    "btm_get (fd_node_samples fd') i = (if i \<in> set collected then None else btm_get (fd_node_samples fd) i)"
proof -
  have wf: "btm_wf (fd_dead_nodes fd)" "btm_wf (fd_node_samples fd)"
    using assms(1) by (simp_all add: fd_wf_def)
  have filter: "btm_get (filter (\<lambda>e. fst e \<notin> S) m) i = (if i \<in> S then None else btm_get m i)"
    if "btm_wf m" for m :: "(ChitchatId, 'v) btree_map" and S
    using btm_get_retain [OF that, of "\<lambda>k _. k \<notin> S" i] by (auto simp: btm_retain_def split: option.splits)
  show "fd_live_nodes fd' = fd_live_nodes fd" "fd_config fd' = fd_config fd"
    using assms(2) by (auto simp: fd_garbage_collect_eq Let_def)
  show "btm_get (fd_dead_nodes fd') i = (if i \<in> set collected then None else btm_get (fd_dead_nodes fd) i)"
    using assms(2) filter [OF wf(1)] by (auto simp: fd_garbage_collect_eq Let_def)
  show "btm_get (fd_node_samples fd') i = (if i \<in> set collected then None else btm_get (fd_node_samples fd) i)"
    using assms(2) filter [OF wf(2)] by (auto simp: fd_garbage_collect_eq Let_def)
qed

lemma fd_garbage_collect_wf:
  assumes "fd_wf fd"
  shows "fd_wf (snd (fd_garbage_collect now fd))"
proof -
  have "i \<notin> set (map fst (filter (\<lambda>(_, t). t + fdc_dead_node_grace_period (fd_config fd) \<le> now) (fd_dead_nodes fd)))"
    if "i \<in> fd_live_nodes fd" for i
    using assms that by (force simp: fd_wf_def)
  with assms show ?thesis
    unfolding fd_garbage_collect_eq Let_def fd_wf_def
    by (simp add: wf_intros subset_iff image_iff Bex_def disjoint_iff)
qed

text \<open>A node is scheduled for deletion, and so is no longer gossiped, before it is collected.\<close>

lemma fd_scheduled_iff:
  assumes "fd_wf fd"
  shows "i \<in> fd_scheduled_for_deletion_nodes half now fd \<longleftrightarrow>
    (\<exists>t. btm_get (fd_dead_nodes fd) i = Some t \<and> t + half (fdc_dead_node_grace_period (fd_config fd)) < now)"
proof -
  have "btm_wf (fd_dead_nodes fd)" using assms by (simp add: fd_wf_def)
  note get = in_set_btm_get [OF this]
  show ?thesis by (force simp: fd_scheduled_for_deletion_nodes_def Let_def get [symmetric])
qed

section \<open>The drift of the running sum\<close>

text \<open>
  The sum is kept up to date with a subtraction and an addition for every interval, each rounded, so that
  it drifts from the sum of the intervals in the window. When no interval is longer than \<open>m\<close>, the error and
  the largest sum together grow by at most the factor \<open>1 + f64_eps\<close> with every operation.
\<close>

definition bas_drift :: "real \<Rightarrow> nat \<Rightarrow> BoundedArrayStats \<Rightarrow> bool" where
  "bas_drift m n b \<longleftrightarrow> list_all (\<lambda>x. 0 \<le> x \<and> x \<le> m) (bas_window b)
     \<and> \<bar>bas_sum b - sum_list (bas_window b)\<bar> \<le> real (bas_capacity b) * m * ((1 + f64_eps) ^ (2 * n) - 1)"

lemma sum_list_bound:
  "list_all (\<lambda>x. 0 \<le> x \<and> x \<le> (m :: real)) xs \<Longrightarrow> 0 \<le> sum_list xs \<and> sum_list xs \<le> real (length xs) * m"
  by (induction xs) (auto simp: algebra_simps)

lemma rounded_step:
  assumes "\<bar>a - x\<bar> + c \<le> k" and "\<bar>x + d\<bar> \<le> c"
  shows "\<bar>f64_round (a + d) - (x + d)\<bar> + c \<le> (1 + f64_eps) * k"
proof -
  have "\<bar>f64_round (a + d) - (a + d)\<bar> \<le> f64_eps * \<bar>a + d\<bar>" by (rule f64_round_error)
  also have "\<bar>a + d\<bar> \<le> k" using assms by linarith
  then have "f64_eps * \<bar>a + d\<bar> \<le> f64_eps * k" using f64_eps_bounds by simp
  finally show ?thesis using assms(1) by (simp add: distrib_right)
qed

lemma bas_window_length: "bas_wf b \<Longrightarrow> length (bas_window b) \<le> bas_capacity b"
  by (simp add: bas_wf_def bas_window_def bas_capacity_def)

lemma bas_append_drift:
  assumes wf: "bas_wf b" and drift: "bas_drift m n b" and x: "0 \<le> x" "x \<le> m" and b': "bas_append x b = Inr b'"
  shows "bas_drift m (Suc n) b'"
proof -
  let ?C = "real (bas_capacity b) * m" and ?e = f64_eps
  let ?w = "bas_window b" and ?w' = "bas_window b'"
  have b'': "bas_wf b'" "bas_capacity b' = bas_capacity b" "?w' = queue_append (bas_capacity b) x ?w"
    using bas_append_ok [OF wf, of x] b' by auto
  have all: "list_all (\<lambda>x. 0 \<le> x \<and> x \<le> m) ?w" and err: "\<bar>bas_sum b - sum_list ?w\<bar> + ?C \<le> ?C * (1 + ?e) ^ (2 * n)"
    using drift by (simp_all add: bas_drift_def right_diff_distrib)
  then have all': "list_all (\<lambda>x. 0 \<le> x \<and> x \<le> m) ?w'" unfolding b''(3) using x by (intro list_all_queue_append) simp_all
  have m: "0 \<le> m" using x by simp
  have bound: "\<bar>sum_list v\<bar> \<le> ?C" if "list_all (\<lambda>x. 0 \<le> x \<and> x \<le> m) v" "length v \<le> bas_capacity b" for v
    using sum_list_bound [OF that(1)] mult_right_mono [of "real (length v)" "real (bas_capacity b)" m] that(2) m by simp
  have pow: "(1 + ?e) ^ (2 * Suc n) = (1 + ?e) * ((1 + ?e) * (1 + ?e) ^ (2 * n))" by simp
  have "\<bar>bas_sum b' - sum_list ?w'\<bar> + ?C \<le> ?C * (1 + ?e) ^ (2 * Suc n)"
  proof (cases "bas_is_filled b")
    case True
    let ?old = "bas_values b ! bas_index b"
    have w: "?w = ?old # tl ?w" "length ?w = bas_capacity b"
      using wf True by (simp_all add: bas_wf_def bas_window_def bas_capacity_def Cons_nth_drop_Suc [symmetric])
    then have w': "?w' = tl ?w @ [x]" using b''(3) by (simp add: queue_append_def)
    have tl: "sum_list (tl ?w) = sum_list ?w + (- ?old)" using arg_cong [OF w(1), of sum_list] by simp
    have "list_all (\<lambda>x. 0 \<le> x \<and> x \<le> m) (tl ?w)" using all by (cases ?w) simp_all
    then have "\<bar>sum_list ?w + (- ?old)\<bar> \<le> ?C" using bound [of "tl ?w"] w(2) unfolding tl by simp
    from rounded_step [OF err this]
    have "\<bar>f64_sub (bas_sum b) ?old - sum_list (tl ?w)\<bar> + ?C \<le> (1 + ?e) * (?C * (1 + ?e) ^ (2 * n))"
      by (simp add: f64_sub_def tl)
    moreover have "\<bar>sum_list (tl ?w) + x\<bar> \<le> ?C" using bound [OF all'] bas_window_length [OF b''(1)] b''(2) by (simp add: w')
    ultimately have "\<bar>f64_round (f64_sub (bas_sum b) ?old + x) - (sum_list (tl ?w) + x)\<bar> + ?C
        \<le> (1 + ?e) * ((1 + ?e) * (?C * (1 + ?e) ^ (2 * n)))" by (rule rounded_step)
    moreover have "bas_sum b' = f64_round (f64_sub (bas_sum b) ?old + x)"
      using b' wf True by (auto simp: bas_append_def bas_wf_def Let_def f64_add_def split: if_splits)
    ultimately show ?thesis unfolding pow by (simp add: w' algebra_simps)
  next
    case False
    then have w': "?w' = ?w @ [x]" using b''(3) wf by (simp add: queue_append_def bas_wf_def bas_window_def bas_capacity_def)
    have "\<bar>sum_list ?w + x\<bar> \<le> ?C" using bound [OF all'] bas_window_length [OF b''(1)] b''(2) by (simp add: w')
    from rounded_step [OF err this]
    have "\<bar>bas_sum b' - sum_list ?w'\<bar> + ?C \<le> (1 + ?e) * (?C * (1 + ?e) ^ (2 * n))"
      using b' wf False by (auto simp: bas_append_def bas_wf_def Let_def f64_add_def w' split: if_splits)
    also have "\<dots> \<le> (1 + ?e) * ((1 + ?e) * (?C * (1 + ?e) ^ (2 * n)))"
      using f64_eps_bounds m by (intro mult_left_mono) (simp_all add: distrib_right)
    finally show ?thesis unfolding pow by (simp add: mult_ac)
  qed
  then show ?thesis using all' b''(2) by (simp add: bas_drift_def right_diff_distrib)
qed

lemma bas_drift_empty: "bas_window b = [] \<Longrightarrow> bas_sum b = 0 \<Longrightarrow> 0 \<le> m \<Longrightarrow> bas_drift m n b"
  using f64_eps_bounds one_le_power [of "1 + f64_eps" "2 * n"] by (simp add: bas_drift_def)

lemma bas_drift_later:
  assumes "bas_drift m n b" and "n \<le> n'" and "0 \<le> m"
  shows "bas_drift m n' b"
proof -
  have "(1 + f64_eps) ^ (2 * n) \<le> (1 + f64_eps) ^ (2 * n')" using assms(2) f64_eps_bounds by (intro power_increasing) simp_all
  then have "real (bas_capacity b) * m * ((1 + f64_eps) ^ (2 * n) - 1) \<le> real (bas_capacity b) * m * ((1 + f64_eps) ^ (2 * n') - 1)"
    using assms(3) by (intro mult_left_mono) simp_all
  with assms(1) show ?thesis unfolding bas_drift_def by linarith
qed

lemma append_all_drift:
  assumes "bas_wf b" and "bas_drift m n b" and "list_all (\<lambda>x. 0 \<le> x \<and> x \<le> m) xs" and "append_all bas_append xs b = Inr b'"
  shows "bas_drift m (n + length xs) b'"
  using assms
proof (induction xs arbitrary: b n)
  case (Cons x xs)
  obtain b1 where b1: "bas_append x b = Inr b1" "bas_wf b1" using bas_append_ok [OF Cons.prems(1), of x] by blast
  then have "bas_drift m (Suc n) b1" using bas_append_drift [OF Cons.prems(1,2) _ _ b1(1)] Cons.prems(3) by simp
  from Cons.IH [OF b1(2) this] Cons.prems(3,4) b1(1) show ?case by simp
qed simp

subsection \<open>In a detector\<close>

text \<open>Every window has taken at most \<open>n\<close> intervals since it was last empty.\<close>

definition longest :: "FailureDetectorConfig \<Rightarrow> real" where
  "longest c = (1 + f64_eps)\<^sup>2 * secs (fdc_max_interval c)"

definition fd_drift :: "nat \<Rightarrow> FailureDetector \<Rightarrow> bool" where
  "fd_drift n fd \<longleftrightarrow> (\<forall>(i, w) \<in> set (fd_node_samples fd).
     bas_capacity (sw_intervals w) = fdc_sampling_window_size (fd_config fd) \<and> bas_drift (longest (fd_config fd)) n (sw_intervals w))"

lemma longest_nonneg: "0 \<le> longest c"
  by (simp add: longest_def)

lemma fd_drift_new: "fd_drift n (FailureDetector_new c)"
  by (simp add: fd_drift_def FailureDetector_new_def)

lemma fd_drift_sample:
  "fd_drift n fd \<Longrightarrow> btm_get (fd_node_samples fd) i = Some w \<Longrightarrow>
   bas_capacity (sw_intervals w) = fdc_sampling_window_size (fd_config fd) \<and> bas_drift (longest (fd_config fd)) n (sw_intervals w)"
  by (auto simp: fd_drift_def dest: btm_get_Some_in_set)

lemma fd_drift_insert:
  assumes "btm_wf (fd_node_samples fd)" and "fd_drift n fd" and "n \<le> n'" and "bas_capacity (sw_intervals w) = fdc_sampling_window_size (fd_config fd)"
    and "bas_drift (longest (fd_config fd)) n' (sw_intervals w)"
  shows "fd_drift n' (fd\<lparr>fd_node_samples := btm_insert i w (fd_node_samples fd)\<rparr>)"
  using assms bas_drift_later [OF _ assms(3) longest_nonneg] by (fastforce simp: fd_drift_def set_btm_insert)

lemma sw_report_drift:
  assumes "sw_wf c w" and "bas_capacity (sw_intervals w) = fdc_sampling_window_size c" and "bas_drift (longest c) n (sw_intervals w)"
    and "sw_report_heartbeat now w = Inr w'"
  shows "bas_capacity (sw_intervals w') = fdc_sampling_window_size c \<and> bas_drift (longest c) (Suc n) (sw_intervals w')"
proof (cases "\<exists>t. sw_last_heartbeat w = Some t \<and> now - t \<le> sw_max_interval w")
  case False
  then have "w' = w\<lparr>sw_last_heartbeat := Some now\<rparr>"
    using assms(4) by (auto simp: sw_report_heartbeat_def Let_def split: option.splits if_splits)
  with assms(2) bas_drift_later [OF assms(3) _ longest_nonneg] show ?thesis by simp
next
  case True
  then obtain t where t: "sw_last_heartbeat w = Some t" "now - t \<le> fdc_max_interval c" "now - t \<le> sw_max_interval w"
    using assms(1) by (auto simp: sw_wf_def)
  have wf: "bas_wf (sw_intervals w)" using assms(1) by (simp add: sw_wf_def)
  obtain b where b: "bas_append (as_secs_f64 (now - t)) (sw_intervals w) = Inr b" "bas_capacity b = bas_capacity (sw_intervals w)"
    using bas_append_ok [OF wf] by blast
  have "as_secs_f64 (now - t) \<le> longest c"
    using order_trans [OF as_secs_f64_bounds(2) mult_left_mono [OF secs_mono [OF t(2)]]] by (simp add: longest_def)
  then have "bas_drift (longest c) (Suc n) b" by (intro bas_append_drift [OF wf assms(3) _ _ b(1)]) simp_all
  with b t(1,3) assms(2,4) show ?thesis by (auto simp: sw_report_heartbeat_def)
qed

lemma fd_report_drift:
  assumes "fd_wf fd" and "fd_drift n fd" and "fd_report_heartbeat i now fd = Inr fd'"
  shows "fd_drift (Suc n) fd'"
proof -
  obtain w fd1 where w: "get_or_create_sampling_window i fd = (w, fd1)" by fastforce
  note wf = get_or_create_wf [OF assms(1) w]
  have new: "bas_capacity (bas_with_capacity k) = k" "bas_drift (longest c) n (bas_with_capacity k)" for k c
    using bas_drift_empty [OF bas_window_new _ longest_nonneg, of k c n] by (simp_all add: bas_capacity_def bas_with_capacity_def)
  have d: "fd_drift n fd1" "bas_capacity (sw_intervals w) = fdc_sampling_window_size (fd_config fd)"
      "bas_drift (longest (fd_config fd)) n (sw_intervals w)"
    using w assms(2) new fd_drift_sample [OF assms(2), of i] fd_drift_insert [OF _ assms(2) order_refl] assms(1)
    by (auto simp: get_or_create_sampling_window_def SamplingWindow_new_def Let_def fd_wf_def split: option.splits)
  obtain w' where w': "sw_report_heartbeat now w = Inr w'" "fd' = fd1\<lparr>fd_node_samples := btm_insert i w' (fd_node_samples fd1)\<rparr>"
    using assms(3) w by (auto simp: fd_report_heartbeat_def)
  from sw_report_drift [OF _ d(2,3) w'(1)] wf d(1) show ?thesis
    unfolding w'(2) by (intro fd_drift_insert [of _ n]) (simp_all add: fd_wf_def)
qed

lemma update_liveness_drift:
  assumes "fd_wf fd" and "fd_drift n fd"
  shows "fd_drift n (update_node_liveness i now fd)"
proof (cases "btm_get (fd_node_samples fd) i")
  case None
  with assms(2) show ?thesis by (simp add: update_node_liveness_eq fd_drift_def)
next
  case (Some w)
  let ?w = "sw_reset w"
  have "bas_wf (sw_intervals w)" using fd_wf_sample [OF assms(1) Some] by (simp add: sw_wf_def)
  then have "bas_window (sw_intervals ?w) = []" "bas_sum (sw_intervals ?w) = 0" "bas_capacity (sw_intervals ?w) = bas_capacity (sw_intervals w)"
    using bas_clear_wf by (simp_all add: sw_reset_def) (simp_all add: bas_clear_def bas_capacity_def)
  then have "bas_capacity (sw_intervals ?w) = fdc_sampling_window_size (fd_config fd)" "bas_drift (longest (fd_config fd)) n (sw_intervals ?w)"
    using fd_drift_sample [OF assms(2) Some] by (simp_all add: bas_drift_empty longest_nonneg)
  from fd_drift_insert [OF _ assms(2) order_refl this, of i] assms Some show ?thesis
    by (auto simp: update_node_liveness_eq fd_drift_def fd_wf_def)
qed

lemma garbage_collect_drift: "fd_drift n fd \<Longrightarrow> fd_drift n (snd (fd_garbage_collect now fd))"
  by (auto simp: fd_garbage_collect_eq fd_drift_def Let_def)

section \<open>Silent nodes\<close>

text \<open>The smoothed mean as it is computed: the sum and the prior, each rounded, over the rounded weight.\<close>

lemma compute_mean_bounds:
  fixes s p len
  defines "mean \<equiv> compute_mean \<lparr>as_prior_mean = p, as_prior_weight = 5\<rparr> len s"
  assumes "0 \<le> p" and "- s \<le> 5 * ((1 - f64_eps) * p)"
  shows "0 \<le> mean"
    and "mean * ((1 - f64_eps)\<^sup>2 * (real len + 5)) \<le> (1 + f64_eps)\<^sup>2 * (s + 5 * ((1 + f64_eps) * p))"
    and "(1 - f64_eps)\<^sup>2 * (s + 5 * ((1 - f64_eps) * p)) \<le> mean * ((1 + f64_eps)\<^sup>2 * (real len + 5))"
proof -
  let ?e = f64_eps
  define pp where "pp = f64_round (5 * p)"
  define n where "n = f64_round (real len)"
  define den where "den = f64_round (n + 5)"
  define num where "num = f64_round (s + pp)"
  have mean: "mean = f64_round (num / den)"
    by (simp add: mean_def compute_mean_def f64_quotient_def f64_add_def f64_mul_def f64_of_nat_def pp_def n_def den_def num_def)
  have e: "0 < 1 - ?e" "0 < 1 + ?e" using f64_eps_bounds by simp_all
  have pp: "5 * ((1 - ?e) * p) \<le> pp" "pp \<le> 5 * ((1 + ?e) * p)"
    using f64_round_pos [of "5 * p"] assms(2) by (simp_all add: pp_def mult.left_commute)
  have n: "(1 - ?e) * real len \<le> n" "n \<le> (1 + ?e) * real len" "0 \<le> n" using f64_round_pos [of "real len"] by (simp_all add: n_def)
  have n5: "(1 - ?e) * (real len + 5) \<le> n + 5" "n + 5 \<le> (1 + ?e) * (real len + 5)"
    using n(1,2) f64_eps_bounds by (simp_all add: distrib_left)
  have den: "(1 - ?e) * (n + 5) \<le> den" "den \<le> (1 + ?e) * (n + 5)" using f64_round_pos [of "n + 5"] n(3) by (simp_all add: den_def)
  have den2: "(1 - ?e)\<^sup>2 * (real len + 5) \<le> den" "den \<le> (1 + ?e)\<^sup>2 * (real len + 5)"
    using order_trans [OF mult_left_mono [OF n5(1) less_imp_le [OF e(1)]] den(1)]
      order_trans [OF den(2) mult_left_mono [OF n5(2) less_imp_le [OF e(2)]]] by (simp_all add: power2_eq_square mult.assoc)
  have pos: "0 < den" using den(1) n(3) e(1) by (meson add_nonneg_pos less_le_trans mult_pos_pos zero_less_numeral)
  have sp: "0 \<le> s + pp" using pp(1) assms(3) by linarith
  have num: "(1 - ?e) * (s + pp) \<le> num" "num \<le> (1 + ?e) * (s + pp)" "0 \<le> num" using f64_round_pos [OF sp] by (simp_all add: num_def)
  have q: "0 \<le> num / den" using num(3) pos by simp
  note m = f64_round_pos [OF q, folded mean]
  show "0 \<le> mean" by (rule m(3))
  have "mean * den \<le> (1 + ?e) * num" using m(2) pos by (simp add: field_simps)
  also have "\<dots> \<le> (1 + ?e) * ((1 + ?e) * (s + 5 * ((1 + ?e) * p)))"
    using num(2) pp(2) e(2) by (intro mult_left_mono [OF order_trans [OF num(2)]] mult_left_mono) simp_all
  finally have up: "mean * den \<le> (1 + ?e)\<^sup>2 * (s + 5 * ((1 + ?e) * p))" by (simp add: power2_eq_square mult.assoc)
  have "mean * ((1 - ?e)\<^sup>2 * (real len + 5)) \<le> mean * den" using den2(1) m(3) by (rule mult_left_mono)
  with up show "mean * ((1 - ?e)\<^sup>2 * (real len + 5)) \<le> (1 + ?e)\<^sup>2 * (s + 5 * ((1 + ?e) * p))" by linarith
  have "(1 - ?e)\<^sup>2 * (s + 5 * ((1 - ?e) * p)) \<le> (1 - ?e) * num"
    using order_trans [OF mult_left_mono [of "s + 5 * ((1 - ?e) * p)" "s + pp" "1 - ?e"] num(1)] pp(1) e(1)
    by (simp add: power2_eq_square mult.assoc)
  also have "\<dots> \<le> mean * den" using m(1) pos by (simp add: field_simps)
  also have "\<dots> \<le> mean * ((1 + ?e)\<^sup>2 * (real len + 5))" using den2(2) m(3) by (rule mult_left_mono)
  finally show "(1 - ?e)\<^sup>2 * (s + 5 * ((1 - ?e) * p)) \<le> mean * ((1 + ?e)\<^sup>2 * (real len + 5))" .
qed

lemma mean_below:
  fixes mean s p :: real
  assumes "mean * ((1 - f64_eps)\<^sup>2 * (n + 5)) \<le> (1 + f64_eps)\<^sup>2 * (s + 5 * ((1 + f64_eps) * p))"
    and "s \<le> n * ((1 + f64_eps)\<^sup>2 * x) + (1 + f64_eps)\<^sup>2 * d" and "p \<le> (1 + f64_eps)\<^sup>2 * y"
    and "x \<le> m" and "y \<le> m" and "0 \<le> m" and "0 \<le> d" and "0 \<le> n"
  shows "mean * (1 - f64_eps)\<^sup>2 \<le> (1 + f64_eps) ^ 5 * (m + d)"
proof -
  let ?u = "1 + f64_eps"
  have u: "1 \<le> ?u" "0 \<le> ?u" using f64_eps_bounds by simp_all
  have grow: "?u\<^sup>2 * z \<le> ?u ^ 3 * z" if "0 \<le> z" for z
    using that u by (intro mult_right_mono power_increasing) simp_all
  have "n * (?u\<^sup>2 * x) \<le> n * (?u\<^sup>2 * m)" using assms(4,8) by (intro mult_left_mono) simp_all
  also have "\<dots> \<le> ?u ^ 3 * (n * m)" using grow [of "n * m"] assms(6,8) by (simp add: mult_ac)
  finally have "n * (?u\<^sup>2 * x) \<le> ?u ^ 3 * (n * m)" .
  moreover have "5 * (?u * p) \<le> ?u ^ 3 * (5 * m)"
  proof -
    have "p \<le> ?u\<^sup>2 * m" using order_trans [OF assms(3) mult_left_mono [OF assms(5)]] by simp
    then have "?u * p \<le> ?u * (?u\<^sup>2 * m)" using u(2) by (rule mult_left_mono)
    then have "5 * (?u * p) \<le> 5 * (?u * (?u\<^sup>2 * m))" by simp
    also have "\<dots> = ?u ^ 3 * (5 * m)" by (simp add: power_numeral_reduce algebra_simps)
    finally show ?thesis .
  qed
  ultimately have "s + 5 * (?u * p) \<le> ?u ^ 3 * (n * m + d + 5 * m)"
    using assms(2) grow [OF assms(7)] by (simp add: distrib_left)
  also have "\<dots> \<le> ?u ^ 3 * ((n + 5) * (m + d))"
    using assms(7,8) u by (intro mult_left_mono) (simp_all add: distrib_left distrib_right)
  finally have "?u\<^sup>2 * (s + 5 * (?u * p)) \<le> ?u\<^sup>2 * (?u ^ 3 * ((n + 5) * (m + d)))" using u by (intro mult_left_mono) simp_all
  with assms(1) have "(n + 5) * (mean * (1 - f64_eps)\<^sup>2) \<le> (n + 5) * (?u ^ 5 * (m + d))"
    by (simp add: mult_ac power_numeral_reduce)
  with assms(8) show ?thesis by simp
qed

lemma mean_above:
  fixes mean s p :: real
  assumes "(1 - f64_eps)\<^sup>2 * (s + 5 * ((1 - f64_eps) * p)) \<le> mean * ((1 + f64_eps)\<^sup>2 * (n + 5))"
    and "(1 - f64_eps) ^ 3 * ((n + 5) * (l - d)) \<le> s + 5 * ((1 - f64_eps) * p)" and "0 \<le> n"
  shows "(1 - f64_eps) ^ 5 * (l - d) \<le> mean * (1 + f64_eps)\<^sup>2"
proof -
  let ?v = "1 - f64_eps"
  have "?v\<^sup>2 * (?v ^ 3 * ((n + 5) * (l - d))) \<le> ?v\<^sup>2 * (s + 5 * (?v * p))" using assms(2) by (rule mult_left_mono) simp
  with assms(1) have "(n + 5) * (?v ^ 5 * (l - d)) \<le> (n + 5) * (mean * (1 + f64_eps)\<^sup>2)"
    by (simp add: mult_ac power_numeral_reduce)
  with assms(3) show ?thesis by simp
qed

lemma phi_above:
  assumes "0 < mean" and "f64_quotient q mean \<le> thr" and "(1 - f64_eps)\<^sup>2 * t \<le> q" and "0 \<le> t" and "0 \<le> thr"
    and "mean * (1 - f64_eps)\<^sup>2 \<le> (1 + f64_eps) ^ 5 * m"
  shows "t \<le> (1 + f64_eps) ^ 15 * (thr * m)"
proof -
  let ?u = "1 + f64_eps" and ?v = "1 - f64_eps"
  have v: "0 \<le> ?v" "0 \<le> ?u" using f64_eps_bounds by simp_all
  have q: "0 \<le> q" using order_trans [OF _ assms(3)] assms(4) by simp
  have "?v * (q / mean) \<le> thr" using f64_round_pos(1) [of "q / mean"] q assms(1,2) by (simp add: f64_quotient_def)
  then have "?v * q \<le> thr * mean" using assms(1) by (simp add: field_simps)
  then have "?v * (?v\<^sup>2 * t) \<le> thr * mean" using mult_left_mono [OF assms(3) v(1)] by linarith
  from mult_right_mono [OF this, of "?v\<^sup>2"] have "?v ^ 5 * t \<le> thr * (mean * ?v\<^sup>2)" by (simp add: power_numeral_reduce mult_ac)
  also have "\<dots> \<le> thr * (?u ^ 5 * m)" using assms(6,5) by (rule mult_left_mono)
  finally have "?u ^ 10 * (?v ^ 5 * t) \<le> ?u ^ 10 * (thr * (?u ^ 5 * m))" using v(2) by (intro mult_left_mono) simp_all
  moreover have "1 * t \<le> ?u ^ 10 * ?v ^ 5 * t" using eps_cube [of 5] assms(4) by (intro mult_right_mono) simp_all
  ultimately show ?thesis by (simp add: mult_ac flip: power_add)
qed

lemma phi_below:
  assumes "0 < mean" and "q \<le> (1 + f64_eps)\<^sup>2 * t" and "0 \<le> q" and "0 \<le> t" and "0 \<le> thr"
    and "(1 - f64_eps) ^ 5 * l \<le> mean * (1 + f64_eps)\<^sup>2" and "(1 + f64_eps) ^ 15 * t \<le> thr * l"
  shows "f64_quotient q mean \<le> thr"
proof -
  let ?u = "1 + f64_eps" and ?v = "1 - f64_eps"
  have v: "0 \<le> ?v" "0 < ?u" using f64_eps_bounds by simp_all
  have "?u ^ 5 * (1 * t) \<le> ?u ^ 5 * (?u ^ 10 * ?v ^ 5 * t)"
    using eps_cube [of 5] assms(4) v by (intro mult_left_mono mult_right_mono) simp_all
  also have "\<dots> = ?v ^ 5 * (?u ^ 15 * t)" using power_add [of ?u 5 10] by (simp add: mult_ac)
  also have "\<dots> \<le> ?v ^ 5 * (thr * l)" using assms(7) v(1) by (intro mult_left_mono) simp_all
  also have "\<dots> = thr * (?v ^ 5 * l)" by simp
  also have "\<dots> \<le> thr * (mean * ?u\<^sup>2)" using assms(6,5) by (rule mult_left_mono)
  finally have "?u\<^sup>2 * (?u ^ 3 * t) \<le> ?u\<^sup>2 * (thr * mean)" using power_add [of ?u 2 3] by (simp add: mult_ac)
  then have "?u ^ 3 * t \<le> thr * mean" using v(2) by (subst (asm) mult_le_cancel_left_pos) simp_all
  moreover have "?u * q \<le> ?u ^ 3 * t" using mult_left_mono [OF assms(2), of ?u] v(2) by (simp add: power_numeral_reduce mult_ac)
  ultimately have "?u * q \<le> thr * mean" by linarith
  then have "?u * (q / mean) \<le> thr" using assms(1) by (simp add: field_simps)
  with f64_round_pos(2) [of "q / mean"] assms(1,3) show ?thesis by (simp add: f64_quotient_def)
qed

text \<open>What rounding can add up to after \<open>n\<close> intervals, with the sum of a full window of the longest intervals as
  its scale.\<close>

definition f64_drift :: "FailureDetectorConfig \<Rightarrow> nat \<Rightarrow> real" where
  "f64_drift c n = real (fdc_sampling_window_size c) * secs (fdc_max_interval c) * ((1 + f64_eps) ^ (2 * n + 8) - 1)"

lemma drift_scaled:
  fixes c n
  defines "d \<equiv> real (fdc_sampling_window_size c) * secs (fdc_max_interval c) * ((1 + f64_eps) ^ (2 * n) - 1)"
  shows "0 \<le> d" and "(1 + f64_eps) ^ 8 * d \<le> f64_drift c n" and "d \<le> f64_drift c n"
    and "(1 + f64_eps)\<^sup>2 * d \<le> (1 - f64_eps) ^ 3 * f64_drift c n" and "(1 + f64_eps)\<^sup>2 * d \<le> f64_drift c n"
proof -
  let ?e = f64_eps
  have e: "0 \<le> 1 - ?e" "1 \<le> 1 + ?e" using f64_eps_bounds by simp_all
  have pow: "1 \<le> (1 + ?e) ^ k" for k using e(2) by (rule one_le_power)
  show d: "0 \<le> d" using pow [of "2 * n"] by (simp add: d_def)
  have "(1 + ?e) ^ 8 * ((1 + ?e) ^ (2 * n) - 1) \<le> (1 + ?e) ^ (2 * n + 8) - 1"
    using pow [of 8] by (simp add: algebra_simps power_add)
  from mult_left_mono [OF this, of "real (fdc_sampling_window_size c) * secs (fdc_max_interval c)"]
  show eight: "(1 + ?e) ^ 8 * d \<le> f64_drift c n" by (simp add: d_def f64_drift_def mult_ac)
  have less: "k \<le> 8 \<Longrightarrow> (1 + ?e) ^ k * d \<le> f64_drift c n" for k
    using order_trans [OF mult_right_mono [OF power_increasing [of k 8 "1 + ?e"] d] eight] e(2) by simp
  show "d \<le> f64_drift c n" "(1 + ?e)\<^sup>2 * d \<le> f64_drift c n" using less [of 0] less [of 2] by simp_all
  have "(1 + ?e)\<^sup>2 * d * 1 \<le> (1 + ?e)\<^sup>2 * d * ((1 + ?e) ^ 6 * (1 - ?e) ^ 3)"
    using eps_cube [of 3] d by (intro mult_left_mono) simp_all
  also have "\<dots> = (1 - ?e) ^ 3 * ((1 + ?e) ^ 8 * d)"
    using power_add [of "1 + ?e" 2 6] by (simp add: mult_ac)
  also have "\<dots> \<le> (1 - ?e) ^ 3 * f64_drift c n" using eight e(1) by (intro mult_left_mono) simp_all
  finally show "(1 + ?e)\<^sup>2 * d \<le> (1 - ?e) ^ 3 * f64_drift c n" by simp
qed

lemma window_sum:
  fixes c n
  defines "d \<equiv> real (fdc_sampling_window_size c) * secs (fdc_max_interval c) * ((1 + f64_eps) ^ (2 * n) - 1)"
  assumes "bas_capacity b = fdc_sampling_window_size c" and "bas_drift (longest c) n b"
  shows "\<bar>bas_sum b - sum_list (bas_window b)\<bar> \<le> (1 + f64_eps)\<^sup>2 * d"
  using assms by (simp add: bas_drift_def longest_def mult_ac)

lemma silent_not_alive_aux:
  assumes wf: "fd_wf fd" and drift: "fd_drift n fd" and w: "btm_get (fd_node_samples fd) i = Some w"
    and last: "sw_last_heartbeat w = Some t" and th: "0 \<le> fdc_phi_threshold (fd_config fd)"
    and prior: "f64_drift (fd_config fd) n \<le> 4 * secs (fdc_initial_interval (fd_config fd))"
    and silent: "(1 + f64_eps) ^ 15 * (fdc_phi_threshold (fd_config fd)
        * (secs (max (fdc_max_interval (fd_config fd)) (fdc_initial_interval (fd_config fd))) + f64_drift (fd_config fd) n))
      < secs (now - t)"
  shows "\<not> fd_is_alive i now fd"
proof (cases "bas_len (sw_intervals w) = 0")
  case True
  then show ?thesis by (simp add: fd_is_alive_def fd_phi_def w sw_phi_def)
next
  case False
  let ?c = "fd_config fd" and ?b = "sw_intervals w" and ?e = f64_eps
  let ?P = "secs (max (fdc_max_interval ?c) (fdc_initial_interval ?c))" and ?I = "secs (fdc_initial_interval ?c)"
  let ?p = "as_secs_f64 (fdc_initial_interval ?c)" and ?thr = "fdc_phi_threshold ?c" and ?T = "secs (now - t)"
  define d where "d = real (fdc_sampling_window_size ?c) * secs (fdc_max_interval ?c) * ((1 + ?e) ^ (2 * n) - 1)"
  define mean where "mean = compute_mean \<lparr>as_prior_mean = ?p, as_prior_weight = 5\<rparr> (bas_len ?b) (bas_sum ?b)"
  note D = drift_scaled [where c = ?c and n = n, folded d_def]
  have e: "0 < 1 - ?e" "0 < 1 + ?e" "1 \<le> 1 + ?e" using f64_eps_bounds by simp_all
  have sw: "sw_wf ?c w" by (rule fd_wf_sample [OF wf w])
  note samples = fd_drift_sample [OF drift w]
  have P: "secs (fdc_max_interval ?c) \<le> ?P" "?I \<le> ?P" by (simp_all add: secs_mono)
  have W: "0 \<le> sum_list (bas_window ?b)" "sum_list (bas_window ?b) \<le> real (bas_len ?b) * longest ?c"
    using sum_list_bound [of "longest ?c" "bas_window ?b"] samples bas_len_window [of ?b] sw by (simp_all add: bas_drift_def sw_wf_def)
  have sum: "\<bar>bas_sum ?b - sum_list (bas_window ?b)\<bar> \<le> (1 + ?e)\<^sup>2 * d"
    unfolding d_def using samples by (intro window_sum) simp_all
  have "4 * ?I \<le> 5 * ((1 - ?e) * ((1 - ?e)\<^sup>2 * ?I))"
    using mult_right_mono [of 4 "5 * ((1 - ?e) * (1 - ?e)\<^sup>2)" ?I] by (simp add: f64_eps_def power2_eq_square)
  also have "\<dots> \<le> 5 * ((1 - ?e) * ?p)" using as_secs_f64_bounds(1) e(1) by simp
  finally have low: "- bas_sum ?b \<le> 5 * ((1 - ?e) * ?p)" using sum W(1) D(5) prior by linarith
  note M = compute_mean_bounds [OF as_secs_f64_nonneg low, of "bas_len ?b", folded mean_def]
  have up: "bas_sum ?b \<le> real (bas_len ?b) * ((1 + ?e)\<^sup>2 * secs (fdc_max_interval ?c)) + (1 + ?e)\<^sup>2 * d"
    using W(2) sum by (simp add: longest_def)
  have "mean * (1 - ?e)\<^sup>2 \<le> (1 + ?e) ^ 5 * (?P + d)"
    by (rule mean_below [OF M(2) up as_secs_f64_bounds(2) P]) (simp_all add: D(1))
  also have "\<dots> \<le> (1 + ?e) ^ 5 * (?P + f64_drift ?c n)" using D(3) e(2) by (intro mult_left_mono) simp_all
  finally have mean: "mean * (1 - ?e)\<^sup>2 \<le> (1 + ?e) ^ 5 * (?P + f64_drift ?c n)" .
  have "\<not> f64_quotient (as_secs_f64 (now - t)) mean \<le> ?thr" if "mean \<noteq> 0"
    using phi_above [OF _ _ as_secs_f64_bounds(1) secs_nonneg th mean] M(1) that silent by (meson less_le not_le)
  then show ?thesis
    using False sw by (auto simp: fd_is_alive_def fd_phi_def w sw_phi_def last f64_div_def sw_wf_def Let_def mean_def)
qed

section \<open>Regular nodes\<close>

text \<open>Heartbeats of a node, the first at a given time and the others each some time after the one before.\<close>

fun report_gaps :: "ChitchatId \<Rightarrow> instant \<Rightarrow> duration list \<Rightarrow> FailureDetector \<Rightarrow> panic + FailureDetector" where
  "report_gaps i t [] fd = fd_report_heartbeat i t fd"
| "report_gaps i t (g # gs) fd = result_bind (fd_report_heartbeat i t fd) (report_gaps i (t + g) gs)"

text \<open>No sampled interval is shorter than a lower bound, and neither is the one that ends at \<open>t\<close>.\<close>

definition no_shorter :: "duration \<Rightarrow> real \<Rightarrow> bool" where
  "no_shorter lo x \<longleftrightarrow> (\<exists>g \<ge> lo. x = as_secs_f64 g)"

definition regular_until :: "duration \<Rightarrow> instant \<Rightarrow> SamplingWindow \<Rightarrow> bool" where
  "regular_until lo t w \<longleftrightarrow> list_all (no_shorter lo) (bas_window (sw_intervals w))
     \<and> (case sw_last_heartbeat w of None \<Rightarrow> True | Some t0 \<Rightarrow> t0 + lo \<le> t)"

abbreviation regular_node :: "duration \<Rightarrow> instant \<Rightarrow> ChitchatId \<Rightarrow> FailureDetector \<Rightarrow> bool" where
  "regular_node lo t i fd \<equiv> (case btm_get (fd_node_samples fd) i of None \<Rightarrow> True | Some w \<Rightarrow> regular_until lo t w)"

lemma sw_report_regular:
  assumes "sw_wf c w" and "regular_until lo t w"
  shows "\<exists>w'. sw_report_heartbeat t w = Inr w' \<and> sw_wf c w' \<and> sw_last_heartbeat w' = Some t
    \<and> list_all (no_shorter lo) (bas_window (sw_intervals w'))
    \<and> (\<forall>t0. sw_last_heartbeat w = Some t0 \<and> t - t0 \<le> fdc_max_interval c \<longrightarrow> bas_window (sw_intervals w') \<noteq> [])"
proof -
  obtain w' where w': "sw_report_heartbeat t w = Inr w'" "sw_wf c w'" "sw_last_heartbeat w' = Some t"
    using sw_report_heartbeat_ok [OF assms(1), of t] by blast
  show ?thesis
  proof (cases "\<exists>t0. sw_last_heartbeat w = Some t0 \<and> t - t0 \<le> fdc_max_interval c")
    case False
    then have "w' = w\<lparr>sw_last_heartbeat := Some t\<rparr>"
      using w'(1) assms(1) by (auto simp: sw_report_heartbeat_def sw_wf_def Let_def split: option.splits if_splits)
    with False w' assms(2) show ?thesis by (auto simp: regular_until_def)
  next
    case True
    then obtain t0 where t0: "sw_last_heartbeat w = Some t0" "t - t0 \<le> fdc_max_interval c" by blast
    let ?q = "queue_append (bas_capacity (sw_intervals w)) (as_secs_f64 (t - t0)) (bas_window (sw_intervals w))"
    have max: "t - t0 \<le> sw_max_interval w" using assms(1) t0(2) by (simp add: sw_wf_def)
    have b: "bas_window (sw_intervals w') = ?q"
      using bas_append_ok [of "sw_intervals w" "as_secs_f64 (t - t0)"] assms(1) w'(1) t0(1) max
      by (auto simp: sw_report_heartbeat_def sw_wf_def Let_def)
    have "no_shorter lo (as_secs_f64 (t - t0))" 
      using assms(2) t0(1) by (auto simp: regular_until_def no_shorter_def intro!: exI [of _ "t - t0"])
    moreover have "?q \<noteq> []" by (simp add: queue_append_def)
    ultimately show ?thesis
      using w' b assms(2) list_all_queue_append [of "no_shorter lo"] by (simp add: regular_until_def)
  qed
qed

lemma fd_report_regular:
  assumes "fd_wf fd" and "regular_node lo t i fd"
  shows "\<exists>fd' w'. fd_report_heartbeat i t fd = Inr fd' \<and> fd_wf fd' \<and> fd_config fd' = fd_config fd
    \<and> btm_get (fd_node_samples fd') i = Some w' \<and> sw_last_heartbeat w' = Some t
    \<and> list_all (no_shorter lo) (bas_window (sw_intervals w'))
    \<and> (\<forall>w t0. btm_get (fd_node_samples fd) i = Some w \<and> sw_last_heartbeat w = Some t0
         \<and> t - t0 \<le> fdc_max_interval (fd_config fd) \<longrightarrow> bas_window (sw_intervals w') \<noteq> [])"
proof -
  obtain w fd1 where w: "get_or_create_sampling_window i fd = (w, fd1)" by fastforce
  note wf = get_or_create_wf [OF assms(1) w]
  have known: "btm_get (fd_node_samples fd) i = Some u \<Longrightarrow> u = w" for u
    using w by (simp add: get_or_create_sampling_window_def)
  have reg: "regular_until lo t w"
    using w assms(2) by (auto simp: get_or_create_sampling_window_def regular_until_def SamplingWindow_new_def Let_def
        split: option.splits)
  obtain w' where w': "sw_report_heartbeat t w = Inr w'" "sw_wf (fd_config fd) w'" "sw_last_heartbeat w' = Some t"
      "list_all (no_shorter lo) (bas_window (sw_intervals w'))"
      "\<forall>t0. sw_last_heartbeat w = Some t0 \<and> t - t0 \<le> fdc_max_interval (fd_config fd) \<longrightarrow> bas_window (sw_intervals w') \<noteq> []"
    using sw_report_regular [of "fd_config fd" w lo t] wf reg by auto
  let ?fd = "fd1\<lparr>fd_node_samples := btm_insert i w' (fd_node_samples fd1)\<rparr>"
  have "fd_report_heartbeat i t fd = Inr ?fd" using w w'(1) by (simp add: fd_report_heartbeat_def)
  moreover have "fd_wf ?fd" using wf w'(2) by (auto intro!: fd_wf_insert_sample)
  moreover have "btm_get (fd_node_samples ?fd) i = Some w'" using wf by (simp add: fd_wf_def)
  ultimately show ?thesis using w' wf known by (intro exI [of _ ?fd] exI [of _ w']) auto
qed

lemma report_gaps_regular:
  assumes "fd_wf fd" and "regular_node lo t i fd"
    and "list_all (\<lambda>g. lo \<le> g \<and> g \<le> fdc_max_interval (fd_config fd)) gaps"
  shows "\<exists>fd' w'. report_gaps i t gaps fd = Inr fd' \<and> fd_wf fd' \<and> fd_config fd' = fd_config fd
    \<and> btm_get (fd_node_samples fd') i = Some w' \<and> sw_last_heartbeat w' = Some (t + sum_list gaps)
    \<and> list_all (no_shorter lo) (bas_window (sw_intervals w'))
    \<and> (gaps \<noteq> [] \<or> (\<exists>w t0. btm_get (fd_node_samples fd) i = Some w \<and> sw_last_heartbeat w = Some t0
         \<and> t - t0 \<le> fdc_max_interval (fd_config fd)) \<longrightarrow> bas_window (sw_intervals w') \<noteq> [])"
  using assms
proof (induction gaps arbitrary: t fd)
  case Nil
  then show ?case using fd_report_regular [OF Nil(1,2)] by simp
next
  case (Cons g gaps)
  obtain fd1 w1 where fd1: "fd_report_heartbeat i t fd = Inr fd1" "fd_wf fd1" "fd_config fd1 = fd_config fd"
      "btm_get (fd_node_samples fd1) i = Some w1" "sw_last_heartbeat w1 = Some t"
      "list_all (no_shorter lo) (bas_window (sw_intervals w1))"
    using fd_report_regular [OF Cons.prems(1,2)] by blast
  have reg: "regular_node lo (t + g) i fd1" using fd1(4-6) Cons.prems(3) by (simp add: regular_until_def)
  have gaps: "list_all (\<lambda>g. lo \<le> g \<and> g \<le> fdc_max_interval (fd_config fd1)) gaps" "t + g - t \<le> fdc_max_interval (fd_config fd1)"
    using Cons.prems(3) fd1(3) by simp_all
  obtain fd' w' where fd': "report_gaps i (t + g) gaps fd1 = Inr fd'" "fd_wf fd'" "fd_config fd' = fd_config fd1"
      "btm_get (fd_node_samples fd') i = Some w'" "sw_last_heartbeat w' = Some (t + g + sum_list gaps)"
      "list_all (no_shorter lo) (bas_window (sw_intervals w'))" "bas_window (sw_intervals w') \<noteq> []"
    using Cons.IH [OF fd1(2) reg gaps(1)] fd1(4,5) gaps(2) by blast
  show ?case
    using fd1(1,3) fd' by (intro exI [of _ fd'] exI [of _ w']) (simp add: add.assoc)
qed

lemma report_gaps_drift:
  assumes "fd_wf fd" and "fd_drift n fd" and "report_gaps i t gaps fd = Inr fd'"
  shows "fd_drift (Suc (n + length gaps)) fd'"
  using assms
proof (induction gaps arbitrary: t fd n)
  case Nil
  then show ?case using fd_report_drift by simp
next
  case (Cons g gaps)
  obtain fd1 where fd1: "fd_report_heartbeat i t fd = Inr fd1" "fd_wf fd1" using fd_report_heartbeat_ok [OF Cons.prems(1)] by blast
  with Cons.prems(3) have "report_gaps i (t + g) gaps fd1 = Inr fd'" by simp
  from Cons.IH [OF fd1(2) fd_report_drift [OF Cons.prems(1,2) fd1(1)] this] show ?case by simp
qed

lemma sum_list_ge: "list_all (\<lambda>x. (m :: real) \<le> x) xs \<Longrightarrow> real (length xs) * m \<le> sum_list xs"
  by (induction xs) (auto simp: algebra_simps)

lemma no_shorter_ge: "no_shorter lo x \<Longrightarrow> (1 - f64_eps)\<^sup>2 * secs lo \<le> x"
  using order_trans [OF mult_left_mono [OF secs_mono] as_secs_f64_bounds(1)] by (auto simp: no_shorter_def)

lemma regular_alive_aux:
  assumes wf: "fd_wf fd" and drift: "fd_drift n fd" and w: "btm_get (fd_node_samples fd) i = Some w" and last: "sw_last_heartbeat w = Some t"
    and all: "list_all (no_shorter lo) (bas_window (sw_intervals w))" and ne: "bas_window (sw_intervals w) \<noteq> []"
    and lo: "lo \<le> fdc_initial_interval (fd_config fd)" and room: "f64_drift (fd_config fd) n < secs lo"
    and th: "0 \<le> fdc_phi_threshold (fd_config fd)"
    and late: "(1 + f64_eps) ^ 15 * secs (now - t) \<le> fdc_phi_threshold (fd_config fd) * (secs lo - f64_drift (fd_config fd) n)"
  shows "fd_is_alive i now fd"
proof -
  let ?c = "fd_config fd" and ?b = "sw_intervals w" and ?e = f64_eps and ?L = "secs lo" and ?n = "real (bas_len (sw_intervals w))"
  let ?p = "as_secs_f64 (fdc_initial_interval ?c)" and ?D = "f64_drift (fd_config fd) n"
  define d where "d = real (fdc_sampling_window_size ?c) * secs (fdc_max_interval ?c) * ((1 + ?e) ^ (2 * n) - 1)"
  define mean where "mean = compute_mean \<lparr>as_prior_mean = ?p, as_prior_weight = 5\<rparr> (bas_len ?b) (bas_sum ?b)"
  note D = drift_scaled [where c = ?c and n = n, folded d_def]
  have v: "0 < 1 - ?e" "1 - ?e \<le> 1" using f64_eps_bounds by simp_all
  have sw: "sw_wf ?c w" by (rule fd_wf_sample [OF wf w])
  then have len: "bas_len ?b = length (bas_window ?b)" using bas_len_window by (simp add: sw_wf_def)
  have sum: "\<bar>bas_sum ?b - sum_list (bas_window ?b)\<bar> \<le> (1 + ?e)\<^sup>2 * d"
    unfolding d_def using fd_drift_sample [OF drift w] by (intro window_sum) simp_all
  have cube: "(1 - ?e) ^ 3 * ?L \<le> (1 - ?e)\<^sup>2 * ?L" using v by (intro mult_right_mono power_decreasing) simp_all
  have "list_all (\<lambda>x. (1 - ?e) ^ 3 * ?L \<le> x) (bas_window ?b)"
    using all order_trans [OF cube no_shorter_ge] by (auto simp: list_all_iff)
  then have W: "?n * ((1 - ?e) ^ 3 * ?L) \<le> sum_list (bas_window ?b)" unfolding len by (rule sum_list_ge)
  have "(1 - ?e) * ((1 - ?e)\<^sup>2 * ?L) \<le> (1 - ?e) * ?p"
    using order_trans [OF mult_left_mono [OF secs_mono [OF lo]] as_secs_f64_bounds(1)] v(1) by (intro mult_left_mono) simp_all
  then have P: "(1 - ?e) ^ 3 * ?L \<le> (1 - ?e) * ?p" by (simp add: power_numeral_reduce mult_ac)
  have "(1 - ?e) ^ 3 * ((?n + 5) * (?L - ?D)) \<le> (1 - ?e) ^ 3 * ((?n + 5) * ?L - ?D)"
    using v(1) D(1,3) mult_right_mono [of 1 "?n + 5" ?D] by (intro mult_left_mono) (simp_all add: right_diff_distrib)
  also have "\<dots> = ?n * ((1 - ?e) ^ 3 * ?L) + 5 * ((1 - ?e) ^ 3 * ?L) - (1 - ?e) ^ 3 * ?D" by (simp add: algebra_simps)
  finally have low: "(1 - ?e) ^ 3 * ((?n + 5) * (?L - ?D)) \<le> bas_sum ?b + 5 * ((1 - ?e) * ?p)"
    using W P sum D(4) by linarith
  have pos: "0 < (1 - ?e) ^ 3 * ((?n + 5) * (?L - ?D))" using v(1) room by (intro mult_pos_pos) simp_all
  then have "- bas_sum ?b \<le> 5 * ((1 - ?e) * ?p)" using low by linarith
  note M = compute_mean_bounds [OF as_secs_f64_nonneg this, of "bas_len ?b", folded mean_def]
  have mean: "(1 - ?e) ^ 5 * (?L - ?D) \<le> mean * (1 + ?e)\<^sup>2" by (rule mean_above [OF M(3) low]) simp
  have "0 < (1 - ?e) ^ 5 * (?L - ?D)" using v(1) room by simp
  with mean M(1) have "0 < mean" by (cases "mean = 0") simp_all
  from phi_below [OF this as_secs_f64_bounds(2) as_secs_f64_nonneg secs_nonneg th mean late]
  show ?thesis
    using ne len sw \<open>0 < mean\<close> by (auto simp: fd_is_alive_def fd_phi_def w sw_phi_def last f64_div_def sw_wf_def Let_def mean_def)
qed

section \<open>Properties\<close>



text \<open>
  After its liveness is updated a node is either live or dead and not both: live exactly when its
  phi is defined and at most the threshold. A node that was dead already keeps its time of death, the
  other nodes are untouched, and the invariant is kept.
\<close>

lemma liveness_partition:
  assumes "fd_wf fd"
  shows "fd_wf (update_node_liveness i now fd)
    \<and> (i \<in> fd_live_nodes (update_node_liveness i now fd) \<longleftrightarrow> fd_is_alive i now fd)
    \<and> btm_get (fd_dead_nodes (update_node_liveness i now fd)) i =
        (if fd_is_alive i now fd then None
         else case btm_get (fd_dead_nodes fd) i of None \<Rightarrow> Some now | Some t \<Rightarrow> Some t)
    \<and> (\<forall>j. j = i \<or> ((j \<in> fd_live_nodes (update_node_liveness i now fd) \<longleftrightarrow> j \<in> fd_live_nodes fd)
         \<and> btm_get (fd_dead_nodes (update_node_liveness i now fd)) j = btm_get (fd_dead_nodes fd) j))"
  using update_node_liveness_wf [OF assms] update_node_liveness_live [of _ i now fd]
    update_node_liveness_dead [of fd i now] assms
  by (simp add: fd_wf_def)

definition demo_peer :: ChitchatId where
  "demo_peer = ChitchatId ''peer'' 0 (SocketAddrV4 [127, 0, 0, 1] 7281)"

definition demo_detector :: FailureDetector where
  "demo_detector = FailureDetector_new FailureDetectorConfig_default"

lemma demo_detector_wf: "fd_wf demo_detector"
  by (simp add: demo_detector_def fd_wf_def FailureDetector_new_def FailureDetectorConfig_default_def)


text \<open>With the default configuration the drift of a million heartbeats is below a hundredth of a second.\<close>

lemma default_drift:
  assumes "n \<le> 1000000"
  shows "f64_drift FailureDetectorConfig_default n \<le> 1 / 100"
proof -
  let ?k = "2 * n + 8"
  have k: "2 * real ?k * f64_eps \<le> 2 / 10 ^ 8" using assms by (simp add: f64_eps_def)
  then have "(1 + f64_eps) ^ ?k \<le> 1 + 2 * real ?k * f64_eps" by (intro eps_power_le) simp
  with k have "(1 + f64_eps) ^ ?k \<le> 1 + 2 / 10 ^ 8" by linarith
  then show ?thesis by (simp add: f64_drift_def FailureDetectorConfig_default_def from_secs_def secs_def)
qed

lemma f64_margin_small: "(1 + f64_eps) ^ 15 \<le> 1 + 1 / 1000000"
  using eps_power_le [of 15] by (simp add: f64_eps_def)




text \<open>
  C24. The nodes that garbage collection removes are exactly those that have been dead for the whole
  grace period; they were already scheduled for deletion, so no longer gossiped, and they are
  forgotten. Here half of the grace period is any shorter duration.
\<close>

theorem scheduled_before_collected:
  assumes "fd_wf fd" and "fd_garbage_collect now fd = (collected, fd')"
    and "half (fdc_dead_node_grace_period (fd_config fd)) < fdc_dead_node_grace_period (fd_config fd)"
  shows "fd_wf fd' \<and> set collected \<subseteq> fd_scheduled_for_deletion_nodes half now fd
    \<and> (i \<in> set collected \<longleftrightarrow> (\<exists>t. btm_get (fd_dead_nodes fd) i = Some t
         \<and> t + fdc_dead_node_grace_period (fd_config fd) \<le> now))
    \<and> fd_live_nodes fd' = fd_live_nodes fd
    \<and> btm_get (fd_node_samples fd') i = (if i \<in> set collected then None else btm_get (fd_node_samples fd) i)"
proof -
  note mem = fd_garbage_collect_collected [OF assms(1), of _ now, unfolded assms(2) fst_conv]
  have "j \<in> fd_scheduled_for_deletion_nodes half now fd" if "j \<in> set collected" for j
    using that assms(3) unfolding mem fd_scheduled_iff [OF assms(1)] by auto
  then show ?thesis
    using mem fd_garbage_collect_state [OF assms(1,2)] fd_garbage_collect_wf [OF assms(1), of now] assms(2) by auto
qed

theorem scheduled_before_collected_witness:
  "set (fst (fd_garbage_collect (from_secs 90000) (update_node_liveness demo_peer 5 demo_detector)))
     \<subseteq> fd_scheduled_for_deletion_nodes (\<lambda>d. d div 2) (from_secs 90000) (update_node_liveness demo_peer 5 demo_detector)"
proof -
  let ?fd = "update_node_liveness demo_peer 5 demo_detector"
  have wf: "fd_wf ?fd" by (rule update_node_liveness_wf [OF demo_detector_wf])
  obtain c fd' where gc: "fd_garbage_collect (from_secs 90000) ?fd = (c, fd')" by fastforce
  have "fd_config ?fd = FailureDetectorConfig_default"
    by (auto simp: update_node_liveness_eq demo_detector_def FailureDetector_new_def)
  then have "fdc_dead_node_grace_period (fd_config ?fd) div 2 < fdc_dead_node_grace_period (fd_config ?fd)"
    by (simp add: FailureDetectorConfig_default_def from_secs_def)
  from scheduled_before_collected [OF wf gc, of "\<lambda>d. d div 2", OF this] gc show ?thesis by simp
qed

end
