(* ===== verification/Chitchat.thy ===== *)
theory Chitchat
  imports Decoding Transport Cluster_State Failure_Detector
begin

text \<open>
  The handler of \<^verbatim>\<open>chitchat/src/lib.rs\<close>: a Chitchat instance (its configuration, of
  \<^verbatim>\<open>configuration.rs\<close>, its cluster state and its failure detector), the three-way handshake, the
  liveness update and the operations on the local node. Handlers return the new instance, the reply
  and, in order, the callbacks they called; a panic is the left value. The environment (compressor,
  shuffling, clock) is the record \<open>Env\<close>.
\<close>

section \<open>Configuration and state\<close>

text \<open>The catch-up callback is an opaque closure: the model keeps whether there is one.\<close>

record ChitchatConfig =
  cfg_chitchat_id :: ChitchatId
  cfg_cluster_id :: string
  cfg_gossip_interval :: duration
  cfg_listen_addr :: SocketAddr
  cfg_seed_nodes :: "string list"
  cfg_failure_detector_config :: FailureDetectorConfig
  cfg_marked_for_deletion_grace_period :: duration
  cfg_catchup_callback :: bool
  cfg_extra_liveness_predicate :: "(NodeState \<Rightarrow> bool) option"

record Chitchat =
  cc_config :: ChitchatConfig
  cc_cluster_state :: ClusterState
  cc_failure_detector :: FailureDetector
  cc_previous_live_nodes :: "(ChitchatId, Version) btree_map"
  cc_live_nodes_watch :: "(ChitchatId, NodeState) btree_map"

record Env =
  env_zstd :: zstd
  env_shuffle :: shuffle
  env_half :: "duration \<Rightarrow> duration"
  env_now :: instant

datatype effect = CallListener callback KeyChangeEvent | CallCatchup

type_synonym 'a outcome = "panic + 'a"

definition self_chitchat_id :: "Chitchat \<Rightarrow> ChitchatId" where
  "self_chitchat_id cc = cfg_chitchat_id (cc_config cc)"

definition self_node_state :: "Chitchat \<Rightarrow> NodeState" where
  "self_node_state cc = node_state_mut (cc_cluster_state cc) (self_chitchat_id cc)"

definition put_self_node_state :: "NodeState \<Rightarrow> Chitchat \<Rightarrow> Chitchat" where
  "put_self_node_state ns cc =
     cc\<lparr>cc_cluster_state := put_node_state (self_chitchat_id cc) ns (cc_cluster_state cc)\<rparr>"

definition update_self_heartbeat :: "Chitchat \<Rightarrow> Chitchat" where
  "update_self_heartbeat cc = put_self_node_state (inc_heartbeat (self_node_state cc)) cc"

definition deliver_events :: "Chitchat \<Rightarrow> KeyChangeEvent list \<Rightarrow> effect list outcome" where
  "deliver_events cc es = result_bind (deliver (cs_listeners (cc_cluster_state cc)) es)
     (\<lambda>calls. Inr (map (\<lambda>(cb, e). CallListener cb e) calls))"

section \<open>Local writes\<close>

text \<open>\<^verbatim>\<open>self_node_state().set(..)\<close> and its siblings, as an application calls them.\<close>

definition self_set :: "string \<Rightarrow> string \<Rightarrow> Chitchat \<Rightarrow> (Chitchat \<times> effect list) outcome" where
  "self_set key value cc =
     result_bind (node_set key value (self_node_state cc)) (\<lambda>(ns, es).
       let cc = put_self_node_state ns cc
       in result_bind (deliver_events cc es) (\<lambda>fx. Inr (cc, fx)))"

definition self_set_with_ttl ::
    "string \<Rightarrow> string \<Rightarrow> instant \<Rightarrow> Chitchat \<Rightarrow> (Chitchat \<times> effect list) outcome" where
  "self_set_with_ttl key value now cc =
     (let (ns, es) = set_with_ttl key value now (self_node_state cc);
          cc = put_self_node_state ns cc
      in result_bind (deliver_events cc es) (\<lambda>fx. Inr (cc, fx)))"

definition self_delete :: "string \<Rightarrow> instant \<Rightarrow> Chitchat \<Rightarrow> Chitchat" where
  "self_delete key now cc = put_self_node_state (delete key now (self_node_state cc)) cc"

definition self_delete_after_ttl :: "string \<Rightarrow> instant \<Rightarrow> Chitchat \<Rightarrow> Chitchat" where
  "self_delete_after_ttl key now cc = put_self_node_state (delete_after_ttl key now (self_node_state cc)) cc"

fun set_initial_key_values :: "(string \<times> string) list \<Rightarrow> Chitchat \<Rightarrow> Chitchat outcome" where
  "set_initial_key_values [] cc = Inr cc"
| "set_initial_key_values ((k, v) # kvs) cc =
     result_bind (self_set k v cc) (\<lambda>(cc, _). set_initial_key_values kvs cc)"

definition with_chitchat_id_and_seeds ::
    "ChitchatConfig \<Rightarrow> SocketAddr set \<Rightarrow> (string \<times> string) list \<Rightarrow> Chitchat outcome" where
  "with_chitchat_id_and_seeds config seed_addrs initial_key_values =
     (let cc = \<lparr>cc_config = config, cc_cluster_state = with_seed_addrs seed_addrs,
            cc_failure_detector = FailureDetector_new (cfg_failure_detector_config config),
            cc_previous_live_nodes = [], cc_live_nodes_watch = []\<rparr>
      in set_initial_key_values initial_key_values (update_self_heartbeat cc))"

definition cc_subscribe_event :: "string \<Rightarrow> callback \<Rightarrow> Chitchat \<Rightarrow> Chitchat \<times> ListenerHandle" where
  "cc_subscribe_event key_prefix cb cc =
     (let (ls, h) = subscribe_event (cs_listeners (cc_cluster_state cc)) key_prefix cb
      in (cc\<lparr>cc_cluster_state := (cc_cluster_state cc)\<lparr>cs_listeners := ls\<rparr>\<rparr>, h))"

text \<open>Dropping the handle of a subscription reaches the listeners through a weak reference.\<close>

definition cc_drop_handle :: "ListenerHandle \<Rightarrow> Chitchat \<Rightarrow> Chitchat" where
  "cc_drop_handle h cc = cc\<lparr>cc_cluster_state :=
     (cc_cluster_state cc)\<lparr>cs_listeners := handle_drop (cs_listeners (cc_cluster_state cc)) h\<rparr>\<rparr>"

text \<open>The cluster state reads the seeds from a watch channel, which the task that resolves them writes.\<close>

definition cc_watch_seeds :: "SocketAddr set \<Rightarrow> Chitchat \<Rightarrow> Chitchat" where
  "cc_watch_seeds addrs cc = cc\<lparr>cc_cluster_state := (cc_cluster_state cc)\<lparr>cs_seed_addrs := addrs\<rparr>\<rparr>"

section \<open>Reads\<close>

definition cc_scheduled_for_deletion_nodes :: "Env \<Rightarrow> Chitchat \<Rightarrow> ChitchatId set" where
  "cc_scheduled_for_deletion_nodes env cc =
     fd_scheduled_for_deletion_nodes (env_half env) (env_now env) (cc_failure_detector cc)"

definition cc_compute_digest :: "ChitchatId set \<Rightarrow> Chitchat \<Rightarrow> Digest" where
  "cc_compute_digest scheduled cc = cluster_compute_digest (cc_cluster_state cc) scheduled"

definition cc_live_nodes :: "Chitchat \<Rightarrow> ChitchatId set" where
  "cc_live_nodes cc = insert (self_chitchat_id cc) (fd_live_nodes (cc_failure_detector cc))"

definition cc_dead_nodes :: "Chitchat \<Rightarrow> ChitchatId list" where
  "cc_dead_nodes cc = fd_dead_node_ids (cc_failure_detector cc)"

definition state_snapshot :: "Chitchat \<Rightarrow> ClusterStateSnapshot" where
  "state_snapshot cc = snapshot_of (cc_cluster_state cc)"

section \<open>The handshake\<close>

definition create_syn_message :: "Env \<Rightarrow> Chitchat \<Rightarrow> ChitchatMessage" where
  "create_syn_message env cc = Syn (cfg_cluster_id (cc_config cc))
     (cc_compute_digest (cc_scheduled_for_deletion_nodes env cc) cc)"

definition cc_report_heartbeat ::
    "ChitchatId \<Rightarrow> Heartbeat \<Rightarrow> instant \<Rightarrow> Chitchat \<Rightarrow> Chitchat outcome" where
  "cc_report_heartbeat i heartbeat now cc =
     (if i = self_chitchat_id cc then Inr cc
      else
        let (updated, ns) = try_set_heartbeat heartbeat (node_state_mut (cc_cluster_state cc) i);
            cc = cc\<lparr>cc_cluster_state := put_node_state i ns (cc_cluster_state cc)\<rparr>
        in if updated
           then result_bind (fd_report_heartbeat i now (cc_failure_detector cc)) (\<lambda>fd.
             Inr (cc\<lparr>cc_failure_detector := fd\<rparr>))
           else Inr cc)"

fun report_heartbeats ::
    "(ChitchatId \<times> NodeDigest) list \<Rightarrow> instant \<Rightarrow> Chitchat \<Rightarrow> Chitchat outcome" where
  "report_heartbeats [] now cc = Inr cc"
| "report_heartbeats ((i, nd) # es) now cc =
     result_bind (cc_report_heartbeat i (nd_heartbeat nd) now cc) (report_heartbeats es now)"

definition report_heartbeats_in_digest :: "Digest \<Rightarrow> instant \<Rightarrow> Chitchat \<Rightarrow> Chitchat outcome" where
  "report_heartbeats_in_digest digest now cc = report_heartbeats (node_digests digest) now cc"

definition maybe_trigger_catchup_callback :: "Delta \<Rightarrow> Chitchat \<Rightarrow> effect list" where
  "maybe_trigger_catchup_callback d cc =
     (let has_reset = list_ex (\<lambda>nd. ndl_from_version_excluded nd = 0 \<and> ndl_last_gc_version nd > 0)
            (node_deltas d)
      in if has_reset \<and> cfg_catchup_callback (cc_config cc) then [CallCatchup] else [])"

definition process_delta :: "Delta \<Rightarrow> instant \<Rightarrow> Chitchat \<Rightarrow> (Chitchat \<times> effect list) outcome" where
  "process_delta d now cc =
     (let catchup = maybe_trigger_catchup_callback d cc;
          (cs, es) = cluster_apply_delta d now (cc_cluster_state cc);
          cc = cc\<lparr>cc_cluster_state := cs\<rparr>
      in result_bind (deliver_events cc es) (\<lambda>fx. Inr (cc, catchup @ fx)))"

text \<open>Subtraction on \<^verbatim>\<open>usize\<close>, which wraps in a release build.\<close>

definition usize_sub :: "nat \<Rightarrow> nat \<Rightarrow> nat" where
  "usize_sub a b = unat (of_nat a - of_nat b :: u64)"

definition process_message ::
    "Env \<Rightarrow> ChitchatMessage \<Rightarrow> Chitchat \<Rightarrow> (Chitchat \<times> ChitchatMessage option \<times> effect list) outcome" where
  "process_message env msg cc =
     (let cc = update_self_heartbeat cc; now = env_now env in
      case msg of
        Syn cluster_id digest \<Rightarrow>
          if cluster_id \<noteq> cfg_cluster_id (cc_config cc) then Inr (cc, Some BadCluster, [])
          else
            result_bind (report_heartbeats_in_digest digest now cc) (\<lambda>cc.
              let scheduled = cc_scheduled_for_deletion_nodes env cc;
                  self_digest = cc_compute_digest scheduled cc;
                  delta_mtu = usize_sub (MAX_UDP_DATAGRAM_PAYLOAD_SIZE - 1) (len_digest digest)
              in result_bind (compute_partial_delta_respecting_mtu (env_zstd env) (env_shuffle env)
                     (cc_cluster_state cc) digest delta_mtu scheduled) (\<lambda>delta.
                   Inr (cc, Some (SynAck self_digest delta), [])))
      | SynAck digest delta \<Rightarrow>
          result_bind (report_heartbeats_in_digest digest now cc) (\<lambda>cc.
            result_bind (process_delta delta now cc) (\<lambda>(cc, fx).
              let scheduled = cc_scheduled_for_deletion_nodes env cc in
              result_bind (compute_partial_delta_respecting_mtu (env_zstd env) (env_shuffle env)
                  (cc_cluster_state cc) digest (MAX_UDP_DATAGRAM_PAYLOAD_SIZE - 1) scheduled) (\<lambda>delta.
                Inr (cc, Some (Ack delta), fx))))
      | Ack delta \<Rightarrow>
          result_bind (process_delta delta now cc) (\<lambda>(cc, fx). Inr (cc, None, fx))
      | BadCluster \<Rightarrow> Inr (cc, None, []))"

section \<open>Housekeeping\<close>

definition cc_gc_keys_marked_for_deletion :: "instant \<Rightarrow> Chitchat \<Rightarrow> Chitchat" where
  "cc_gc_keys_marked_for_deletion now cc = cc\<lparr>cc_cluster_state :=
     cluster_gc_keys_marked_for_deletion (cfg_marked_for_deletion_grace_period (cc_config cc)) now
       (cc_cluster_state cc)\<rparr>"

text \<open>The nodes whose liveness changed or whose max version did are published on the watch channel.\<close>

definition current_live_nodes :: "Chitchat \<Rightarrow> (ChitchatId, Version) btree_map" where
  "current_live_nodes cc = map (\<lambda>(i, ns). (i, ns_max_version ns))
     (filter (\<lambda>(i, _). i \<in> cc_live_nodes cc) (cs_node_states (cc_cluster_state cc)))"

definition published_live_nodes :: "Chitchat \<Rightarrow> (ChitchatId, NodeState) btree_map" where
  "published_live_nodes cc = filter (\<lambda>(i, ns). i \<in> cc_live_nodes cc
       \<and> (case cfg_extra_liveness_predicate (cc_config cc) of None \<Rightarrow> True | Some p \<Rightarrow> p ns))
     (cs_node_states (cc_cluster_state cc))"

definition update_nodes_liveness :: "instant \<Rightarrow> Chitchat \<Rightarrow> Chitchat" where
  "update_nodes_liveness now cc =
     (let fd = foldl (\<lambda>fd i. if i \<noteq> cfg_chitchat_id (cc_config cc) then update_node_liveness i now fd else fd)
            (cc_failure_detector cc) (nodes (cc_cluster_state cc));
          cc = cc\<lparr>cc_failure_detector := fd\<rparr>;
          current = current_live_nodes cc;
          cc = (if cc_previous_live_nodes cc \<noteq> current
                then cc\<lparr>cc_previous_live_nodes := current, cc_live_nodes_watch := published_live_nodes cc\<rparr>
                else cc);
          (collected, fd) = fd_garbage_collect now (cc_failure_detector cc);
          cs = foldl (\<lambda>cs i. remove_node i cs) (cc_cluster_state cc) collected
      in cc\<lparr>cc_failure_detector := fd, cc_cluster_state := cs\<rparr>)"

section \<open>Resetting a node state\<close>

fun set_versioned_values ::
    "(string \<times> VersionedValue) list \<Rightarrow> NodeState \<Rightarrow> NodeState \<times> KeyChangeEvent list" where
  "set_versioned_values [] ns = (ns, [])"
| "set_versioned_values ((k, vv) # kvs) ns =
     (let (ns, es) = set_versioned_value k vv ns; (ns, es') = set_versioned_values kvs ns
      in (ns, es @ es'))"

definition reset_node_state ::
    "ChitchatId \<Rightarrow> (string \<times> VersionedValue) list \<Rightarrow> Version \<Rightarrow> Version \<Rightarrow> Chitchat
     \<Rightarrow> (Chitchat \<times> effect list) outcome" where
  "reset_node_state i kvs max_version last_gc_version cc =
     (let ns = node_state_mut (cc_cluster_state cc) i;
          cc = cc\<lparr>cc_cluster_state := put_node_state i ns (cc_cluster_state cc)\<rparr>
      in if ns_max_version ns \<ge> max_version then Inr (cc, [])
         else
           let cc = cc\<lparr>cc_failure_detector := snd (get_or_create_sampling_window i (cc_failure_detector cc))\<rparr>;
               previous_keys = filter (\<lambda>k. k \<notin> fst ` set kvs) (map fst (key_values_including_deleted ns));
               (ns, es) = set_versioned_values kvs ns;
               ns = foldl (\<lambda>ns k. remove_key_value_internal k ns) ns previous_keys;
               ns = set_last_gc_version last_gc_version ns;
               cc = cc\<lparr>cc_cluster_state := put_node_state i ns (cc_cluster_state cc)\<rparr>
           in result_bind (deliver_events cc es) (\<lambda>fx. Inr (cc, fx)))"

section \<open>The invariant of an instance\<close>

definition cc_wf :: "Chitchat \<Rightarrow> bool" where
  "cc_wf cc \<longleftrightarrow> cs_wf (cc_cluster_state cc) \<and> listeners_wf (cs_listeners (cc_cluster_state cc))
     \<and> fd_wf (cc_failure_detector cc)
     \<and> self_chitchat_id cc \<notin> fd_live_nodes (cc_failure_detector cc)
     \<and> self_chitchat_id cc \<notin> fst ` set (fd_dead_nodes (cc_failure_detector cc))
     \<and> node_state (cc_cluster_state cc) (self_chitchat_id cc) \<noteq> None"

lemma cc_wfD:
  assumes "cc_wf cc"
  shows "cs_wf (cc_cluster_state cc)" "listeners_wf (cs_listeners (cc_cluster_state cc))"
    "fd_wf (cc_failure_detector cc)"
  using assms by (simp_all add: cc_wf_def)

lemma self_chitchat_id_simps [simp]:
  "self_chitchat_id (cc\<lparr>cc_cluster_state := cs\<rparr>) = self_chitchat_id cc"
  "self_chitchat_id (cc\<lparr>cc_failure_detector := fd\<rparr>) = self_chitchat_id cc"
  "self_chitchat_id (cc\<lparr>cc_previous_live_nodes := p\<rparr>) = self_chitchat_id cc"
  "self_chitchat_id (cc\<lparr>cc_live_nodes_watch := w\<rparr>) = self_chitchat_id cc"
  by (simp_all add: self_chitchat_id_def)

lemma put_node_state_listeners [simp]: "cs_listeners (put_node_state i ns cs) = cs_listeners cs"
  by (simp add: put_node_state_def)

lemma cc_wf_put_node:
  assumes "cc_wf cc" and "ns_wf ns" and "ns_chitchat_id ns = i"
  shows "cc_wf (cc\<lparr>cc_cluster_state := put_node_state i ns (cc_cluster_state cc)\<rparr>)"
  using assms by (auto simp: cc_wf_def cs_wf_put)

lemma cc_wf_put_self [wf_intros]:
  "cc_wf cc \<Longrightarrow> ns_wf ns \<Longrightarrow> ns_chitchat_id ns = self_chitchat_id cc \<Longrightarrow> cc_wf (put_self_node_state ns cc)"
  by (simp add: put_self_node_state_def cc_wf_put_node)

lemma self_node_state_wf: "cc_wf cc \<Longrightarrow> ns_wf (self_node_state cc) \<and> ns_chitchat_id (self_node_state cc) = self_chitchat_id cc"
  by (simp add: self_node_state_def cc_wfD wf_intros cs_wf_node_mut_id)

lemma node_op_ids [simp]:
  "ns_chitchat_id (inc_heartbeat ns) = ns_chitchat_id ns"
  "ns_chitchat_id (snd (try_set_heartbeat h ns)) = ns_chitchat_id ns"
  "ns_chitchat_id (delete k now ns) = ns_chitchat_id ns"
  "ns_chitchat_id (delete_after_ttl k now ns) = ns_chitchat_id ns"
  "ns_chitchat_id (fst (set_versioned_value k vv ns)) = ns_chitchat_id ns"
  "ns_chitchat_id (fst (set_with_ttl k v now ns)) = ns_chitchat_id ns"
  by (auto simp: inc_heartbeat_def try_set_heartbeat_def delete_def delete_after_ttl_def Let_def
      set_versioned_value_def set_with_ttl_def split: option.splits)

lemma node_set_id: "node_set k v ns = Inr (ns', es) \<Longrightarrow> ns_chitchat_id ns' = ns_chitchat_id ns"
  by (auto simp: node_set_def set_with_version_def Let_def split: if_splits
      dest!: arg_cong [where f = "\<lambda>r. ns_chitchat_id (fst r)"])

lemma update_self_heartbeat_wf [wf_intros]: "cc_wf cc \<Longrightarrow> cc_wf (update_self_heartbeat cc)"
  using self_node_state_wf [of cc] by (simp add: update_self_heartbeat_def wf_intros)

lemma self_set_wf: "cc_wf cc \<Longrightarrow> self_set k v cc = Inr (cc', fx) \<Longrightarrow> cc_wf cc'"
  using self_node_state_wf [of cc] node_set_wf [of "self_node_state cc" k v]
  by (auto simp: self_set_def Let_def node_set_id intro!: cc_wf_put_self)

lemma set_initial_key_values_wf:
  "cc_wf cc \<Longrightarrow> set_initial_key_values kvs cc = Inr cc' \<Longrightarrow> cc_wf cc'"
proof (induction kvs arbitrary: cc)
  case (Cons e kvs)
  then obtain cc1 fx where "self_set (fst e) (snd e) cc = Inr (cc1, fx)"
    "set_initial_key_values kvs cc1 = Inr cc'"
    by (cases e) auto
  with Cons self_set_wf show ?case by blast
qed simp

lemma fd_wf_new: "0 < fdc_sampling_window_size c \<Longrightarrow> fd_wf (FailureDetector_new c)"
  by (simp add: fd_wf_def FailureDetector_new_def)

lemma with_chitchat_id_and_seeds_wf:
  assumes "0 < fdc_sampling_window_size (cfg_failure_detector_config config)"
    and "with_chitchat_id_and_seeds config seeds kvs = Inr cc"
  shows "cc_wf cc"
proof -
  define cc0 where "cc0 = update_self_heartbeat \<lparr>cc_config = config, cc_cluster_state = with_seed_addrs seeds,
    cc_failure_detector = FailureDetector_new (cfg_failure_detector_config config),
    cc_previous_live_nodes = [], cc_live_nodes_watch = []\<rparr>"
  have cs: "cs_wf (with_seed_addrs seeds)" by (rule cs_wf_with_seed_addrs)
  have "cc_wf cc0"
    using cs assms(1)
    by (auto simp: cc0_def cc_wf_def update_self_heartbeat_def put_self_node_state_def self_node_state_def
        self_chitchat_id_def wf_intros fd_wf_new cs_wf_node_mut_id intro!: cs_wf_put)
      (auto simp: with_seed_addrs_def listeners_wf_default FailureDetector_new_def)
  then show ?thesis
    using assms(2) set_initial_key_values_wf [of cc0 kvs cc]
    by (simp add: with_chitchat_id_and_seeds_def cc0_def)
qed

lemma self_set_with_ttl_wf:
  "cc_wf cc \<Longrightarrow> ns_max_version (self_node_state cc) \<noteq> - 1 \<Longrightarrow>
   self_set_with_ttl k v now cc = Inr (cc', fx) \<Longrightarrow> cc_wf cc'"
  using self_node_state_wf [of cc] set_with_ttl_wf [of "self_node_state cc" k v now]
  by (auto simp: self_set_with_ttl_def Let_def split: prod.splits intro!: cc_wf_put_self
      dest!: arg_cong [where f = "\<lambda>r. ns_chitchat_id (fst r)"])

lemma self_delete_wf [wf_intros]:
  "cc_wf cc \<Longrightarrow> ns_max_version (self_node_state cc) \<noteq> - 1 \<Longrightarrow> cc_wf (self_delete k now cc)"
  using self_node_state_wf [of cc] by (simp add: self_delete_def cc_wf_put_self delete_wf)

lemma self_delete_after_ttl_wf [wf_intros]:
  "cc_wf cc \<Longrightarrow> ns_max_version (self_node_state cc) \<noteq> - 1 \<Longrightarrow> cc_wf (self_delete_after_ttl k now cc)"
  using self_node_state_wf [of cc] by (simp add: self_delete_after_ttl_def cc_wf_put_self delete_after_ttl_wf)

lemma cc_subscribe_event_wf [wf_intros]:
  "cc_wf cc \<Longrightarrow> cc_wf (fst (cc_subscribe_event p cb cc))"
  using subscribe_event_wf [of "cs_listeners (cc_cluster_state cc)" p cb]
  by (auto simp: cc_subscribe_event_def cc_wf_def cs_wf_def node_state_def Let_def split: prod.splits)

lemma cc_drop_handle_wf [wf_intros]: "cc_wf cc \<Longrightarrow> cc_wf (cc_drop_handle h cc)"
  using handle_drop_wf [of "cs_listeners (cc_cluster_state cc)" h]
  by (auto simp: cc_drop_handle_def cc_wf_def cs_wf_def node_state_def)

lemma cc_watch_seeds_wf [wf_intros]: "cc_wf cc \<Longrightarrow> cc_wf (cc_watch_seeds addrs cc)"
  by (auto simp: cc_watch_seeds_def cc_wf_def cs_wf_def node_state_def)

lemma cc_report_heartbeat_ok:
  assumes "cc_wf cc"
  shows "\<exists>cc'. cc_report_heartbeat i h now cc = Inr cc' \<and> cc_wf cc' \<and> cc_config cc' = cc_config cc
    \<and> (cc_cluster_state cc' = cc_cluster_state cc \<or> cc_cluster_state cc' = put_node_state i
        (snd (try_set_heartbeat h (node_state_mut (cc_cluster_state cc) i))) (cc_cluster_state cc))"
proof (cases "i = self_chitchat_id cc")
  case True
  with assms show ?thesis by (simp add: cc_report_heartbeat_def)
next
  case False
  obtain b ns where ns: "try_set_heartbeat h (node_state_mut (cc_cluster_state cc) i) = (b, ns)" by fastforce
  let ?cc = "cc\<lparr>cc_cluster_state := put_node_state i ns (cc_cluster_state cc)\<rparr>"
  have cs: "cs_wf (cc_cluster_state cc)" using assms by (rule cc_wfD)
  have wf: "cc_wf ?cc"
    using ns try_set_heartbeat_wf [OF cs_wf_node_mut [OF cs, of i], of h]
      node_op_ids(2) [of h "node_state_mut (cc_cluster_state cc) i"] cs_wf_node_mut_id [OF cs, of i]
    by (intro cc_wf_put_node assms) simp_all
  obtain fd where "fd_report_heartbeat i now (cc_failure_detector cc) = Inr fd" "fd_wf fd"
      "fd_live_nodes fd = fd_live_nodes (cc_failure_detector cc)"
      "fd_dead_nodes fd = fd_dead_nodes (cc_failure_detector cc)"
    using fd_report_heartbeat_ok [OF cc_wfD(3) [OF assms], of i now] by blast
  with False wf ns show ?thesis
    by (auto simp: cc_report_heartbeat_def Let_def cc_wf_def)
qed

section \<open>States that can be sent\<close>

lemma set_btm_insert_subset: "set (btm_insert k v m) \<subseteq> insert (k, v) (set m)"
  by (induction m) auto

lemma ns_codable_insert:
  assumes "ns_codable ns" and "wire_string k" and "wire_string (vv_value vv)"
  shows "ns_codable (ns\<lparr>ns_key_values := btm_insert k vv (ns_key_values ns)\<rparr>)"
  using assms set_btm_insert_subset [of k vv "ns_key_values ns"]
  by (fastforce simp: ns_codable_def list_all_iff)

lemma ns_codable_fields [simp]:
  "ns_codable (ns\<lparr>ns_max_version := v\<rparr>) = ns_codable ns"
  "ns_codable (ns\<lparr>ns_heartbeat := h\<rparr>) = ns_codable ns"
  "ns_codable (ns\<lparr>ns_last_gc_version := g\<rparr>) = ns_codable ns"
  "ns_codable (NodeState_new i)" "ns_codable (reset_state nd)"
  by (simp_all add: ns_codable_def NodeState_new_def reset_state_def)

lemma set_versioned_value_codable:
  assumes "ns_codable ns" and "wire_string k" and "wire_string (vv_value vv)"
  shows "ns_codable (fst (set_versioned_value k vv ns))"
  using ns_codable_insert [of "ns\<lparr>ns_max_version := max (vv_version vv) (ns_max_version ns)\<rparr>" k vv] assms
  by (auto simp: set_versioned_value_def Let_def split: option.splits)

lemma apply_mutations_codable:
  "ns_codable ns \<Longrightarrow> \<forall>m \<in> set ms. kvm_wf m \<Longrightarrow> ns_codable (fst (apply_mutations c now ms ns))"
proof (induction ms arbitrary: ns)
  case (Cons m ms)
  have "ns_codable (fst (apply_mutation c now m ns))"
    using Cons.prems by (auto simp: apply_mutation_def kvm_wf_def intro!: set_versioned_value_codable)
  with Cons show ?case by (simp add: apply_mutations_Cons del: apply_mutations.simps(2))
qed simp

lemma node_apply_delta_codable:
  "ns_codable ns \<Longrightarrow> \<forall>m \<in> set (ndl_key_values nd). kvm_wf m \<Longrightarrow>
   ns_codable (fst (node_apply_delta nd now ns))"
  by (simp add: node_apply_delta_eq apply_mutations_codable)

lemma cs_codable_put:
  "cs_codable cs \<Longrightarrow> id_wf i \<Longrightarrow> ns_codable ns \<Longrightarrow> cs_codable (put_node_state i ns cs)"
  using set_btm_insert_subset [of i ns "cs_node_states cs"]
  by (fastforce simp: cs_codable_def put_node_state_def list_all_iff)

lemma cs_codable_node_mut: "cs_codable cs \<Longrightarrow> ns_codable (node_state_mut cs i)"
  by (auto simp: cs_codable_def node_state_mut_def list_all_iff split: option.splits dest: btm_get_Some_in_set)

subsection \<open>Operations on one node\<close>

text \<open>
  What a handler relies on when it changes the state of one node in place: the operation keeps the
  invariant, the identifier and that the state can be encoded. Then so does the cluster state when the
  operation is applied to one node, and when it is applied to all of them.
\<close>

locale node_operation =
  fixes f :: "NodeState \<Rightarrow> NodeState"
  assumes op_wf: "ns_wf ns \<Longrightarrow> ns_wf (f ns)"
    and op_id: "ns_chitchat_id (f ns) = ns_chitchat_id ns"
    and op_codable: "ns_codable ns \<Longrightarrow> ns_codable (f ns)"
begin

lemma on_node_wf:
  assumes "cc_wf cc"
  shows "cc_wf (cc\<lparr>cc_cluster_state := put_node_state i (f (node_state_mut (cc_cluster_state cc) i)) (cc_cluster_state cc)\<rparr>)"
  using cc_wfD(1) [OF assms] by (intro cc_wf_put_node assms op_wf) (simp_all add: wf_intros op_id cs_wf_node_mut_id)

lemma on_node_codable:
  "cs_codable cs \<Longrightarrow> id_wf i \<Longrightarrow> cs_codable (put_node_state i (f (node_state_mut cs i)) cs)"
  by (intro cs_codable_put op_codable cs_codable_node_mut)

lemma on_all_codable:
  "cs_codable cs \<Longrightarrow> cs_codable (cs\<lparr>cs_node_states := btm_map_values f (cs_node_states cs)\<rparr>)"
  by (auto simp: cs_codable_def btm_map_values_def list_all_iff op_codable)

lemma on_all_keeps_nodes:
  "node_state (cs\<lparr>cs_node_states := btm_map_values f (cs_node_states cs)\<rparr>) i = map_option f (node_state cs i)"
  using map_of_map [of f "cs_node_states cs"]
  by (simp add: node_state_def btm_map_values_def btm_get_def case_prod_unfold)

end

interpretation heartbeat_op: node_operation inc_heartbeat
  by unfold_locales (simp_all add: wf_intros inc_heartbeat_def)

interpretation peer_heartbeat_op: node_operation "\<lambda>ns. snd (try_set_heartbeat h ns)" for h
  by unfold_locales (simp_all add: wf_intros try_set_heartbeat_eq)

interpretation gc_op: node_operation "node_gc_keys_marked_for_deletion gp now" for gp now
proof
  fix ns
  show "ns_codable (node_gc_keys_marked_for_deletion gp now ns)" if "ns_codable ns"
    using that by (simp add: ns_codable_def node_gc_keys_marked_for_deletion_def Let_def btm_retain_def list_all_iff)
qed (simp_all add: wf_intros)

lemma apply_node_deltas_codable:
  "cs_codable cs \<Longrightarrow> \<forall>nd \<in> set nds. node_delta_codable nd \<Longrightarrow> cs_codable (fst (apply_node_deltas nds now cs))"
  by (induction nds arbitrary: cs)
    (simp_all add: apply_node_deltas_Cons node_delta_codable_def cs_codable_put node_apply_delta_codable
      cs_codable_node_mut del: apply_node_deltas.simps(2))

subsection \<open>Events a delta emits\<close>

definition delta_deliverable :: "Delta \<Rightarrow> bool" where
  "delta_deliverable d \<longleftrightarrow> (\<forall>nd \<in> set (node_deltas d). \<forall>m \<in> set (ndl_key_values nd).
     kvm_key m = [] \<or> is_char_boundary (kvm_key m) 1)"

lemma apply_mutations_events:
  "e \<in> set (snd (apply_mutations c now ms ns)) \<Longrightarrow> \<exists>m \<in> set ms. kce_key e = kvm_key m"
proof (induction ms arbitrary: ns)
  case (Cons m ms)
  have "e \<in> set (snd (apply_mutation c now m ns)) \<Longrightarrow> kce_key e = kvm_key m"
    by (auto simp: apply_mutation_def set_versioned_value_def Let_def split: if_splits option.splits)
  with Cons show ?case by (fastforce simp: Let_def split_beta)
qed simp

lemma apply_node_deltas_events:
  "e \<in> set (snd (apply_node_deltas nds now cs)) \<Longrightarrow>
   \<exists>nd \<in> set nds. \<exists>m \<in> set (ndl_key_values nd). kce_key e = kvm_key m"
proof (induction nds arbitrary: cs)
  case (Cons nd nds)
  have "e \<in> set (snd (node_apply_delta nd now ns)) \<Longrightarrow> \<exists>m \<in> set (ndl_key_values nd). kce_key e = kvm_key m" for ns
    by (auto simp: node_apply_delta_eq split: if_splits dest: apply_mutations_events)
  with Cons show ?case by (fastforce simp: Let_def split_beta)
qed simp

lemma apply_node_deltas_listeners [simp]:
  "cs_listeners (fst (apply_node_deltas nds now cs)) = cs_listeners cs"
  by (induction nds arbitrary: cs) (simp_all add: apply_node_deltas_Cons del: apply_node_deltas.simps(2))

lemma apply_node_deltas_keeps:
  "cs_wf cs \<Longrightarrow> \<forall>nd \<in> set nds. node_delta_ordered nd \<Longrightarrow> node_state cs i \<noteq> None \<Longrightarrow>
   node_state (fst (apply_node_deltas nds now cs)) i \<noteq> None"
proof (induction nds arbitrary: cs)
  case (Cons nd nds)
  have "cs_wf (put_node_state (ndl_chitchat_id nd)
      (fst (node_apply_delta nd now (node_state_mut cs (ndl_chitchat_id nd)))) cs)"
    using Cons.prems by (simp add: wf_intros node_apply_delta_id cs_wf_node_mut_id)
  with Cons show ?case by (simp add: apply_node_deltas_Cons del: apply_node_deltas.simps(2))
qed simp

section \<open>The handlers never fail on well-formed input\<close>

definition cc_sendable :: "Chitchat \<Rightarrow> bool" where
  "cc_sendable cc \<longleftrightarrow> cc_wf cc \<and> cs_codable (cc_cluster_state cc)"

lemma report_heartbeats_ok:
  assumes "cc_sendable cc" and "\<forall>e \<in> set es. id_wf (fst e)"
  shows "\<exists>cc'. report_heartbeats es now cc = Inr cc' \<and> cc_sendable cc' \<and> cc_config cc' = cc_config cc"
  using assms
proof (induction es arbitrary: cc)
  case (Cons e es)
  obtain i nd where e: "e = (i, nd)" by fastforce
  obtain cc1 where cc1: "cc_report_heartbeat i (nd_heartbeat nd) now cc = Inr cc1" "cc_wf cc1"
      "cc_config cc1 = cc_config cc"
      "cc_cluster_state cc1 = cc_cluster_state cc \<or> cc_cluster_state cc1 = put_node_state i
        (snd (try_set_heartbeat (nd_heartbeat nd) (node_state_mut (cc_cluster_state cc) i))) (cc_cluster_state cc)"
    using cc_report_heartbeat_ok [of cc i "nd_heartbeat nd" now] Cons.prems(1) by (auto simp: cc_sendable_def)
  have "cc_sendable cc1"
    using cc1(2,4) Cons.prems peer_heartbeat_op.on_node_codable [of "cc_cluster_state cc" i "nd_heartbeat nd"]
    by (auto simp: cc_sendable_def e)
  from Cons.IH [OF this] Cons.prems(2) cc1(1,3) show ?case by (auto simp: e)
qed simp

lemma deliver_events_ok:
  "listeners_wf (cs_listeners (cc_cluster_state cc)) \<Longrightarrow> \<forall>e \<in> set es. event_deliverable e \<Longrightarrow>
   \<exists>fx. deliver_events cc es = Inr fx"
  by (simp add: deliver_events_def deliver_ok)

lemma process_delta_ok:
  assumes "cc_sendable cc" and "delta_typed d" and "delta_deliverable d"
  shows "\<exists>cc' fx. process_delta d now cc = Inr (cc', fx) \<and> cc_sendable cc' \<and> cc_config cc' = cc_config cc
    \<and> cc_cluster_state cc' = fst (cluster_apply_delta d now (cc_cluster_state cc))"
proof -
  let ?cs = "cc_cluster_state cc"
  obtain cs es where cs: "apply_node_deltas (node_deltas d) now ?cs = (cs, es)" by fastforce
  have wf: "cc_wf cc" "cs_codable ?cs" using assms(1) by (simp_all add: cc_sendable_def)
  have ord: "\<forall>nd \<in> set (node_deltas d). node_delta_ordered nd"
    using assms(2) by (simp add: delta_typed_def delta_ordered_def)
  have "cs_wf cs" "cs_codable cs" "cs_listeners cs = cs_listeners ?cs"
    using apply_node_deltas_wf [OF cc_wfD(1) [OF wf(1)] ord, of now]
      apply_node_deltas_codable [OF wf(2), of "node_deltas d" now] assms(2)
      apply_node_deltas_listeners [of "node_deltas d" now ?cs]
    by (simp_all add: cs delta_typed_def)
  moreover have "node_state cs (self_chitchat_id cc) \<noteq> None"
    using apply_node_deltas_keeps [OF cc_wfD(1) [OF wf(1)] ord, of "self_chitchat_id cc" now] wf(1)
    by (simp add: cs cc_wf_def)
  ultimately have good: "cc_sendable (cc\<lparr>cc_cluster_state := cs\<rparr>)"
    using wf by (simp add: cc_sendable_def cc_wf_def)
  have "\<forall>e \<in> set es. event_deliverable e"
    using apply_node_deltas_events [of _ "node_deltas d" now ?cs] assms(3)
    by (fastforce simp: cs delta_deliverable_def event_deliverable_def)
  then obtain fx where "deliver_events (cc\<lparr>cc_cluster_state := cs\<rparr>) es = Inr fx"
    using deliver_events_ok [of "cc\<lparr>cc_cluster_state := cs\<rparr>" es] good by (auto simp: cc_sendable_def cc_wf_def)
  with cs good show ?thesis by (simp add: process_delta_def cluster_apply_delta_def)
qed

lemma update_self_heartbeat_sendable:
  assumes "cc_sendable cc" and "id_wf (self_chitchat_id cc)"
  shows "cc_sendable (update_self_heartbeat cc)"
  using assms heartbeat_op.on_node_wf [of cc "self_chitchat_id cc"] heartbeat_op.on_node_codable
  by (simp add: cc_sendable_def update_self_heartbeat_def put_self_node_state_def self_node_state_def)

lemma update_self_heartbeat_config [simp]: "cc_config (update_self_heartbeat cc) = cc_config cc"
  by (simp add: update_self_heartbeat_def put_self_node_state_def)

lemma usize_sub_eq:
  assumes "b \<le> a" and "a < 2 ^ 64"
  shows "usize_sub a b = a - b"
proof -
  have "(of_nat a - of_nat b :: u64) = of_nat (a - b)" using assms(1) by (simp only: of_nat_diff)
  moreover have "(a - b) mod 2 ^ 64 = a - b" using assms(2) by simp
  ultimately show ?thesis by (simp add: usize_sub_def unat_of_nat take_bit_eq_mod)
qed

definition env_ok :: "Env \<Rightarrow> bool" where
  "env_ok env \<longleftrightarrow> zstd_fits (env_zstd env) \<and> permutes (env_shuffle env)"

text \<open>Messages as the decoder yields them, with keys the listeners accept, and a digest that leaves
  room for a delta of at least 100 bytes in the reply to a Syn.\<close>

fun message_deliverable :: "ChitchatMessage \<Rightarrow> bool" where
  "message_deliverable (Syn c g) \<longleftrightarrow> len_digest g \<le> 65406"
| "message_deliverable (SynAck g d) \<longleftrightarrow> delta_deliverable d"
| "message_deliverable (Ack d) \<longleftrightarrow> delta_deliverable d"
| "message_deliverable BadCluster \<longleftrightarrow> True"

definition message_acceptable :: "ChitchatMessage \<Rightarrow> bool" where
  "message_acceptable m \<longleftrightarrow> message_typed m \<and> message_deliverable m"

text \<open>The reply that the handshake prescribes.\<close>

fun reply_expected :: "string \<Rightarrow> ChitchatMessage \<Rightarrow> ChitchatMessage option \<Rightarrow> bool" where
  "reply_expected cluster (Syn c g) r \<longleftrightarrow>
     (if c \<noteq> cluster then r = Some BadCluster else (\<exists>g' d. r = Some (SynAck g' d) \<and> delta_ordered d))"
| "reply_expected cluster (SynAck g d) r \<longleftrightarrow> (\<exists>d'. r = Some (Ack d') \<and> delta_ordered d')"
| "reply_expected cluster (Ack d) r \<longleftrightarrow> r = None"
| "reply_expected cluster BadCluster r \<longleftrightarrow> r = None"

lemma compute_delta_for:
  assumes "env_ok env" and "cc_sendable cc" and "100 \<le> mtu" and "mtu \<le> 65535"
  shows "\<exists>d. compute_partial_delta_respecting_mtu (env_zstd env) (env_shuffle env) (cc_cluster_state cc)
      digest mtu scheduled = Inr d \<and> delta_ordered d"
  using assms compute_partial_delta_aux [of "env_zstd env" "env_shuffle env" "cc_cluster_state cc" mtu digest scheduled]
  unfolding env_ok_def cc_sendable_def by (metis cc_wfD(1))

lemma process_message_ok_aux:
  assumes env: "env_ok env" and cc: "cc_sendable cc" "id_wf (self_chitchat_id cc)"
    and m: "message_acceptable msg"
  shows "\<exists>cc' reply fx. process_message env msg cc = Inr (cc', reply, fx) \<and> cc_sendable cc'
    \<and> cc_config cc' = cc_config cc \<and> reply_expected (cfg_cluster_id (cc_config cc)) msg reply"
proof -
  let ?cc = "update_self_heartbeat cc" and ?now = "env_now env"
  note m = m [unfolded message_acceptable_def]
  have cc0: "cc_sendable ?cc" by (rule update_self_heartbeat_sendable [OF cc])
  have report: "\<exists>cc'. report_heartbeats_in_digest g ?now ?cc = Inr cc' \<and> cc_sendable cc' \<and> cc_config cc' = cc_config cc"
    if "digest_wf g" for g
    using report_heartbeats_ok [OF cc0, of "node_digests g" ?now] that
    by (simp add: report_heartbeats_in_digest_def digest_wf_def)
  show ?thesis
  proof (cases msg)
    case (Syn c g)
    show ?thesis
    proof (cases "c = cfg_cluster_id (cc_config cc)")
      case False
      with Syn cc0 show ?thesis by (simp add: process_message_def)
    next
      case True
      obtain cc1 where cc1: "report_heartbeats_in_digest g ?now ?cc = Inr cc1" "cc_sendable cc1"
        "cc_config cc1 = cc_config cc" using report [of g] m Syn by auto
      have mtu: "usize_sub (MAX_UDP_DATAGRAM_PAYLOAD_SIZE - 1) (len_digest g) = 65506 - len_digest g"
        using m Syn by (simp add: MAX_UDP_DATAGRAM_PAYLOAD_SIZE_def usize_sub_eq)
      have room: "100 \<le> 65506 - len_digest g" "65506 - len_digest g \<le> 65535" using m Syn by auto
      obtain d where "compute_partial_delta_respecting_mtu (env_zstd env) (env_shuffle env)
          (cc_cluster_state cc1) g (65506 - len_digest g) (cc_scheduled_for_deletion_nodes env cc1) = Inr d"
          "delta_ordered d"
        using compute_delta_for [OF env cc1(2) room, of g] by auto
      with Syn True cc1 mtu show ?thesis by (simp add: process_message_def)
    qed
  next
    case (SynAck g e)
    obtain cc1 where cc1: "report_heartbeats_in_digest g ?now ?cc = Inr cc1" "cc_sendable cc1"
      "cc_config cc1 = cc_config cc" using report [of g] m SynAck by auto
    obtain cc2 fx where cc2: "process_delta e ?now cc1 = Inr (cc2, fx)" "cc_sendable cc2"
      "cc_config cc2 = cc_config cc1" using process_delta_ok [OF cc1(2), of e ?now] m SynAck by auto
    obtain d where "compute_partial_delta_respecting_mtu (env_zstd env) (env_shuffle env)
        (cc_cluster_state cc2) g (MAX_UDP_DATAGRAM_PAYLOAD_SIZE - 1) (cc_scheduled_for_deletion_nodes env cc2) = Inr d"
        "delta_ordered d"
      using compute_delta_for [OF env cc2(2), of "MAX_UDP_DATAGRAM_PAYLOAD_SIZE - 1" g]
      by (auto simp: MAX_UDP_DATAGRAM_PAYLOAD_SIZE_def)
    with SynAck cc1 cc2 show ?thesis by (simp add: process_message_def)
  next
    case (Ack e)
    with process_delta_ok [OF cc0, of e ?now] m show ?thesis by (auto simp: process_message_def)
  next
    case BadCluster
    with cc0 show ?thesis by (simp add: process_message_def)
  qed
qed

text \<open>A Syn whose digest leaves less than 100 bytes makes the handler panic.\<close>

lemma process_syn_panics_aux:
  assumes "env_ok env" and "cc_sendable cc" "id_wf (self_chitchat_id cc)" and "digest_wf g"
    and "65406 < len_digest g" and "len_digest g \<le> 65506"
  shows "process_message env (Syn (cfg_cluster_id (cc_config cc)) g) cc = Inl AssertMtu"
proof -
  obtain cc1 where "report_heartbeats_in_digest g (env_now env) (update_self_heartbeat cc) = Inr cc1"
    using report_heartbeats_ok [OF update_self_heartbeat_sendable [OF assms(2,3)], of "node_digests g" "env_now env"]
      assms(4) by (auto simp: report_heartbeats_in_digest_def digest_wf_def)
  moreover have "usize_sub (MAX_UDP_DATAGRAM_PAYLOAD_SIZE - 1) (len_digest g) < 100"
    using assms(5,6) by (simp add: MAX_UDP_DATAGRAM_PAYLOAD_SIZE_def usize_sub_eq)
  ultimately show ?thesis
    by (simp add: process_message_def compute_partial_delta_respecting_mtu_def with_mtu_def Let_def)
qed

section \<open>Liveness\<close>

lemma fold_liveness:
  fixes ids
  assumes "fd_wf fd"
  shows "fd_wf (foldl (\<lambda>fd i. if i \<noteq> me then update_node_liveness i now fd else fd) fd ids)
    \<and> (me \<notin> fd_live_nodes fd \<longrightarrow> me \<notin> fd_live_nodes (foldl (\<lambda>fd i. if i \<noteq> me then update_node_liveness i now fd else fd) fd ids))
    \<and> btm_get (fd_dead_nodes (foldl (\<lambda>fd i. if i \<noteq> me then update_node_liveness i now fd else fd) fd ids)) me
        = btm_get (fd_dead_nodes fd) me"
  using assms
proof (induction ids arbitrary: fd)
  case (Cons i ids)
  show ?case
  proof (cases "i = me")
    case True
    with Cons show ?thesis by simp
  next
    case False
    have "btm_wf (fd_dead_nodes fd)" using Cons.prems by (simp add: fd_wf_def)
    with Cons.IH [of "update_node_liveness i now fd"] Cons.prems False show ?thesis
      by (simp add: wf_intros update_node_liveness_live update_node_liveness_dead)
  qed
qed simp

lemma fold_remove_node:
  "cs_wf cs \<Longrightarrow> cs_wf (foldl (\<lambda>cs i. remove_node i cs) cs is)
    \<and> cs_listeners (foldl (\<lambda>cs i. remove_node i cs) cs is) = cs_listeners cs
    \<and> node_state (foldl (\<lambda>cs i. remove_node i cs) cs is) j = (if j \<in> set is then None else node_state cs j)"
proof (induction "is" arbitrary: cs)
  case (Cons i "is")
  have "node_state (remove_node i cs) j = (if j = i then None else node_state cs j)"
    using Cons.prems by (simp add: node_state_def remove_node_def cs_wf_def)
  moreover have "cs_listeners (remove_node i cs) = cs_listeners cs" by (simp add: remove_node_def)
  ultimately show ?case using Cons by (auto simp: wf_intros)
qed simp

lemma update_nodes_liveness_wf:
  assumes "cc_wf cc"
  shows "cc_wf (update_nodes_liveness now cc)"
proof -
  let ?me = "self_chitchat_id cc"
  define fd where "fd = foldl (\<lambda>fd i. if i \<noteq> cfg_chitchat_id (cc_config cc) then update_node_liveness i now fd else fd)
    (cc_failure_detector cc) (nodes (cc_cluster_state cc))"
  have fd: "fd_wf fd" "?me \<notin> fd_live_nodes fd" "btm_get (fd_dead_nodes fd) ?me = None"
    using fold_liveness [OF cc_wfD(3) [OF assms], of ?me now "nodes (cc_cluster_state cc)"] assms
    by (auto simp: fd_def self_chitchat_id_def cc_wf_def btm_get_None_iff)
  obtain collected fd' where gc: "fd_garbage_collect now fd = (collected, fd')" by fastforce
  note st = fd_garbage_collect_state [OF fd(1) gc]
  have "?me \<notin> set collected"
    using fd_garbage_collect_collected [OF fd(1), of ?me now] fd(3) by (simp add: gc)
  then have "node_state (foldl (\<lambda>cs i. remove_node i cs) (cc_cluster_state cc) collected) ?me \<noteq> None"
    using fold_remove_node [OF cc_wfD(1) [OF assms], of collected ?me] assms by (simp add: cc_wf_def)
  moreover have "btm_get (fd_dead_nodes fd') ?me = None" using st(3) [of ?me] fd(3) by simp
  then have "?me \<notin> fst ` set (fd_dead_nodes fd')" using btm_get_None_iff [of "fd_dead_nodes fd'" ?me] by blast
  moreover have "fd_wf fd'" using fd_garbage_collect_wf [OF fd(1), of now] gc by simp
  ultimately show ?thesis
    using fold_remove_node [OF cc_wfD(1) [OF assms], of collected ?me] st(1,2) fd assms gc
    by (simp add: update_nodes_liveness_def Let_def fd_def [symmetric] cc_wf_def)
qed


text \<open>Deciding the liveness of one node does not disturb that of another.\<close>

lemma fd_is_alive_update_other:
  assumes "fd_wf fd" and "j \<noteq> i"
  shows "fd_is_alive j now' (update_node_liveness i now fd) = fd_is_alive j now' fd"
  using assms by (auto simp: fd_is_alive_def fd_phi_def update_node_liveness_eq fd_wf_def split: option.splits)

lemma fold_liveness_live:
  assumes "fd_wf fd" and "distinct ids" and "i \<noteq> me"
  shows "i \<in> fd_live_nodes (foldl (\<lambda>fd i. if i \<noteq> me then update_node_liveness i now fd else fd) fd ids)
    \<longleftrightarrow> (if i \<in> set ids then fd_is_alive i now fd else i \<in> fd_live_nodes fd)"
  using assms
proof (induction ids arbitrary: fd)
  case (Cons j ids)
  from Cons.IH [of "update_node_liveness j now fd"] Cons.IH [OF Cons.prems(1)] Cons.prems
    fd_is_alive_update_other [OF Cons.prems(1), of i j now now]
  show ?case by (auto simp: wf_intros update_node_liveness_live)
qed simp

text \<open>The detector after every peer was checked, and the nodes the update then forgets.\<close>

definition checked_detector :: "instant \<Rightarrow> Chitchat \<Rightarrow> FailureDetector" where
  "checked_detector now cc =
     foldl (\<lambda>fd i. if i \<noteq> cfg_chitchat_id (cc_config cc) then update_node_liveness i now fd else fd)
       (cc_failure_detector cc) (nodes (cc_cluster_state cc))"

definition forgotten_nodes :: "instant \<Rightarrow> Chitchat \<Rightarrow> ChitchatId set" where
  "forgotten_nodes now cc = set (fst (fd_garbage_collect now (checked_detector now cc)))"

lemma checked_detector_wf:
  assumes "cc_wf cc"
  shows "fd_wf (checked_detector now cc)" "self_chitchat_id cc \<notin> fd_live_nodes (checked_detector now cc)"
    "btm_get (fd_dead_nodes (checked_detector now cc)) (self_chitchat_id cc) = None"
  using fold_liveness [OF cc_wfD(3) [OF assms], of "self_chitchat_id cc" now "nodes (cc_cluster_state cc)"] assms
  by (auto simp: checked_detector_def self_chitchat_id_def cc_wf_def btm_get_None_iff)

lemma update_nodes_liveness_fields [simp]:
  "cc_config (update_nodes_liveness now cc) = cc_config cc"
  "cc_failure_detector (update_nodes_liveness now cc) = snd (fd_garbage_collect now (checked_detector now cc))"
  "cc_cluster_state (update_nodes_liveness now cc) = foldl (\<lambda>cs i. remove_node i cs) (cc_cluster_state cc)
     (fst (fd_garbage_collect now (checked_detector now cc)))"
  by (simp_all add: update_nodes_liveness_def checked_detector_def Let_def split_beta)

lemma fd_garbage_collect_live [simp]: "fd_live_nodes (snd (fd_garbage_collect now fd)) = fd_live_nodes fd"
  by (simp add: fd_garbage_collect_eq Let_def)

lemma forgotten_not_live:
  assumes "cc_wf cc"
  shows "forgotten_nodes now cc \<inter> cc_live_nodes (update_nodes_liveness now cc) = {}"
proof -
  note wf = checked_detector_wf [OF assms, of now]
  have "i \<in> fst ` set (fd_dead_nodes (checked_detector now cc)) \<and> i \<noteq> self_chitchat_id cc"
    if "i \<in> forgotten_nodes now cc" for i
    using that wf(3) fd_garbage_collect_collected [OF wf(1), of i now]
    by (force simp: forgotten_nodes_def dest: btm_get_Some_in_set)
  moreover have "fd_live_nodes (checked_detector now cc) \<inter> fst ` set (fd_dead_nodes (checked_detector now cc)) = {}"
    using wf(1) by (simp add: fd_wf_def)
  moreover have "self_chitchat_id (update_nodes_liveness now cc) = self_chitchat_id cc"
    by (simp add: self_chitchat_id_def)
  ultimately show ?thesis by (auto simp: cc_live_nodes_def)
qed

lemma fold_remove_node_states:
  "cs_node_states (foldl (\<lambda>cs i. remove_node i cs) cs is) = filter (\<lambda>e. fst e \<notin> set is) (cs_node_states cs)"
  by (induction "is" arbitrary: cs) (auto simp: remove_node_def btm_remove_def intro: filter_cong)

lemma filter_live_kept:
  "A \<inter> L = {} \<Longrightarrow> filter (\<lambda>(i, x). i \<in> L \<and> P x) (filter (\<lambda>e. fst e \<notin> A) xs) = filter (\<lambda>(i, x). i \<in> L \<and> P x) xs"
  by (induction xs) auto

lemma update_nodes_liveness_watch:
  assumes "cc_wf cc"
  shows "cc_previous_live_nodes (update_nodes_liveness now cc) = current_live_nodes (update_nodes_liveness now cc)"
    "cc_live_nodes_watch (update_nodes_liveness now cc) =
       (if cc_previous_live_nodes cc = current_live_nodes (update_nodes_liveness now cc)
        then cc_live_nodes_watch cc else published_live_nodes (update_nodes_liveness now cc))"
proof -
  let ?cc' = "update_nodes_liveness now cc"
  let ?cc1 = "cc\<lparr>cc_failure_detector := checked_detector now cc\<rparr>"
  have live: "cc_live_nodes ?cc' = cc_live_nodes ?cc1" by (simp add: cc_live_nodes_def self_chitchat_id_def)
  note kept = filter_live_kept [OF forgotten_not_live [OF assms, of now], of _ "cs_node_states (cc_cluster_state cc)"]
  have "current_live_nodes ?cc' = current_live_nodes ?cc1"
    using kept [of "\<lambda>_. True"]
    by (simp add: current_live_nodes_def fold_remove_node_states forgotten_nodes_def live)
  moreover have "published_live_nodes ?cc' = published_live_nodes ?cc1"
    using kept [of "\<lambda>ns. case cfg_extra_liveness_predicate (cc_config cc) of None \<Rightarrow> True | Some p \<Rightarrow> p ns"]
    by (simp add: published_live_nodes_def fold_remove_node_states forgotten_nodes_def live)
  ultimately show "cc_previous_live_nodes ?cc' = current_live_nodes ?cc'"
    "cc_live_nodes_watch ?cc' = (if cc_previous_live_nodes cc = current_live_nodes ?cc'
       then cc_live_nodes_watch cc else published_live_nodes ?cc')"
    by (auto simp: update_nodes_liveness_def checked_detector_def [symmetric] Let_def split_beta)
qed

subsection \<open>Housekeeping keeps a state that can be sent\<close>

lemma update_nodes_liveness_sendable:
  "cc_sendable cc \<Longrightarrow> cc_sendable (update_nodes_liveness now cc)"
  by (auto simp: cc_sendable_def update_nodes_liveness_wf cs_codable_def fold_remove_node_states list_all_iff)

lemma cc_gc_sendable:
  assumes "cc_sendable cc"
  shows "cc_sendable (cc_gc_keys_marked_for_deletion now cc)"
    "cc_config (cc_gc_keys_marked_for_deletion now cc) = cc_config cc"
proof -
  let ?cs = "cc_cluster_state cc"
  have "cs_wf (cluster_gc_keys_marked_for_deletion gp now ?cs)" for gp
    using assms by (simp add: cc_sendable_def cc_wf_def wf_intros)
  with assms show "cc_sendable (cc_gc_keys_marked_for_deletion now cc)"
    by (simp add: cc_sendable_def cc_wf_def cc_gc_keys_marked_for_deletion_def
        cluster_gc_keys_marked_for_deletion_def gc_op.on_all_codable gc_op.on_all_keeps_nodes)
  show "cc_config (cc_gc_keys_marked_for_deletion now cc) = cc_config cc"
    by (simp add: cc_gc_keys_marked_for_deletion_def)
qed

section \<open>The local node\<close>

lemma self_node_state_put [simp]: "cc_wf cc \<Longrightarrow> self_node_state (put_self_node_state ns cc) = ns"
  by (simp add: self_node_state_def put_self_node_state_def cc_wf_def)

lemma self_set_ok:
  assumes cc: "cc_wf cc" and room: "ns_max_version (self_node_state cc) \<noteq> - 1"
    and key: "k = [] \<or> is_char_boundary k 1"
  shows "\<exists>cc' fx. self_set k v cc = Inr (cc', fx) \<and> cc_wf cc' \<and> cc_config cc' = cc_config cc
    \<and> cc_failure_detector cc' = cc_failure_detector cc
    \<and> get (self_node_state cc') k' = (if k' = k then Some v else get (self_node_state cc) k')
    \<and> ns_max_version (self_node_state cc') \<le> ns_max_version (self_node_state cc) + 1
    \<and> ns_heartbeat (self_node_state cc') = ns_heartbeat (self_node_state cc)"
proof -
  let ?ns = "self_node_state cc"
  have wf: "ns_wf ?ns" "ns_chitchat_id ?ns = self_chitchat_id cc" using self_node_state_wf [OF cc] by simp_all
  obtain ns es where set: "node_set k v ?ns = Inr (ns, es)"
    using node_set_eq [OF wf(1) room, of k v] by (cases "already_set k v ?ns") auto
  note eq = node_set_eq [OF wf(1) room, of k v, unfolded set]
  have "cc_wf (put_self_node_state ns cc)"
    using cc wf node_set_wf [OF wf(1) set] node_set_id [OF set] by (simp add: wf_intros)
  moreover have "listeners_wf (cs_listeners (cc_cluster_state (put_self_node_state ns cc)))"
    using calculation by (rule cc_wfD)
  moreover have "\<forall>e \<in> set es. event_deliverable e"
    using eq key by (auto simp: event_deliverable_def split: if_splits)
  ultimately obtain fx where "deliver_events (put_self_node_state ns cc) es = Inr fx" "cc_wf (put_self_node_state ns cc)"
    using deliver_events_ok by blast
  moreover have "get ns k' = (if k' = k then Some v else get ?ns k')"
    using eq by (auto simp: get_def get_versioned_put [OF wf(1)] is_deleted_def already_set_def
        split: if_splits option.splits)
  moreover have "ns_max_version ns \<le> ns_max_version ?ns + 1" "ns_heartbeat ns = ns_heartbeat ?ns"
    using eq word_less_add_one [OF room] by (auto split: if_splits intro: less_imp_le)
  ultimately show ?thesis using set cc
    by (auto simp: self_set_def Let_def) (auto simp: put_self_node_state_def)
qed

lemma set_initial_key_values_ok:
  assumes "cc_wf cc" and "unat (ns_max_version (self_node_state cc)) + length kvs < 2 ^ 64"
    and "\<forall>(k, _) \<in> set kvs. k = [] \<or> is_char_boundary k 1"
  shows "\<exists>cc'. set_initial_key_values kvs cc = Inr cc' \<and> cc_wf cc' \<and> cc_config cc' = cc_config cc
    \<and> cc_failure_detector cc' = cc_failure_detector cc
    \<and> ns_heartbeat (self_node_state cc') = ns_heartbeat (self_node_state cc)
    \<and> get (self_node_state cc') k' = (case map_of (rev kvs) k' of
         None \<Rightarrow> get (self_node_state cc) k' | Some v \<Rightarrow> Some v)"
  using assms
proof (induction kvs arbitrary: cc)
  case (Cons e kvs)
  obtain k v where e: "e = (k, v)" by fastforce
  have "unat (- 1 :: u64) = 2 ^ 64 - 1" by (simp add: unsigned_minus_1_eq_mask mask_eq_exp_minus_1)
  then have room: "ns_max_version (self_node_state cc) \<noteq> - 1" using Cons.prems(2) by auto
  obtain cc1 fx where set: "self_set k v cc = Inr (cc1, fx)" and cc1: "cc_wf cc1" "cc_config cc1 = cc_config cc"
      "cc_failure_detector cc1 = cc_failure_detector cc"
      "get (self_node_state cc1) k' = (if k' = k then Some v else get (self_node_state cc) k')"
      "ns_max_version (self_node_state cc1) \<le> ns_max_version (self_node_state cc) + 1"
      "ns_heartbeat (self_node_state cc1) = ns_heartbeat (self_node_state cc)"
    using self_set_ok [OF Cons.prems(1) room, of k v k'] Cons.prems(3) by (auto simp: e)
  have "unat (ns_max_version (self_node_state cc1)) \<le> unat (ns_max_version (self_node_state cc)) + 1"
    using cc1(5) unatSuc [of "ns_max_version (self_node_state cc)"] room
    by (simp add: word_le_nat_alt add.commute) (metis add.commute eq_neg_iff_add_eq_0)
  then have "unat (ns_max_version (self_node_state cc1)) + length kvs < 2 ^ 64" using Cons.prems(2) by simp
  from Cons.IH [OF cc1(1) this] Cons.prems(3) set cc1 show ?case
    by (auto simp: e map_add_def split: option.splits)
qed simp

text \<open>
  A new instance is well-formed: creating it never panics when its keys start with a one-byte
  character; its node is alive with heartbeat 1, every initial key has its last value, no peer is
  considered alive or dead, and no other key is set.
\<close>

lemma new_instance:
  assumes "0 < fdc_sampling_window_size (cfg_failure_detector_config config)"
    and "length kvs < 2 ^ 64" and "\<forall>(k, _) \<in> set kvs. k = [] \<or> is_char_boundary k 1"
  shows "\<exists>cc. with_chitchat_id_and_seeds config seeds kvs = Inr cc \<and> cc_wf cc
    \<and> ns_heartbeat (self_node_state cc) = 1 \<and> cc_live_nodes cc = {cfg_chitchat_id config}
    \<and> cc_dead_nodes cc = [] \<and> get (self_node_state cc) k = map_of (rev kvs) k"
proof -
  define cc0 where "cc0 = update_self_heartbeat \<lparr>cc_config = config, cc_cluster_state = with_seed_addrs seeds,
    cc_failure_detector = FailureDetector_new (cfg_failure_detector_config config),
    cc_previous_live_nodes = [], cc_live_nodes_watch = []\<rparr>"
  have "with_chitchat_id_and_seeds config seeds [] = Inr cc0"
    by (simp add: with_chitchat_id_and_seeds_def cc0_def)
  then have wf: "cc_wf cc0" by (rule with_chitchat_id_and_seeds_wf [OF assms(1)])
  have self: "self_node_state cc0 = inc_heartbeat (NodeState_new (cfg_chitchat_id config))"
    by (simp add: cc0_def update_self_heartbeat_def put_self_node_state_def self_node_state_def
        self_chitchat_id_def cs_wf_with_seed_addrs)
      (simp add: with_seed_addrs_def node_state_mut_def)
  have empty: "ns_max_version (self_node_state cc0) = 0" "get (self_node_state cc0) k = None"
    "ns_heartbeat (self_node_state cc0) = 1"
    by (simp_all add: self NodeState_new_def inc_heartbeat_def heartbeat_inc_def get_def get_versioned_def)
  have rest: "cc_config cc0 = config"
    "cc_failure_detector cc0 = FailureDetector_new (cfg_failure_detector_config config)"
    by (simp_all add: cc0_def update_self_heartbeat_def put_self_node_state_def)
  obtain cc where "set_initial_key_values kvs cc0 = Inr cc" "cc_wf cc" "cc_config cc = config"
      "cc_failure_detector cc = FailureDetector_new (cfg_failure_detector_config config)"
      "ns_heartbeat (self_node_state cc) = 1" "get (self_node_state cc) k = map_of (rev kvs) k"
    using set_initial_key_values_ok [OF wf, of kvs k] assms(2,3) empty rest by (auto split: option.splits)
  then show ?thesis
    by (simp add: with_chitchat_id_and_seeds_def cc0_def cc_live_nodes_def cc_dead_nodes_def
        fd_dead_node_ids_def FailureDetector_new_def self_chitchat_id_def btm_keys_def)
qed

section \<open>Properties\<close>

text \<open>A configuration and a new instance, to exercise the properties.\<close>

definition demo_config :: ChitchatConfig where
  "demo_config = \<lparr>cfg_chitchat_id = ChitchatId ''node'' 0 (SocketAddrV4 [127, 0, 0, 1] 7280),
     cfg_cluster_id = ''c'', cfg_gossip_interval = from_secs 1,
     cfg_listen_addr = SocketAddrV4 [127, 0, 0, 1] 7280, cfg_seed_nodes = [],
     cfg_failure_detector_config = FailureDetectorConfig_default,
     cfg_marked_for_deletion_grace_period = from_secs 7200, cfg_catchup_callback = True,
     cfg_extra_liveness_predicate = None\<rparr>"

definition demo_env :: Env where
  "demo_env = \<lparr>env_zstd = zstd_never, env_shuffle = (\<lambda>_ xs. xs), env_half = (\<lambda>d. d div 2), env_now = 5\<rparr>"

definition demo_chitchat :: Chitchat where
  "demo_chitchat = update_self_heartbeat \<lparr>cc_config = demo_config, cc_cluster_state = with_seed_addrs {},
     cc_failure_detector = demo_detector, cc_previous_live_nodes = [], cc_live_nodes_watch = []\<rparr>"

lemma demo_config_window: "0 < fdc_sampling_window_size (cfg_failure_detector_config demo_config)"
  by (simp add: demo_config_def FailureDetectorConfig_default_def)

lemma demo_env_ok: "env_ok demo_env"
  by (simp add: env_ok_def demo_env_def zstd_never_contract permutes_def)

lemma demo_chitchat_created: "with_chitchat_id_and_seeds demo_config {} [] = Inr demo_chitchat"
  by (simp add: with_chitchat_id_and_seeds_def demo_chitchat_def demo_detector_def demo_config_def)

lemma demo_chitchat_id: "self_chitchat_id demo_chitchat = cfg_chitchat_id demo_config"
  "cc_config demo_chitchat = demo_config" "id_wf (cfg_chitchat_id demo_config)"
  by (simp_all add: demo_chitchat_def self_chitchat_id_def demo_config_def id_wf_def wire_string_ascii plain_addr_def)

lemma demo_chitchat_wf: "cc_wf demo_chitchat" "cc_sendable demo_chitchat"
proof -
  show wf: "cc_wf demo_chitchat"
    by (rule with_chitchat_id_and_seeds_wf [OF demo_config_window demo_chitchat_created])
  have "cs_codable (with_seed_addrs {})" by (simp add: cs_codable_def with_seed_addrs_def)
  then have "cs_codable (cc_cluster_state demo_chitchat)"
    using demo_chitchat_id(3)
    by (auto simp: demo_chitchat_def update_self_heartbeat_def put_self_node_state_def self_node_state_def
        inc_heartbeat_def self_chitchat_id_def intro!: cs_codable_put cs_codable_node_mut)
  with wf show "cc_sendable demo_chitchat" by (simp add: cc_sendable_def)
qed

text \<open>
  C13. Handling a message never fails: for any well-formed instance and any message a well-formed peer
  sends whose digest leaves room for a delta, the handler returns, the instance stays well-formed and
  sendable with its configuration, and the reply is the one the handshake prescribes (a SynAck or
  BadCluster for a Syn, an Ack for a SynAck, nothing otherwise), with an ordered delta.
\<close>

theorem process_message_total:
  assumes "env_ok env" and "cc_sendable cc" and "id_wf (self_chitchat_id cc)" and "message_acceptable msg"
  shows "\<exists>cc' reply fx. process_message env msg cc = Inr (cc', reply, fx) \<and> cc_sendable cc'
    \<and> cc_config cc' = cc_config cc \<and> reply_expected (cfg_cluster_id (cc_config cc)) msg reply"
  by (rule process_message_ok_aux [OF assms])

theorem process_message_total_witness:
  "\<exists>cc' g d fx. process_message demo_env (Syn ''c'' \<lparr>node_digests = []\<rparr>) demo_chitchat
     = Inr (cc', Some (SynAck g d), fx)"
proof -
  have "message_acceptable (Syn ''c'' \<lparr>node_digests = []\<rparr>)"
    by (simp add: message_acceptable_def wire_string_ascii digest_wf_def len_digest_def)
  moreover have "id_wf (self_chitchat_id demo_chitchat)" by (simp add: demo_chitchat_id)
  ultimately show ?thesis
    using process_message_total [OF demo_env_ok demo_chitchat_wf(2)]
    by (fastforce simp: demo_chitchat_id demo_config_def)
qed

text \<open>
  C14. Updating the liveness keeps the instance well-formed and its own node alive; every other known
  node is alive afterwards exactly when its phi is at most the threshold; a node that is alive keeps
  its state, and the others keep it until they are collected. The recorded live nodes are those of
  the new state, and the subscribers' view is replaced exactly when they differ from the previous
  ones.
\<close>

theorem update_nodes_liveness_invariant:
  assumes "cc_wf cc" and "cc' = update_nodes_liveness now cc"
  shows "cc_wf cc' \<and> self_chitchat_id cc \<in> cc_live_nodes cc'
    \<and> (i \<in> set (nodes (cc_cluster_state cc)) - {self_chitchat_id cc} \<longrightarrow>
         (i \<in> cc_live_nodes cc' \<longleftrightarrow> fd_is_alive i now (cc_failure_detector cc)))
    \<and> node_state (cc_cluster_state cc') i =
        (if i \<in> forgotten_nodes now cc then None else node_state (cc_cluster_state cc) i)
    \<and> forgotten_nodes now cc \<inter> cc_live_nodes cc' = {}
    \<and> cc_previous_live_nodes cc' = current_live_nodes cc'
    \<and> cc_live_nodes_watch cc' = (if cc_previous_live_nodes cc = current_live_nodes cc'
         then cc_live_nodes_watch cc else published_live_nodes cc')"
proof -
  have me: "self_chitchat_id cc' = self_chitchat_id cc" by (simp add: assms(2) self_chitchat_id_def)
  have "distinct (nodes (cc_cluster_state cc))"
    using cc_wfD(1) [OF assms(1)] by (simp add: nodes_def cs_wf_def btm_wf_def strict_sorted_iff btm_keys_def)
  note live = fold_liveness_live [OF cc_wfD(3) [OF assms(1)] this, of _ "self_chitchat_id cc" now]
  have fold: "checked_detector now cc = foldl (\<lambda>fd i. if i \<noteq> self_chitchat_id cc then update_node_liveness i now fd else fd)
      (cc_failure_detector cc) (nodes (cc_cluster_state cc))"
    by (simp add: checked_detector_def self_chitchat_id_def)
  show ?thesis
    using update_nodes_liveness_wf [OF assms(1), of now] forgotten_not_live [OF assms(1), of now]
      fold_remove_node [OF cc_wfD(1) [OF assms(1)], of "fst (fd_garbage_collect now (checked_detector now cc))" i]
      update_nodes_liveness_watch [OF assms(1), of now] live [of i] me
    by (auto simp: assms(2) cc_live_nodes_def fold forgotten_nodes_def)
qed

definition demo_with_peer :: Chitchat where
  "demo_with_peer = demo_chitchat\<lparr>cc_cluster_state :=
     put_node_state demo_peer (NodeState_new demo_peer) (cc_cluster_state demo_chitchat)\<rparr>"

theorem update_nodes_liveness_invariant_witness:
  "demo_peer \<notin> cc_live_nodes (update_nodes_liveness 5 demo_with_peer)
   \<and> cfg_chitchat_id demo_config \<in> cc_live_nodes (update_nodes_liveness 5 demo_with_peer)"
proof -
  have wf: "cc_wf demo_with_peer"
    unfolding demo_with_peer_def by (rule cc_wf_put_node [OF demo_chitchat_wf(1)]) (simp add: wf_intros, simp add: NodeState_new_def)
  have me: "self_chitchat_id demo_with_peer = cfg_chitchat_id demo_config" "cfg_chitchat_id demo_config \<noteq> demo_peer"
    by (simp_all add: demo_with_peer_def demo_chitchat_id) (simp add: demo_peer_def demo_config_def)
  moreover have "demo_peer \<in> set (nodes (cc_cluster_state demo_with_peer))"
    using demo_chitchat_wf(1)
    by (auto simp: demo_with_peer_def nodes_def set_btm_keys put_node_state_def cc_wf_def cs_wf_def)
  moreover have "\<not> fd_is_alive demo_peer 5 (cc_failure_detector demo_with_peer)"
    by (simp add: demo_with_peer_def demo_chitchat_def update_self_heartbeat_def put_self_node_state_def
        demo_detector_def FailureDetector_new_def fd_is_alive_def fd_phi_def)
  ultimately show ?thesis
    using update_nodes_liveness_invariant [OF wf refl, of 5 demo_peer] by auto
qed

text \<open>
  C39. A write of a new value panics exactly when its key starts with a character of more than one
  byte, whoever subscribed to what: looking for the listeners slices the key after its first byte.
\<close>

theorem multibyte_key_panics:
  assumes "cc_wf cc" and "ns_max_version (self_node_state cc) \<noteq> - 1" and "\<not> already_set k v (self_node_state cc)"
  shows "self_set k v cc = Inl NotCharBoundary \<longleftrightarrow> k \<noteq> [] \<and> \<not> is_char_boundary k 1"
proof (cases "k = [] \<or> is_char_boundary k 1")
  case True
  with self_set_ok [OF assms(1,2) True, of v] show ?thesis by auto
next
  case False
  let ?ns = "self_node_state cc"
  have "ns_wf ?ns" using self_node_state_wf [OF assms(1)] by simp
  from node_set_eq [OF this assms(2), of k v] assms(3)
  obtain ns where set: "node_set k v ?ns = Inr (ns, [\<lparr>kce_key = k, kce_value = v, kce_node = ns_chitchat_id ?ns\<rparr>])"
    by simp
  have "listeners_wf (cs_listeners (cc_cluster_state (put_self_node_state ns cc)))"
    using cc_wfD(2) [OF assms(1)] by (simp add: put_self_node_state_def)
  from deliver_panics [OF this, of "[\<lparr>kce_key = k, kce_value = v, kce_node = ns_chitchat_id ?ns\<rparr>]"] False set
  show ?thesis by (simp add: self_set_def deliver_events_def event_deliverable_def)
qed

text \<open>The key is the UTF-8 encoding of a single letter, e with an acute accent.\<close>

theorem multibyte_key_panics_witness:
  "self_set [CHR 0xC3, CHR 0xA9] ''v'' demo_chitchat = Inl NotCharBoundary"
proof -
  have self: "self_node_state demo_chitchat = inc_heartbeat (NodeState_new (cfg_chitchat_id demo_config))"
    by (simp add: demo_chitchat_def update_self_heartbeat_def put_self_node_state_def self_node_state_def
        self_chitchat_id_def cs_wf_with_seed_addrs)
      (simp add: with_seed_addrs_def node_state_mut_def)
  have "\<not> is_char_boundary [CHR 0xC3, CHR 0xA9] 1" by code_simp
  moreover have "ns_max_version (self_node_state demo_chitchat) \<noteq> - 1"
    "\<not> already_set [CHR 0xC3, CHR 0xA9] ''v'' (self_node_state demo_chitchat)"
    by (simp_all add: self inc_heartbeat_def NodeState_new_def already_set_def get_versioned_def)
  ultimately show ?thesis
    using multibyte_key_panics [OF demo_chitchat_wf(1), of "[CHR 0xC3, CHR 0xA9]" "''v''"] by simp
qed

text \<open>
  C40. A Syn whose digest takes more than 65406 of the 65506 bytes left for it makes the receiver
  panic, whatever its own state: the delta of the reply is given what the received digest leaves, and
  a delta of less than 100 bytes is refused by an assertion.
\<close>

theorem large_syn_panics:
  assumes "env_ok env" and "cc_sendable cc" and "id_wf (self_chitchat_id cc)" and "digest_wf g"
    and "65406 < len_digest g" and "len_digest g \<le> 65506"
  shows "process_message env (Syn (cfg_cluster_id (cc_config cc)) g) cc = Inl AssertMtu"
  by (rule process_syn_panics_aux [OF assms])

definition demo_large_digest :: "nat \<Rightarrow> Digest" where
  "demo_large_digest n = \<lparr>node_digests = [(ChitchatId (replicate n (CHR ''a'')) 0 (SocketAddrV4 [127, 0, 0, 1] 80),
     \<lparr>nd_heartbeat = 1, nd_last_gc_version = 0, nd_max_version = 0\<rparr>)]\<rparr>"

lemma demo_large_digest_wf: "n < 65536 \<Longrightarrow> digest_wf (demo_large_digest n)"
  "len_digest (demo_large_digest n) = n + 43"
  by (simp_all add: demo_large_digest_def digest_wf_def btm_wf_def id_wf_def wire_string_ascii plain_addr_def
      list_all_iff len_digest_def len_id_def len_str_def len_addr_def len_node_digest_def)

theorem large_syn_panics_witness:
  "process_message demo_env (Syn ''c'' (demo_large_digest 65400)) demo_chitchat = Inl AssertMtu"
proof -
  have "id_wf (self_chitchat_id demo_chitchat)" "cfg_cluster_id (cc_config demo_chitchat) = ''c''"
    by (simp_all add: demo_chitchat_id) (simp add: demo_config_def)
  with large_syn_panics [OF demo_env_ok demo_chitchat_wf(2), of "demo_large_digest 65400"]
  show ?thesis by (simp add: demo_large_digest_wf)
qed

end
