(* ===== verification/Server.thy ===== *)
theory Server
  imports Chitchat
begin

text \<open>
  The server of \<^verbatim>\<open>chitchat/src/server.rs\<close>: the task that owns an instance, answers the messages
  that arrive, and every gossip interval picks nodes to gossip with. The random generator of the rand
  crate is a parameter (\<open>rng_ops\<close>); what a send of the transport returns is only logged, so a server
  yields the messages it hands to the transport. The events that wake the loop up (a datagram, a
  tick, a command) are a list, each with the environment at that time.
\<close>

section \<open>Choosing the nodes to gossip with\<close>

text \<open>
  \<^verbatim>\<open>gen::<f64>\<close>, \<^verbatim>\<open>choose\<close> and \<^verbatim>\<open>choose_multiple\<close> on the iteration of a hash set, whose order is
  arbitrary; each returns the next state of the generator.
\<close>

record 's rng_ops =
  rng_gen :: "'s \<Rightarrow> real \<times> 's"
  rng_choose :: "SocketAddr set \<Rightarrow> 's \<Rightarrow> SocketAddr option \<times> 's"
  rng_choose_multiple :: "SocketAddr set \<Rightarrow> nat \<Rightarrow> 's \<Rightarrow> SocketAddr list \<times> 's"

definition GOSSIP_COUNT :: nat where
  "GOSSIP_COUNT = 3"

definition select_dead_node_to_gossip_with ::
    "'s rng_ops \<Rightarrow> SocketAddr set \<Rightarrow> nat \<Rightarrow> nat \<Rightarrow> 's \<Rightarrow> SocketAddr option \<times> 's" where
  "select_dead_node_to_gossip_with ops dead_nodes live_nodes_count dead_nodes_count rng =
     (let selection_probability = real dead_nodes_count / real (live_nodes_count + 1);
          (x, rng) = rng_gen ops rng
      in if selection_probability > x then rng_choose ops dead_nodes rng else (None, rng))"

text \<open>The probability is only looked at when there is a live node: the division is then by a
  positive number.\<close>

definition select_seed_node_to_gossip_with ::
    "'s rng_ops \<Rightarrow> SocketAddr set \<Rightarrow> nat \<Rightarrow> nat \<Rightarrow> 's \<Rightarrow> SocketAddr option \<times> 's" where
  "select_seed_node_to_gossip_with ops seed_nodes live_nodes_count dead_nodes_count rng =
     (let selection_probability = real (card seed_nodes) / real (live_nodes_count + dead_nodes_count)
      in if live_nodes_count = 0 then rng_choose ops seed_nodes rng
         else
           let (x, rng) = rng_gen ops rng
           in if x \<le> selection_probability then rng_choose ops seed_nodes rng else (None, rng))"

definition select_nodes_for_gossip ::
    "'s rng_ops \<Rightarrow> SocketAddr set \<Rightarrow> SocketAddr set \<Rightarrow> SocketAddr set \<Rightarrow> SocketAddr set \<Rightarrow> 's
     \<Rightarrow> (SocketAddr list \<times> SocketAddr option \<times> SocketAddr option) \<times> 's" where
  "select_nodes_for_gossip ops peer_nodes live_nodes dead_nodes seed_nodes rng =
     (let live_nodes_count = card live_nodes;
          dead_nodes_count = card dead_nodes;
          (nodes, rng) = rng_choose_multiple ops
            (if live_nodes_count = 0 then peer_nodes else live_nodes) GOSSIP_COUNT rng;
          has_gossiped_with_a_seed_node = list_ex (\<lambda>a. a \<in> seed_nodes) nodes;
          (random_dead_node_opt, rng) =
            select_dead_node_to_gossip_with ops dead_nodes live_nodes_count dead_nodes_count rng;
          (random_seed_node_opt, rng) =
            (if \<not> has_gossiped_with_a_seed_node \<or> live_nodes_count < card seed_nodes
             then select_seed_node_to_gossip_with ops seed_nodes live_nodes_count dead_nodes_count rng
             else (None, rng))
      in ((nodes, random_dead_node_opt, random_seed_node_opt), rng))"

section \<open>The server\<close>

record 's Server =
  srv_chitchat :: Chitchat
  srv_rng :: 's

type_synonym sends = "(SocketAddr \<times> ChitchatMessage) list"

datatype Command = CommandGossip SocketAddr | CommandShutdown

definition handle_message ::
    "Env \<Rightarrow> SocketAddr \<Rightarrow> ChitchatMessage \<Rightarrow> 's Server \<Rightarrow> ('s Server \<times> sends \<times> effect list) outcome" where
  "handle_message env from_addr message srv =
     result_bind (process_message env message (srv_chitchat srv)) (\<lambda>(cc, response, fx).
       Inr (srv\<lparr>srv_chitchat := cc\<rparr>,
            (case response of Some message \<Rightarrow> [(from_addr, message)] | None \<Rightarrow> []), fx))"

definition gossip :: "Env \<Rightarrow> SocketAddr \<Rightarrow> 's Server \<Rightarrow> sends" where
  "gossip env addr srv = [(addr, create_syn_message env (srv_chitchat srv))]"

text \<open>The address sets that the first part of \<^verbatim>\<open>gossip_multiple\<close> computes under the lock.\<close>

definition gossip_candidates ::
    "Chitchat \<Rightarrow> SocketAddr set \<times> SocketAddr set \<times> SocketAddr set \<times> SocketAddr set" where
  "gossip_candidates cc =
     (let me = self_chitchat_id cc;
          peer_nodes = gossip_advertise_addr ` (set (nodes (cc_cluster_state cc)) - {me});
          live_nodes = gossip_advertise_addr ` (cc_live_nodes cc - {me});
          dead_nodes = gossip_advertise_addr ` set (cc_dead_nodes cc);
          seed_nodes = cs_seed_addrs (cc_cluster_state cc) - {gossip_advertise_addr me}
      in (peer_nodes, live_nodes, dead_nodes, seed_nodes))"

text \<open>
  A tick, in the three parts between which the code releases the lock: choosing the nodes, the heartbeat
  and the collection; one \<^verbatim>\<open>gossip\<close> per node; and the liveness of the nodes.
\<close>

definition gossip_multiple_start :: "'s rng_ops \<Rightarrow> Env \<Rightarrow> 's Server \<Rightarrow> 's Server \<times> SocketAddr list" where
  "gossip_multiple_start ops env srv =
     (let cc = srv_chitchat srv;
          (peer_nodes, live_nodes, dead_nodes, seed_nodes) = gossip_candidates cc;
          ((selected_nodes, random_dead_node_opt, random_seed_node_opt), rng) =
            select_nodes_for_gossip ops peer_nodes live_nodes dead_nodes seed_nodes (srv_rng srv);
          cc = update_self_heartbeat cc;
          cc = cc_gc_keys_marked_for_deletion (env_now env) cc
      in (\<lparr>srv_chitchat = cc, srv_rng = rng\<rparr>,
          selected_nodes
            @ (case random_dead_node_opt of Some node \<Rightarrow> [node] | None \<Rightarrow> [])
            @ (case random_seed_node_opt of Some node \<Rightarrow> [node] | None \<Rightarrow> [])))"

definition gossip_multiple_end :: "Env \<Rightarrow> 's Server \<Rightarrow> 's Server" where
  "gossip_multiple_end env srv = srv\<lparr>srv_chitchat := update_nodes_liveness (env_now env) (srv_chitchat srv)\<rparr>"

definition gossip_multiple :: "'s rng_ops \<Rightarrow> Env \<Rightarrow> 's Server \<Rightarrow> 's Server \<times> sends" where
  "gossip_multiple ops env srv =
     (let (srv, nodes) = gossip_multiple_start ops env srv;
          sent = concat (map (\<lambda>node. gossip env node srv) nodes)
      in (gossip_multiple_end env srv, sent))"

lemmas gossip_multiple_defs = gossip_multiple_def gossip_multiple_start_def gossip_multiple_end_def

section \<open>The loop\<close>

datatype event =
    Received "transport_error + (SocketAddr \<times> ChitchatMessage)"
  | GossipTick
  | CommandReceived "Command option"

datatype run_result = StillRunning | Stopped "transport_error + unit"

text \<open>One turn of \<^verbatim>\<open>run\<close>: the result says whether the loop was left.\<close>

fun server_turn ::
    "'s rng_ops \<Rightarrow> Env \<Rightarrow> event \<Rightarrow> 's Server \<Rightarrow> (run_result \<times> 's Server \<times> sends \<times> effect list) outcome" where
  "server_turn ops env (Received (Inr (from_addr, message))) srv =
     result_bind (handle_message env from_addr message srv) (\<lambda>(srv, sent, fx). Inr (StillRunning, srv, sent, fx))"
| "server_turn ops env (Received (Inl err)) srv = Inr (Stopped (Inl err), srv, [], [])"
| "server_turn ops env GossipTick srv =
     (let (srv, sent) = gossip_multiple ops env srv in Inr (StillRunning, srv, sent, []))"
| "server_turn ops env (CommandReceived (Some (CommandGossip addr))) srv =
     Inr (StillRunning, srv, gossip env addr srv, [])"
| "server_turn ops env (CommandReceived (Some CommandShutdown)) srv = Inr (Stopped (Inr ()), srv, [], [])"
| "server_turn ops env (CommandReceived None) srv = Inr (Stopped (Inr ()), srv, [], [])"

fun server_run ::
    "'s rng_ops \<Rightarrow> (Env \<times> event) list \<Rightarrow> 's Server \<Rightarrow> (run_result \<times> 's Server \<times> sends \<times> effect list) outcome" where
  "server_run ops [] srv = Inr (StillRunning, srv, [], [])"
| "server_run ops ((env, e) # es) srv =
     result_bind (server_turn ops env e srv) (\<lambda>(r, srv, sent, fx).
       if r \<noteq> StillRunning then Inr (r, srv, sent, fx)
       else result_bind (server_run ops es srv) (\<lambda>(r, srv, sent', fx').
         Inr (r, srv, sent @ sent', fx @ fx')))"

section \<open>Reachable servers\<close>

text \<open>
  A server starts from a new instance; between its turns the application may write to the local node,
  delete keys, subscribe to keys or drop a subscription, and the seeds may change. Strings fit the wire
  format.
\<close>

definition config_ok :: "ChitchatConfig \<Rightarrow> (string \<times> string) list \<Rightarrow> bool" where
  "config_ok config kvs \<longleftrightarrow> 0 < fdc_sampling_window_size (cfg_failure_detector_config config)
     \<and> id_wf (cfg_chitchat_id config) \<and> list_all (\<lambda>(k, v). wire_string k \<and> wire_string v) kvs"

fun event_acceptable :: "event \<Rightarrow> bool" where
  "event_acceptable (Received (Inr (_, message))) \<longleftrightarrow> message_acceptable message"
| "event_acceptable _ \<longleftrightarrow> True"

fun stops :: "event \<Rightarrow> bool" where
  "stops (Received (Inl _)) \<longleftrightarrow> True"
| "stops (CommandReceived None) \<longleftrightarrow> True"
| "stops (CommandReceived (Some CommandShutdown)) \<longleftrightarrow> True"
| "stops _ \<longleftrightarrow> False"

text \<open>What happens beside the key-values: subscriptions come and go, and the seeds are resolved again.\<close>

inductive peripheral_step :: "Chitchat \<Rightarrow> Chitchat \<Rightarrow> bool" where
  subscribes: "peripheral_step cc (fst (cc_subscribe_event p cb cc))"
| unsubscribes: "peripheral_step cc (cc_drop_handle h cc)"
| seeds_resolved: "finite addrs \<Longrightarrow> peripheral_step cc (cc_watch_seeds addrs cc)"

inductive app_step :: "Chitchat \<Rightarrow> Chitchat \<Rightarrow> bool" where
  app_set: "wire_string k \<Longrightarrow> wire_string v \<Longrightarrow> self_set k v cc = Inr (cc', fx) \<Longrightarrow> app_step cc cc'"
| app_set_with_ttl: "wire_string k \<Longrightarrow> wire_string v \<Longrightarrow> ns_max_version (self_node_state cc) \<noteq> - 1 \<Longrightarrow>
    self_set_with_ttl k v now cc = Inr (cc', fx) \<Longrightarrow> app_step cc cc'"
| app_delete: "ns_max_version (self_node_state cc) \<noteq> - 1 \<Longrightarrow> app_step cc (self_delete k now cc)"
| app_delete_after_ttl: "ns_max_version (self_node_state cc) \<noteq> - 1 \<Longrightarrow> app_step cc (self_delete_after_ttl k now cc)"
| app_peripheral: "peripheral_step cc cc' \<Longrightarrow> app_step cc cc'"

inductive server_reachable :: "'s rng_ops \<Rightarrow> 's Server \<Rightarrow> bool" for ops where
  start: "config_ok config kvs \<Longrightarrow> finite seeds \<Longrightarrow> with_chitchat_id_and_seeds config seeds kvs = Inr cc \<Longrightarrow>
    server_reachable ops \<lparr>srv_chitchat = cc, srv_rng = rng\<rparr>"
| turn: "server_reachable ops srv \<Longrightarrow> env_ok env \<Longrightarrow> event_acceptable e \<Longrightarrow>
    server_turn ops env e srv = Inr (r, srv', sent, fx) \<Longrightarrow> server_reachable ops srv'"
| application: "server_reachable ops srv \<Longrightarrow> app_step (srv_chitchat srv) cc \<Longrightarrow>
    server_reachable ops (srv\<lparr>srv_chitchat := cc\<rparr>)"

inductive_cases app_stepE: "app_step cc cc'"

definition cc_seeds :: "Chitchat \<Rightarrow> SocketAddr set" where
  "cc_seeds cc = cs_seed_addrs (cc_cluster_state cc)"

definition server_inv :: "Chitchat \<Rightarrow> bool" where
  "server_inv cc \<longleftrightarrow> cc_sendable cc \<and> id_wf (self_chitchat_id cc) \<and> finite (cc_seeds cc)"

lemma server_invI:
  "cc_sendable cc' \<Longrightarrow> cc_config cc' = cc_config cc \<Longrightarrow> cc_seeds cc' = cc_seeds cc \<Longrightarrow> server_inv cc \<Longrightarrow> server_inv cc'"
  by (simp add: server_inv_def self_chitchat_id_def)

subsection \<open>The seeds stay\<close>

lemma seeds_simps [simp]:
  "cs_seed_addrs (put_node_state i ns cs) = cs_seed_addrs cs"
  "cs_seed_addrs (cluster_gc_keys_marked_for_deletion gp now cs) = cs_seed_addrs cs"
  "cs_seed_addrs (foldl (\<lambda>cs i. remove_node i cs) cs is) = cs_seed_addrs cs"
  "cs_seed_addrs (fst (apply_node_deltas nds now cs)) = cs_seed_addrs cs"
proof -
  show "cs_seed_addrs (foldl (\<lambda>cs i. remove_node i cs) cs is) = cs_seed_addrs cs"
    by (induction "is" arbitrary: cs) (simp_all add: remove_node_def)
  show "cs_seed_addrs (fst (apply_node_deltas nds now cs)) = cs_seed_addrs cs"
    by (induction nds arbitrary: cs)
      (simp_all add: apply_node_deltas_Cons put_node_state_def del: apply_node_deltas.simps(2))
qed (simp_all add: put_node_state_def cluster_gc_keys_marked_for_deletion_def)

lemma cc_seeds_simps [simp]:
  "cc_seeds (put_self_node_state ns cc) = cc_seeds cc"
  "cc_seeds (update_self_heartbeat cc) = cc_seeds cc"
  "cc_seeds (cc_gc_keys_marked_for_deletion now cc) = cc_seeds cc"
  "cc_seeds (update_nodes_liveness now cc) = cc_seeds cc"
  by (simp_all add: cc_seeds_def put_self_node_state_def update_self_heartbeat_def cc_gc_keys_marked_for_deletion_def)

lemma report_heartbeats_seeds: "report_heartbeats es now cc = Inr cc' \<Longrightarrow> cc_seeds cc' = cc_seeds cc"
proof (induction es arbitrary: cc)
  case (Cons e es)
  obtain i nd where e: "e = (i, nd)" by fastforce
  obtain cc1 where cc1: "cc_report_heartbeat i (nd_heartbeat nd) now cc = Inr cc1" "report_heartbeats es now cc1 = Inr cc'"
    using Cons.prems by (auto simp: e)
  have "cc_seeds cc1 = cc_seeds cc"
    using cc1(1) by (auto simp: cc_report_heartbeat_def cc_seeds_def Let_def split: if_splits prod.splits)
  with Cons.IH [OF cc1(2)] show ?case by simp
qed simp

lemma process_delta_seeds:
  assumes "process_delta d now cc = Inr (cc', fx)"
  shows "cc_seeds cc' = cc_seeds cc"
proof -
  obtain cs es where cs: "apply_node_deltas (node_deltas d) now (cc_cluster_state cc) = (cs, es)" by fastforce
  have "cs_seed_addrs cs = cs_seed_addrs (cc_cluster_state cc)"
    using seeds_simps(4) [of "node_deltas d" now "cc_cluster_state cc", unfolded cs] by simp
  moreover have "cc' = cc\<lparr>cc_cluster_state := cs\<rparr>"
    using assms by (auto simp: process_delta_def cluster_apply_delta_def cs Let_def)
  ultimately show ?thesis by (simp add: cc_seeds_def)
qed

lemma process_message_seeds:
  assumes "process_message env m cc = Inr (cc', reply, fx)"
  shows "cc_seeds cc' = cc_seeds cc"
proof -
  let ?cc = "update_self_heartbeat cc" and ?now = "env_now env"
  have report: "cc_seeds cc1 = cc_seeds cc" if "report_heartbeats_in_digest g ?now ?cc = Inr cc1" for g cc1
    using report_heartbeats_seeds that by (simp add: report_heartbeats_in_digest_def)
  show ?thesis
  proof (cases m)
    case (Syn c g)
    with assms show ?thesis using report [of g]
      by (cases "c = cfg_cluster_id (cc_config cc)") (auto simp: process_message_def Let_def)
  next
    case (SynAck g d)
    with assms obtain cc1 fx' where "report_heartbeats_in_digest g ?now ?cc = Inr cc1"
      "process_delta d ?now cc1 = Inr (cc', fx')" by (auto simp: process_message_def Let_def)
    with report [of g] process_delta_seeds show ?thesis by metis
  next
    case (Ack d)
    with assms obtain fx' where "process_delta d ?now ?cc = Inr (cc', fx')"
      by (auto simp: process_message_def Let_def)
    from process_delta_seeds [OF this] show ?thesis by simp
  next
    case BadCluster
    with assms show ?thesis by (auto simp: process_message_def)
  qed
qed

subsection \<open>The application's steps\<close>

lemma put_codable: "ns_codable ns \<Longrightarrow> wire_string k \<Longrightarrow> wire_string (vv_value vv) \<Longrightarrow> ns_codable (put k vv ns)"
  using ns_codable_insert [of "ns\<lparr>ns_max_version := vv_version vv\<rparr>" k vv] by (simp add: put_def)

lemma put_self_sendable:
  assumes "server_inv cc" and "ns_wf ns" and "ns_chitchat_id ns = self_chitchat_id cc" and "ns_codable ns"
  shows "server_inv (put_self_node_state ns cc)"
  using assms cc_wf_put_self [of cc ns]
  by (simp add: server_inv_def cc_sendable_def cc_seeds_def put_self_node_state_def cs_codable_put)

lemma self_node_state_inv:
  assumes "server_inv cc"
  shows "ns_wf (self_node_state cc)" "ns_chitchat_id (self_node_state cc) = self_chitchat_id cc"
    "ns_codable (self_node_state cc)"
  using assms self_node_state_wf [of cc]
  by (auto simp: server_inv_def cc_sendable_def self_node_state_def cs_codable_node_mut)

lemma codable_entry:
  assumes "ns_codable ns" and "get_versioned ns k = Some vv"
  shows "wire_string k \<and> wire_string (vv_value vv)"
  using assms by (auto simp: ns_codable_def get_versioned_def list_all_iff dest: btm_get_Some_in_set)

lemma wire_string_Nil: "wire_string []"
  by (simp add: wire_string_ascii)

lemma node_set_codable:
  assumes "ns_wf ns" and "ns_codable ns" and "wire_string k" and "wire_string v" and "node_set k v ns = Inr (ns', es)"
  shows "ns_codable ns'"
  using assms node_set_eq [OF assms(1), of k v] node_set_panic [of ns k v]
  by (cases "ns_max_version ns = - 1") (auto split: if_splits intro!: put_codable)

lemma self_set_inv:
  assumes "server_inv cc" and "wire_string k" and "wire_string v" and "self_set k v cc = Inr (cc', fx)"
  shows "server_inv cc' \<and> cc_config cc' = cc_config cc"
proof -
  note self = self_node_state_inv [OF assms(1)]
  obtain ns es where ns: "node_set k v (self_node_state cc) = Inr (ns, es)" "cc' = put_self_node_state ns cc"
    using assms(4) by (auto simp: self_set_def Let_def)
  have "server_inv (put_self_node_state ns cc)"
    using self node_set_wf [OF self(1) ns(1)] node_set_id [OF ns(1)] node_set_codable [OF self(1,3) assms(2,3) ns(1)]
    by (intro put_self_sendable assms) simp_all
  then show ?thesis using ns(2) by (simp add: put_self_node_state_def)
qed

lemma peripheral_step_same:
  assumes "peripheral_step cc cc'"
  shows "cc_config cc' = cc_config cc"
    and "cs_node_states (cc_cluster_state cc') = cs_node_states (cc_cluster_state cc)"
    and "server_inv cc \<Longrightarrow> server_inv cc'"
proof -
  show same: "cc_config cc' = cc_config cc"
    and nodes: "cs_node_states (cc_cluster_state cc') = cs_node_states (cc_cluster_state cc)"
    using assms by (cases; simp add: cc_subscribe_event_def cc_drop_handle_def cc_watch_seeds_def Let_def split_beta)+
  have "cc_wf cc \<Longrightarrow> cc_wf cc'" using assms by cases (simp_all add: wf_intros)
  moreover have "finite (cc_seeds cc) \<Longrightarrow> finite (cc_seeds cc')"
    using assms by cases (simp_all add: cc_seeds_def cc_subscribe_event_def cc_drop_handle_def cc_watch_seeds_def Let_def split_beta)
  ultimately show "server_inv cc'" if "server_inv cc"
    using that same nodes by (simp add: server_inv_def cc_sendable_def cs_codable_def self_chitchat_id_def)
qed

lemma app_step_inv:
  assumes "app_step cc cc'" and "server_inv cc"
  shows "server_inv cc'"
  using assms(1)
proof cases
  case (app_set k v fx)
  with self_set_inv [OF assms(2)] show ?thesis by blast
next
  case (app_set_with_ttl k v now fx)
  note self = self_node_state_inv [OF assms(2)]
  obtain ns es where ns: "set_with_ttl k v now (self_node_state cc) = (ns, es)" "cc' = put_self_node_state ns cc"
    using app_set_with_ttl by (auto simp: self_set_with_ttl_def Let_def split: prod.splits)
  have "ns_wf ns" "ns_chitchat_id ns = self_chitchat_id cc" "ns_codable ns"
    using ns(1) self app_set_with_ttl set_with_ttl_eq [OF self(1), of k v now]
      set_with_ttl_wf [OF self(1), of k v now]
    by (auto split: if_splits intro!: put_codable)
  then show ?thesis unfolding ns(2) by (intro put_self_sendable assms)
next
  case (app_delete k now)
  note self = self_node_state_inv [OF assms(2)]
  have "ns_codable (delete k now (self_node_state cc))"
    using self(3) codable_entry [OF self(3), of k] wire_string_Nil
    by (auto simp: delete_eq split: option.split intro!: put_codable)
  with app_delete self show ?thesis
    by (simp add: self_delete_def put_self_sendable [OF assms(2)] delete_wf)
next
  case (app_delete_after_ttl k now)
  note self = self_node_state_inv [OF assms(2)]
  have "ns_codable (delete_after_ttl k now (self_node_state cc))"
    using self(3) codable_entry [OF self(3), of k]
    by (auto simp: delete_after_ttl_eq split: option.split intro!: put_codable)
  with app_delete_after_ttl self show ?thesis
    by (simp add: self_delete_after_ttl_def put_self_sendable [OF assms(2)] delete_after_ttl_wf)
next
  case app_peripheral
  with assms(2) show ?thesis by (blast intro: peripheral_step_same(3))
qed

subsection \<open>The start\<close>

lemma set_initial_key_values_inv:
  "server_inv cc \<Longrightarrow> list_all (\<lambda>(k, v). wire_string k \<and> wire_string v) kvs \<Longrightarrow>
   set_initial_key_values kvs cc = Inr cc' \<Longrightarrow> server_inv cc'"
proof (induction kvs arbitrary: cc)
  case (Cons e kvs)
  obtain k v where e: "e = (k, v)" by fastforce
  obtain cc1 fx where "self_set k v cc = Inr (cc1, fx)" "set_initial_key_values kvs cc1 = Inr cc'"
    using Cons.prems(3) by (auto simp: e)
  with Cons.IH [of cc1] Cons.prems(1,2) self_set_inv [of cc k v cc1 fx] show ?case by (simp add: e)
qed simp

lemma start_inv:
  assumes "config_ok config kvs" and "finite seeds" and "with_chitchat_id_and_seeds config seeds kvs = Inr cc"
  shows "server_inv cc"
proof -
  define cc0 where "cc0 = update_self_heartbeat \<lparr>cc_config = config, cc_cluster_state = with_seed_addrs seeds,
    cc_failure_detector = FailureDetector_new (cfg_failure_detector_config config),
    cc_previous_live_nodes = [], cc_live_nodes_watch = []\<rparr>"
  have win: "0 < fdc_sampling_window_size (cfg_failure_detector_config config)"
    using assms(1) by (simp add: config_ok_def)
  have "with_chitchat_id_and_seeds config seeds [] = Inr cc0"
    by (simp add: with_chitchat_id_and_seeds_def cc0_def)
  from with_chitchat_id_and_seeds_wf [OF win this] have "cc_wf cc0" .
  moreover have "cs_codable (with_seed_addrs seeds)" by (simp add: cs_codable_def with_seed_addrs_def)
  then have "cs_codable (cc_cluster_state cc0)"
    using assms(1) heartbeat_op.on_node_codable [of "with_seed_addrs seeds" "cfg_chitchat_id config"]
    by (simp add: cc0_def config_ok_def update_self_heartbeat_def put_self_node_state_def self_node_state_def
        self_chitchat_id_def)
  moreover have "id_wf (self_chitchat_id cc0)"
    using assms(1) by (simp add: config_ok_def self_chitchat_id_def cc0_def)
  moreover have "finite (cc_seeds cc0)"
    using assms(2) by (simp add: cc0_def) (simp add: cc_seeds_def with_seed_addrs_def)
  ultimately have "server_inv cc0" by (simp add: server_inv_def cc_sendable_def)
  with assms set_initial_key_values_inv [of cc0 kvs cc] show ?thesis
    by (simp add: with_chitchat_id_and_seeds_def cc0_def config_ok_def)
qed

subsection \<open>The turns\<close>

text \<open>What a turn may send: the prescribed reply to the sender of a message, or Syn messages of the
  server's own cluster; on a tick only to known peers, dead nodes and seeds.\<close>

definition own_syn :: "Chitchat \<Rightarrow> ChitchatMessage \<Rightarrow> bool" where
  "own_syn cc m \<longleftrightarrow> (\<exists>g. m = Syn (cfg_cluster_id (cc_config cc)) g)"

fun sends_expected :: "event \<Rightarrow> Chitchat \<Rightarrow> sends \<Rightarrow> bool" where
  "sends_expected (Received (Inr (a, m))) cc sent \<longleftrightarrow>
     (\<exists>reply. reply_expected (cfg_cluster_id (cc_config cc)) m reply
        \<and> sent = (case reply of None \<Rightarrow> [] | Some r \<Rightarrow> [(a, r)]))"
| "sends_expected GossipTick cc sent \<longleftrightarrow>
     (case gossip_candidates cc of (peers, live, dead, seeds) \<Rightarrow>
        \<forall>(a, m) \<in> set sent. own_syn cc m \<and> a \<in> peers \<union> live \<union> dead \<union> seeds)"
| "sends_expected (CommandReceived (Some (CommandGossip a))) cc sent \<longleftrightarrow>
     (\<exists>m. sent = [(a, m)] \<and> own_syn cc m)"
| "sends_expected _ cc sent \<longleftrightarrow> sent = []"

text \<open>What the code relies on of the rand crate: \<^verbatim>\<open>gen::<f64>\<close> lies in [0, 1), \<^verbatim>\<open>choose\<close> is empty
  only for an empty set, \<^verbatim>\<open>choose_multiple\<close> picks that many distinct elements, or all of them.\<close>

definition rng_ok :: "'s rng_ops \<Rightarrow> bool" where
  "rng_ok ops \<longleftrightarrow> (\<forall>s. 0 \<le> fst (rng_gen ops s) \<and> fst (rng_gen ops s) < 1)
     \<and> (\<forall>A s. finite A \<longrightarrow> (case fst (rng_choose ops A s) of None \<Rightarrow> A = {} | Some a \<Rightarrow> a \<in> A))
     \<and> (\<forall>A n s. finite A \<longrightarrow> (let xs = fst (rng_choose_multiple ops A n s)
          in distinct xs \<and> set xs \<subseteq> A \<and> length xs = min n (card A)))"

lemma rng_gen_bounds: "rng_ok ops \<Longrightarrow> rng_gen ops s = (x, s') \<Longrightarrow> 0 \<le> x \<and> x < 1"
  unfolding rng_ok_def by (metis fst_conv)

lemma rng_choose_spec:
  "rng_ok ops \<Longrightarrow> finite A \<Longrightarrow> rng_choose ops A s = (r, s') \<Longrightarrow> (case r of None \<Rightarrow> A = {} | Some a \<Rightarrow> a \<in> A)"
  unfolding rng_ok_def by (metis fst_conv)

lemma rng_choose_multiple_spec:
  "rng_ok ops \<Longrightarrow> finite A \<Longrightarrow> rng_choose_multiple ops A n s = (xs, s') \<Longrightarrow>
   distinct xs \<and> set xs \<subseteq> A \<and> length xs = min n (card A)"
  unfolding rng_ok_def Let_def by (metis fst_conv)

lemma gossip_candidates_finite:
  assumes "server_inv cc" and "gossip_candidates cc = (peers, live, dead, seeds)"
  shows "finite peers" "finite live" "finite dead" "finite seeds"
proof -
  have "fd_live_nodes (cc_failure_detector cc) \<subseteq> fst ` set (fd_node_samples (cc_failure_detector cc))"
    using assms(1) by (simp add: server_inv_def cc_sendable_def cc_wf_def fd_wf_def)
  then have "finite (fd_live_nodes (cc_failure_detector cc))" by (rule finite_subset) simp
  with assms show "finite peers" "finite live" "finite dead" "finite seeds"
    by (auto simp: gossip_candidates_def Let_def cc_live_nodes_def server_inv_def cc_seeds_def)
qed

lemma select_dead_node_spec:
  assumes "rng_ok ops" and "finite dead" and "select_dead_node_to_gossip_with ops dead nl nd rng = (r, rng')"
  shows "\<forall>a. r = Some a \<longrightarrow> a \<in> dead" and "nl < nd \<Longrightarrow> dead \<noteq> {} \<Longrightarrow> r \<noteq> None" and "nd = 0 \<Longrightarrow> r = None"
proof -
  obtain x s where x: "rng_gen ops rng = (x, s)" by fastforce
  note bounds = rng_gen_bounds [OF assms(1) x]
  have r: "(r, rng') = (if real nd / real (nl + 1) > x then rng_choose ops dead s else (None, s))"
    using assms(3) x by (simp add: select_dead_node_to_gossip_with_def Let_def)
  show "\<forall>a. r = Some a \<longrightarrow> a \<in> dead"
    using r rng_choose_spec [OF assms(1,2), of s r rng'] by (auto split: if_splits)
  show "nd = 0 \<Longrightarrow> r = None" using r bounds by (auto split: if_splits)
  assume "nl < nd" "dead \<noteq> {}"
  then have "1 \<le> real nd / real (nl + 1)" by simp
  with bounds have "x < real nd / real (nl + 1)" by linarith
  with r have "rng_choose ops dead s = (r, rng')" by simp
  from rng_choose_spec [OF assms(1,2) this] \<open>dead \<noteq> {}\<close> show "r \<noteq> None" by auto
qed

lemma select_seed_node_spec:
  assumes "rng_ok ops" and "finite seeds" and "select_seed_node_to_gossip_with ops seeds nl nd rng = (r, rng')"
  shows "\<forall>a. r = Some a \<longrightarrow> a \<in> seeds" and "nl = 0 \<or> nl + nd \<le> card seeds \<Longrightarrow> seeds \<noteq> {} \<Longrightarrow> r \<noteq> None"
proof -
  obtain x s where x: "rng_gen ops rng = (x, s)" by fastforce
  note bounds = rng_gen_bounds [OF assms(1) x]
  have r: "(r, rng') = (if nl = 0 then rng_choose ops seeds rng
      else if x \<le> real (card seeds) / real (nl + nd) then rng_choose ops seeds s else (None, s))"
    using assms(3) x by (cases "nl = 0") (simp_all add: select_seed_node_to_gossip_with_def Let_def)
  note choose = rng_choose_spec [OF assms(1,2), of _ r rng']
  show "\<forall>a. r = Some a \<longrightarrow> a \<in> seeds"
    using r choose [of rng] choose [of s] by (auto split: if_splits)
  assume many: "nl = 0 \<or> nl + nd \<le> card seeds" and ne: "seeds \<noteq> {}"
  have "x \<le> real (card seeds) / real (nl + nd)" if "nl \<noteq> 0"
  proof -
    have "1 \<le> real (card seeds) / real (nl + nd)" using that many by simp
    with bounds show ?thesis by linarith
  qed
  then show "r \<noteq> None" using r ne choose [of rng] choose [of s] by (auto split: if_splits)
qed

lemma select_nodes_spec:
  assumes ok: "rng_ok ops" and fin: "finite peers" "finite live" "finite dead" "finite seeds"
    and sel: "select_nodes_for_gossip ops peers live dead seeds rng = ((ns, d, sd), rng')"
  shows "distinct ns \<and> set ns \<subseteq> (if live = {} then peers else live)
      \<and> length ns = min 3 (card (if live = {} then peers else live))"
    and "\<forall>a. d = Some a \<longrightarrow> a \<in> dead" and "card live < card dead \<Longrightarrow> d \<noteq> None" and "dead = {} \<Longrightarrow> d = None"
    and "\<forall>a. sd = Some a \<longrightarrow> a \<in> seeds"
    and "live = {} \<or> card live + card dead \<le> card seeds \<Longrightarrow> seeds \<noteq> {} \<Longrightarrow>
      sd \<noteq> None \<or> (\<exists>a \<in> set ns. a \<in> seeds)"
proof -
  have pool: "(if card live = 0 then peers else live) = (if live = {} then peers else live)"
    using fin(2) by simp
  obtain s1 s2 where sel1: "rng_choose_multiple ops (if card live = 0 then peers else live) GOSSIP_COUNT rng = (ns, s1)"
    and s2: "select_dead_node_to_gossip_with ops dead (card live) (card dead) s1 = (d, s2)"
    and s3: "(if \<not> list_ex (\<lambda>a. a \<in> seeds) ns \<or> card live < card seeds
      then select_seed_node_to_gossip_with ops seeds (card live) (card dead) s2 else (None, s2)) = (sd, rng')"
    using sel unfolding select_nodes_for_gossip_def by (auto simp: Let_def split: prod.splits)
  note s1 = sel1 [unfolded pool]
  have "finite (if live = {} then peers else live)" using fin(1,2) by simp
  from rng_choose_multiple_spec [OF ok this s1]
  show "distinct ns \<and> set ns \<subseteq> (if live = {} then peers else live)
      \<and> length ns = min 3 (card (if live = {} then peers else live))"
    by (simp add: GOSSIP_COUNT_def)
  show "\<forall>a. d = Some a \<longrightarrow> a \<in> dead" "dead = {} \<Longrightarrow> d = None"
    using select_dead_node_spec [OF ok fin(3) s2] by simp_all
  show "card live < card dead \<Longrightarrow> d \<noteq> None" using select_dead_node_spec(2) [OF ok fin(3) s2] by fastforce
  note seed = select_seed_node_spec [OF ok fin(4), of "card live" "card dead" s2 sd rng']
  show "\<forall>a. sd = Some a \<longrightarrow> a \<in> seeds" using s3 seed(1) by (auto split: if_splits)
  show "live = {} \<or> card live + card dead \<le> card seeds \<Longrightarrow> seeds \<noteq> {} \<Longrightarrow>
      sd \<noteq> None \<or> (\<exists>a \<in> set ns. a \<in> seeds)"
    using s3 seed(2) by (auto simp: list_ex_iff split: if_splits)
qed

lemma gossip_multiple_spec:
  assumes inv: "server_inv (srv_chitchat srv)" and ok: "rng_ok ops" and g: "gossip_multiple ops env srv = (srv', sent)"
  shows "server_inv (srv_chitchat srv') \<and> cc_config (srv_chitchat srv') = cc_config (srv_chitchat srv)"
    and "sends_expected GossipTick (srv_chitchat srv) sent"
proof -
  let ?cc = "srv_chitchat srv"
  let ?cc1 = "cc_gc_keys_marked_for_deletion (env_now env) (update_self_heartbeat ?cc)"
  obtain peers live dead seeds where c: "gossip_candidates ?cc = (peers, live, dead, seeds)" by (metis prod_cases4)
  obtain ns d sd rng where sel: "select_nodes_for_gossip ops peers live dead seeds (srv_rng srv) = ((ns, d, sd), rng)"
    by (metis prod_cases3 surj_pair)
  have srv': "srv_chitchat srv' = update_nodes_liveness (env_now env) ?cc1"
    and sent: "set sent \<subseteq> {(a, create_syn_message env ?cc1) |a. a \<in> set ns \<or> d = Some a \<or> sd = Some a}"
    using g by (auto simp: gossip_multiple_defs c sel gossip_def Let_def split: option.splits)
  have "cc_sendable (update_self_heartbeat ?cc)"
    using inv by (simp add: server_inv_def update_self_heartbeat_sendable)
  note sendable = update_nodes_liveness_sendable [OF cc_gc_sendable(1) [OF this]]
    cc_gc_sendable(2) [OF this]
  with srv' inv show "server_inv (srv_chitchat srv') \<and> cc_config (srv_chitchat srv') = cc_config ?cc"
    by (auto intro: server_invI)
  note spec = select_nodes_spec [OF ok gossip_candidates_finite [OF inv c] sel]
  have "own_syn ?cc (create_syn_message env ?cc1)"
    using sendable by (simp add: own_syn_def create_syn_message_def)
  moreover have "a \<in> peers \<union> live \<union> dead \<union> seeds" if "a \<in> set ns \<or> d = Some a \<or> sd = Some a" for a
    using that spec(1,2,5) by (auto split: if_splits)
  ultimately show "sends_expected GossipTick ?cc sent" using sent by (auto simp: c)
qed

lemma server_turn_spec:
  assumes inv: "server_inv (srv_chitchat srv)" and ok: "rng_ok ops" "env_ok env" and e: "event_acceptable e"
  shows "\<exists>r srv' sent fx. server_turn ops env e srv = Inr (r, srv', sent, fx) \<and> server_inv (srv_chitchat srv')
    \<and> cc_config (srv_chitchat srv') = cc_config (srv_chitchat srv)
    \<and> (r = StillRunning \<longleftrightarrow> \<not> stops e) \<and> sends_expected e (srv_chitchat srv) sent"
proof (cases e)
  case (Received m)
  show ?thesis
  proof (cases m)
    case (Inl err)
    with Received inv show ?thesis by simp
  next
    case (Inr am)
    obtain a msg where am: "am = (a, msg)" by fastforce
    have "cc_sendable (srv_chitchat srv)" "id_wf (self_chitchat_id (srv_chitchat srv))"
      using inv by (simp_all add: server_inv_def)
    moreover have "message_acceptable msg" using e Received Inr am by simp
    ultimately obtain cc reply fx where p: "process_message env msg (srv_chitchat srv) = Inr (cc, reply, fx)"
        "cc_sendable cc" "cc_config cc = cc_config (srv_chitchat srv)"
        "reply_expected (cfg_cluster_id (cc_config (srv_chitchat srv))) msg reply"
      using process_message_ok_aux [OF ok(2), of "srv_chitchat srv" msg] by blast
    have "server_inv cc" by (rule server_invI [OF p(2,3) process_message_seeds [OF p(1)] inv])
    with Received Inr am p show ?thesis by (auto simp: handle_message_def)
  qed
next
  case GossipTick
  obtain srv' sent where g: "gossip_multiple ops env srv = (srv', sent)" by fastforce
  from GossipTick g gossip_multiple_spec [OF inv ok(1) g] show ?thesis by simp
next
  case (CommandReceived c)
  show ?thesis
  proof (cases c)
    case (Some cmd)
    with CommandReceived inv show ?thesis
      by (cases cmd) (auto simp: gossip_def own_syn_def create_syn_message_def)
  qed (use CommandReceived inv in simp)
qed

lemma server_reachable_inv:
  assumes "rng_ok ops" and "server_reachable ops srv"
  shows "server_inv (srv_chitchat srv)"
  using assms(2)
proof induction
  case (start config kvs seeds cc rng)
  then show ?case by (simp add: start_inv)
next
  case (turn srv env e r srv' sent fx)
  with server_turn_spec [OF turn.IH assms(1) turn.hyps(2,3)] show ?case by auto
next
  case (application srv cc)
  with app_step_inv [OF application.hyps(2)] show ?case by simp
qed

text \<open>The events that a list of datagrams gives rise to: those that do not decode are skipped.\<close>

definition datagram_events :: "zstd \<Rightarrow> (Env \<times> SocketAddr \<times> bytes) list \<Rightarrow> (Env \<times> event) list" where
  "datagram_events zd ds = List.map_filter (\<lambda>(env, d). map_option (\<lambda>m. (env, Received (Inr m))) (receive_one zd d)) ds"

fun event_deliverable_message :: "event \<Rightarrow> bool" where
  "event_deliverable_message (Received (Inr (_, m))) \<longleftrightarrow> message_deliverable m"
| "event_deliverable_message _ \<longleftrightarrow> True"

lemma receive_one_typed: "receive_one zd d = Some (a, m) \<Longrightarrow> message_typed m"
  using yieldsD [OF message_deserialize_typed, of zd "take MAX_UDP_DATAGRAM_PAYLOAD_SIZE (snd d)" m]
  by (auto simp: receive_one_def split: sum.splits)

lemma server_run_datagrams:
  assumes "rng_ok ops" and "server_reachable ops srv" and "\<forall>(env, _) \<in> set ds. env_ok env"
    and "\<forall>(env, e) \<in> set (datagram_events zd ds). event_deliverable_message e"
  shows "\<exists>srv' sent fx. server_run ops (datagram_events zd ds) srv = Inr (StillRunning, srv', sent, fx)
    \<and> server_reachable ops srv'"
  using assms(2-)
proof (induction ds arbitrary: srv)
  case Nil
  then show ?case by (simp add: datagram_events_def map_filter_simps)
next
  case (Cons x ds)
  obtain env d where x: "x = (env, d)" by (cases x)
  show ?case
  proof (cases "receive_one zd d")
    case None
    with Cons x show ?thesis by (simp add: datagram_events_def map_filter_simps)
  next
    case (Some am)
    obtain a m where am: "am = (a, m)" by fastforce
    let ?e = "Received (Inr (a, m))"
    have events: "datagram_events zd (x # ds) = (env, ?e) # datagram_events zd ds"
      by (simp add: datagram_events_def map_filter_simps x Some am)
    have e: "event_acceptable ?e" and env: "env_ok env"
      using receive_one_typed [of zd d a m] Some am Cons.prems(2,3) events by (simp_all add: message_acceptable_def x)
    obtain r srv1 sent fx where t: "server_turn ops env ?e srv = Inr (r, srv1, sent, fx)" "r = StillRunning"
      using server_turn_spec [OF server_reachable_inv [OF assms(1) Cons.prems(1)] assms(1) env e] by auto
    from Cons.IH [OF server_reachable.turn [OF Cons.prems(1) env e t(1)]] Cons.prems(2,3) events
    obtain srv' sent' fx' where "server_run ops (datagram_events zd ds) srv1 = Inr (StillRunning, srv', sent', fx')"
      "server_reachable ops srv'" by auto
    with t events show ?thesis by simp
  qed
qed

section \<open>Properties\<close>

text \<open>
  C15. A server never panics and never stops by itself: in every state it can reach from its start, by
  any interleaving of its turns with writes, deletions and subscriptions of the application, any
  message of a well-formed peer, tick or command is handled, leaves a reachable state with a
  well-formed instance, stops the loop exactly on a broken transport or a shutdown, and sends only
  what is prescribed: the reply to the sender, or Syn messages of its cluster to known addresses.
\<close>

theorem server_turn_safe:
  assumes "rng_ok ops" and "server_reachable ops srv" and "env_ok env" and "event_acceptable e"
  shows "\<exists>r srv' sent fx. server_turn ops env e srv = Inr (r, srv', sent, fx)
    \<and> server_reachable ops srv' \<and> cc_wf (srv_chitchat srv')
    \<and> (r = StillRunning \<longleftrightarrow> \<not> stops e) \<and> sends_expected e (srv_chitchat srv) sent"
proof -
  obtain r srv' sent fx where t: "server_turn ops env e srv = Inr (r, srv', sent, fx)"
      "server_inv (srv_chitchat srv')" "r = StillRunning \<longleftrightarrow> \<not> stops e"
      "sends_expected e (srv_chitchat srv) sent"
    using server_turn_spec [OF server_reachable_inv [OF assms(1,2)] assms(1,3,4)] by blast
  moreover have "server_reachable ops srv'" by (rule server_reachable.turn [OF assms(2-4) t(1)])
  ultimately show ?thesis by (auto simp: server_inv_def cc_sendable_def)
qed

text \<open>A generator that always picks the smallest elements.\<close>

definition demo_rng :: "unit rng_ops" where
  "demo_rng = \<lparr>rng_gen = (\<lambda>s. (1 / 2, s)),
     rng_choose = (\<lambda>A s. (case sorted_list_of_set A of [] \<Rightarrow> None | a # _ \<Rightarrow> Some a, s)),
     rng_choose_multiple = (\<lambda>A n s. (take n (sorted_list_of_set A), s))\<rparr>"

lemma demo_rng_ok: "rng_ok demo_rng"
proof -
  have "case (case sorted_list_of_set A of [] \<Rightarrow> None | a # _ \<Rightarrow> Some a) of None \<Rightarrow> A = {} | Some a \<Rightarrow> a \<in> A"
    if "finite A" for A :: "SocketAddr set"
    using set_sorted_list_of_set [OF that] by (cases "sorted_list_of_set A") (auto simp: that)
  moreover have "distinct (take n (sorted_list_of_set A)) \<and> set (take n (sorted_list_of_set A)) \<subseteq> A
      \<and> length (take n (sorted_list_of_set A)) = min n (card A)" if "finite A" for A :: "SocketAddr set" and n
    using that set_take_subset [of n "sorted_list_of_set A"] by (simp add: min.commute)
  ultimately show ?thesis by (simp add: rng_ok_def demo_rng_def Let_def)
qed

lemma demo_server_reachable: "server_reachable demo_rng \<lparr>srv_chitchat = demo_chitchat, srv_rng = ()\<rparr>"
proof (rule server_reachable.start [OF _ _ demo_chitchat_created])
  show "config_ok demo_config []"
    using demo_config_window demo_chitchat_id(3) by (simp add: config_ok_def)
qed simp

theorem server_turn_safe_witness:
  "\<exists>srv' g d fx. server_turn demo_rng demo_env (Received (Inr (SocketAddrV4 [127, 0, 0, 1] 9, Syn ''c'' \<lparr>node_digests = []\<rparr>)))
       \<lparr>srv_chitchat = demo_chitchat, srv_rng = ()\<rparr>
     = Inr (StillRunning, srv', [(SocketAddrV4 [127, 0, 0, 1] 9, SynAck g d)], fx)"
proof -
  let ?e = "Received (Inr (SocketAddrV4 [127, 0, 0, 1] 9, Syn ''c'' \<lparr>node_digests = []\<rparr>))"
  have "event_acceptable ?e"
    by (simp add: message_acceptable_def wire_string_ascii digest_wf_def len_digest_def)
  from server_turn_safe [OF demo_rng_ok demo_server_reachable demo_env_ok this]
  show ?thesis by (fastforce simp: demo_chitchat_id demo_config_def)
qed

text \<open>
  C34. The nodes picked for a round: up to three distinct live nodes, or known peers while no node is
  live; a dead node only if there is one, and surely when the dead outnumber the live; a seed node only
  from the seeds, and surely one of the picked nodes is a seed when no node is live or the seeds are as
  many as the other nodes.
\<close>

theorem select_nodes_correct:
  assumes "rng_ok ops" and "finite peers" and "finite live" and "finite dead" and "finite seeds"
    and "select_nodes_for_gossip ops peers live dead seeds rng = ((picked, dead_node, seed_node), rng')"
    and "pool = (if live = {} then peers else live)"
  shows "distinct picked \<and> set picked \<subseteq> pool \<and> length picked = min 3 (card pool)
    \<and> set_option dead_node \<subseteq> dead \<and> set_option seed_node \<subseteq> seeds
    \<and> (card live < card dead \<longrightarrow> dead_node \<noteq> None)
    \<and> ((live = {} \<or> card live + card dead \<le> card seeds) \<and> seeds \<noteq> {} \<longrightarrow>
         (set_option seed_node \<union> set picked) \<inter> seeds \<noteq> {})"
  using select_nodes_spec [OF assms(1-6)] unfolding assms(7) by (cases seed_node; cases dead_node) auto

theorem select_nodes_correct_witness:
  "\<exists>picked. fst (select_nodes_for_gossip demo_rng {SocketAddrV4 [10, 0, 0, 1] 1} {} {} {SocketAddrV4 [10, 0, 0, 2] 1} ())
     = (picked, None, Some (SocketAddrV4 [10, 0, 0, 2] 1)) \<and> length picked = 1"
proof -
  let ?p = "SocketAddrV4 [10, 0, 0, 1] 1" and ?s = "SocketAddrV4 [10, 0, 0, 2] 1"
  obtain picked d sd rng' where sel: "select_nodes_for_gossip demo_rng {?p} {} {} {?s} () = ((picked, d, sd), rng')"
    by (metis prod_cases3 surj_pair)
  have "set picked \<subseteq> {?p}" "length picked = 1" "set_option d \<subseteq> {}" "set_option sd \<subseteq> {?s}"
    "(set_option sd \<union> set picked) \<inter> {?s} \<noteq> {}"
    using select_nodes_correct [OF demo_rng_ok _ _ _ _ sel refl] by simp_all
  then have "d = None" "sd = Some ?s" "length picked = 1" by (cases d; cases sd; auto)+
  with sel show ?thesis by simp
qed

text \<open>
  C16. A server survives any datagrams: whatever bytes arrive, those that do not decode are skipped,
  and each that decodes is handled without a panic, leaving the loop running in a reachable state,
  as long as no key in a delta starts with a character of more than one byte (C39) and no Syn has a
  digest of more than 65406 bytes (C40).
\<close>

theorem server_survives_datagrams:
  assumes "rng_ok ops" and "server_reachable ops srv" and "\<forall>(env, _) \<in> set ds. env_ok env"
    and "\<forall>(env, e) \<in> set (datagram_events zd ds). event_deliverable_message e"
  shows "\<exists>srv' sent fx. server_run ops (datagram_events zd ds) srv = Inr (StillRunning, srv', sent, fx)
    \<and> server_reachable ops srv'"
  by (rule server_run_datagrams [OF assms])

definition demo_datagrams :: "(Env \<times> SocketAddr \<times> bytes) list" where
  "demo_datagrams = [(demo_env, SocketAddrV4 [10, 0, 0, 1] 1, [1, 2, 3]),
     (demo_env, SocketAddrV4 [10, 0, 0, 2] 1, message_header @ [3])]"

theorem server_survives_datagrams_witness:
  "length (datagram_events zstd_never demo_datagrams) = 1
   \<and> (\<exists>srv' sent fx. server_run demo_rng (datagram_events zstd_never demo_datagrams)
         \<lparr>srv_chitchat = demo_chitchat, srv_rng = ()\<rparr> = Inr (StillRunning, srv', sent, fx))"
proof -
  have junk: "receive_one zstd_never (SocketAddrV4 [10, 0, 0, 1] 1, [1, 2, 3]) = None"
  proof -
    have "from_le_bytes [1, 2] \<noteq> MAGIC_NUMBER" by code_simp
    then show ?thesis
      by (simp add: receive_one_def message_deserialize_def MAX_UDP_DATAGRAM_PAYLOAD_SIZE_def)
  qed
  have "receive_one zstd_never (a, message_header @ [3]) = Some (a, BadCluster)" for a
    using message_deserialize_header [of zstd_never TypeBadCluster "[]"]
    by (simp add: receive_one_def MAX_UDP_DATAGRAM_PAYLOAD_SIZE_def)
  then have events: "datagram_events zstd_never demo_datagrams
      = [(demo_env, Received (Inr (SocketAddrV4 [10, 0, 0, 2] 1, BadCluster)))]"
    by (simp add: datagram_events_def demo_datagrams_def map_filter_simps junk)
  have "\<forall>(env, _) \<in> set demo_datagrams. env_ok env" by (simp add: demo_datagrams_def demo_env_ok)
  from server_survives_datagrams [OF demo_rng_ok demo_server_reachable this, of zstd_never] events
  show ?thesis by auto
qed

end
