(* ===== verification/Transition_System.thy ===== *)
theory Transition_System
  imports Prelude
begin

text \<open>
  Reachable states, invariants and refinement maps, for the transition systems of the development:
  the gossip of one node's state, and a cluster of servers; and rounds that reach a goal because a
  measure decreases.
\<close>

inductive reachable :: "('s \<Rightarrow> bool) \<Rightarrow> ('s \<Rightarrow> 's \<Rightarrow> bool) \<Rightarrow> 's \<Rightarrow> bool" for init step where
  initial: "init s \<Longrightarrow> reachable init step s"
| then_step: "reachable init step s \<Longrightarrow> step s s' \<Longrightarrow> reachable init step s'"

lemma reachable_steps: "step\<^sup>*\<^sup>* s s' \<Longrightarrow> reachable init step s \<Longrightarrow> reachable init step s'"
  by (induction rule: rtranclp_induct) (blast intro: reachable.then_step)+

lemma reachable_mono:
  "reachable init step s \<Longrightarrow> (\<And>s s'. step s s' \<Longrightarrow> step' s s') \<Longrightarrow> reachable init step' s"
  by (induction rule: reachable.induct) (blast intro: reachable.intros)+

locale transition_invariant =
  fixes init :: "'s \<Rightarrow> bool" and step :: "'s \<Rightarrow> 's \<Rightarrow> bool" and inv :: "'s \<Rightarrow> bool"
  assumes initially: "init s \<Longrightarrow> inv s"
    and preserved: "inv s \<Longrightarrow> step s s' \<Longrightarrow> inv s'"
begin

lemma invariant: "reachable init step s \<Longrightarrow> inv s"
  by (induction rule: reachable.induct) (blast intro: initially preserved)+

lemma invariant_steps: "step\<^sup>*\<^sup>* s s' \<Longrightarrow> inv s \<Longrightarrow> inv s'"
  by (induction rule: rtranclp_induct) (blast intro: preserved)+

end

text \<open>A concrete system whose states map to states of an abstract one, each of its steps to a sequence
  of abstract steps. What is known of the reachable abstract states holds of the images.\<close>

locale refinement_map = transition_invariant init step inv
  for init :: "'s \<Rightarrow> bool" and step :: "'s \<Rightarrow> 's \<Rightarrow> bool" and inv :: "'s \<Rightarrow> bool" +
  fixes abs_init :: "'a \<Rightarrow> bool" and abs_step :: "'a \<Rightarrow> 'a \<Rightarrow> bool" and abst :: "'s \<Rightarrow> 'a"
  assumes maps_initial: "init s \<Longrightarrow> abs_init (abst s)"
    and maps_step: "inv s \<Longrightarrow> step s s' \<Longrightarrow> abs_step\<^sup>*\<^sup>* (abst s) (abst s')"
begin

lemma refines: "reachable init step s \<Longrightarrow> reachable abs_init abs_step (abst s)"
proof (induction rule: reachable.induct)
  case (initial s)
  then show ?case by (intro reachable.initial maps_initial)
next
  case (then_step s s')
  from invariant [OF then_step.hyps(1)] then_step.hyps(2) then_step.IH show ?case
    by (blast intro: reachable_steps maps_step)
qed

end

text \<open>Rounds that may fail, one after the other, each with its own input.\<close>

fun rounds :: "('e \<Rightarrow> 's \<Rightarrow> 'err + 's) \<Rightarrow> 'e list \<Rightarrow> 's \<Rightarrow> 'err + 's" where
  "rounds f [] s = Inr s"
| "rounds f (e # es) s = result_bind (f e s) (rounds f es)"

text \<open>No round fails, the goal is stable, and a round short of the goal makes the state smaller: as
  many rounds as the size of the state reach the goal.\<close>

locale measured_rounds =
  fixes round_of :: "'e \<Rightarrow> 's \<Rightarrow> 'err + 's" and ok :: "'e \<Rightarrow> bool" and inv :: "'s \<Rightarrow> bool"
    and goal :: "'s \<Rightarrow> bool" and size_of :: "'s \<Rightarrow> nat"
  assumes goes_on: "inv s \<Longrightarrow> ok e \<Longrightarrow> \<exists>s'. round_of e s = Inr s' \<and> inv s' \<and> (goal s \<longrightarrow> goal s')
      \<and> (goal s \<or> size_of s' < size_of s)"
    and done_at_0: "inv s \<Longrightarrow> size_of s = 0 \<Longrightarrow> goal s"
begin

lemma keeps_going:
  assumes "inv s" and "\<forall>e \<in> set es. ok e"
  shows "\<exists>s'. rounds round_of es s = Inr s' \<and> inv s' \<and> (goal s \<longrightarrow> goal s') \<and> (goal s' \<or> size_of s' + length es \<le> size_of s)"
  using assms
proof (induction es arbitrary: s)
  case (Cons e es)
  obtain s1 where s1: "round_of e s = Inr s1" "inv s1" "goal s \<longrightarrow> goal s1" "goal s \<or> size_of s1 < size_of s"
    using goes_on [OF Cons.prems(1), of e] Cons.prems(2) by auto
  obtain s' where "rounds round_of es s1 = Inr s'" "inv s'" "goal s1 \<longrightarrow> goal s'" "goal s' \<or> size_of s' + length es \<le> size_of s1"
    using Cons.IH [OF s1(2)] Cons.prems(2) by auto
  with s1 show ?case by auto
qed simp

lemma arrives:
  assumes "inv s" and "\<forall>e \<in> set es. ok e" and "size_of s \<le> length es"
  shows "\<exists>s'. rounds round_of es s = Inr s' \<and> inv s' \<and> goal s'"
proof -
  obtain s' where s': "rounds round_of es s = Inr s'" "inv s'" "goal s' \<or> size_of s' + length es \<le> size_of s"
    using keeps_going [OF assms(1,2)] by blast
  with assms(3) done_at_0 [OF s'(2)] show ?thesis by auto
qed

end

end
