(* ===== verification/Replication.thy ===== *)
theory Replication
  imports Cluster_State Transition_System
begin

text \<open>
  What the gossip of one node's state promises. The history of the owner is a log of mutations with
  increasing versions. Every replica, and every delta in flight, is related to that log by an
  invariant, which the writes of the owner, the garbage collection of any node and the exchange of
  deltas preserve; a replica that has caught up shows the values of the log. The interpretation of
  \<^verbatim>\<open>max_version\<close> and \<^verbatim>\<open>last_gc_version\<close> that the comment in \<^verbatim>\<open>state.rs\<close> gives is \<open>replica_inv\<close>.
\<close>

section \<open>The log\<close>

type_synonym log = "KeyValueMutation list"

definition log_wf :: "log \<Rightarrow> bool" where
  "log_wf L \<longleftrightarrow> sorted_wrt (<) (map kvm_version L) \<and> (\<forall>x \<in> set L. 0 < kvm_version x)"

definition log_max :: "log \<Rightarrow> Version" where
  "log_max L = (if L = [] then 0 else kvm_version (last L))"

definition last_of :: "log \<Rightarrow> string \<Rightarrow> KeyValueMutation option" where
  "last_of L k = (let xs = filter (\<lambda>x. kvm_key x = k) L in if xs = [] then None else Some (last xs))"

text \<open>A deletion below the garbage collection version: it need not be remembered.\<close>

definition forgotten :: "Version \<Rightarrow> KeyValueMutation \<Rightarrow> bool" where
  "forgotten g x \<longleftrightarrow> scheduled_for_deletion (kvm_status x) \<and> kvm_version x \<le> g"

lemma log_max_ge: "log_wf L \<Longrightarrow> x \<in> set L \<Longrightarrow> kvm_version x \<le> log_max L"
  using sorted_wrt_last_greatest [of "map kvm_version L" "kvm_version x"]
  by (auto simp: log_wf_def log_max_def last_map)

lemma log_unique:
  assumes "log_wf L" and "x \<in> set L" and "y \<in> set L" and "kvm_version x = kvm_version y"
  shows "x = y"
proof -
  have "inj_on kvm_version (set L)"
    using assms(1) by (simp add: log_wf_def strict_sorted_iff distinct_map)
  with assms(2-4) show ?thesis by (auto dest: inj_onD)
qed

lemma last_of_Some:
  assumes "log_wf L" and "last_of L k = Some x"
  shows "x \<in> set L" "kvm_key x = k" "\<And>y. y \<in> set L \<Longrightarrow> kvm_key y = k \<Longrightarrow> kvm_version y \<le> kvm_version x"
proof -
  let ?F = "filter (\<lambda>x. kvm_key x = k) L"
  have F: "?F \<noteq> []" "x = last ?F" using assms(2) by (auto simp: last_of_def Let_def split: if_splits)
  then have "x \<in> set ?F" using last_in_set by blast
  then show "x \<in> set L" "kvm_key x = k" by auto
  fix y
  assume "y \<in> set L" "kvm_key y = k"
  moreover have "sorted_wrt (<) (map kvm_version ?F)"
    using assms(1) by (intro sorted_wrt_filter_map) (simp add: log_wf_def)
  ultimately have "kvm_version y \<le> last (map kvm_version ?F)"
    by (intro sorted_wrt_last_greatest) auto
  with F show "kvm_version y \<le> kvm_version x" by (simp add: last_map)
qed

lemma last_of_exists: "x \<in> set L \<Longrightarrow> \<exists>y. last_of L (kvm_key x) = Some y"
  by (auto simp: last_of_def Let_def filter_empty_conv)

lemma last_of_snoc: "last_of (L @ [y]) k = (if kvm_key y = k then Some y else last_of L k)"
  by (auto simp: last_of_def Let_def)

lemma log_wf_snoc: "log_wf L \<Longrightarrow> log_max L < kvm_version y \<Longrightarrow> log_wf (L @ [y])"
  using log_max_ge [of L] by (force simp: log_wf_def sorted_wrt_append word_pos_iff)

lemma log_max_snoc [simp]: "log_max (L @ [y]) = kvm_version y"
  by (simp add: log_max_def)

section \<open>Replicas\<close>

text \<open>
  Every entry of a replica is a mutation of the log. A key whose last mutation is at most
  \<^verbatim>\<open>max_version\<close> holds that mutation, or possibly nothing when it is a forgotten deletion. A key
  whose last mutation is a forgotten deletion beyond \<^verbatim>\<open>max_version\<close> is absent.
\<close>

definition holds :: "NodeState \<Rightarrow> KeyValueMutation \<Rightarrow> bool" where
  "holds R x \<longleftrightarrow> (\<exists>vv. get_versioned R (kvm_key x) = Some vv \<and> kv_mutation (kvm_key x, vv) = x)"

definition replica_entries :: "log \<Rightarrow> NodeState \<Rightarrow> bool" where
  "replica_entries L R \<longleftrightarrow> (\<forall>k vv. get_versioned R k = Some vv \<longrightarrow> kv_mutation (k, vv) \<in> set L)"

definition replica_complete :: "log \<Rightarrow> NodeState \<Rightarrow> bool" where
  "replica_complete L R \<longleftrightarrow> (\<forall>k x. last_of L k = Some x \<and> kvm_version x \<le> ns_max_version R \<longrightarrow>
     holds R x \<or> (forgotten (ns_last_gc_version R) x \<and> get_versioned R k = None))"

definition replica_forgets :: "log \<Rightarrow> NodeState \<Rightarrow> bool" where
  "replica_forgets L R \<longleftrightarrow> (\<forall>k x. last_of L k = Some x \<and> ns_max_version R < kvm_version x
     \<and> forgotten (ns_last_gc_version R) x \<longrightarrow> get_versioned R k = None)"

definition replica_inv :: "log \<Rightarrow> NodeState \<Rightarrow> bool" where
  "replica_inv L R \<longleftrightarrow> ns_wf R \<and> ns_last_gc_version R \<le> log_max L \<and> ns_max_version R \<le> log_max L
     \<and> replica_entries L R \<and> replica_complete L R \<and> replica_forgets L R"

lemma replica_invD:
  assumes "replica_inv L R"
  shows "ns_wf R" "ns_last_gc_version R \<le> log_max L" "ns_max_version R \<le> log_max L"
    "\<And>k vv. get_versioned R k = Some vv \<Longrightarrow> kv_mutation (k, vv) \<in> set L"
    "\<And>k x. last_of L k = Some x \<Longrightarrow> kvm_version x \<le> ns_max_version R \<Longrightarrow>
       holds R x \<or> (forgotten (ns_last_gc_version R) x \<and> get_versioned R k = None)"
    "\<And>k x. last_of L k = Some x \<Longrightarrow> ns_max_version R < kvm_version x \<Longrightarrow>
       forgotten (ns_last_gc_version R) x \<Longrightarrow> get_versioned R k = None"
  using assms unfolding replica_inv_def replica_entries_def replica_complete_def replica_forgets_def
  by blast+

lemma replica_inv_intro:
  assumes "ns_wf R" "ns_last_gc_version R \<le> log_max L" "ns_max_version R \<le> log_max L"
    "\<And>k vv. get_versioned R k = Some vv \<Longrightarrow> kv_mutation (k, vv) \<in> set L"
    "\<And>k x. last_of L k = Some x \<Longrightarrow> kvm_version x \<le> ns_max_version R \<Longrightarrow>
       holds R x \<or> (forgotten (ns_last_gc_version R) x \<and> get_versioned R k = None)"
    "\<And>k x. last_of L k = Some x \<Longrightarrow> ns_max_version R < kvm_version x \<Longrightarrow>
       forgotten (ns_last_gc_version R) x \<Longrightarrow> get_versioned R k = None"
  shows "replica_inv L R"
  using assms unfolding replica_inv_def replica_entries_def replica_complete_def replica_forgets_def
  by blast

lemma kv_mutation_simps [simp]:
  "kvm_key (kv_mutation (k, vv)) = k" "kvm_version (kv_mutation (k, vv)) = vv_version vv"
  "kvm_value (kv_mutation (k, vv)) = vv_value vv"
  "kvm_status (kv_mutation (k, vv)) = mutation_of_status (vv_status vv)"
  by (simp_all add: kv_mutation_def)

lemma kv_mutation_entry [simp]: "kv_mutation (kvm_key u, mutation_entry now u) = u"
  by (cases u) (simp add: kv_mutation_def mutation_entry_def)

text \<open>An entry that is not the last mutation of its key has been overwritten beyond \<^verbatim>\<open>max_version\<close>,
  by a mutation the replica may not forget.\<close>

lemma stale_entry:
  assumes wf: "log_wf L" and inv: "replica_inv L R" and vv: "get_versioned R k = Some vv"
    and x: "last_of L k = Some x" and ne: "kv_mutation (k, vv) \<noteq> x"
  shows "ns_max_version R < kvm_version x" "\<not> forgotten (ns_last_gc_version R) x"
proof -
  have "\<not> holds R x"
    using vv ne last_of_Some(2) [OF wf x] by (simp add: holds_def)
  then show less: "ns_max_version R < kvm_version x"
    using replica_invD(5) [OF inv x] vv by (cases "kvm_version x \<le> ns_max_version R") auto
  show "\<not> forgotten (ns_last_gc_version R) x"
    using replica_invD(6) [OF inv x less] vv by auto
qed

lemma replica_inv_new: "log_wf L \<Longrightarrow> replica_inv L (NodeState_new i)"
proof (rule replica_inv_intro)
  fix k x
  assume wf: "log_wf L" and x: "last_of L k = Some x" and le: "kvm_version x \<le> ns_max_version (NodeState_new i)"
  have "0 < kvm_version x" using wf last_of_Some(1) [OF wf x] by (simp add: log_wf_def)
  with le show "holds (NodeState_new i) x
      \<or> (forgotten (ns_last_gc_version (NodeState_new i)) x \<and> get_versioned (NodeState_new i) k = None)"
    by (simp add: NodeState_new_def word_pos_iff)
qed (auto simp: ns_wf_def NodeState_new_def get_versioned_def)

section \<open>Writes of the owner\<close>

text \<open>A write that stores version \<open>log_max L + 1\<close> or more extends the log; a replica does not notice.\<close>

lemma replica_inv_extend:
  assumes wf: "log_wf L" and inv: "replica_inv L R" and less: "log_max L < kvm_version y"
  shows "replica_inv (L @ [y]) R"
proof (rule replica_inv_intro)
  note D = replica_invD [OF inv]
  show "ns_wf R" by (rule D)
  show "ns_last_gc_version R \<le> log_max (L @ [y])" "ns_max_version R \<le> log_max (L @ [y])"
    using D(2,3) less by simp_all
  show "kv_mutation (k, vv) \<in> set (L @ [y])" if "get_versioned R k = Some vv" for k vv
    using D(4) [OF that] by simp
  fix k x
  assume x: "last_of (L @ [y]) k = Some x"
  have new: "x = y \<Longrightarrow> log_max L < kvm_version x" using less by simp
  show "holds R x \<or> (forgotten (ns_last_gc_version R) x \<and> get_versioned R k = None)"
    if "kvm_version x \<le> ns_max_version R"
    using x that D(3) D(5) [of k x] new by (auto simp: last_of_snoc split: if_splits)
  show "get_versioned R k = None" if "ns_max_version R < kvm_version x" "forgotten (ns_last_gc_version R) x"
    using x that D(2) D(6) [of k x] new by (auto simp: last_of_snoc forgotten_def split: if_splits)
qed

text \<open>The owner itself is a replica that is up to date.\<close>

definition owner_inv :: "log \<Rightarrow> NodeState \<Rightarrow> bool" where
  "owner_inv L N \<longleftrightarrow> replica_inv L N \<and> ns_max_version N = log_max L"

lemma owner_put:
  assumes wf: "log_wf L" and inv: "owner_inv L N" and less: "ns_max_version N < vv_version vv"
  shows "owner_inv (L @ [kv_mutation (k, vv)]) (put k vv N)" "log_wf (L @ [kv_mutation (k, vv)])"
proof -
  let ?y = "kv_mutation (k, vv)" and ?N = "put k vv N"
  have N: "replica_inv L N" "ns_max_version N = log_max L" using inv by (simp_all add: owner_inv_def)
  note D = replica_invD [OF N(1)]
  have y: "log_max L < kvm_version ?y" using less N(2) by simp
  show log: "log_wf (L @ [?y])" by (rule log_wf_snoc [OF wf y])
  note gv = get_versioned_put [OF D(1), of k vv]
  have "replica_inv (L @ [?y]) ?N"
  proof (rule replica_inv_intro)
    show "ns_wf ?N" by (rule ns_wf_put [OF D(1) less])
    show "ns_last_gc_version ?N \<le> log_max (L @ [?y])" using D(2) y by simp
    show "ns_max_version ?N \<le> log_max (L @ [?y])" by simp
    show "kv_mutation (k', w) \<in> set (L @ [?y])" if "get_versioned ?N k' = Some w" for k' w
      using that D(4) [of k' w] by (auto simp: gv split: if_splits)
    fix k' x
    assume x: "last_of (L @ [?y]) k' = Some x"
    show "holds ?N x \<or> (forgotten (ns_last_gc_version ?N) x \<and> get_versioned ?N k' = None)"
    proof (cases "k' = k")
      case True
      with x show ?thesis by (auto simp: last_of_snoc holds_def gv)
    next
      case False
      with x have "last_of L k' = Some x" by (auto simp: last_of_snoc split: if_splits)
      moreover from this have "kvm_key x = k'" "kvm_version x \<le> ns_max_version N"
        using last_of_Some(1,2) [OF wf] log_max_ge [OF wf] N(2) by auto
      ultimately show ?thesis using D(5) [of k' x] False by (auto simp: holds_def gv)
    qed
    assume "ns_max_version ?N < kvm_version x"
    with log_max_ge [OF log last_of_Some(1) [OF log x]]
    show "get_versioned ?N k' = None" by simp
  qed
  then show "owner_inv (L @ [?y]) ?N" by (simp add: owner_inv_def)
qed

section \<open>Garbage collection\<close>

lemma replica_inv_gc:
  assumes wf: "log_wf L" and inv: "replica_inv L R"
  shows "replica_inv L (node_gc_keys_marked_for_deletion gp now R)"
proof (rule replica_inv_intro)
  let ?R = "node_gc_keys_marked_for_deletion gp now R"
  note D = replica_invD [OF inv]
  note gv = get_versioned_gc [OF D(1), of gp now]
  have g: "ns_last_gc_version R \<le> ns_last_gc_version ?R" by (rule gc_last_gc_ge [OF D(1)])
  have raised: "ns_last_gc_version ?R = ns_last_gc_version R \<or> ns_last_gc_version ?R \<le> ns_max_version R"
    by (rule gc_last_gc_cases [OF D(1), of gp now]) (auto dest: ns_wf_version [OF D(1)])
  show "ns_wf ?R" using D(1) by (rule ns_wf_gc)
  show "ns_max_version ?R \<le> log_max L" using D(3) by simp
  show "ns_last_gc_version ?R \<le> log_max L" using raised D(2,3) by auto
  show "kv_mutation (k, vv) \<in> set L" if "get_versioned ?R k = Some vv" for k vv
    using that D(4) [of k vv] by (auto simp: gv split: option.splits if_splits)
  fix k x
  assume x: "last_of L k = Some x"
  have key: "kvm_key x = k" by (rule last_of_Some(2) [OF wf x])
  show "holds ?R x \<or> (forgotten (ns_last_gc_version ?R) x \<and> get_versioned ?R k = None)"
    if le: "kvm_version x \<le> ns_max_version ?R"
  proof -
    consider "holds R x" | "forgotten (ns_last_gc_version R) x" "get_versioned R k = None"
      using D(5) [OF x] le by auto
    then show ?thesis
    proof cases
      case 1
      then obtain vv where vv: "get_versioned R k = Some vv" "kv_mutation (k, vv) = x"
        by (auto simp: holds_def key)
      show ?thesis
      proof (cases "past_grace_period gp now vv")
        case True
        then have "forgotten (ns_last_gc_version ?R) x"
          using gc_last_gc_ge(2) [OF D(1) vv(1), of gp now] vv(2)
          by (auto simp: forgotten_def scheduled_iff_time past_grace_period_def split: option.splits)
        with True vv(1) show ?thesis by (simp add: gv)
      next
        case False
        with vv show ?thesis by (simp add: holds_def key gv)
      qed
    next
      case 2
      with g show ?thesis by (auto simp: forgotten_def gv)
    qed
  qed
  show "get_versioned ?R k = None"
    if "ns_max_version ?R < kvm_version x" "forgotten (ns_last_gc_version ?R) x"
    using that raised D(6) [OF x] by (auto simp: gv forgotten_def)
qed

section \<open>Deltas\<close>

text \<open>
  A delta in flight: its mutations are in the log and above \<^verbatim>\<open>from_version_excluded\<close>; up to its own
  max version it misses no last mutation but forgotten deletions; a mutation it carries that is not
  the last of its key has been overwritten beyond that version, and not by a forgotten deletion.
\<close>

definition delta_covers_log :: "log \<Rightarrow> NodeDelta \<Rightarrow> bool" where
  "delta_covers_log L nd \<longleftrightarrow> (\<forall>v k x. delta_max_version nd = Some v \<and> last_of L k = Some x
     \<and> ndl_from_version_excluded nd < kvm_version x \<and> kvm_version x \<le> v
     \<and> \<not> forgotten (ndl_last_gc_version nd) x \<longrightarrow> x \<in> set (ndl_key_values nd))"

definition delta_overwritten :: "log \<Rightarrow> NodeDelta \<Rightarrow> bool" where
  "delta_overwritten L nd \<longleftrightarrow> (\<forall>u x v. u \<in> set (ndl_key_values nd) \<and> last_of L (kvm_key u) = Some x \<and> x \<noteq> u
     \<and> delta_max_version nd = Some v \<longrightarrow> v < kvm_version x \<and> \<not> forgotten (ndl_last_gc_version nd) x)"

definition delta_inv :: "log \<Rightarrow> NodeDelta \<Rightarrow> bool" where
  "delta_inv L nd \<longleftrightarrow> node_delta_ordered nd \<and> ndl_last_gc_version nd \<le> log_max L
     \<and> (\<forall>v. delta_max_version nd = Some v \<longrightarrow> v \<le> log_max L)
     \<and> (ndl_max_version nd = None \<or> ndl_key_values nd = [])
     \<and> set (ndl_key_values nd) \<subseteq> set L
     \<and> (\<forall>u \<in> set (ndl_key_values nd). ndl_from_version_excluded nd < kvm_version u)
     \<and> delta_covers_log L nd \<and> delta_overwritten L nd"

lemma delta_invD:
  assumes "delta_inv L nd"
  shows "node_delta_ordered nd" "ndl_last_gc_version nd \<le> log_max L"
    "\<And>v. delta_max_version nd = Some v \<Longrightarrow> v \<le> log_max L"
    "ndl_max_version nd = None \<or> ndl_key_values nd = []"
    "\<And>u. u \<in> set (ndl_key_values nd) \<Longrightarrow> u \<in> set L"
    "\<And>u. u \<in> set (ndl_key_values nd) \<Longrightarrow> ndl_from_version_excluded nd < kvm_version u"
    "\<And>v k x. delta_max_version nd = Some v \<Longrightarrow> last_of L k = Some x \<Longrightarrow>
       ndl_from_version_excluded nd < kvm_version x \<Longrightarrow> kvm_version x \<le> v \<Longrightarrow>
       \<not> forgotten (ndl_last_gc_version nd) x \<Longrightarrow> x \<in> set (ndl_key_values nd)"
    "\<And>u x v. u \<in> set (ndl_key_values nd) \<Longrightarrow> last_of L (kvm_key u) = Some x \<Longrightarrow> x \<noteq> u \<Longrightarrow>
       delta_max_version nd = Some v \<Longrightarrow> v < kvm_version x \<and> \<not> forgotten (ndl_last_gc_version nd) x"
  using assms unfolding delta_inv_def delta_covers_log_def delta_overwritten_def by blast+

lemma delta_inv_intro:
  assumes "node_delta_ordered nd" "ndl_last_gc_version nd \<le> log_max L"
    "\<And>v. delta_max_version nd = Some v \<Longrightarrow> v \<le> log_max L"
    "ndl_max_version nd = None \<or> ndl_key_values nd = []"
    "\<And>u. u \<in> set (ndl_key_values nd) \<Longrightarrow> u \<in> set L \<and> ndl_from_version_excluded nd < kvm_version u"
    "\<And>v k x. delta_max_version nd = Some v \<Longrightarrow> last_of L k = Some x \<Longrightarrow>
       ndl_from_version_excluded nd < kvm_version x \<Longrightarrow> kvm_version x \<le> v \<Longrightarrow>
       \<not> forgotten (ndl_last_gc_version nd) x \<Longrightarrow> x \<in> set (ndl_key_values nd)"
    "\<And>u x v. u \<in> set (ndl_key_values nd) \<Longrightarrow> last_of L (kvm_key u) = Some x \<Longrightarrow> x \<noteq> u \<Longrightarrow>
       delta_max_version nd = Some v \<Longrightarrow> v < kvm_version x \<and> \<not> forgotten (ndl_last_gc_version nd) x"
  shows "delta_inv L nd"
  using assms unfolding delta_inv_def delta_covers_log_def delta_overwritten_def by blast

lemma delta_max_version_ge:
  assumes "u \<in> set (ndl_key_values nd)"
  obtains v where "delta_max_version nd = Some v" "kvm_version u \<le> v"
proof -
  obtain v where "iter_max (map kvm_version (ndl_key_values nd)) = Some v"
    using assms by (cases "iter_max (map kvm_version (ndl_key_values nd))") auto
  with iter_max_Some [OF this] assms that show thesis by (simp add: delta_max_version_def)
qed

lemma delta_inv_extend:
  assumes wf: "log_wf L" and inv: "delta_inv L nd" and less: "log_max L < kvm_version y"
  shows "delta_inv (L @ [y]) nd"
proof -
  note D = delta_invD [OF inv]
  have "delta_covers_log (L @ [y]) nd"
    unfolding delta_covers_log_def last_of_snoc using D(3,7) less by (auto split: if_splits)
  moreover have "delta_overwritten (L @ [y]) nd"
    unfolding delta_overwritten_def last_of_snoc
    using D(2,3,8) less by (fastforce simp: forgotten_def split: if_splits)
  ultimately show ?thesis using D less by (auto simp: delta_inv_def intro: less_imp_le order_trans)
qed

subsection \<open>The deltas that replicas send\<close>

lemma delta_max_version_covers:
  assumes "node_delta_covers sn nd" and "ns_wf (sn_node_state sn)" and "delta_max_version nd = Some v"
  shows "v \<le> ns_max_version (sn_node_state sn)"
proof (cases "ndl_key_values nd = []")
  case True
  with assms show ?thesis by (auto simp: node_delta_covers_def delta_max_version_def split: option.splits)
next
  case False
  then have "v \<in> set (map kvm_version (ndl_key_values nd))"
    using assms(3) iter_max_Some by (fastforce simp: delta_max_version_def split: option.splits)
  moreover have "set (ndl_key_values nd) \<subseteq> set (sn_mutations sn)"
    using assms(1) set_take_subset [of "length (ndl_key_values nd)" "sn_mutations sn"]
    unfolding node_delta_covers_def by metis
  ultimately obtain u where "u \<in> set (sn_mutations sn)" "v = kvm_version u" by auto
  then obtain k vv where "(k, vv) \<in> set (ns_key_values (sn_node_state sn))" "v = vv_version vv"
    by (auto simp: set_sn_mutations)
  then show ?thesis
    using ns_wf_version [OF assms(2), of k vv] assms(2)
    by (auto simp: get_versioned_def in_set_btm_get)
qed

lemma sorted_prefix_member:
  assumes "sorted_wrt (<) (map f xs)" and "x \<in> set xs" and "y \<in> set (take n xs)" and "f x \<le> (f y :: 'a::linorder)"
  shows "x \<in> set (take n xs)"
proof -
  have "xs = take n xs @ drop n xs" by simp
  then have "sorted_wrt (<) (map f (take n xs) @ map f (drop n xs))"
    using assms(1) by (metis map_append)
  then have "\<forall>z \<in> set (drop n xs). f y < f z" using assms(3) by (auto simp: sorted_wrt_append)
  moreover have "x \<in> set (take n xs) \<or> x \<in> set (drop n xs)"
    using assms(2) by (metis Un_iff append_take_drop_id set_append)
  ultimately show ?thesis using assms(4) by auto
qed

lemma set_sn_mutations_get:
  "ns_wf (sn_node_state sn) \<Longrightarrow> u \<in> set (sn_mutations sn) \<longleftrightarrow>
     (\<exists>vv. get_versioned (sn_node_state sn) (kvm_key u) = Some vv \<and> u = kv_mutation (kvm_key u, vv)
       \<and> sn_from_version_excluded sn < kvm_version u)"
proof -
  assume "ns_wf (sn_node_state sn)"
  then have "u \<in> set (sn_mutations sn) \<longleftrightarrow> (\<exists>k vv. u = kv_mutation (k, vv)
      \<and> get_versioned (sn_node_state sn) k = Some vv \<and> sn_from_version_excluded sn < vv_version vv)"
    by (simp add: set_sn_mutations get_versioned_def in_set_btm_get)
  then show ?thesis by (metis kv_mutation_simps(1,2))
qed

lemma delta_inv_covers:
  assumes wf: "log_wf L" and inv: "replica_inv L (sn_node_state sn)" and cov: "node_delta_covers sn nd"
  shows "delta_inv L nd"
proof -
  let ?R = "sn_node_state sn"
  note D = replica_invD [OF inv]
  have nd: "ndl_from_version_excluded nd = sn_from_version_excluded sn"
    "ndl_last_gc_version nd = ns_last_gc_version ?R"
    "ndl_key_values nd = take (length (ndl_key_values nd)) (sn_mutations sn)"
    "\<And>v. ndl_max_version nd = Some v \<Longrightarrow> sn_mutations sn = [] \<and> v = ns_max_version ?R"
    using cov by (auto simp: node_delta_covers_def)
  have sub: "set (ndl_key_values nd) \<subseteq> set (sn_mutations sn)"
    using nd(3) by (metis set_take_subset)
  note mem = set_sn_mutations_get [OF D(1)]
  have max: "v \<le> ns_max_version ?R" if "delta_max_version nd = Some v" for v
    by (rule delta_max_version_covers [OF cov D(1) that])
  have cover: "x \<in> set (ndl_key_values nd)"
    if x: "delta_max_version nd = Some v" "last_of L k = Some x" "ndl_from_version_excluded nd < kvm_version x"
      "kvm_version x \<le> v" "\<not> forgotten (ndl_last_gc_version nd) x" for v k x
  proof -
    have "holds ?R x" using D(5) [OF x(2)] x(4,5) max [OF x(1)] nd(2) by auto
    then have x_mem: "x \<in> set (sn_mutations sn)" using x(3) nd(1) by (auto simp: holds_def mem)
    then have "ndl_key_values nd \<noteq> []" using nd(4) x(1) by (auto simp: delta_max_version_def)
    then obtain y where "y \<in> set (ndl_key_values nd)" "kvm_version y = v"
      using x(1) iter_max_Some by (fastforce simp: delta_max_version_def split: option.splits)
    with sorted_prefix_member [OF sorted_sn_mutations [OF D(1)] x_mem, of y "length (ndl_key_values nd)"] nd(3) x(4)
    show ?thesis by simp
  qed
  have over: "v < kvm_version x \<and> \<not> forgotten (ndl_last_gc_version nd) x"
    if u: "u \<in> set (ndl_key_values nd)" "last_of L (kvm_key u) = Some x" "x \<noteq> u" "delta_max_version nd = Some v" for u x v
  proof -
    obtain vv where vv: "get_versioned ?R (kvm_key u) = Some vv" "u = kv_mutation (kvm_key u, vv)"
      using u(1) sub mem by blast
    with u(3) have "kv_mutation (kvm_key u, vv) \<noteq> x" by metis
    from stale_entry [OF wf inv vv(1) u(2) this] max [OF u(4)] nd(2) show ?thesis by auto
  qed
  show ?thesis
  proof (rule delta_inv_intro [OF _ _ _ _ _ cover over])
  show "node_delta_ordered nd"
    using sorted_wrt_take [OF sorted_sn_mutations [OF D(1)], of "length (ndl_key_values nd)"] nd(3)
    unfolding node_delta_ordered_def take_map by metis
  show "u \<in> set L \<and> ndl_from_version_excluded nd < kvm_version u" if "u \<in> set (ndl_key_values nd)" for u
  proof -
    from that sub have "u \<in> set (sn_mutations sn)" by blast
    then obtain vv where vv: "get_versioned ?R (kvm_key u) = Some vv" "u = kv_mutation (kvm_key u, vv)"
        "sn_from_version_excluded sn < kvm_version u" unfolding mem by blast
    from D(4) [OF vv(1)] vv(2,3) nd(1) show ?thesis by simp
  qed
  show "ndl_max_version nd = None \<or> ndl_key_values nd = []"
    using nd(3,4) by (cases "ndl_max_version nd") auto
  show "v \<le> log_max L" if "delta_max_version nd = Some v" for v
    using max [OF that] D(3) by simp
  show "ndl_last_gc_version nd \<le> log_max L" using D(2) nd(2) by simp
  qed
qed

subsection \<open>Applying a delta to a replica\<close>

text \<open>The entries after storing a list of fresh mutations.\<close>

lemma put_all_get:
  assumes "ns_wf R" and "sorted_wrt (<) (map kvm_version ms)" and "\<forall>u \<in> set ms. ns_max_version R < kvm_version u"
  shows "\<forall>u \<in> set ms. kvm_key u \<noteq> k \<Longrightarrow> get_versioned (put_all now ms R) k = get_versioned R k"
    and "get_versioned (put_all now ms R) k = Some vv \<Longrightarrow>
      get_versioned R k = Some vv \<or> (\<exists>u \<in> set ms. kvm_key u = k \<and> vv = mutation_entry now u)"
    and "u \<in> set ms \<Longrightarrow> \<exists>w \<in> set ms. kvm_key w = kvm_key u \<and> kvm_version u \<le> kvm_version w
      \<and> get_versioned (put_all now ms R) (kvm_key u) = Some (mutation_entry now w)"
proof -
  let ?F = "\<lambda>k. filter (\<lambda>m. kvm_key m = k) ms"
  have eq: "get_versioned (put_all now ms R) k =
      (if ?F k = [] then get_versioned R k else Some (mutation_entry now (last (?F k))))" for k
    using get_versioned_put_all [OF assms, of now k] by (simp split: list.splits)
  have last: "last (?F k) \<in> set ms \<and> kvm_key (last (?F k)) = k" if "?F k \<noteq> []" for k
    using last_in_set [OF that] by simp
  show "get_versioned (put_all now ms R) k = get_versioned R k" if "\<forall>u \<in> set ms. kvm_key u \<noteq> k"
    using that by (simp add: eq filter_empty_conv)
  show "get_versioned R k = Some vv \<or> (\<exists>u \<in> set ms. kvm_key u = k \<and> vv = mutation_entry now u)"
    if "get_versioned (put_all now ms R) k = Some vv"
    using that last [of k] by (auto simp: eq split: if_splits)
  show "\<exists>w \<in> set ms. kvm_key w = kvm_key u \<and> kvm_version u \<le> kvm_version w
      \<and> get_versioned (put_all now ms R) (kvm_key u) = Some (mutation_entry now w)" if "u \<in> set ms"
  proof -
    have ne: "?F (kvm_key u) \<noteq> []" using that by (auto simp: filter_empty_conv)
    have "kvm_version u \<le> last (map kvm_version (?F (kvm_key u)))"
      using that sorted_wrt_filter_map [OF assms(2)] by (intro sorted_wrt_last_greatest) auto
    with ne last [OF ne] show ?thesis
      by (intro bexI [of _ "last (?F (kvm_key u))"]) (simp_all add: eq last_map)
  qed
qed

lemma put_all_max:
  assumes "sorted_wrt (<) (map kvm_version ms)" and "\<forall>u \<in> set ms. ns_max_version R < kvm_version u"
  shows "ns_max_version R \<le> ns_max_version (put_all now ms R)"
    "u \<in> set ms \<Longrightarrow> kvm_version u \<le> ns_max_version (put_all now ms R)"
    "ns_max_version (put_all now ms R) = ns_max_version R
      \<or> (\<exists>u \<in> set ms. ns_max_version (put_all now ms R) = kvm_version u)"
proof -
  have "kvm_version u \<le> kvm_version (last ms)" if "u \<in> set ms" for u
    using sorted_wrt_last_greatest [OF assms(1), of "kvm_version u"] that
    by (cases "ms = []") (auto simp: last_map)
  then show "u \<in> set ms \<Longrightarrow> kvm_version u \<le> ns_max_version (put_all now ms R)"
    by (auto simp: put_all_max_version)
  show "ns_max_version R \<le> ns_max_version (put_all now ms R)"
    using assms(2) by (auto simp: put_all_max_version less_imp_le)
  show "ns_max_version (put_all now ms R) = ns_max_version R
      \<or> (\<exists>u \<in> set ms. ns_max_version (put_all now ms R) = kvm_version u)"
    by (auto simp: put_all_max_version)
qed

text \<open>
  The step that the two ways of applying a delta share: a base state (the replica itself, or the
  empty state of a reset) on which the new mutations are stored. What has to hold of the base is
  that it is complete below the delta, and has no entry that the delta would wrongly keep.
\<close>

lemma put_all_replica_inv:
  fixes nd now B
  defines "ms \<equiv> filter (mutation_applies (ns_max_version B) (ns_last_gc_version B)) (ndl_key_values nd)"
  assumes wf: "log_wf L" and nd: "delta_inv L nd" and B: "replica_inv L B"
    and low: "ndl_from_version_excluded nd \<le> ns_max_version B"
    and gc: "\<And>x. forgotten (ndl_last_gc_version nd) x \<Longrightarrow> ns_max_version B < kvm_version x \<Longrightarrow>
      kvm_version x \<le> ns_last_gc_version B"
    and zombie: "\<And>w x. w \<in> set (ndl_key_values nd) \<Longrightarrow> last_of L (kvm_key w) = Some x \<Longrightarrow> x \<noteq> w \<Longrightarrow>
      forgotten (ns_last_gc_version B) x \<Longrightarrow> ns_max_version B < kvm_version x \<Longrightarrow>
      kvm_version x \<le> ndl_last_gc_version nd"
  shows "replica_inv L (put_all now ms B)"
proof (rule replica_inv_intro)
  let ?R = "put_all now ms B" and ?g = "ns_last_gc_version B" and ?m = "ns_max_version B"
  note B' = replica_invD [OF B] and D = delta_invD [OF nd]
  have ms: "set ms \<subseteq> set (ndl_key_values nd)" "\<forall>u \<in> set ms. ?m < kvm_version u" "\<forall>u \<in> set ms. \<not> forgotten ?g u"
    by (auto simp: ms_def mutation_applies_def forgotten_def)
  have sorted: "sorted_wrt (<) (map kvm_version ms)"
    using D(1) unfolding ms_def node_delta_ordered_def by (rule sorted_wrt_filter_map)
  note get = put_all_get [OF B'(1) sorted ms(2), where now = now]
  note max = put_all_max [OF sorted ms(2), where now = now]
  have g: "ns_last_gc_version ?R = ?g"
    by (induction ms arbitrary: B) (simp_all add: put_all_def)
  have dmax: "\<exists>v. delta_max_version nd = Some v \<and> kvm_version u \<le> v" if "u \<in> set ms" for u
    using that ms(1) delta_max_version_ge [of u nd] by blast
  show "ns_wf ?R"
    using apply_mutations_ordered [OF B'(1) D(1), of now] by (simp add: ms_def)
  show "ns_last_gc_version ?R \<le> log_max L" using B'(2) g by simp
  show "ns_max_version ?R \<le> log_max L"
    using max(3) B'(3) log_max_ge [OF wf D(5)] ms(1) by auto
  show "kv_mutation (k, vv) \<in> set L" if "get_versioned ?R k = Some vv" for k vv
    using get(2) [OF that] B'(4) D(5) ms(1) by auto
  fix k x
  assume x: "last_of L k = Some x"
  note X = last_of_Some [OF wf x]
  show "holds ?R x \<or> (forgotten (ns_last_gc_version ?R) x \<and> get_versioned ?R k = None)"
    if le: "kvm_version x \<le> ns_max_version ?R"
  proof (cases "kvm_version x \<le> ?m")
    case True
    have "kvm_key u \<noteq> k" if "u \<in> set ms" for u
    proof
      assume "kvm_key u = k"
      with X(3) [of u] that ms(1) D(5) have "kvm_version u \<le> kvm_version x" by blast
      moreover have "?m < kvm_version u" using that ms(2) by blast
      ultimately show False using True by simp
    qed
    then have "get_versioned ?R k = get_versioned B k" by (intro get(1)) blast
    with B'(5) [OF x True] X(2) g show ?thesis by (auto simp: holds_def)
  next
    case False
    then have "ns_max_version ?R \<noteq> ?m" using le by auto
    then obtain u where u1: "u \<in> set ms" "ns_max_version ?R = kvm_version u" using max(3) by blast
    then obtain v where v: "delta_max_version nd = Some v" "kvm_version x \<le> v"
      using dmax [OF u1(1)] le by auto
    have only: "w = x" if w: "w \<in> set (ndl_key_values nd)" "kvm_key w = k" for w
    proof (rule ccontr)
      assume "w \<noteq> x"
      then have "v < kvm_version x" using D(8) [OF w(1) _ _ v(1), of x] w(2) x by blast
      with v(2) show False by simp
    qed
    show ?thesis
    proof (cases "forgotten ?g x")
      case True
      then have "kvm_key w \<noteq> k" if "w \<in> set ms" for w
        using only [of w] that ms(1,3) by blast
      then have "get_versioned ?R k = get_versioned B k" by (intro get(1)) blast
      moreover have "get_versioned B k = None" using B'(6) [OF x _ True] False by simp
      ultimately show ?thesis using True g by simp
    next
      case fg: False
      have "\<not> forgotten (ndl_last_gc_version nd) x"
        using gc [of x] False fg by (meson forgotten_def not_le)
      then have "x \<in> set (ndl_key_values nd)"
        using D(7) [OF v(1) x _ v(2)] low False by simp
      then have "x \<in> set ms" using False fg by (simp add: ms_def mutation_applies_def forgotten_def)
      from get(3) [OF this] obtain w where w: "w \<in> set ms" "kvm_key w = k"
          "get_versioned ?R k = Some (mutation_entry now w)" using X(2) by blast
      have "w = x" using only [of w] w(1,2) ms(1) by blast
      with w(3) X(2) show ?thesis by (auto simp: holds_def)
    qed
  qed
  show "get_versioned ?R k = None"
    if less: "ns_max_version ?R < kvm_version x" and fg: "forgotten (ns_last_gc_version ?R) x"
  proof -
    have b: "?m < kvm_version x" "forgotten ?g x" using less fg g max(1) by auto
    have "kvm_key w \<noteq> k" if w: "w \<in> set ms" for w
    proof
      assume "kvm_key w = k"
      obtain v where v: "delta_max_version nd = Some v" using dmax [OF w] by blast
      have ne: "x \<noteq> w" using max(2) [OF w] less by auto
      have w': "w \<in> set (ndl_key_values nd)" "last_of L (kvm_key w) = Some x"
        using w ms(1) x \<open>kvm_key w = k\<close> by auto
      have "\<not> forgotten (ndl_last_gc_version nd) x" using D(8) [OF w' ne v] by blast
      with zombie [OF w' ne b(2,1)] b(2) show False by (simp add: forgotten_def)
    qed
    then have "get_versioned ?R k = get_versioned B k" by (intro get(1)) blast
    with B'(6) [OF x b] show ?thesis by simp
  qed
qed

text \<open>
  When applying a delta is safe: a reset needs the whole state, and a replica that has forgotten
  deletions it has not reached yet needs a sender that has forgotten them too.
\<close>

definition delta_safe :: "NodeDelta \<Rightarrow> NodeState \<Rightarrow> bool" where
  "delta_safe nd R \<longleftrightarrow>
     (delta_is_reset nd R \<longrightarrow> ndl_from_version_excluded nd = 0)
     \<and> (delta_is_update nd R \<longrightarrow> ns_last_gc_version R \<le> ndl_last_gc_version nd
          \<or> ns_last_gc_version R \<le> ns_max_version R)"

lemma replica_inv_update:
  assumes wf: "log_wf L" and nd: "delta_inv L nd" and R: "replica_inv L R" and up: "delta_is_update nd R"
    and gc: "ns_last_gc_version R \<le> ndl_last_gc_version nd \<or> ns_last_gc_version R \<le> ns_max_version R
      \<or> (\<forall>w \<in> set (ndl_key_values nd). last_of L (kvm_key w) = Some w)"
  shows "replica_inv L (fst (node_apply_delta nd now R))"
proof -
  have "fst (node_apply_delta nd now R) = put_all now
      (filter (mutation_applies (ns_max_version R) (ns_last_gc_version R)) (ndl_key_values nd)) R"
    using up apply_mutations_ordered [OF replica_invD(1) [OF R] delta_invD(1) [OF nd], of now]
    by (simp add: node_apply_delta_eq)
  moreover have "replica_inv L (put_all now
      (filter (mutation_applies (ns_max_version R) (ns_last_gc_version R)) (ndl_key_values nd)) R)"
    using up gc by (intro put_all_replica_inv [OF wf nd R]) (auto simp: delta_is_update_def forgotten_def)
  ultimately show ?thesis by simp
qed

lemma replica_inv_reset_state:
  assumes wf: "log_wf L" and nd: "delta_inv L nd" and f: "ndl_from_version_excluded nd = 0"
  shows "replica_inv L (reset_state nd)"
proof (rule replica_inv_intro)
  note D = delta_invD [OF nd]
  have none: "get_versioned (reset_state nd) k = None" for k
    by (simp add: get_versioned_def reset_state_def)
  show "ns_wf (reset_state nd)" by (rule ns_wf_reset)
  show "ns_last_gc_version (reset_state nd) \<le> log_max L" using D(2) by (simp add: reset_state_def)
  show "ns_max_version (reset_state nd) \<le> log_max L"
    using D(3) by (auto simp: reset_state_def delta_max_version_def split: option.splits)
  show "kv_mutation (k, vv) \<in> set L" if "get_versioned (reset_state nd) k = Some vv" for k vv
    using that none by simp
  show "get_versioned (reset_state nd) k = None" for k by (rule none)
  fix k x
  assume x: "last_of L k = Some x" and le: "kvm_version x \<le> ns_max_version (reset_state nd)"
  have pos: "0 < kvm_version x" using wf last_of_Some(1) [OF wf x] by (simp add: log_wf_def)
  then obtain v where v: "ndl_max_version nd = Some v" "ndl_key_values nd = []" "kvm_version x \<le> v"
    using le by (auto simp: reset_state_def word_pos_iff split: option.splits if_splits)
  then have "delta_max_version nd = Some v" by (simp add: delta_max_version_def)
  then have "forgotten (ndl_last_gc_version nd) x" using D(7) [OF _ x _ v(3)] v(2) pos f by auto
  with none show "holds (reset_state nd) x
      \<or> (forgotten (ns_last_gc_version (reset_state nd)) x \<and> get_versioned (reset_state nd) k = None)"
    by (simp add: reset_state_def)
qed

lemma update_reset_exclusive: "delta_is_reset nd R \<Longrightarrow> \<not> delta_is_update nd R"
  by (auto simp: delta_is_reset_def delta_is_update_def)

lemma replica_inv_reset:
  assumes wf: "log_wf L" and nd: "delta_inv L nd" and R: "delta_is_reset nd R"
    and f: "ndl_from_version_excluded nd = 0"
  shows "replica_inv L (fst (node_apply_delta nd now R))"
proof -
  let ?B = "reset_state nd"
  have B: "replica_inv L ?B" by (rule replica_inv_reset_state [OF wf nd f])
  have "fst (node_apply_delta nd now R) = put_all now
      (filter (mutation_applies (ns_max_version ?B) (ns_last_gc_version ?B)) (ndl_key_values nd)) ?B"
    using R update_reset_exclusive [OF R]
      apply_mutations_ordered [OF replica_invD(1) [OF B] delta_invD(1) [OF nd], of now]
    by (simp add: node_apply_delta_eq)
  moreover have "replica_inv L (put_all now
      (filter (mutation_applies (ns_max_version ?B) (ns_last_gc_version ?B)) (ndl_key_values nd)) ?B)"
    using f by (intro put_all_replica_inv [OF wf nd B]) (auto simp: forgotten_def reset_state_def)
  ultimately show ?thesis by simp
qed

lemma replica_inv_apply:
  assumes "log_wf L" and "delta_inv L nd" and "replica_inv L R" and "delta_safe nd R"
  shows "replica_inv L (fst (node_apply_delta nd now R))"
proof -
  consider "delta_is_update nd R" | "delta_is_reset nd R" | "\<not> delta_is_update nd R" "\<not> delta_is_reset nd R"
    by blast
  then show ?thesis
    using assms replica_inv_update replica_inv_reset
    by cases (auto simp: delta_safe_def node_apply_delta_eq)
qed

section \<open>The gossip of one node's state\<close>

datatype owner_op = WSet string string | WSetTtl string string | WDelete string | WDeleteTtl string

fun write_key :: "owner_op \<Rightarrow> string" where
  "write_key (WSet k v) = k"
| "write_key (WSetTtl k v) = k"
| "write_key (WDelete k) = k"
| "write_key (WDeleteTtl k) = k"

fun owner_write :: "owner_op \<Rightarrow> instant \<Rightarrow> NodeState \<Rightarrow> panic + NodeState" where
  "owner_write (WSet k v) now N = result_bind (node_set k v N) (\<lambda>(N', _). Inr N')"
| "owner_write (WSetTtl k v) now N = Inr (fst (set_with_ttl k v now N))"
| "owner_write (WDelete k) now N = Inr (delete k now N)"
| "owner_write (WDeleteTtl k) now N = Inr (delete_after_ttl k now N)"

text \<open>The mutation that a write adds to the history: none when it changed nothing.\<close>

definition logged :: "string \<Rightarrow> NodeState \<Rightarrow> NodeState \<Rightarrow> log" where
  "logged k N N' = (if ns_max_version N' = ns_max_version N then []
     else case get_versioned N' k of None \<Rightarrow> [] | Some vv \<Rightarrow> [kv_mutation (k, vv)])"

lemma owner_write_cases:
  assumes "ns_wf N" and "ns_max_version N \<noteq> - 1" and "owner_write w now N = Inr N'"
  obtains "N' = N" | vv where "N' = put (write_key w) vv N" "vv_version vv = ns_max_version N + 1"
  using assms(3)
  by (cases w) (auto simp: node_set_eq [OF assms(1,2)] set_with_ttl_eq [OF assms(1,2)] delete_eq delete_after_ttl_eq
      split: if_splits option.splits)

lemma owner_write_inv:
  assumes wf: "log_wf L" and inv: "owner_inv L N" and max: "ns_max_version N \<noteq> - 1"
    and w: "owner_write w now N = Inr N'"
  shows "owner_inv (L @ logged (write_key w) N N') N'" "log_wf (L @ logged (write_key w) N N')"
    "logged (write_key w) N N' = [] \<or> (\<exists>y. logged (write_key w) N N' = [y] \<and> log_max L < kvm_version y)"
proof -
  have N: "ns_wf N" "ns_max_version N = log_max L"
    using inv by (auto simp: owner_inv_def dest: replica_invD)
  have "owner_inv (L @ logged (write_key w) N N') N' \<and> log_wf (L @ logged (write_key w) N N')
    \<and> (logged (write_key w) N N' = [] \<or> (\<exists>y. logged (write_key w) N N' = [y] \<and> log_max L < kvm_version y))"
  proof (cases rule: owner_write_cases [OF N(1) max w])
    case 1
    with inv wf show ?thesis by (simp add: logged_def)
  next
    case (2 vv)
    have less: "ns_max_version N < vv_version vv" using 2(2) word_less_add_one [OF max] by simp
    then have "logged (write_key w) N N' = [kv_mutation (write_key w, vv)]"
      using 2(1) by (auto simp: logged_def get_versioned_put [OF N(1)])
    with owner_put [OF wf inv less, of "write_key w"] 2(1) less N(2) show ?thesis by simp
  qed
  then show "owner_inv (L @ logged (write_key w) N N') N'" "log_wf (L @ logged (write_key w) N N')"
    "logged (write_key w) N N' = [] \<or> (\<exists>y. logged (write_key w) N N' = [y] \<and> log_max L < kvm_version y)"
    by blast+
qed

text \<open>
  The system: the history of the owner, the states the participants hold for it, and the deltas in
  flight, which may be lost, duplicated, delayed and reordered. A participant sends what the code
  computes for any digest, up to any size; its heartbeat for the node changes at any time; it may
  forget the node and start afresh.
\<close>

record 'p gossip_system =
  sys_owner :: 'p
  sys_log :: log
  sys_states :: "'p \<Rightarrow> NodeState"
  sys_deltas :: "NodeDelta set"

definition sys_update :: "'p \<Rightarrow> NodeState \<Rightarrow> 'p gossip_system \<Rightarrow> 'p gossip_system" where
  "sys_update i R s = s\<lparr>sys_states := (sys_states s)(i := R)\<rparr>"

inductive gossip_step :: "'p gossip_system \<Rightarrow> 'p gossip_system \<Rightarrow> bool" where
  owner: "ns_max_version (sys_states s (sys_owner s)) \<noteq> - 1 \<Longrightarrow> owner_write w now (sys_states s (sys_owner s)) = Inr N' \<Longrightarrow>
    gossip_step s ((sys_update (sys_owner s) N' s)\<lparr>sys_log := sys_log s @ logged (write_key w) (sys_states s (sys_owner s)) N'\<rparr>)"
| heartbeat: "gossip_step s (sys_update i ((sys_states s i)\<lparr>ns_heartbeat := h\<rparr>) s)"
| gc: "gossip_step s (sys_update i (node_gc_keys_marked_for_deletion gp now (sys_states s i)) s)"
| forget: "i \<noteq> sys_owner s \<Longrightarrow> gossip_step s (sys_update i (NodeState_new c) s)"
| send: "stale_node_of digest scheduled (c, sys_states s i) = Some sn \<Longrightarrow> node_delta_covers sn nd \<Longrightarrow>
    gossip_step s (s\<lparr>sys_deltas := insert nd (sys_deltas s)\<rparr>)"
| deliver: "nd \<in> sys_deltas s \<Longrightarrow> delta_safe nd (sys_states s i) \<Longrightarrow>
    (i = sys_owner s \<Longrightarrow> \<not> delta_is_reset nd (sys_states s i)) \<Longrightarrow>
    gossip_step s (sys_update i (fst (node_apply_delta nd now (sys_states s i))) s)"

definition gossip_start :: "'p \<Rightarrow> ('p \<Rightarrow> ChitchatId) \<Rightarrow> 'p gossip_system" where
  "gossip_start owner ids = \<lparr>sys_owner = owner, sys_log = [], sys_states = (\<lambda>i. NodeState_new (ids i)), sys_deltas = {}\<rparr>"

definition gossip_init :: "'p gossip_system \<Rightarrow> bool" where
  "gossip_init s \<longleftrightarrow> (\<exists>owner ids. s = gossip_start owner ids)"

abbreviation gossip_reachable :: "'p gossip_system \<Rightarrow> bool" where
  "gossip_reachable \<equiv> reachable gossip_init gossip_step"

definition sys_inv :: "'p gossip_system \<Rightarrow> bool" where
  "sys_inv s \<longleftrightarrow> log_wf (sys_log s) \<and> owner_inv (sys_log s) (sys_states s (sys_owner s))
     \<and> (\<forall>i. replica_inv (sys_log s) (sys_states s i)) \<and> (\<forall>nd \<in> sys_deltas s. delta_inv (sys_log s) nd)"

lemma sys_inv_update:
  assumes "sys_inv s" and "replica_inv (sys_log s) R" and "i = sys_owner s \<Longrightarrow> owner_inv (sys_log s) R"
  shows "sys_inv (sys_update i R s)"
  using assms by (auto simp: sys_inv_def sys_update_def)

lemma owner_inv_gc:
  "log_wf L \<Longrightarrow> owner_inv L N \<Longrightarrow> owner_inv L (node_gc_keys_marked_for_deletion gp now N)"
  by (simp add: owner_inv_def replica_inv_gc)

lemma owner_ignores_update:
  assumes "log_wf L" and "owner_inv L N" and "delta_inv L nd" and "\<not> delta_is_reset nd N"
  shows "fst (node_apply_delta nd now N) = N"
proof -
  have "apply_mutations (ns_max_version N) now (ndl_key_values nd) N = (N, [])"
    using assms log_max_ge [OF assms(1) delta_invD(5) [OF assms(3)]]
    by (intro apply_mutations_skip) (auto simp: owner_inv_def)
  with assms(4) show ?thesis by (simp add: node_apply_delta_eq)
qed

lemma replica_inv_heartbeat [simp]: "replica_inv L (R\<lparr>ns_heartbeat := h\<rparr>) \<longleftrightarrow> replica_inv L R"
  by (simp add: replica_inv_def replica_entries_def replica_complete_def replica_forgets_def holds_def
      get_versioned_def)

lemma sys_inv_step:
  assumes "gossip_step s s'" and inv: "sys_inv s"
  shows "sys_inv s'"
proof -
  have I: "log_wf (sys_log s)" "owner_inv (sys_log s) (sys_states s (sys_owner s))"
    "\<And>i. replica_inv (sys_log s) (sys_states s i)" "\<And>nd. nd \<in> sys_deltas s \<Longrightarrow> delta_inv (sys_log s) nd"
    using inv by (simp_all add: sys_inv_def)
  from assms(1) show ?thesis
  proof cases
    case (owner w now N')
    note W = owner_write_inv [OF I(1,2) owner(2,3)]
    from W(3) I have "(\<forall>i. replica_inv (sys_log s @ logged (write_key w) (sys_states s (sys_owner s)) N') (sys_states s i))
        \<and> (\<forall>nd \<in> sys_deltas s. delta_inv (sys_log s @ logged (write_key w) (sys_states s (sys_owner s)) N') nd)"
      by (auto intro!: replica_inv_extend delta_inv_extend)
    with W(1,2) show ?thesis
      by (auto simp: owner(1) sys_inv_def sys_update_def owner_inv_def)
  next
    case (heartbeat i h)
    show ?thesis
      unfolding heartbeat by (rule sys_inv_update [OF inv]) (use I in \<open>auto simp: replica_inv_heartbeat owner_inv_def\<close>)
  next
    case (gc i gp now)
    show ?thesis
      unfolding gc by (rule sys_inv_update [OF inv]) (use I in \<open>auto intro!: replica_inv_gc owner_inv_gc\<close>)
  next
    case (forget i c)
    show ?thesis
      unfolding forget(1) by (rule sys_inv_update [OF inv]) (use I forget(2) in \<open>auto intro!: replica_inv_new\<close>)
  next
    case (send digest scheduled c i sn nd)
    then have "sn_node_state sn = sys_states s i" by (simp add: stale_node_of_Some)
    then have "delta_inv (sys_log s) nd" using I delta_inv_covers [OF I(1) _ send(3)] by simp
    with send(1) inv show ?thesis by (simp add: sys_inv_def)
  next
    case (deliver nd i now)
    note d = I(4) [OF deliver(2)]
    show ?thesis
      unfolding deliver(1)
      by (rule sys_inv_update [OF inv])
        (use I d deliver(3,4) owner_ignores_update [OF I(1,2) d, of now] in \<open>auto intro!: replica_inv_apply\<close>)
  qed
qed

interpretation gossip: transition_invariant gossip_init gossip_step sys_inv
proof
  fix s :: "'p gossip_system"
  assume "gossip_init s"
  moreover have "log_wf []" by (simp add: log_wf_def)
  ultimately show "sys_inv s"
    using replica_inv_new [of "[]"]
    by (auto simp: gossip_init_def sys_inv_def gossip_start_def owner_inv_def log_max_def NodeState_new_def)
qed (rule sys_inv_step)

section \<open>Convergence\<close>

text \<open>The value the history shows for a key.\<close>

definition visible :: "log \<Rightarrow> string \<Rightarrow> string option" where
  "visible L k = (case last_of L k of None \<Rightarrow> None
     | Some x \<Rightarrow> if kvm_status x = MutDelete then None else Some (kvm_value x))"

text \<open>A replica has caught up when the only last mutations beyond its \<^verbatim>\<open>max_version\<close> are deletions
  it has forgotten.\<close>

definition caught_up :: "log \<Rightarrow> NodeState \<Rightarrow> bool" where
  "caught_up L R \<longleftrightarrow> (\<forall>x \<in> set L. last_of L (kvm_key x) = Some x \<longrightarrow>
     kvm_version x \<le> ns_max_version R \<or> forgotten (ns_last_gc_version R) x)"

text \<open>A value scheduled for deletion and already forgotten: shown by the history, gone from the replica.\<close>

definition expired :: "log \<Rightarrow> NodeState \<Rightarrow> string \<Rightarrow> bool" where
  "expired L R k \<longleftrightarrow> (\<exists>x. last_of L k = Some x \<and> kvm_status x = MutDeleteAfterTtl
     \<and> forgotten (ns_last_gc_version R) x)"

lemma caught_up_at_max: "log_wf L \<Longrightarrow> ns_max_version R = log_max L \<Longrightarrow> caught_up L R"
  by (simp add: caught_up_def log_max_ge)

lemma get_holds: "holds R x \<Longrightarrow> get R (kvm_key x) = (if kvm_status x = MutDelete then None else Some (kvm_value x))"
proof -
  assume "holds R x"
  then obtain vv where vv: "get_versioned R (kvm_key x) = Some vv" "kv_mutation (kvm_key x, vv) = x"
    by (auto simp: holds_def)
  have "kvm_status x = mutation_of_status (vv_status vv)" "kvm_value x = vv_value vv"
    by (subst vv(2) [symmetric], simp)+
  with vv(1) show ?thesis by (simp add: get_def is_deleted_iff)
qed

lemma caught_up_visible:
  assumes wf: "log_wf L" and inv: "replica_inv L R" and up: "caught_up L R"
  shows "get R k = visible L k \<or> (expired L R k \<and> get R k = None)"
proof (cases "last_of L k")
  case None
  have "get_versioned R k = None"
  proof (rule ccontr)
    assume "get_versioned R k \<noteq> None"
    then obtain vv where "kv_mutation (k, vv) \<in> set L" using replica_invD(4) [OF inv] by blast
    from last_of_exists [OF this] None show False by simp
  qed
  with None show ?thesis by (simp add: get_def visible_def)
next
  case (Some x)
  note X = last_of_Some [OF wf Some]
  have "holds R x \<or> (forgotten (ns_last_gc_version R) x \<and> get_versioned R k = None)"
    using replica_invD(5,6) [OF inv Some] up X(1,2) Some unfolding caught_up_def
    by (metis linorder_not_le)
  then show ?thesis
  proof
    assume "holds R x"
    with get_holds [OF this] X(2) Some show ?thesis by (simp add: visible_def)
  next
    assume f: "forgotten (ns_last_gc_version R) x \<and> get_versioned R k = None"
    then have "kvm_status x = MutDelete \<or> kvm_status x = MutDeleteAfterTtl"
      by (cases "kvm_status x") (auto simp: forgotten_def)
    with f Some show ?thesis by (auto simp: get_def visible_def expired_def)
  qed
qed

section \<open>A complete exchange with the owner\<close>

text \<open>The delta for a stale node when the \<^verbatim>\<open>mtu\<close> is not reached, and one exchange: the replica sends
  its digest, the owner answers with the delta it computes, the replica applies it.\<close>

definition full_node_delta :: "StaleNode \<Rightarrow> NodeDelta" where
  "full_node_delta sn = (sn_node_delta sn)\<lparr>ndl_key_values := sn_mutations sn,
     ndl_max_version := (if sn_mutations sn = [] then Some (ns_max_version (sn_node_state sn)) else None)\<rparr>"

definition answer :: "ChitchatId \<Rightarrow> NodeState \<Rightarrow> NodeState \<Rightarrow> NodeDelta option" where
  "answer c N R = map_option full_node_delta
     (stale_node_of \<lparr>node_digests = [(c, node_digest_of R)]\<rparr> {} (c, N))"

definition exchange :: "ChitchatId \<Rightarrow> NodeState \<Rightarrow> instant \<Rightarrow> NodeState \<Rightarrow> NodeState" where
  "exchange c N now R = (case answer c N R of None \<Rightarrow> R | Some nd \<Rightarrow> fst (node_apply_delta nd now R))"

lemma full_node_delta_covers: "node_delta_covers sn (full_node_delta sn)"
  by (simp add: node_delta_covers_def full_node_delta_def sn_node_delta_def)

lemma full_node_delta_simps:
  "ndl_key_values (full_node_delta sn) = sn_mutations sn"
  "ndl_from_version_excluded (full_node_delta sn) = sn_from_version_excluded sn"
  "ndl_last_gc_version (full_node_delta sn) = ns_last_gc_version (sn_node_state sn)"
  "delta_max_version (full_node_delta sn) \<noteq> None"
  by (auto simp: full_node_delta_def sn_node_delta_def delta_max_version_def split: option.splits)

text \<open>The boundary case, in which the replica stands exactly at the \<^verbatim>\<open>last_gc_version\<close> of the owner.\<close>

definition at_gc_boundary :: "NodeState \<Rightarrow> NodeState \<Rightarrow> bool" where
  "at_gc_boundary N R \<longleftrightarrow> ns_max_version R = ns_last_gc_version N
     \<and> ns_last_gc_version R < ns_last_gc_version N"

lemma answer_Some:
  assumes "answer c N R = Some nd"
  obtains sn where "nd = full_node_delta sn" "sn_node_state sn = N" "sn_chitchat_id sn = c"
    "ns_max_version R < ns_max_version N"
    "sn_from_version_excluded sn = (if ns_last_gc_version R < ns_last_gc_version N
       \<and> ns_max_version R < ns_last_gc_version N then 0 else ns_max_version R)"
proof -
  obtain sn where sn: "nd = full_node_delta sn"
      "stale_node_of \<lparr>node_digests = [(c, node_digest_of R)]\<rparr> {} (c, N) = Some sn"
    using assms by (auto simp: answer_def)
  then show thesis
    using that [of sn] by (auto simp: stale_node_of_def node_digest_of_def btm_get_def Let_def split: if_splits)
qed

lemma stored_or_forgotten:
  assumes "ns_wf B" and "node_delta_ordered nd" and "x \<in> set (ndl_key_values nd)"
  shows "kvm_version x \<le> ns_max_version (fst (apply_mutations (ns_max_version B) now (ndl_key_values nd) B))
    \<or> forgotten (ns_last_gc_version B) x"
proof (cases "kvm_version x \<le> ns_max_version B")
  case True
  with apply_mutations_max_version_ge [of B "ns_max_version B" now "ndl_key_values nd"] show ?thesis by auto
next
  case False
  then show ?thesis
    using apply_mutations_max_version [OF assms(3), of "ns_max_version B" B now]
    unfolding forgotten_def by (meson not_le)
qed

text \<open>Outside the boundary case one exchange with the owner brings a replica up to date.\<close>

lemma owner_sends_last:
  assumes wf: "log_wf L" and own: "owner_inv L (sn_node_state sn)" and w: "w \<in> set (sn_mutations sn)"
  shows "last_of L (kvm_key w) = Some w"
proof -
  let ?N = "sn_node_state sn"
  have N: "replica_inv L ?N" "ns_max_version ?N = log_max L" using own by (simp_all add: owner_inv_def)
  obtain vv where vv: "get_versioned ?N (kvm_key w) = Some vv" "w = kv_mutation (kvm_key w, vv)"
    using w set_sn_mutations_get [OF replica_invD(1) [OF N(1)]] by blast
  have "w \<in> set L" using replica_invD(4) [OF N(1) vv(1)] vv(2) by simp
  then obtain x where x: "last_of L (kvm_key w) = Some x" using last_of_exists by blast
  have "x = w"
  proof (rule ccontr)
    assume "x \<noteq> w"
    then have "kv_mutation (kvm_key w, vv) \<noteq> x" using vv(2) by metis
    from stale_entry(1) [OF wf N(1) vv(1) x this] log_max_ge [OF wf last_of_Some(1) [OF wf x]] N(2)
    show False by simp
  qed
  with x show ?thesis by simp
qed

text \<open>Every last mutation is in the owner's full delta, below it, or forgotten.\<close>

lemma owner_delta_complete:
  assumes wf: "log_wf L" and own: "owner_inv L (sn_node_state sn)" and x: "last_of L k = Some x"
  shows "x \<in> set (sn_mutations sn) \<or> kvm_version x \<le> sn_from_version_excluded sn
    \<or> forgotten (ns_last_gc_version (sn_node_state sn)) x"
proof -
  let ?N = "sn_node_state sn"
  have N: "replica_inv L ?N" "ns_max_version ?N = log_max L" using own by (simp_all add: owner_inv_def)
  have "kvm_version x \<le> ns_max_version ?N" using log_max_ge [OF wf last_of_Some(1) [OF wf x]] N(2) by simp
  then have "holds ?N x \<or> forgotten (ns_last_gc_version ?N) x" using replica_invD(5) [OF N(1) x] by blast
  then show ?thesis
    using set_sn_mutations_get [OF replica_invD(1) [OF N(1)], of x] by (auto simp: holds_def not_le)
qed

lemma caught_up_after:
  assumes wf: "log_wf L" and own: "owner_inv L (sn_node_state sn)" and nd: "nd = full_node_delta sn"
    and ord: "node_delta_ordered nd" and B: "ns_wf B"
    and low: "\<And>x. kvm_version x \<le> sn_from_version_excluded sn \<Longrightarrow> x \<in> set L \<Longrightarrow> kvm_version x \<le> ns_max_version B"
    and gc: "\<And>x. forgotten (ns_last_gc_version (sn_node_state sn)) x \<Longrightarrow>
      kvm_version x \<le> ns_max_version B \<or> forgotten (ns_last_gc_version B) x"
  shows "caught_up L (fst (apply_mutations (ns_max_version B) now (ndl_key_values nd) B))"
  unfolding caught_up_def
proof (intro ballI impI)
  fix x
  let ?R = "fst (apply_mutations (ns_max_version B) now (ndl_key_values nd) B)"
  assume xL: "x \<in> set L" and x: "last_of L (kvm_key x) = Some x"
  have ge: "ns_max_version B \<le> ns_max_version ?R" by (rule apply_mutations_max_version_ge)
  consider "x \<in> set (ndl_key_values nd)" | "kvm_version x \<le> ns_max_version B" | "forgotten (ns_last_gc_version B) x"
    using owner_delta_complete [OF wf own x] low [OF _ xL] gc nd by (auto simp: full_node_delta_simps)
  then show "kvm_version x \<le> ns_max_version ?R \<or> forgotten (ns_last_gc_version ?R) x"
    using stored_or_forgotten [OF B ord, of x now] ge by cases auto
qed

lemma exchange_caught_up:
  assumes wf: "log_wf L" and own: "owner_inv L N" and R: "replica_inv L R" and b: "\<not> at_gc_boundary N R"
  shows "replica_inv L (exchange c N now R) \<and> caught_up L (exchange c N now R)"
proof (cases "answer c N R")
  case None
  then have "ns_max_version N \<le> ns_max_version R"
    by (auto simp: answer_def stale_node_of_def node_digest_of_def btm_get_def Let_def split: if_splits)
  then have "ns_max_version R = log_max L"
    using own replica_invD(3) [OF R] by (simp add: owner_inv_def)
  with None R wf show ?thesis by (simp add: exchange_def caught_up_at_max)
next
  case (Some nd)
  then obtain sn where sn: "nd = full_node_delta sn" "sn_node_state sn = N" "sn_chitchat_id sn = c"
    "ns_max_version R < ns_max_version N"
    "sn_from_version_excluded sn = (if ns_last_gc_version R < ns_last_gc_version N
       \<and> ns_max_version R < ns_last_gc_version N then 0 else ns_max_version R)"
    by (rule answer_Some)
  have own': "owner_inv L (sn_node_state sn)" using own sn(2) by simp
  have nd: "delta_inv L nd"
    using delta_inv_covers [OF wf _ full_node_delta_covers, of sn] own' sn(1) by (simp add: owner_inv_def)
  note simps = full_node_delta_simps [of sn, folded sn(1), unfolded sn(2)]
  have ord: "node_delta_ordered nd" by (rule delta_invD(1) [OF nd])
  have pos: "kvm_version x \<noteq> 0" if "x \<in> set L" for x using wf that by (auto simp: log_wf_def)
  show ?thesis
  proof (cases "delta_is_update nd R")
    case True
    then have gc: "ns_last_gc_version N < ns_max_version R \<or> ns_last_gc_version N \<le> ns_last_gc_version R"
      using simps(3) by (simp add: delta_is_update_def)
    then have f: "sn_from_version_excluded sn = ns_max_version R" using sn(5) by auto
    have "replica_inv L (fst (node_apply_delta nd now R))"
      using owner_sends_last [OF wf own'] simps(1) by (intro replica_inv_update [OF wf nd R True]) auto
    moreover have "caught_up L (fst (apply_mutations (ns_max_version R) now (ndl_key_values nd) R))"
      using gc f sn(2) by (intro caught_up_after [OF wf own' sn(1) ord replica_invD(1) [OF R]])
        (auto simp: forgotten_def)
    ultimately show ?thesis using Some True by (simp add: exchange_def node_apply_delta_eq)
  next
    case False
    have le: "ndl_from_version_excluded nd \<le> ns_max_version R" using simps(2) sn(5) by simp
    with False have behind: "ns_max_version R \<le> ns_last_gc_version N" "ns_last_gc_version R < ns_last_gc_version N"
      using simps(3) by (auto simp: delta_is_update_def)
    with b have f: "sn_from_version_excluded sn = 0" using sn(5) by (auto simp: at_gc_boundary_def)
    have reset: "delta_is_reset nd R" using le behind simps(3,4) by (simp add: delta_is_reset_def)
    have "replica_inv L (fst (node_apply_delta nd now R))"
      using f simps(2) by (intro replica_inv_reset [OF wf nd reset]) simp
    moreover have "caught_up L (fst (apply_mutations (ns_max_version (reset_state nd)) now (ndl_key_values nd) (reset_state nd)))"
      using f pos simps(3) sn(2) by (intro caught_up_after [OF wf own' sn(1) ord ns_wf_reset])
        (auto simp: reset_state_def)
    ultimately show ?thesis using Some False reset by (simp add: exchange_def node_apply_delta_eq)
  qed
qed

section \<open>Scenarios\<close>

fun run_writes :: "(owner_op \<times> instant) list \<Rightarrow> NodeState \<Rightarrow> NodeState" where
  "run_writes [] N = N"
| "run_writes ((w, t) # ws) N = (case owner_write w t N of Inl _ \<Rightarrow> N | Inr N' \<Rightarrow> run_writes ws N')"

definition demo_id :: ChitchatId where
  "demo_id = ChitchatId ''node'' 0 (SocketAddrV4 [127, 0, 0, 1] 7280)"

text \<open>
  Two keys are written and one of them is deleted, with version 3; the replica receives everything.
  The owner collects the tombstone, so that its \<^verbatim>\<open>last_gc_version\<close> is 3, and writes a third key.
\<close>

definition boundary_owner :: NodeState where
  "boundary_owner = run_writes [(WSet ''a'' ''1'', 0), (WSet ''b'' ''1'', 0), (WDelete ''b'', 0)]
     (NodeState_new demo_id)"

definition boundary_replica :: NodeState where
  "boundary_replica = exchange demo_id boundary_owner 0 (NodeState_new demo_id)"

definition boundary_owner' :: NodeState where
  "boundary_owner' = run_writes [(WSet ''c'' ''1'', 10)]
     (node_gc_keys_marked_for_deletion 10 10 boundary_owner)"

definition boundary_replica' :: NodeState where
  "boundary_replica' = exchange demo_id boundary_owner' 11 boundary_replica"

text \<open>
  A replica in the middle of a reset: it knows that versions up to 5 may have been collected, but
  has received version 1 only. A participant that lags behind still holds the keys \<^verbatim>\<open>b\<close> and \<^verbatim>\<open>c\<close>,
  which the owner has deleted and collected (versions 4 and 5).
\<close>

definition zombie_lagging :: NodeState where
  "zombie_lagging = run_writes [(WSet ''a'' ''1'', 0), (WSet ''b'' ''1'', 0), (WSet ''c'' ''1'', 0)]
     (NodeState_new demo_id)"

definition zombie_owner :: NodeState where
  "zombie_owner = run_writes [(WSet ''d'' ''1'', 20)] (node_gc_keys_marked_for_deletion 10 10
     (run_writes [(WDelete ''b'', 0), (WDelete ''c'', 0)] zombie_lagging))"

definition zombie_partial :: NodeState where
  "zombie_partial = fst (node_apply_delta \<lparr>ndl_chitchat_id = demo_id, ndl_from_version_excluded = 0,
     ndl_last_gc_version = 5, ndl_key_values = take 1 (ndl_key_values (the (answer demo_id zombie_owner (NodeState_new demo_id)))),
     ndl_max_version = None\<rparr> 20 (NodeState_new demo_id))"

definition zombie_replica :: NodeState where
  "zombie_replica = exchange demo_id zombie_owner 22 (exchange demo_id zombie_lagging 21 zombie_partial)"

text \<open>The owner has collected its last write; a fresh replica has received all that is left.\<close>

definition stuck_owner :: NodeState where
  "stuck_owner = node_gc_keys_marked_for_deletion 10 10 boundary_owner"

definition stuck_replica :: NodeState where
  "stuck_replica = exchange demo_id stuck_owner 11 (NodeState_new demo_id)"

text \<open>A short run of the system: the owner writes, sends its state, participant 1 applies it.\<close>

definition demo_system :: "nat gossip_system" where
  "demo_system =
     (let s0 = gossip_start 0 (\<lambda>_. demo_id);
          N = run_writes [(WSet ''a'' ''1'', 0)] (NodeState_new demo_id);
          s1 = (sys_update 0 N s0)\<lparr>sys_log := logged ''a'' (NodeState_new demo_id) N\<rparr>;
          nd = the (answer demo_id N (NodeState_new demo_id));
          s2 = s1\<lparr>sys_deltas := {nd}\<rparr>
      in sys_update 1 (fst (node_apply_delta nd 0 (NodeState_new demo_id))) s2)"

lemma demo_system_reachable: "gossip_reachable demo_system"
proof -
  let ?new = "NodeState_new demo_id" and ?s0 = "gossip_start (0::nat) (\<lambda>_. demo_id)"
  define N where "N = run_writes [(WSet ''a'' ''1'', 0)] ?new"
  define sn where "sn = the (stale_node_of \<lparr>node_digests = [(demo_id, node_digest_of ?new)]\<rparr> {} (demo_id, N))"
  define nd where "nd = the (answer demo_id N ?new)"
  define s1 where "s1 = (sys_update (sys_owner ?s0) N ?s0)\<lparr>sys_log := sys_log ?s0
    @ logged (write_key (WSet ''a'' ''1'')) (sys_states ?s0 (sys_owner ?s0)) N\<rparr>"
  define s2 where "s2 = s1\<lparr>sys_deltas := insert nd (sys_deltas s1)\<rparr>"
  have written: "owner_write (WSet ''a'' ''1'') 0 ?new = Inr N" unfolding N_def by code_simp
  have stale: "stale_node_of \<lparr>node_digests = [(demo_id, node_digest_of ?new)]\<rparr> {} (demo_id, N) = Some sn"
    unfolding sn_def N_def by code_simp
  then have nd: "nd = full_node_delta sn" by (simp add: nd_def answer_def)
  have update: "delta_safe nd ?new" unfolding nd_def N_def by code_simp
  have start: "gossip_init ?s0" by (auto simp: gossip_init_def)
  have "gossip_step ?s0 s1"
    unfolding s1_def
    by (rule gossip_step.owner [where now = 0])
      (use written in \<open>simp_all add: gossip_start_def NodeState_new_def\<close>)
  moreover have "gossip_step s1 s2"
    unfolding s2_def
    by (rule gossip_step.send [where i = 0 and c = demo_id and scheduled = "{}" and sn = sn])
      (use stale nd full_node_delta_covers in \<open>simp_all add: s1_def sys_update_def gossip_start_def\<close>)
  moreover have "gossip_step s2 (sys_update 1 (fst (node_apply_delta nd 0 (sys_states s2 1))) s2)"
    by (rule gossip_step.deliver) (use update in \<open>simp_all add: s2_def s1_def sys_update_def gossip_start_def\<close>)
  ultimately have "gossip_reachable (sys_update 1 (fst (node_apply_delta nd 0 (sys_states s2 1))) s2)"
    by (blast intro: reachable.intros start)
  moreover have "sys_update 1 (fst (node_apply_delta nd 0 (sys_states s2 1))) s2 = demo_system"
    unfolding demo_system_def Let_def N_def [symmetric] nd_def [symmetric]
    by (simp add: s2_def s1_def gossip_start_def sys_update_def)
  ultimately show ?thesis by simp
qed

section \<open>Properties\<close>



text \<open>
  A participant that has caught up with the history shows, for every key, the value of its last
  write: nothing for a deleted key, and nothing for a value whose time to live has run out.
\<close>

lemma replica_converges:
  assumes "gossip_reachable s" and "caught_up (sys_log s) (sys_states s i)"
  shows "get (sys_states s i) k = visible (sys_log s) k
    \<or> (expired (sys_log s) (sys_states s i) k \<and> get (sys_states s i) k = None)"
  using gossip.invariant [OF assms(1)] caught_up_visible [OF _ _ assms(2), of k] by (simp add: sys_inv_def)

text \<open>
  From every reachable state, one exchange with the owner whose delta is not cut short brings a
  participant up to date: it keeps the invariant and shows the values of the history, unless it
  stands exactly at the owner's \<^verbatim>\<open>last_gc_version\<close> (C37).
\<close>

lemma exchange_with_owner_converges:
  assumes "gossip_reachable s" and "\<not> at_gc_boundary (sys_states s (sys_owner s)) (sys_states s i)"
  shows "replica_inv (sys_log s) (exchange c (sys_states s (sys_owner s)) now (sys_states s i))
    \<and> caught_up (sys_log s) (exchange c (sys_states s (sys_owner s)) now (sys_states s i))
    \<and> (get (exchange c (sys_states s (sys_owner s)) now (sys_states s i)) k = visible (sys_log s) k
       \<or> expired (sys_log s) (exchange c (sys_states s (sys_owner s)) now (sys_states s i)) k)"
  using gossip.invariant [OF assms(1)] assms(2)
    exchange_caught_up [of "sys_log s" "sys_states s (sys_owner s)" "sys_states s i" c now]
    caught_up_visible [of "sys_log s" "exchange c (sys_states s (sys_owner s)) now (sys_states s i)" k]
  by (auto simp: sys_inv_def)


text \<open>
  A delta that a participant computes for the digest of another resets that other only from
  version 0, unless the other's \<^verbatim>\<open>max_version\<close> is exactly the sender's \<^verbatim>\<open>last_gc_version\<close>: the boundary
  of C37 is the only gap.
\<close>

lemma reset_gap_only_at_boundary:
  assumes "answer c N R = Some nd" and "delta_is_reset nd R" and "ndl_from_version_excluded nd \<noteq> 0"
  shows "at_gc_boundary N R"
proof -
  obtain sn where sn: "nd = full_node_delta sn" "sn_node_state sn = N"
    "sn_from_version_excluded sn = (if ns_last_gc_version R < ns_last_gc_version N
       \<and> ns_max_version R < ns_last_gc_version N then 0 else ns_max_version R)"
    using answer_Some [OF assms(1)] by blast
  with assms(2,3) show ?thesis
    by (auto simp: delta_is_reset_def at_gc_boundary_def full_node_delta_simps split: if_splits)
qed


text \<open>
  A replica that was reset to an owner whose last write is collected never learns the owner's
  \<^verbatim>\<open>max_version\<close>: the owner answers with a delta that only sets it, and applying that changes nothing.
\<close>

lemma max_version_never_learnt:
  "ns_max_version stuck_replica < ns_max_version stuck_owner
   \<and> answer demo_id stuck_owner stuck_replica \<noteq> None
   \<and> exchange demo_id stuck_owner now stuck_replica = stuck_replica"
proof -
  have "answer demo_id stuck_owner stuck_replica = Some \<lparr>ndl_chitchat_id = demo_id,
      ndl_from_version_excluded = 1, ndl_last_gc_version = 3, ndl_key_values = [], ndl_max_version = Some 3\<rparr>"
    "prepare_apply_delta \<lparr>ndl_chitchat_id = demo_id,
      ndl_from_version_excluded = 1, ndl_last_gc_version = 3, ndl_key_values = [], ndl_max_version = Some 3\<rparr>
      stuck_replica = (True, stuck_replica)"
    "ns_max_version stuck_replica < ns_max_version stuck_owner"
    by code_simp+
  then show ?thesis by (simp add: exchange_def node_apply_delta_def)
qed

end
