(* ===== verification/Participants.thy ===== *)
theory Participants
  imports Server Replication
begin

text \<open>
  One participant of a cluster, seen from outside: what its handlers do to the state it holds for each
  node (its replica of that node), which identifiers and keys it knows, and what it sends. This is the
  bridge from the handlers of \<^verbatim>\<open>lib.rs\<close> and \<^verbatim>\<open>server.rs\<close> to the gossip of one node's state.
\<close>

section \<open>Replicas\<close>

definition replica :: "Chitchat \<Rightarrow> ChitchatId \<Rightarrow> NodeState" where
  "replica cc i = node_state_mut (cc_cluster_state cc) i"

lemma self_node_state_replica: "self_node_state cc = replica cc (self_chitchat_id cc)"
  by (simp add: self_node_state_def replica_def)

lemma replica_put [simp]:
  "cc_wf cc \<Longrightarrow> replica (cc\<lparr>cc_cluster_state := put_node_state i ns (cc_cluster_state cc)\<rparr>) j
     = (if j = i then ns else replica cc j)"
  by (simp add: replica_def cc_wf_def)

lemma replica_put_self [simp]:
  "cc_wf cc \<Longrightarrow> replica (put_self_node_state ns cc) j = (if j = self_chitchat_id cc then ns else replica cc j)"
  by (simp add: put_self_node_state_def)

lemma replica_detector [simp]: "replica (cc\<lparr>cc_failure_detector := fd\<rparr>) = replica cc"
  by (simp add: replica_def fun_eq_iff)

text \<open>States that differ in the heartbeat only.\<close>

definition beats :: "NodeState \<Rightarrow> NodeState \<Rightarrow> bool" where
  "beats R R' \<longleftrightarrow> (\<exists>h. R' = R\<lparr>ns_heartbeat := h\<rparr>)"

lemma beats_refl [simp, intro]: "beats R R"
  unfolding beats_def by (rule exI [of _ "ns_heartbeat R"]) simp

lemma beats_trans [trans]: "beats R R' \<Longrightarrow> beats R' R'' \<Longrightarrow> beats R R''"
  by (auto simp: beats_def)

lemma beats_ops [simp, intro]: "beats R (inc_heartbeat R)" "beats R (snd (try_set_heartbeat h R))"
  "beats R (R\<lparr>ns_heartbeat := h\<rparr>)"
  by (auto simp: beats_def inc_heartbeat_def try_set_heartbeat_eq)

lemma beats_update_self: "cc_wf cc \<Longrightarrow> beats (replica cc i) (replica (update_self_heartbeat cc) i)"
  by (simp add: update_self_heartbeat_def self_node_state_replica)

lemma beats_report_one:
  assumes "cc_wf cc" and "cc_report_heartbeat i h now cc = Inr cc'"
  shows "beats (replica cc j) (replica cc' j)"
  using assms
  by (auto simp: cc_report_heartbeat_def try_set_heartbeat_eq replica_def [symmetric] Let_def split: if_splits)

lemma beats_report:
  "cc_sendable cc \<Longrightarrow> \<forall>e \<in> set es. id_wf (fst e) \<Longrightarrow> report_heartbeats es now cc = Inr cc' \<Longrightarrow>
   beats (replica cc j) (replica cc' j)"
proof (induction es arbitrary: cc)
  case (Cons e es)
  obtain i nd where e: "e = (i, nd)" by fastforce
  obtain cc1 where cc1: "cc_report_heartbeat i (nd_heartbeat nd) now cc = Inr cc1" "report_heartbeats es now cc1 = Inr cc'"
    using Cons.prems(3) by (auto simp: e)
  have "report_heartbeats [e] now cc = Inr cc1" by (simp add: e cc1(1))
  then have "cc_sendable cc1" using report_heartbeats_ok [OF Cons.prems(1), of "[e]" now] Cons.prems(2) by auto
  with Cons.IH [OF _ _ cc1(2)] Cons.prems beats_report_one [OF _ cc1(1), of j] show ?case
    by (auto simp: cc_sendable_def intro: beats_trans)
qed simp

fun message_deltas :: "ChitchatMessage \<Rightarrow> NodeDelta list" where
  "message_deltas (SynAck g d) = node_deltas d"
| "message_deltas (Ack d) = node_deltas d"
| "message_deltas (Syn c g) = []"
| "message_deltas BadCluster = []"

definition delta_for :: "ChitchatId \<Rightarrow> ChitchatMessage \<Rightarrow> NodeDelta option" where
  "delta_for i m = map_of (map (\<lambda>nd. (ndl_chitchat_id nd, nd)) (message_deltas m)) i"

lemma delta_for_Some: "delta_for i m = Some nd \<Longrightarrow> nd \<in> set (message_deltas m) \<and> ndl_chitchat_id nd = i"
  by (auto simp: delta_for_def dest!: map_of_SomeD)

lemma delta_for_None: "message_deltas m = [] \<Longrightarrow> delta_for i m = None"
  by (simp add: delta_for_def)

lemma replica_process_delta:
  assumes "cc_sendable cc" and "delta_typed d" and "delta_deliverable d" and "process_delta d now cc = Inr (cc', fx)"
  shows "replica cc' i = (case delta_for i (Ack d) of None \<Rightarrow> replica cc i
    | Some nd \<Rightarrow> fst (node_apply_delta nd now (replica cc i)))"
proof -
  have "cc_cluster_state cc' = fst (cluster_apply_delta d now (cc_cluster_state cc))"
    using process_delta_ok [OF assms(1-3), of now] assms(4) by auto
  moreover have "cs_wf (cc_cluster_state cc)" using assms(1) by (simp add: cc_sendable_def cc_wf_def)
  ultimately show ?thesis
    using node_state_mut_apply_node_deltas [of "cc_cluster_state cc" "node_deltas d" now i] assms(2)
    by (simp add: replica_def cluster_apply_delta_def delta_for_def delta_typed_def delta_ordered_def
        split: option.split)
qed

section \<open>What a participant sends\<close>

text \<open>A delta computed from the state of the participant, and a node delta that reports on one of its
  replicas.\<close>

definition computed :: "Env \<Rightarrow> Chitchat \<Rightarrow> Delta \<Rightarrow> bool" where
  "computed env cc d \<longleftrightarrow> (\<exists>digest mtu scheduled. 100 \<le> mtu \<and> mtu \<le> 65535
     \<and> compute_partial_delta_respecting_mtu (env_zstd env) (env_shuffle env) (cc_cluster_state cc) digest mtu scheduled = Inr d)"

lemma computedI:
  "compute_partial_delta_respecting_mtu (env_zstd env) (env_shuffle env) (cc_cluster_state cc) digest mtu scheduled = Inr d
   \<Longrightarrow> 100 \<le> mtu \<Longrightarrow> mtu \<le> 65535 \<Longrightarrow> computed env cc d"
  by (auto simp: computed_def)

definition own_digest :: "Chitchat \<Rightarrow> Digest \<Rightarrow> bool" where
  "own_digest cc g \<longleftrightarrow> (\<exists>scheduled. g = cc_compute_digest scheduled cc)"

lemma own_digestI [simp, intro]: "own_digest cc (cc_compute_digest scheduled cc)"
  by (auto simp: own_digest_def)

fun sent_from :: "Env \<Rightarrow> Chitchat \<Rightarrow> ChitchatMessage \<Rightarrow> bool" where
  "sent_from env cc (Syn c g) \<longleftrightarrow> c = cfg_cluster_id (cc_config cc) \<and> own_digest cc g"
| "sent_from env cc (SynAck g d) \<longleftrightarrow> own_digest cc g \<and> computed env cc d"
| "sent_from env cc (Ack d) \<longleftrightarrow> computed env cc d"
| "sent_from env cc BadCluster \<longleftrightarrow> True"

definition reports_on :: "Chitchat \<Rightarrow> NodeDelta \<Rightarrow> bool" where
  "reports_on cc nd \<longleftrightarrow> ndl_chitchat_id nd \<in> set (nodes (cc_cluster_state cc))
     \<and> (\<exists>digest scheduled sn. node_delta_covers sn nd
       \<and> stale_node_of digest scheduled (ndl_chitchat_id nd, replica cc (ndl_chitchat_id nd)) = Some sn)"

lemma sent_from_syn: "sent_from env cc (create_syn_message env cc)"
  by (simp add: create_syn_message_def)

text \<open>The effect of a message: heartbeats change, then the delta is applied; the reply is computed from
  the new state.\<close>

lemma process_message_effect:
  assumes env: "env_ok env" and cc: "cc_sendable cc" "id_wf (self_chitchat_id cc)"
    and m: "message_acceptable m" and p: "process_message env m cc = Inr (cc', reply, fx)"
  shows "\<exists>R. beats (replica cc i) R
      \<and> replica cc' i = (case delta_for i m of None \<Rightarrow> R | Some nd \<Rightarrow> fst (node_apply_delta nd (env_now env) R))"
    and "reply = Some r \<Longrightarrow> sent_from env cc' r"
proof -
  let ?cc = "update_self_heartbeat cc" and ?now = "env_now env"
  note m = m [unfolded message_acceptable_def]
  have cc0: "cc_sendable ?cc" by (rule update_self_heartbeat_sendable [OF cc])
  have beat0: "beats (replica cc i) (replica ?cc i)" using cc(1) by (simp add: cc_sendable_def beats_update_self)
  have report: "cc_sendable cc1 \<and> beats (replica cc i) (replica cc1 i)"
    if "digest_wf g" "report_heartbeats_in_digest g ?now ?cc = Inr cc1" for g cc1
    using report_heartbeats_ok [OF cc0, of "node_digests g" ?now] beats_report [OF cc0, of "node_digests g" ?now cc1 i]
      that beats_trans [OF beat0] by (auto simp: report_heartbeats_in_digest_def digest_wf_def)
  have "(\<exists>R. beats (replica cc i) R
      \<and> replica cc' i = (case delta_for i m of None \<Rightarrow> R | Some nd \<Rightarrow> fst (node_apply_delta nd ?now R)))
    \<and> (\<forall>r. reply = Some r \<longrightarrow> sent_from env cc' r)"
  proof (cases m)
    case (Syn c g)
    show ?thesis
    proof (cases "c = cfg_cluster_id (cc_config cc)")
      case False
      with Syn p beat0 show ?thesis by (auto simp: process_message_def Let_def delta_for_None)
    next
      case True
      have mtu: "usize_sub (MAX_UDP_DATAGRAM_PAYLOAD_SIZE - 1) (len_digest g) = 65506 - len_digest g"
          "100 \<le> 65506 - len_digest g" "65506 - len_digest g \<le> 65535"
        using m Syn by (auto simp: MAX_UDP_DATAGRAM_PAYLOAD_SIZE_def usize_sub_eq)
      with True Syn p report [of g cc'] m show ?thesis
        by (auto simp: process_message_def Let_def delta_for_None intro: computedI)
    qed
  next
    case (SynAck g d)
    then obtain cc1 fx1 d' scheduled where cc1: "report_heartbeats_in_digest g ?now ?cc = Inr cc1"
        "process_delta d ?now cc1 = Inr (cc', fx1)" "reply = Some (Ack d')"
        "compute_partial_delta_respecting_mtu (env_zstd env) (env_shuffle env) (cc_cluster_state cc') g
           (MAX_UDP_DATAGRAM_PAYLOAD_SIZE - 1) scheduled = Inr d'"
      using p by (auto simp: process_message_def Let_def)
    have "computed env cc' d'"
      using cc1(4) by (intro computedI) (auto simp: MAX_UDP_DATAGRAM_PAYLOAD_SIZE_def)
    with report [OF _ cc1(1)] replica_process_delta [OF _ _ _ cc1(2), of i] cc1(3) m SynAck show ?thesis
      by (auto simp: delta_for_def)
  next
    case (Ack d)
    then have "process_delta d ?now ?cc = Inr (cc', fx)" "reply = None"
      using p by (auto simp: process_message_def Let_def)
    with replica_process_delta [OF cc0 _ _ this(1), of i] beat0 m Ack show ?thesis by auto
  next
    case BadCluster
    with p beat0 show ?thesis by (auto simp: process_message_def Let_def delta_for_None)
  qed
  then show "\<exists>R. beats (replica cc i) R
      \<and> replica cc' i = (case delta_for i m of None \<Rightarrow> R | Some nd \<Rightarrow> fst (node_apply_delta nd (env_now env) R))"
    and "reply = Some r \<Longrightarrow> sent_from env cc' r" by blast+
qed

section \<open>The identifiers and keys a participant knows\<close>

text \<open>
  The participants of a cluster: finitely many, and few enough that a digest of all of them leaves room
  for a delta of at least 100 bytes in a datagram.
\<close>

definition participants_ok :: "ChitchatId set \<Rightarrow> bool" where
  "participants_ok P \<longleftrightarrow> finite P \<and> (\<forall>i \<in> P. id_wf i) \<and> 2 + (\<Sum>i \<in> P. len_id i + 24) \<le> 65406"

text \<open>The keys that the listeners can look at: the first character is one byte.\<close>

definition key_ok :: "string \<Rightarrow> bool" where
  "key_ok k \<longleftrightarrow> k = [] \<or> is_char_boundary k 1"

definition keys_of :: "NodeState \<Rightarrow> string set" where
  "keys_of ns = fst ` set (ns_key_values ns)"

definition confined :: "ChitchatId set \<Rightarrow> Chitchat \<Rightarrow> bool" where
  "confined P cc \<longleftrightarrow> (\<forall>(i, ns) \<in> set (cs_node_states (cc_cluster_state cc)). i \<in> P \<and> (\<forall>k \<in> keys_of ns. key_ok k))"

fun message_confined :: "ChitchatId set \<Rightarrow> ChitchatMessage \<Rightarrow> bool" where
  "message_confined P (Syn c g) \<longleftrightarrow> fst ` set (node_digests g) \<subseteq> P"
| "message_confined P (SynAck g d) \<longleftrightarrow> fst ` set (node_digests g) \<subseteq> P \<and> ndl_chitchat_id ` set (node_deltas d) \<subseteq> P
     \<and> delta_deliverable d"
| "message_confined P (Ack d) \<longleftrightarrow> ndl_chitchat_id ` set (node_deltas d) \<subseteq> P \<and> delta_deliverable d"
| "message_confined P BadCluster \<longleftrightarrow> True"

lemma keys_of_simps [simp]:
  "keys_of (ns\<lparr>ns_heartbeat := h\<rparr>) = keys_of ns" "keys_of (NodeState_new i) = {}"
  "keys_of (inc_heartbeat ns) = keys_of ns" "keys_of (snd (try_set_heartbeat h ns)) = keys_of ns"
  "keys_of (reset_state nd) = {}"
  by (simp_all add: keys_of_def NodeState_new_def inc_heartbeat_def try_set_heartbeat_eq reset_state_def)

lemma keys_of_gc: "keys_of (node_gc_keys_marked_for_deletion gp now ns) \<subseteq> keys_of ns"
  by (auto simp: keys_of_def node_gc_keys_marked_for_deletion_def Let_def btm_retain_def)

lemma keys_insert: "fst ` set (btm_insert k v m) = insert k (fst ` set m)"
  using keys_btm_insert [of k v m] by simp

lemma keys_of_put: "keys_of (put k vv ns) = insert k (keys_of ns)"
  by (simp add: keys_of_def put_def keys_insert)

lemma keys_of_mutations: "keys_of (fst (apply_mutations c now ms ns)) \<subseteq> keys_of ns \<union> kvm_key ` set ms"
proof (induction ms arbitrary: ns)
  case (Cons m ms)
  have "keys_of (fst (set_versioned_value k vv ns)) \<subseteq> insert k (keys_of ns)" for k vv
    by (auto simp: keys_of_def set_versioned_value_def Let_def keys_insert split: option.splits)
  then have "keys_of (fst (apply_mutation c now m ns)) \<subseteq> insert (kvm_key m) (keys_of ns)"
    by (auto simp: apply_mutation_def)
  with Cons [of "fst (apply_mutation c now m ns)"] show ?case
    by (auto simp: apply_mutations_Cons simp del: apply_mutations.simps(2))
qed simp

lemma keys_of_delta: "keys_of (fst (node_apply_delta nd now ns)) \<subseteq> keys_of ns \<union> kvm_key ` set (ndl_key_values nd)"
  using keys_of_mutations [of _ now "ndl_key_values nd" "reset_state nd"]
    keys_of_mutations [of _ now "ndl_key_values nd" ns]
  by (auto simp: node_apply_delta_eq)

lemma confined_put:
  "confined P cc \<Longrightarrow> i \<in> P \<Longrightarrow> \<forall>k \<in> keys_of ns. key_ok k \<Longrightarrow>
   confined P (cc\<lparr>cc_cluster_state := put_node_state i ns (cc_cluster_state cc)\<rparr>)"
  using set_btm_insert_subset [of i ns "cs_node_states (cc_cluster_state cc)"]
  by (fastforce simp: confined_def put_node_state_def)

lemma confined_replica: "confined P cc \<Longrightarrow> k \<in> keys_of (replica cc i) \<Longrightarrow> key_ok k"
  by (fastforce simp: confined_def replica_def node_state_mut_def split: option.splits dest: btm_get_Some_in_set)

lemma confined_known: "confined P cc \<Longrightarrow> set (nodes (cc_cluster_state cc)) \<subseteq> P"
  by (auto simp: confined_def nodes_def btm_keys_def)

lemma confined_detector [simp]: "confined P (cc\<lparr>cc_failure_detector := fd\<rparr>) = confined P cc"
  by (simp add: confined_def)

lemma confined_self: "confined P cc \<Longrightarrow> self_chitchat_id cc \<in> P \<Longrightarrow> confined P (update_self_heartbeat cc)"
  using confined_replica [of P cc _ "self_chitchat_id cc"]
  by (auto simp: update_self_heartbeat_def put_self_node_state_def self_node_state_replica intro!: confined_put)

lemma confined_report:
  "confined P cc \<Longrightarrow> fst ` set es \<subseteq> P \<Longrightarrow> report_heartbeats es now cc = Inr cc' \<Longrightarrow> confined P cc'"
proof (induction es arbitrary: cc)
  case (Cons e es)
  obtain i nd where e: "e = (i, nd)" by fastforce
  obtain cc1 where cc1: "cc_report_heartbeat i (nd_heartbeat nd) now cc = Inr cc1" "report_heartbeats es now cc1 = Inr cc'"
    using Cons.prems(3) by (auto simp: e)
  have "confined P cc1"
    using cc1(1) Cons.prems(1,2) confined_replica [of P cc _ i]
    by (auto simp: cc_report_heartbeat_def try_set_heartbeat_eq replica_def [symmetric] e Let_def
        split: if_splits intro!: confined_put)
  with Cons.IH [OF _ _ cc1(2)] Cons.prems(2) show ?case by simp
qed simp

lemma confined_apply:
  "confined P cc \<Longrightarrow> ndl_chitchat_id ` set nds \<subseteq> P \<Longrightarrow> \<forall>nd \<in> set nds. \<forall>m \<in> set (ndl_key_values nd). key_ok (kvm_key m) \<Longrightarrow>
   confined P (cc\<lparr>cc_cluster_state := fst (apply_node_deltas nds now (cc_cluster_state cc))\<rparr>)"
proof (induction nds arbitrary: cc)
  case (Cons nd nds)
  let ?i = "ndl_chitchat_id nd"
  let ?cc = "cc\<lparr>cc_cluster_state := put_node_state ?i (fst (node_apply_delta nd now (replica cc ?i))) (cc_cluster_state cc)\<rparr>"
  have "confined P ?cc"
    using Cons.prems keys_of_delta [of nd now "replica cc ?i"] confined_replica [OF Cons.prems(1)]
    by (intro confined_put) auto
  with Cons.IH [of ?cc] Cons.prems(2,3) show ?case
    by (simp add: apply_node_deltas_Cons replica_def del: apply_node_deltas.simps(2))
qed simp

lemma confined_process_delta:
  assumes "confined P cc" and "ndl_chitchat_id ` set (node_deltas d) \<subseteq> P" and "delta_deliverable d"
    and "process_delta d now cc = Inr (cc', fx)"
  shows "confined P cc'"
proof -
  obtain cs es where cs: "apply_node_deltas (node_deltas d) now (cc_cluster_state cc) = (cs, es)" by fastforce
  then have "cc' = cc\<lparr>cc_cluster_state := cs\<rparr>"
    using assms(4) by (auto simp: process_delta_def cluster_apply_delta_def Let_def)
  with confined_apply [OF assms(1,2), of now] assms(3) cs show ?thesis
    by (simp add: delta_deliverable_def key_ok_def)
qed

lemma confined_process_message:
  assumes "confined P cc" and "self_chitchat_id cc \<in> P" and "message_confined P m"
    and p: "process_message env m cc = Inr (cc', reply, fx)"
  shows "confined P cc'"
proof -
  let ?cc = "update_self_heartbeat cc" and ?now = "env_now env"
  have cc0: "confined P ?cc" by (rule confined_self [OF assms(1,2)])
  have report: "confined P cc1"
    if "fst ` set (node_digests g) \<subseteq> P" "report_heartbeats_in_digest g ?now ?cc = Inr cc1" for g cc1
    using confined_report [OF cc0 that(1)] that(2) by (simp add: report_heartbeats_in_digest_def)
  show ?thesis
  proof (cases m)
    case (Syn c g)
    with assms(3) p cc0 report [of g cc'] show ?thesis
      by (cases "c = cfg_cluster_id (cc_config cc)") (auto simp: process_message_def Let_def)
  next
    case (SynAck g d)
    then obtain cc1 fx1 where "report_heartbeats_in_digest g ?now ?cc = Inr cc1" "process_delta d ?now cc1 = Inr (cc', fx1)"
      using p by (auto simp: process_message_def Let_def)
    with report [of g cc1] confined_process_delta SynAck assms(3) show ?thesis by auto
  next
    case (Ack d)
    with p assms(3) confined_process_delta [OF cc0, of d] show ?thesis by (auto simp: process_message_def Let_def)
  next
    case BadCluster
    with p cc0 show ?thesis by (auto simp: process_message_def Let_def)
  qed
qed

section \<open>Every message sent can be encoded\<close>

lemma delta_serialize_codable:
  assumes "delta_serialize zc d = Inr bs" and "\<forall>nd \<in> set (node_deltas d). node_delta_codable nd"
  shows "delta_codable d"
proof -
  obtain w where w: "append_items zc ser_op len_op (get_operations d) (with_block_threshold 16384) = Inr w"
    using assms(1) by (auto simp: delta_serialize_def)
  have "\<forall>op \<in> set (get_operations d). len_op op \<le> 65535" by (intro ballI append_items_small [OF w])
  moreover have "\<forall>op \<in> set (get_operations d). op_wf op"
    using assms(2) by (auto simp: get_operations_def node_delta_operations_def node_delta_codable_def split: option.splits)
  ultimately show ?thesis by (simp add: delta_codable_def)
qed

lemma sum_list_participants:
  "participants_ok P \<Longrightarrow> distinct ids \<Longrightarrow> set ids \<subseteq> P \<Longrightarrow> 2 + (\<Sum>i \<leftarrow> ids. len_id i + 24) \<le> 65406"
  using sum_mono2 [of P "set ids" "\<lambda>i. len_id i + 24"]
  by (simp add: participants_ok_def sum_list_distinct_conv_sum_set)

lemma own_digest_ok:
  assumes g: "own_digest cc g" and cc: "cc_sendable cc" "confined P cc" and P: "participants_ok P"
  shows "digest_wf g" "fst ` set (node_digests g) \<subseteq> P" "len_digest g \<le> 65406"
proof -
  let ?es = "cs_node_states (cc_cluster_state cc)"
  obtain scheduled where eq: "node_digests g = map (\<lambda>(i, ns). (i, node_digest_of ns)) (filter (\<lambda>(i, _). i \<notin> scheduled) ?es)"
    using g by (auto simp: own_digest_def cc_compute_digest_def cluster_compute_digest_def)
  have ids: "map fst (node_digests g) = filter (\<lambda>i. i \<notin> scheduled) (map fst ?es)"
    by (simp add: eq filter_map comp_def case_prod_unfold)
  have wf: "sorted_wrt (<) (map fst ?es)"
    using cc(1) by (simp add: cc_sendable_def cc_wf_def cs_wf_def btm_wf_def)
  then have sorted: "sorted_wrt (<) (map fst (node_digests g))" unfolding ids by (rule sorted_wrt_filter)
  show sub: "fst ` set (node_digests g) \<subseteq> P" using cc(2) by (auto simp: eq confined_def)
  have "distinct (map fst (node_digests g))" using sorted by (simp add: strict_sorted_iff)
  from sum_list_participants [OF P this] sub
  have size: "2 + (\<Sum>e \<leftarrow> node_digests g. len_id (fst e) + 24) \<le> 65406" by (simp add: comp_def)
  then show "len_digest g \<le> 65406" by (simp add: len_digest_def len_node_digest_def case_prod_unfold)
  have "length (node_digests g) * 24 \<le> (\<Sum>e \<leftarrow> node_digests g. len_id (fst e) + 24)"
    by (induction "node_digests g" rule: list.induct) (simp_all add: sum_list_addf sum_list_triv)
  with size have "length (node_digests g) < 65536" by linarith
  then show "digest_wf g"
    using sorted sub P by (auto simp: digest_wf_def btm_wf_def participants_ok_def)
qed

text \<open>What a computed delta says of a node comes from the replica of that node.\<close>

lemma computed_stale:
  assumes env: "env_ok env" and cc: "cc_sendable cc" and mtu: "100 \<le> mtu" "mtu \<le> 65535"
    and d: "compute_partial_delta_respecting_mtu (env_zstd env) (env_shuffle env) (cc_cluster_state cc) digest mtu scheduled = Inr d"
    and mem: "nd \<in> set (node_deltas d)"
  obtains sn where "stale_node_of digest scheduled (ndl_chitchat_id nd, replica cc (ndl_chitchat_id nd)) = Some sn"
    "node_delta_covers sn nd" "sn_codable sn"
    "(ndl_chitchat_id nd, replica cc (ndl_chitchat_id nd)) \<in> set (cs_node_states (cc_cluster_state cc))"
proof -
  let ?cs = "cc_cluster_state cc"
  have wf: "cs_wf ?cs" "cs_codable ?cs" using cc by (simp_all add: cc_sendable_def cc_wf_def)
  obtain sns where sns: "mset sns = mset (offered digest scheduled (cs_node_states ?cs))"
      "list_all2 node_delta_covers (take (length (node_deltas d)) sns) (node_deltas d)"
    using compute_partial_delta_aux [OF _ _ wf mtu, of "env_zstd env" "env_shuffle env" digest scheduled] env d
    unfolding env_ok_def by (metis Inr_inject)
  obtain j where j: "j < length (node_deltas d)" "nd = node_deltas d ! j" using mem by (metis in_set_conv_nth)
  let ?sns = "take (length (node_deltas d)) sns"
  have "node_delta_covers (?sns ! j) nd" using list_all2_nthD2 [OF sns(2) j(1)] j(2) by simp
  moreover have "?sns ! j \<in> set sns"
    using j(1) list_all2_lengthD [OF sns(2)] by (intro in_set_takeD [OF nth_mem]) simp
  ultimately obtain sn where sn: "node_delta_covers sn nd" "sn \<in> set (offered digest scheduled (cs_node_states ?cs))"
    using mset_eq_setD [OF sns(1)] by blast
  then obtain i ns where x: "(i, ns) \<in> set (cs_node_states ?cs)" "stale_node_of digest scheduled (i, ns) = Some sn"
    unfolding offered_in_set by (metis surj_pair)
  have "btm_wf (cs_node_states ?cs)" using wf(1) by (simp add: cs_wf_def)
  then have ns: "replica cc i = ns" using x(1) by (simp add: replica_def node_state_mut_def in_set_btm_get)
  have "ndl_chitchat_id nd = i" using sn(1) stale_node_of_Some(1) [OF x(2)] by (simp add: node_delta_covers_def)
  with that x ns sn offered_wf(2) [OF wf sn(2)] show ?thesis by blast
qed

lemma computed_ok:
  assumes d: "computed env cc d" and env: "env_ok env" and cc: "cc_sendable cc" "confined P cc"
  shows "delta_ordered d" "delta_codable d" "\<exists>bs. delta_serialize (env_zstd env) d = Inr bs"
    "delta_deliverable d" "ndl_chitchat_id ` set (node_deltas d) \<subseteq> P" "\<forall>nd \<in> set (node_deltas d). reports_on cc nd"
proof -
  let ?cs = "cc_cluster_state cc"
  have wf: "cs_wf ?cs" "cs_codable ?cs" using cc(1) by (simp_all add: cc_sendable_def cc_wf_def)
  obtain digest mtu scheduled where c: "100 \<le> mtu" "mtu \<le> 65535"
      "compute_partial_delta_respecting_mtu (env_zstd env) (env_shuffle env) ?cs digest mtu scheduled = Inr d"
    using d by (auto simp: computed_def)
  obtain bs where bs: "delta_ordered d" "delta_serialize (env_zstd env) d = Inr bs"
    using compute_partial_delta_aux [OF _ _ wf c(1,2), of "env_zstd env" "env_shuffle env" digest scheduled] env c(3)
    unfolding env_ok_def by (metis Inr_inject)
  then show "delta_ordered d" "\<exists>bs. delta_serialize (env_zstd env) d = Inr bs" by blast+
  have nd: "node_delta_codable nd \<and> reports_on cc nd \<and> ndl_chitchat_id nd \<in> P
      \<and> (\<forall>m \<in> set (ndl_key_values nd). key_ok (kvm_key m))" if mem: "nd \<in> set (node_deltas d)" for nd
  proof -
    let ?i = "ndl_chitchat_id nd"
    obtain sn where sn: "stale_node_of digest scheduled (?i, replica cc ?i) = Some sn" "node_delta_covers sn nd"
        "sn_codable sn" "(?i, replica cc ?i) \<in> set (cs_node_states ?cs)"
      by (rule computed_stale [OF env cc(1) c mem])
    note st = stale_node_of_Some [OF sn(1)]
    have muts: "set (ndl_key_values nd) \<subseteq> set (sn_mutations sn)"
      using sn(2) set_take_subset [of "length (ndl_key_values nd)" "sn_mutations sn"] by (simp add: node_delta_covers_def)
    have "node_delta_codable nd" using sn(3) muts st(1) by (auto simp: node_delta_codable_def sn_codable_def)
    moreover have "?i \<in> set (nodes ?cs)" using sn(4) by (force simp: nodes_def btm_keys_def)
    then have "reports_on cc nd" using sn(1,2) by (auto simp: reports_on_def)
    moreover have "?i \<in> P" "\<forall>k \<in> keys_of (replica cc ?i). key_ok k" using cc(2) sn(4) by (auto simp: confined_def)
    ultimately show ?thesis
      using muts st(2) by (fastforce simp: set_sn_mutations keys_of_def)
  qed
  then show "delta_deliverable d" "ndl_chitchat_id ` set (node_deltas d) \<subseteq> P" "\<forall>nd \<in> set (node_deltas d). reports_on cc nd"
    by (auto simp: delta_deliverable_def key_ok_def)
  show "delta_codable d" using delta_serialize_codable [OF bs(2)] nd by blast
qed

lemma sent_from_ok:
  assumes m: "sent_from env cc m" and env: "env_ok env" and cc: "cc_sendable cc" "confined P cc"
    and P: "participants_ok P" and c: "wire_string (cfg_cluster_id (cc_config cc))"
  shows "message_wf m" "\<exists>bs. message_serialize (env_zstd env) m = Inr bs" "message_confined P m"
    "message_deliverable m" "\<forall>nd \<in> set (message_deltas m). reports_on cc nd"
proof -
  note g = own_digest_ok [OF _ cc P] and d = computed_ok [OF _ env cc]
  from m show "message_wf m" using g d c by (cases m) auto
  from m show "\<exists>bs. message_serialize (env_zstd env) m = Inr bs" using d(3) by (cases m) fastforce+
  from m show "message_confined P m" using g d by (cases m) auto
  from m show "message_deliverable m" using g d by (cases m) auto
  from m show "\<forall>nd \<in> set (message_deltas m). reports_on cc nd" using d(6) by (cases m) auto
qed

section \<open>A turn of a server\<close>

text \<open>What a tick does to a replica: it may be forgotten, unless it is the participant's own; otherwise
  its heartbeat may change and it is garbage collected.\<close>

definition after_gc :: "Env \<Rightarrow> Chitchat \<Rightarrow> Chitchat" where
  "after_gc env cc = cc_gc_keys_marked_for_deletion (env_now env) (update_self_heartbeat cc)"

lemma gossip_multiple_eq:
  assumes "gossip_multiple ops env srv = (srv', sent)"
  shows "srv_chitchat srv' = update_nodes_liveness (env_now env) (after_gc env (srv_chitchat srv))"
    and "(a, m) \<in> set sent \<Longrightarrow> m = create_syn_message env (after_gc env (srv_chitchat srv))"
  using assms
  by (auto simp: gossip_multiple_defs gossip_def after_gc_def Let_def split: prod.splits option.splits)

lemma after_gc_sendable:
  assumes "server_inv cc"
  shows "cc_sendable (after_gc env cc)" "cc_config (after_gc env cc) = cc_config cc"
proof -
  have "cc_sendable (update_self_heartbeat cc)"
    using assms by (simp add: server_inv_def update_self_heartbeat_sendable)
  from cc_gc_sendable [OF this] show "cc_sendable (after_gc env cc)" "cc_config (after_gc env cc) = cc_config cc"
    by (simp_all add: after_gc_def)
qed

lemma replica_after_gc:
  assumes "server_inv cc"
  shows "\<exists>R gp. beats (replica cc i) R \<and>
    replica (after_gc env cc) i \<in> {R, node_gc_keys_marked_for_deletion gp (env_now env) R}"
proof -
  let ?cc = "update_self_heartbeat cc"
  have "cc_wf cc" using assms by (simp add: server_inv_def cc_sendable_def)
  then have beat: "beats (replica cc i) (replica ?cc i)" by (rule beats_update_self)
  have "replica (after_gc env cc) i \<in> {replica ?cc i,
      node_gc_keys_marked_for_deletion (cfg_marked_for_deletion_grace_period (cc_config ?cc)) (env_now env) (replica ?cc i)}"
    using gc_op.on_all_keeps_nodes [of _ _ "cc_cluster_state ?cc"]
    by (auto simp: replica_def after_gc_def cc_gc_keys_marked_for_deletion_def cluster_gc_keys_marked_for_deletion_def
        node_state_mut_def node_state_def split: option.splits)
  with beat show ?thesis by blast
qed

lemma replica_update_liveness:
  assumes "cc_wf cc"
  shows "replica (update_nodes_liveness now cc) i =
    (if i \<in> forgotten_nodes now cc then NodeState_new i else replica cc i)"
    and "self_chitchat_id cc \<notin> forgotten_nodes now cc"
proof -
  have "self_chitchat_id cc \<in> cc_live_nodes (update_nodes_liveness now cc)"
    by (simp add: cc_live_nodes_def self_chitchat_id_def)
  with forgotten_not_live [OF assms] show "self_chitchat_id cc \<notin> forgotten_nodes now cc" by blast
  show "replica (update_nodes_liveness now cc) i = (if i \<in> forgotten_nodes now cc then NodeState_new i else replica cc i)"
    using fold_remove_node [OF cc_wfD(1) [OF assms], of "fst (fd_garbage_collect now (checked_detector now cc))" i]
    by (auto simp: replica_def node_state_mut_def node_state_def [symmetric] forgotten_nodes_def)
qed

lemma confined_after_gc:
  assumes "confined P cc" and "self_chitchat_id cc \<in> P"
  shows "confined P (after_gc env cc)"
  using confined_self [OF assms] keys_of_gc
  by (fastforce simp: confined_def after_gc_def cc_gc_keys_marked_for_deletion_def
      cluster_gc_keys_marked_for_deletion_def btm_map_values_def)

lemma confined_update_liveness: "confined P cc \<Longrightarrow> confined P (update_nodes_liveness now cc)"
  by (auto simp: confined_def fold_remove_node_states)

fun event_confined :: "ChitchatId set \<Rightarrow> event \<Rightarrow> bool" where
  "event_confined P (Received (Inr (_, m))) \<longleftrightarrow> message_typed m \<and> message_confined P m \<and> message_deliverable m"
| "event_confined P _ \<longleftrightarrow> True"

text \<open>The invariant of one participant of the cluster.\<close>

definition participant_inv :: "ChitchatId set \<Rightarrow> Chitchat \<Rightarrow> bool" where
  "participant_inv P cc \<longleftrightarrow> server_inv cc \<and> confined P cc \<and> self_chitchat_id cc \<in> P
     \<and> wire_string (cfg_cluster_id (cc_config cc))"

lemma participant_invD:
  assumes "participant_inv P cc"
  shows "server_inv cc" "confined P cc" "self_chitchat_id cc \<in> P" "wire_string (cfg_cluster_id (cc_config cc))"
    "cc_sendable cc" "cc_wf cc" "id_wf (self_chitchat_id cc)"
  using assms by (simp_all add: participant_inv_def server_inv_def cc_sendable_def)

text \<open>What is handed to the transport can be encoded, stays within the participants, and its deltas
  report on the sender's replicas.\<close>

definition good_message :: "ChitchatId set \<Rightarrow> zstd \<Rightarrow> ChitchatMessage \<Rightarrow> bool" where
  "good_message P zc m \<longleftrightarrow> message_wf m \<and> (\<exists>bs. message_serialize zc m = Inr bs) \<and> message_confined P m
     \<and> message_deliverable m"

lemma good_message_sent_from:
  assumes "sent_from env cc m" and "env_ok env" and "cc_sendable cc" and "confined P cc" and "participants_ok P"
    and "wire_string (cfg_cluster_id (cc_config cc))"
  shows "good_message P (env_zstd env) m \<and> (\<forall>nd \<in> set (message_deltas m). reports_on cc nd)"
  using sent_from_ok [OF assms] by (simp add: good_message_def)

lemma message_deltas_syn [simp]: "message_deltas (create_syn_message env cc) = []"
  by (simp add: create_syn_message_def)

text \<open>The parts of a tick.\<close>

lemma gossip_multiple_start_eq:
  "gossip_multiple_start ops env srv = (srv', addrs) \<Longrightarrow> srv_chitchat srv' = after_gc env (srv_chitchat srv)"
  by (auto simp: gossip_multiple_start_def after_gc_def Let_def split: prod.splits)

lemma participant_after_gc:
  assumes "participant_inv P cc"
  shows "participant_inv P (after_gc env cc)" "self_chitchat_id (after_gc env cc) = self_chitchat_id cc"
proof -
  note I = participant_invD [OF assms]
  have "cc_seeds (after_gc env cc) = cc_seeds cc" by (simp add: after_gc_def)
  with I after_gc_sendable [OF I(1), of env] confined_after_gc [OF I(2,3), of env] server_invI [of "after_gc env cc" cc]
  show "participant_inv P (after_gc env cc)" "self_chitchat_id (after_gc env cc) = self_chitchat_id cc"
    by (simp_all add: participant_inv_def self_chitchat_id_def)
qed

lemma participant_update_liveness:
  assumes "participant_inv P cc"
  shows "participant_inv P (update_nodes_liveness now cc)"
  using participant_invD [OF assms] update_nodes_liveness_sendable [of cc now] confined_update_liveness [of P cc now]
    server_invI [of "update_nodes_liveness now cc" cc]
  by (simp add: participant_inv_def self_chitchat_id_def)

lemma participant_turn:
  assumes P: "participants_ok P" and inv: "participant_inv P (srv_chitchat srv)" and ok: "rng_ok ops" "env_ok env"
    and e: "event_confined P e"
  obtains r srv' sent fx where "server_turn ops env e srv = Inr (r, srv', sent, fx)"
    "participant_inv P (srv_chitchat srv')" "cc_config (srv_chitchat srv') = cc_config (srv_chitchat srv)"
    "\<forall>(a, m) \<in> set sent. good_message P (env_zstd env) m
       \<and> (\<forall>nd \<in> set (message_deltas m). reports_on (srv_chitchat srv') nd)"
proof -
  let ?cc = "srv_chitchat srv"
  note I = participant_invD [OF inv]
  have acc: "event_acceptable e" using e by (cases "(P, e)" rule: event_confined.cases) (simp_all add: message_acceptable_def)
  obtain r srv' sent fx where t: "server_turn ops env e srv = Inr (r, srv', sent, fx)"
      "server_inv (srv_chitchat srv')" "cc_config (srv_chitchat srv') = cc_config ?cc"
    using server_turn_spec [OF I(1) ok acc] by blast
  let ?good = "\<lambda>cc'. confined P cc' \<and> (\<forall>(a, m) \<in> set sent. good_message P (env_zstd env) m
      \<and> (\<forall>nd \<in> set (message_deltas m). reports_on cc' nd))"
  have syn: "good_message P (env_zstd env) (create_syn_message env cc)"
    if "cc_sendable cc" "confined P cc" "cc_config cc = cc_config ?cc" for cc
    using good_message_sent_from [OF sent_from_syn ok(2) that(1,2) P] that(3) I(4) by simp
  have "?good (srv_chitchat srv')"
  proof (cases e)
    case (Received x)
    show ?thesis
    proof (cases x)
      case (Inl err)
      with t(1) Received I show ?thesis by auto
    next
      case (Inr am)
      obtain a m where am: "am = (a, m)" by fastforce
      obtain reply where p: "process_message env m ?cc = Inr (srv_chitchat srv', reply, fx)"
          "sent = (case reply of None \<Rightarrow> [] | Some r \<Rightarrow> [(a, r)])"
        using t(1) Received Inr am by (auto simp: handle_message_def)
      have m: "message_acceptable m" "message_confined P m"
        using e Received Inr am by (simp_all add: message_acceptable_def)
      have c: "confined P (srv_chitchat srv')" by (rule confined_process_message [OF I(2,3) m(2) p(1)])
      have "good_message P (env_zstd env) r \<and> (\<forall>nd \<in> set (message_deltas r). reports_on (srv_chitchat srv') nd)"
        if "reply = Some r" for r
        using process_message_effect(2) [OF ok(2) I(5,7) m(1) p(1) that] t(2,3) I(4)
        by (intro good_message_sent_from [OF _ ok(2) _ c P]) (simp_all add: server_inv_def)
      with c p(2) show ?thesis by (auto split: option.splits)
    qed
  next
    case GossipTick
    then have g: "gossip_multiple ops env srv = (srv', sent)" using t(1) by (auto split: prod.splits)
    note cc1 = after_gc_sendable [OF I(1), of env] and c = confined_after_gc [OF I(2,3), of env]
    have "good_message P (env_zstd env) m \<and> message_deltas m = []" if "(a, m) \<in> set sent" for a m
      using gossip_multiple_eq(2) [OF g that] syn [OF cc1(1) c cc1(2)] by simp
    with gossip_multiple_eq(1) [OF g] confined_update_liveness [OF c] show ?thesis by auto
  next
    case (CommandReceived c)
    show ?thesis
    proof (cases c)
      case None
      with CommandReceived t(1) I(2) show ?thesis by auto
    next
      case (Some cmd)
      with CommandReceived t(1) syn [OF I(5,2)] I(2) show ?thesis by (cases cmd) (auto simp: gossip_def)
    qed
  qed
  moreover have "participant_inv P (srv_chitchat srv')"
    using calculation t(2,3) I(3,4) by (simp add: participant_inv_def self_chitchat_id_def)
  ultimately show ?thesis using that t(1,3) by blast
qed

end
