(* ===== verification/Cluster.thy ===== *)
theory Cluster
  imports Participants
begin

text \<open>
  A cluster: any number of servers of \<^verbatim>\<open>server.rs\<close> that exchange datagrams over a network that loses,
  duplicates, delays, reorders and misroutes them. Servers join with a fresh identifier at any time;
  each takes turns (a datagram arrives, a tick, a command) and its application writes to its own node.
  The state of every node as gossiped by the whole cluster is an instance of the gossip of one node's
  state, by the refinement map \<open>abs_system\<close>.
\<close>

section \<open>The system\<close>

text \<open>The log of a node is the history of its writes; the network holds every datagram ever sent.\<close>

record 's cluster =
  cl_servers :: "ChitchatId \<Rightarrow> 's Server option"
  cl_logs :: "ChitchatId \<Rightarrow> log"
  cl_net :: "bytes set"

definition cluster_init :: "'s cluster \<Rightarrow> bool" where
  "cluster_init s \<longleftrightarrow> s = \<lparr>cl_servers = \<lambda>_. None, cl_logs = \<lambda>_. [], cl_net = {}\<rparr>"

text \<open>The writes of the application, and what it must respect: strings that fit the wire format, keys
  that start with a one-byte character (C39).\<close>

fun self_write :: "owner_op \<Rightarrow> instant \<Rightarrow> Chitchat \<Rightarrow> Chitchat outcome" where
  "self_write (WSet k v) now cc = result_bind (self_set k v cc) (\<lambda>(cc, _). Inr cc)"
| "self_write (WSetTtl k v) now cc = result_bind (self_set_with_ttl k v now cc) (\<lambda>(cc, _). Inr cc)"
| "self_write (WDelete k) now cc = Inr (self_delete k now cc)"
| "self_write (WDeleteTtl k) now cc = Inr (self_delete_after_ttl k now cc)"

definition write_ok :: "owner_op \<Rightarrow> bool" where
  "write_ok w \<longleftrightarrow> key_ok (write_key w) \<and> wire_string (write_key w)
     \<and> (case w of WSet k v \<Rightarrow> wire_string v | WSetTtl k v \<Rightarrow> wire_string v | _ \<Rightarrow> True)"

text \<open>The history that the initial key-values of a node make.\<close>

fun initial_log :: "(string \<times> string) list \<Rightarrow> NodeState \<Rightarrow> log" where
  "initial_log [] N = []"
| "initial_log ((k, v) # kvs) N = (case node_set k v N of
     Inl _ \<Rightarrow> [] | Inr (N', _) \<Rightarrow> logged k N N' @ initial_log kvs N')"

text \<open>The datagrams that a turn puts on the network: the operating system refuses longer ones.\<close>

definition payloads :: "zstd \<Rightarrow> sends \<Rightarrow> bytes set" where
  "payloads zc sent = {bs. \<exists>(a, m) \<in> set sent. udp_payload zc m = Inr bs \<and> length bs \<le> MAX_UDP_DATAGRAM_PAYLOAD_SIZE}"

text \<open>A message may arrive, from any address, when some datagram decodes to it.\<close>

fun may_happen :: "zstd \<Rightarrow> 's cluster \<Rightarrow> event \<Rightarrow> bool" where
  "may_happen zd s (Received (Inr (a, m))) \<longleftrightarrow> (\<exists>bs \<in> cl_net s. receive_one zd (a, bs) = Some (a, m))"
| "may_happen zd s _ \<longleftrightarrow> True"

definition put_server :: "ChitchatId \<Rightarrow> 's Server \<Rightarrow> 's cluster \<Rightarrow> 's cluster" where
  "put_server i srv s = s\<lparr>cl_servers := (cl_servers s)(i \<mapsto> srv)\<rparr>"

definition add_log :: "ChitchatId \<Rightarrow> log \<Rightarrow> 's cluster \<Rightarrow> 's cluster" where
  "add_log i L s = s\<lparr>cl_logs := (cl_logs s)(i := cl_logs s i @ L)\<rparr>"

text \<open>The steps, for participants \<open>P\<close>, a decompressor, a random generator, and a condition on the events
  that may happen. A server that has stopped may take further turns, and the parts of a tick between which
  the lock is free (\<^const>\<open>gossip_multiple_start\<close>, \<^const>\<open>gossip\<close>, \<^const>\<open>gossip_multiple_end\<close>) may come in any
  order: the model has more behaviours.\<close>

inductive cluster_step ::
    "ChitchatId set \<Rightarrow> zstd \<Rightarrow> 's rng_ops \<Rightarrow> ('s cluster \<Rightarrow> ChitchatId \<Rightarrow> event \<Rightarrow> bool) \<Rightarrow> 's cluster \<Rightarrow> 's cluster \<Rightarrow> bool"
  for P zd ops allowed where
  joins: "participants_ok P \<Longrightarrow> i \<in> P \<Longrightarrow> cl_servers s i = None \<Longrightarrow> cfg_chitchat_id config = i \<Longrightarrow>
    config_ok config kvs \<Longrightarrow> wire_string (cfg_cluster_id config) \<Longrightarrow> finite seeds \<Longrightarrow> list_all (\<lambda>(k, _). key_ok k) kvs \<Longrightarrow>
    with_chitchat_id_and_seeds config seeds kvs = Inr cc \<Longrightarrow>
    cluster_step P zd ops allowed s
      (add_log i (initial_log kvs (inc_heartbeat (NodeState_new i))) (put_server i \<lparr>srv_chitchat = cc, srv_rng = rng\<rparr> s))"
| takes_turn: "cl_servers s i = Some srv \<Longrightarrow> rng_ok ops \<Longrightarrow> env_ok env \<Longrightarrow> zstd_inverse (env_zstd env) zd \<Longrightarrow>
    may_happen zd s e \<Longrightarrow> allowed s i e \<Longrightarrow> server_turn ops env e srv = Inr (r, srv', sent, fx) \<Longrightarrow>
    cluster_step P zd ops allowed s ((put_server i srv' s)\<lparr>cl_net := cl_net s \<union> payloads (env_zstd env) sent\<rparr>)"
| tick_starts: "cl_servers s i = Some srv \<Longrightarrow> allowed s i GossipTick \<Longrightarrow> gossip_multiple_start ops env srv = (srv', addrs) \<Longrightarrow>
    cluster_step P zd ops allowed s (put_server i srv' s)"
| tick_ends: "cl_servers s i = Some srv \<Longrightarrow> allowed s i GossipTick \<Longrightarrow>
    cluster_step P zd ops allowed s (put_server i (gossip_multiple_end env srv) s)"
| owner_writes: "cl_servers s i = Some srv \<Longrightarrow> write_ok w \<Longrightarrow> ns_max_version (self_node_state (srv_chitchat srv)) \<noteq> - 1 \<Longrightarrow>
    self_write w now (srv_chitchat srv) = Inr cc \<Longrightarrow>
    cluster_step P zd ops allowed s
      (add_log i (logged (write_key w) (self_node_state (srv_chitchat srv)) (self_node_state cc))
        (put_server i (srv\<lparr>srv_chitchat := cc\<rparr>) s))"
| peripheral: "cl_servers s i = Some srv \<Longrightarrow> peripheral_step (srv_chitchat srv) cc \<Longrightarrow>
    cluster_step P zd ops allowed s (put_server i (srv\<lparr>srv_chitchat := cc\<rparr>) s)"

section \<open>The invariant\<close>

definition cluster_inv :: "ChitchatId set \<Rightarrow> zstd \<Rightarrow> 's cluster \<Rightarrow> bool" where
  "cluster_inv P zd s \<longleftrightarrow>
     (\<forall>i srv. cl_servers s i = Some srv \<longrightarrow> participants_ok P \<and> participant_inv P (srv_chitchat srv)
        \<and> self_chitchat_id (srv_chitchat srv) = i)
     \<and> (\<forall>bs \<in> cl_net s. length bs \<le> MAX_UDP_DATAGRAM_PAYLOAD_SIZE
        \<and> (\<exists>m. message_deserialize zd bs = Inr (m, []) \<and> message_confined P m \<and> message_deliverable m))"

lemma cluster_invD:
  assumes "cluster_inv P zd s"
  shows "cl_servers s i = Some srv \<Longrightarrow> participants_ok P"
    "cl_servers s i = Some srv \<Longrightarrow> participant_inv P (srv_chitchat srv)"
    "cl_servers s i = Some srv \<Longrightarrow> self_chitchat_id (srv_chitchat srv) = i"
    "bs \<in> cl_net s \<Longrightarrow> length bs \<le> MAX_UDP_DATAGRAM_PAYLOAD_SIZE"
    "bs \<in> cl_net s \<Longrightarrow> \<exists>m. message_deserialize zd bs = Inr (m, []) \<and> message_confined P m \<and> message_deliverable m"
  using assms by (simp_all add: cluster_inv_def)

lemma cluster_inv_put:
  assumes "cluster_inv P zd s" and "participants_ok P" and "participant_inv P (srv_chitchat srv)"
    and "self_chitchat_id (srv_chitchat srv) = i"
  shows "cluster_inv P zd (put_server i srv s)"
  using assms by (auto simp: cluster_inv_def put_server_def)

lemma put_server_net: "cl_net (put_server i srv s) = cl_net s"
  by (simp add: put_server_def)

lemma cluster_inv_net:
  assumes "cluster_inv P zd s" and "\<And>bs. bs \<in> B \<Longrightarrow> length bs \<le> MAX_UDP_DATAGRAM_PAYLOAD_SIZE
     \<and> (\<exists>m. message_deserialize zd bs = Inr (m, []) \<and> message_confined P m \<and> message_deliverable m)"
  shows "cluster_inv P zd (s\<lparr>cl_net := cl_net s \<union> B\<rparr>)"
  using assms by (auto simp: cluster_inv_def)

lemma cluster_inv_log [simp]: "cluster_inv P zd (add_log i L s) = cluster_inv P zd s"
  by (simp add: cluster_inv_def add_log_def)

lemma may_happen_confined:
  assumes "cluster_inv P zd s" and "may_happen zd s e"
  shows "event_confined P e"
proof (cases "(P, e)" rule: event_confined.cases)
  case (1 P' a m)
  then obtain bs where bs: "bs \<in> cl_net s" "receive_one zd (a, bs) = Some (a, m)" using assms(2) by auto
  note I = cluster_invD(4,5) [OF assms(1) bs(1)]
  have "take MAX_UDP_DATAGRAM_PAYLOAD_SIZE bs = bs" using I(1) by simp
  then have "message_confined P m \<and> message_deliverable m" using I(2) bs(2) by (auto simp: receive_one_def)
  with 1 receive_one_typed [OF bs(2)] show ?thesis by simp
qed simp_all

lemma good_message_decodes:
  assumes "good_message P (env_zstd env) m" and "env_ok env" and "zstd_inverse (env_zstd env) zd"
    and "udp_payload (env_zstd env) m = Inr bs"
  shows "message_deserialize zd bs = Inr (m, [])"
  using message_roundtrip_aux [of "env_zstd env" zd m bs "[]"] assms
  by (simp add: good_message_def env_ok_def udp_payload_def)

lemma self_write_put:
  assumes "participant_inv P cc" and "self_write w now cc = Inr cc'"
  obtains ns where "cc' = put_self_node_state ns cc" "owner_write w now (self_node_state cc) = Inr ns"
  using assms(2)
  by (cases w) (auto simp: self_set_def self_set_with_ttl_def self_delete_def self_delete_after_ttl_def Let_def split_beta)

lemma self_write_inv:
  assumes inv: "participant_inv P cc" and w: "write_ok w" "ns_max_version (self_node_state cc) \<noteq> - 1"
    and wr: "self_write w now cc = Inr cc'"
  shows "participant_inv P cc'"
proof -
  note I = participant_invD [OF inv]
  have "app_step cc cc'"
    using wr w by (cases w) (auto simp: write_ok_def intro: app_step.intros)
  then have s: "server_inv cc'" using app_step_inv I(1) by blast
  obtain ns where ns: "cc' = put_self_node_state ns cc" "owner_write w now (self_node_state cc) = Inr ns"
    by (rule self_write_put [OF inv wr])
  have "keys_of ns \<subseteq> insert (write_key w) (keys_of (self_node_state cc))"
    using owner_write_cases [OF self_node_state_inv(1) [OF I(1)] w(2) ns(2)] by (cases) (auto simp: keys_of_put)
  then have "\<forall>k \<in> keys_of ns. key_ok k"
    using w(1) confined_replica [OF I(2), of _ "self_chitchat_id cc"]
    by (auto simp: write_ok_def self_node_state_replica)
  then have "confined P cc'" unfolding ns(1) put_self_node_state_def by (intro confined_put I(2,3))
  with s I(3,4) show ?thesis
    by (simp add: participant_inv_def ns(1) put_self_node_state_def self_chitchat_id_def)
qed

subsection \<open>A server that joins\<close>

lemma self_set_self:
  assumes "cc_wf cc" and "self_set k v cc = Inr (cc', fx)"
  obtains ns es where "node_set k v (self_node_state cc) = Inr (ns, es)" "self_node_state cc' = ns"
    "\<forall>i. i \<noteq> self_chitchat_id cc \<longrightarrow> replica cc' i = replica cc i" "self_chitchat_id cc' = self_chitchat_id cc"
    "cc_config cc' = cc_config cc" "cc' = put_self_node_state ns cc"
proof -
  obtain ns es where ns: "node_set k v (self_node_state cc) = Inr (ns, es)" "cc' = put_self_node_state ns cc"
    using assms(2) by (auto simp: self_set_def Let_def)
  from that [OF ns(1)] ns(2) assms(1) show ?thesis
    by (simp add: self_chitchat_id_def) (simp add: put_self_node_state_def)
qed

lemma node_set_full:
  "ns_wf N \<Longrightarrow> node_set k v N = Inr (N', es) \<Longrightarrow> ns_max_version N = - 1 \<Longrightarrow> N' = N"
  using node_set_panic [of N k v] by (cases "already_set k v N") auto

lemma owner_step:
  assumes "ns_wf N" and "sys_states y (sys_owner y) = N" and "node_set k v N = Inr (N', es)"
  shows "gossip_step\<^sup>*\<^sup>* y ((sys_update (sys_owner y) N' y)\<lparr>sys_log := sys_log y @ logged k N N'\<rparr>)"
proof (cases "ns_max_version N = - 1")
  case True
  then have "N' = N" by (rule node_set_full [OF assms(1,3)])
  then show ?thesis using assms(2) by (simp add: sys_update_def logged_def fun_upd_idem)
next
  case False
  have "owner_write (WSet k v) 0 N = Inr N'" using assms(3) by simp
  with gossip_step.owner [of y "WSet k v" 0 N'] assms(2) False show ?thesis by auto
qed

lemma initial_writes:
  assumes "server_inv cc" and "list_all (\<lambda>(k, v). wire_string k \<and> wire_string v) kvs"
    and "set_initial_key_values kvs cc = Inr cc'"
  shows "(\<forall>i. i \<noteq> self_chitchat_id cc \<longrightarrow> replica cc' i = replica cc i)
    \<and> cc_config cc' = cc_config cc
    \<and> (confined P cc \<longrightarrow> self_chitchat_id cc \<in> P \<longrightarrow> list_all (\<lambda>(k, _). key_ok k) kvs \<longrightarrow> confined P cc')
    \<and> (sys_states y (sys_owner y) = self_node_state cc \<longrightarrow> gossip_step\<^sup>*\<^sup>* y
        ((sys_update (sys_owner y) (self_node_state cc') y)\<lparr>sys_log := sys_log y @ initial_log kvs (self_node_state cc)\<rparr>))"
  using assms
proof (induction kvs arbitrary: cc y)
  case Nil
  then show ?case by (auto simp: sys_update_def fun_upd_idem)
next
  case (Cons e kvs)
  obtain k v where e: "e = (k, v)" by fastforce
  obtain cc1 fx where cc1: "self_set k v cc = Inr (cc1, fx)" "set_initial_key_values kvs cc1 = Inr cc'"
    using Cons.prems(3) by (auto simp: e)
  have wf: "cc_wf cc" using Cons.prems(1) by (simp add: server_inv_def cc_sendable_def)
  have inv1: "server_inv cc1" using self_set_inv [OF Cons.prems(1) _ _ cc1(1)] Cons.prems(2) by (simp add: e)
  obtain ns es where ns: "node_set k v (self_node_state cc) = Inr (ns, es)" "self_node_state cc1 = ns"
      "\<forall>i. i \<noteq> self_chitchat_id cc \<longrightarrow> replica cc1 i = replica cc i" "self_chitchat_id cc1 = self_chitchat_id cc"
      "cc_config cc1 = cc_config cc" "cc1 = put_self_node_state ns cc" by (rule self_set_self [OF wf cc1(1)])
  have N: "ns_wf (self_node_state cc)" by (rule self_node_state_inv(1) [OF Cons.prems(1)])
  have keys: "keys_of ns \<subseteq> insert k (keys_of (self_node_state cc))"
    using ns(1) node_set_full [OF N ns(1)] node_set_eq [OF N, of k v]
    by (cases "ns_max_version (self_node_state cc) = - 1") (auto simp: keys_of_put split: if_splits)
  note IH = Cons.IH [OF inv1 _ cc1(2)]
  have conf: "confined P cc1" if "confined P cc" "self_chitchat_id cc \<in> P" "key_ok k"
    using that keys confined_replica [OF that(1), of _ "self_chitchat_id cc"] unfolding ns(6) put_self_node_state_def
    by (intro confined_put) (auto simp: self_node_state_replica)
  have steps: "gossip_step\<^sup>*\<^sup>* y ((sys_update (sys_owner y) (self_node_state cc') y)\<lparr>sys_log := sys_log y
      @ initial_log (e # kvs) (self_node_state cc)\<rparr>)" if y: "sys_states y (sys_owner y) = self_node_state cc"
  proof -
    let ?y = "(sys_update (sys_owner y) ns y)\<lparr>sys_log := sys_log y @ logged k (self_node_state cc) ns\<rparr>"
    have "gossip_step\<^sup>*\<^sup>* y ?y" by (rule owner_step [OF N y ns(1)])
    moreover have "gossip_step\<^sup>*\<^sup>* ?y ((sys_update (sys_owner ?y) (self_node_state cc') ?y)\<lparr>sys_log := sys_log ?y
        @ initial_log kvs (self_node_state cc1)\<rparr>)"
      using IH [of ?y] Cons.prems(2) by (simp add: sys_update_def ns(2) e)
    ultimately show ?thesis
      using rtranclp_trans by (fastforce simp: sys_update_def e ns(1,2))
  qed
  show ?case
    using IH [of y] Cons.prems(2) ns(3-5) conf steps by (simp add: e)
qed

lemma joins_ok:
  assumes "config_ok config kvs" and "finite seeds" and "with_chitchat_id_and_seeds config seeds kvs = Inr cc"
    and "i = cfg_chitchat_id config"
  shows "server_inv cc" "cc_config cc = config" "j \<noteq> i \<Longrightarrow> replica cc j = NodeState_new j"
    "i \<in> P \<Longrightarrow> list_all (\<lambda>(k, _). key_ok k) kvs \<Longrightarrow> confined P cc"
    "sys_states y (sys_owner y) = inc_heartbeat (NodeState_new i) \<Longrightarrow> gossip_step\<^sup>*\<^sup>* y ((sys_update (sys_owner y)
       (replica cc i) y)\<lparr>sys_log := sys_log y @ initial_log kvs (inc_heartbeat (NodeState_new i))\<rparr>)"
proof -
  define cc0 where "cc0 = update_self_heartbeat \<lparr>cc_config = config, cc_cluster_state = with_seed_addrs seeds,
    cc_failure_detector = FailureDetector_new (cfg_failure_detector_config config),
    cc_previous_live_nodes = [], cc_live_nodes_watch = []\<rparr>"
  have new: "with_chitchat_id_and_seeds config seeds [] = Inr cc0"
    by (simp add: with_chitchat_id_and_seeds_def cc0_def)
  have inv: "server_inv cc0" using start_inv [OF _ assms(2) new] assms(1) by (simp add: config_ok_def)
  have set: "set_initial_key_values kvs cc0 = Inr cc"
    using assms(3) by (simp add: with_chitchat_id_and_seeds_def cc0_def)
  have cs: "cc_cluster_state cc0 = put_node_state i (inc_heartbeat (NodeState_new i)) (with_seed_addrs seeds)"
    by (simp add: cc0_def update_self_heartbeat_def put_self_node_state_def self_node_state_def self_chitchat_id_def
        assms(4) node_state_mut_def with_seed_addrs_def)
  have config: "cc_config cc0 = config" by (simp add: cc0_def update_self_heartbeat_def put_self_node_state_def)
  then have id: "self_chitchat_id cc0 = i" by (simp add: self_chitchat_id_def assms(4))
  have replica: "replica cc0 j = (if j = i then inc_heartbeat (NodeState_new i) else NodeState_new j)" for j
    by (simp add: replica_def cs cs_wf_with_seed_addrs) (simp add: node_state_mut_def with_seed_addrs_def)
  have "list_all (\<lambda>(k, v). wire_string k \<and> wire_string v) kvs" using assms(1) by (simp add: config_ok_def)
  note w = initial_writes [OF inv this set, of P y, unfolded self_node_state_replica id]
  show "server_inv cc" by (rule start_inv [OF assms(1-3)])
  show c: "cc_config cc = config" using w config by simp
  show "replica cc j = NodeState_new j" if "j \<noteq> i" using w that by (simp add: replica)
  have "confined P cc0" if "i \<in> P" using that by (simp add: confined_def cs put_node_state_def with_seed_addrs_def)
  with w show "confined P cc" if "i \<in> P" "list_all (\<lambda>(k, _). key_ok k) kvs" using that by simp
  have "self_chitchat_id cc = i" by (simp add: self_chitchat_id_def c assms(4))
  with w show "gossip_step\<^sup>*\<^sup>* y ((sys_update (sys_owner y)
       (replica cc i) y)\<lparr>sys_log := sys_log y @ initial_log kvs (inc_heartbeat (NodeState_new i))\<rparr>)"
    if "sys_states y (sys_owner y) = inc_heartbeat (NodeState_new i)"
    using that by (simp add: replica)
qed

subsection \<open>Every step keeps the invariant\<close>

lemma turn_in_cluster:
  assumes inv: "cluster_inv P zd s" and i: "cl_servers s i = Some srv" and ok: "rng_ok ops" "env_ok env"
    and e: "may_happen zd s e"
  obtains r srv' sent fx where "server_turn ops env e srv = Inr (r, srv', sent, fx)"
    "participant_inv P (srv_chitchat srv')" "self_chitchat_id (srv_chitchat srv') = i"
    "\<forall>(a, m) \<in> set sent. good_message P (env_zstd env) m
       \<and> (\<forall>nd \<in> set (message_deltas m). reports_on (srv_chitchat srv') nd)"
proof -
  note I = cluster_invD(1-3) [OF inv i]
  obtain r srv' sent fx where "server_turn ops env e srv = Inr (r, srv', sent, fx)"
    "participant_inv P (srv_chitchat srv')" "cc_config (srv_chitchat srv') = cc_config (srv_chitchat srv)"
    "\<forall>(a, m) \<in> set sent. good_message P (env_zstd env) m
       \<and> (\<forall>nd \<in> set (message_deltas m). reports_on (srv_chitchat srv') nd)"
    by (rule participant_turn [OF I(1,2) ok may_happen_confined [OF inv e]])
  with that I(3) show ?thesis by (simp add: self_chitchat_id_def)
qed

lemma turn_in_cluster':
  assumes "cluster_inv P zd s" and "cl_servers s i = Some srv" and "rng_ok ops" and "env_ok env"
    and "may_happen zd s e" and "server_turn ops env e srv = Inr (r, srv', sent, fx)"
  shows "participant_inv P (srv_chitchat srv')" "self_chitchat_id (srv_chitchat srv') = i"
    "\<forall>(a, m) \<in> set sent. good_message P (env_zstd env) m
       \<and> (\<forall>nd \<in> set (message_deltas m). reports_on (srv_chitchat srv') nd)"
  by (rule turn_in_cluster [OF assms(1-5)], use assms(6) in simp)+

lemma payloads_ok:
  assumes "\<forall>(a, m) \<in> set sent. good_message P (env_zstd env) m \<and> Q m" and "env_ok env" and "zstd_inverse (env_zstd env) zd"
    and "bs \<in> payloads (env_zstd env) sent"
  shows "length bs \<le> MAX_UDP_DATAGRAM_PAYLOAD_SIZE"
    "\<exists>m. message_deserialize zd bs = Inr (m, []) \<and> message_confined P m \<and> message_deliverable m \<and> Q m"
proof -
  obtain a m where m: "(a, m) \<in> set sent" "udp_payload (env_zstd env) m = Inr bs" "length bs \<le> MAX_UDP_DATAGRAM_PAYLOAD_SIZE"
    using assms(4) by (auto simp: payloads_def)
  then have good: "good_message P (env_zstd env) m" "Q m" using assms(1) by auto
  show "length bs \<le> MAX_UDP_DATAGRAM_PAYLOAD_SIZE" by (rule m(3))
  show "\<exists>m. message_deserialize zd bs = Inr (m, []) \<and> message_confined P m \<and> message_deliverable m \<and> Q m"
    using good_message_decodes [OF good(1) assms(2,3) m(2)] good by (auto simp: good_message_def)
qed

lemma cluster_inv_step:
  assumes "cluster_step P zd ops allowed s s'" and inv: "cluster_inv P zd s"
  shows "cluster_inv P zd s'"
  using assms(1)
proof cases
  case (joins i config kvs seeds cc rng)
  note ok = joins_ok [OF joins(6,8,10) joins(5) [symmetric]]
  have "participant_inv P cc" "self_chitchat_id cc = i"
    using ok(1,2) ok(4) [of P] joins by (simp_all add: participant_inv_def self_chitchat_id_def)
  with cluster_inv_put [OF inv joins(2), of "\<lparr>srv_chitchat = cc, srv_rng = rng\<rparr>" i] joins(1) show ?thesis by simp
next
  case (takes_turn i srv env e r srv' sent fx)
  note t = turn_in_cluster' [OF inv takes_turn(2-4,6,8)]
  have "cluster_inv P zd (put_server i srv' s)"
    by (rule cluster_inv_put [OF inv cluster_invD(1) [OF inv takes_turn(2)] t(1,2)])
  then show ?thesis
    unfolding takes_turn(1) put_server_net [of i srv' s, symmetric]
    by (rule cluster_inv_net) (use payloads_ok [OF t(3) takes_turn(4,5)] in blast)
next
  case (tick_starts i srv env srv' addrs)
  note I = cluster_invD(1-3) [OF inv tick_starts(2)]
  from cluster_inv_put [OF inv I(1), of srv' i] participant_after_gc [OF I(2), of env] I(3) show ?thesis
    by (simp add: tick_starts(1) gossip_multiple_start_eq [OF tick_starts(4)])
next
  case (tick_ends i srv env)
  note I = cluster_invD(1-3) [OF inv tick_ends(2)]
  from cluster_inv_put [OF inv I(1), of "gossip_multiple_end env srv" i] participant_update_liveness [OF I(2), of "env_now env"] I(3)
  show ?thesis by (simp add: tick_ends(1) gossip_multiple_end_def self_chitchat_id_def)
next
  case (owner_writes i srv w now cc)
  note I = cluster_invD(1-3) [OF inv owner_writes(2)]
  obtain ns where "cc = put_self_node_state ns (srv_chitchat srv)" by (rule self_write_put [OF I(2) owner_writes(5)])
  then have "self_chitchat_id cc = i" using I(3) by (simp add: put_self_node_state_def)
  with self_write_inv [OF I(2) owner_writes(3-5)] cluster_inv_put [OF inv I(1), of "srv\<lparr>srv_chitchat := cc\<rparr>" i]
  show ?thesis by (simp add: owner_writes(1))
next
  case (peripheral i srv cc)
  note I = cluster_invD(1-3) [OF inv peripheral(2)]
  note same = peripheral_step_same [OF peripheral(3)]
  have "participant_inv P cc" "self_chitchat_id cc = i"
    using I(2,3) same by (simp_all add: participant_inv_def confined_def self_chitchat_id_def)
  with cluster_inv_put [OF inv I(1), of "srv\<lparr>srv_chitchat := cc\<rparr>" i] peripheral(1) show ?thesis by simp
qed

interpretation any_cluster: transition_invariant cluster_init "cluster_step P zd ops allowed" "cluster_inv P zd"
  for P zd ops allowed
  by unfold_locales (auto simp: cluster_init_def cluster_inv_def dest: cluster_inv_step)

section \<open>Refinement\<close>

text \<open>The state that participant \<open>p\<close> holds for node \<open>c\<close>, and the gossip of the state of \<open>c\<close>.\<close>

definition held :: "'s cluster \<Rightarrow> ChitchatId \<Rightarrow> ChitchatId \<Rightarrow> NodeState" where
  "held s p c = (case cl_servers s p of None \<Rightarrow> NodeState_new c | Some srv \<Rightarrow> replica (srv_chitchat srv) c)"

definition in_flight :: "zstd \<Rightarrow> 's cluster \<Rightarrow> ChitchatId \<Rightarrow> NodeDelta set" where
  "in_flight zd s c = {nd. ndl_chitchat_id nd = c
     \<and> (\<exists>bs \<in> cl_net s. \<exists>m rest. message_deserialize zd bs = Inr (m, rest) \<and> nd \<in> set (message_deltas m))}"

definition abs_system :: "zstd \<Rightarrow> ChitchatId \<Rightarrow> 's cluster \<Rightarrow> ChitchatId gossip_system" where
  "abs_system zd c s = \<lparr>sys_owner = c, sys_log = cl_logs s c, sys_states = (\<lambda>p. held s p c), sys_deltas = in_flight zd s c\<rparr>"

text \<open>
  The deliveries that are safe: a reset comes from version 0, and a replica in the middle of a reset
  only takes deltas of senders that have collected as much (the exceptions are C37 and C38); the
  owner of a state is not reset by others.
\<close>

fun delivery_safe :: "'s cluster \<Rightarrow> ChitchatId \<Rightarrow> event \<Rightarrow> bool" where
  "delivery_safe s p (Received (Inr (_, m))) \<longleftrightarrow> (\<forall>nd \<in> set (message_deltas m).
     delta_safe nd (held s p (ndl_chitchat_id nd))
     \<and> (ndl_chitchat_id nd = p \<longrightarrow> \<not> delta_is_reset nd (held s p p)))"
| "delivery_safe s p _ \<longleftrightarrow> True"

lemma held_put [simp]:
  "held (put_server i srv s) p c = (if p = i then replica (srv_chitchat srv) c else held s p c)"
  by (simp add: held_def put_server_def)

lemma held_more [simp]: "held (s\<lparr>cl_net := n\<rparr>) = held s" "held (add_log i L s) = held s"
  by (simp_all add: held_def add_log_def fun_eq_iff)

lemma abs_put:
  "abs_system zd c (put_server i srv s) = sys_update i (replica (srv_chitchat srv) c) (abs_system zd c s)"
  by (simp add: abs_system_def sys_update_def fun_eq_iff) (simp add: put_server_def in_flight_def)

lemma abs_log:
  "abs_system zd c (add_log i L s) = (if c = i then (abs_system zd c s)\<lparr>sys_log := sys_log (abs_system zd c s) @ L\<rparr>
     else abs_system zd c s)"
  by (simp add: abs_system_def) (simp add: add_log_def in_flight_def)

lemma sys_update_idem: "sys_states y i = R \<Longrightarrow> sys_update i R y = y"
  by (simp add: sys_update_def fun_upd_idem)

lemma sys_update_twice [simp]: "sys_update i R (sys_update i R' y) = sys_update i R y"
  by (simp add: sys_update_def)

lemma sys_update_simps [simp]:
  "sys_states (sys_update i R y) j = (if j = i then R else sys_states y j)" "sys_owner (sys_update i R y) = sys_owner y"
  "sys_deltas (sys_update i R y) = sys_deltas y" "sys_log (sys_update i R y) = sys_log y"
  by (simp_all add: sys_update_def)

lemma abs_simps [simp]:
  "sys_owner (abs_system zd c s) = c" "sys_states (abs_system zd c s) p = held s p c"
  "sys_deltas (abs_system zd c s) = in_flight zd s c"
  by (simp_all add: abs_system_def)

subsection \<open>The steps of the gossip that a turn makes\<close>

lemma heartbeat_step: "beats (sys_states y i) R \<Longrightarrow> gossip_step\<^sup>*\<^sup>* y (sys_update i R y)"
  unfolding beats_def using gossip_step.heartbeat by (metis r_into_rtranclp)

lemma gc_step:
  assumes "beats (sys_states y i) R" and "R' \<in> {R, node_gc_keys_marked_for_deletion gp now R}"
  shows "gossip_step\<^sup>*\<^sup>* y (sys_update i R' y)"
proof -
  have "gossip_step\<^sup>*\<^sup>* y (sys_update i R y)" by (rule heartbeat_step [OF assms(1)])
  moreover have "gossip_step (sys_update i R y) (sys_update i (node_gc_keys_marked_for_deletion gp now R) y)"
    using gossip_step.gc [of "sys_update i R y" i gp now] by simp
  ultimately show ?thesis using assms(2) by (auto intro: rtranclp.rtrancl_into_rtrancl)
qed

lemma delivery_step:
  assumes R: "beats (sys_states y i) R" and nd: "nd \<in> sys_deltas y" and safe: "delta_safe nd (sys_states y i)"
    and own: "i = sys_owner y \<Longrightarrow> \<not> delta_is_reset nd (sys_states y i)"
  shows "gossip_step\<^sup>*\<^sup>* y (sys_update i (fst (node_apply_delta nd now R)) y)"
proof -
  have same: "delta_safe nd R = delta_safe nd (sys_states y i)" "delta_is_reset nd R = delta_is_reset nd (sys_states y i)"
    using R by (auto simp: beats_def delta_safe_def delta_is_reset_def delta_is_update_def)
  have "gossip_step\<^sup>*\<^sup>* y (sys_update i R y)" by (rule heartbeat_step [OF R])
  moreover have "gossip_step (sys_update i R y) (sys_update i (fst (node_apply_delta nd now R)) y)"
    using gossip_step.deliver [of nd "sys_update i R y" i now] nd safe own same by simp
  ultimately show ?thesis by (rule rtranclp.rtrancl_into_rtrancl)
qed

text \<open>Sending: all the node deltas of a finite set that report on a replica.\<close>

lemma send_steps:
  assumes "finite D" and "\<forall>nd \<in> D. \<exists>digest scheduled sn. node_delta_covers sn nd
     \<and> stale_node_of digest scheduled (ndl_chitchat_id nd, sys_states y i) = Some sn"
  shows "gossip_step\<^sup>*\<^sup>* y (y\<lparr>sys_deltas := sys_deltas y \<union> D\<rparr>)"
  using assms
proof (induction D)
  case (insert nd D)
  let ?y = "y\<lparr>sys_deltas := sys_deltas y \<union> D\<rparr>"
  obtain digest scheduled sn where sn: "node_delta_covers sn nd"
      "stale_node_of digest scheduled (ndl_chitchat_id nd, sys_states ?y i) = Some sn"
    using insert.prems by auto
  have "gossip_step\<^sup>*\<^sup>* y ?y" using insert by simp
  moreover have "gossip_step ?y (y\<lparr>sys_deltas := sys_deltas y \<union> insert nd D\<rparr>)"
    using gossip_step.send [OF sn(2,1)] by simp
  ultimately show ?case by (rule rtranclp.rtrancl_into_rtrancl)
qed simp

lemma abs_net:
  "abs_system zd c (s\<lparr>cl_net := cl_net s \<union> B\<rparr>) = (abs_system zd c s)\<lparr>sys_deltas := in_flight zd s c \<union> {nd. ndl_chitchat_id nd = c
     \<and> (\<exists>bs \<in> B. \<exists>m rest. message_deserialize zd bs = Inr (m, rest) \<and> nd \<in> set (message_deltas m))}\<rparr>"
  by (auto simp: abs_system_def in_flight_def)

lemma tick_start_steps:
  assumes inv: "cluster_inv P zd s" and i: "cl_servers s i = Some srv"
  shows "gossip_step\<^sup>*\<^sup>* (abs_system zd c s) (sys_update i (replica (after_gc env (srv_chitchat srv)) c) (abs_system zd c s))"
proof -
  note Q = participant_invD [OF cluster_invD(2) [OF inv i]]
  obtain R gp where "beats (held s i c) R"
      "replica (after_gc env (srv_chitchat srv)) c \<in> {R, node_gc_keys_marked_for_deletion gp (env_now env) R}"
    using replica_after_gc [OF Q(1), of c env] by (auto simp: held_def i)
  with gc_step [of "abs_system zd c s" i R] show ?thesis by simp
qed

lemma liveness_steps:
  assumes "cc_wf cc" and "self_chitchat_id cc = i" and "sys_owner y = c" and "sys_states y i = replica cc c"
  shows "gossip_step\<^sup>*\<^sup>* y (sys_update i (replica (update_nodes_liveness now cc) c) y)"
proof -
  note live = replica_update_liveness [OF assms(1), of now]
  have "gossip_step y (sys_update i (NodeState_new c) y)" if "i \<noteq> c"
    using gossip_step.forget [of i y c] that assms(3) by simp
  with live(2) assms(2,4) show ?thesis by (auto simp: live(1) sys_update_idem)
qed

lemma replica_turn_steps:
  assumes inv: "cluster_inv P zd s" and i: "cl_servers s i = Some srv" and ok: "rng_ok ops" "env_ok env"
    and e: "may_happen zd s e" and safe: "delivery_safe s i e"
    and t: "server_turn ops env e srv = Inr (r, srv', sent, fx)"
  shows "gossip_step\<^sup>*\<^sup>* (abs_system zd c s) (abs_system zd c (put_server i srv' s))"
proof -
  let ?cc = "srv_chitchat srv" and ?y = "abs_system zd c s"
  note I = cluster_invD(1-3) [OF inv i] and Q = participant_invD [OF cluster_invD(2) [OF inv i]]
  have held: "held s i c = replica ?cc c" for c by (simp add: held_def i)
  have "gossip_step\<^sup>*\<^sup>* ?y (sys_update i (replica (srv_chitchat srv') c) ?y)"
  proof (cases e)
    case (Received x)
    show ?thesis
    proof (cases x)
      case (Inl err)
      with t Received held show ?thesis by (auto simp: sys_update_idem)
    next
      case (Inr am)
      obtain a m where am: "am = (a, m)" by fastforce
      then have p: "process_message env m ?cc = Inr (srv_chitchat srv', case sent of [] \<Rightarrow> None | (_, r) # _ \<Rightarrow> Some r, fx)"
        using t Received Inr by (auto simp: handle_message_def split: option.splits)
      have "message_acceptable m"
        using may_happen_confined [OF inv e] Received Inr am by (simp add: message_acceptable_def)
      from process_message_effect(1) [OF ok(2) Q(5,7) this p, of c]
      obtain R where R: "beats (held s i c) R" "replica (srv_chitchat srv') c =
          (case delta_for c m of None \<Rightarrow> R | Some nd \<Rightarrow> fst (node_apply_delta nd (env_now env) R))"
        by (auto simp: held)
      show ?thesis
      proof (cases "delta_for c m")
        case None
        with R heartbeat_step [of ?y i R] show ?thesis by simp
      next
        case (Some nd)
        then have nd: "nd \<in> set (message_deltas m)" "ndl_chitchat_id nd = c" by (simp_all add: delta_for_Some)
        obtain bs where bs: "bs \<in> cl_net s" "receive_one zd (a, bs) = Some (a, m)" using e Received Inr am by auto
        have "take MAX_UDP_DATAGRAM_PAYLOAD_SIZE bs = bs" using cluster_invD(4) [OF inv bs(1)] by simp
        then obtain rest where "message_deserialize zd bs = Inr (m, rest)"
          using bs(2) by (auto simp: receive_one_def split: sum.splits)
        then have "nd \<in> in_flight zd s c" using nd bs(1) by (auto simp: in_flight_def)
        moreover have "delta_safe nd (held s i c)" "c = i \<longrightarrow> \<not> delta_is_reset nd (held s i i)"
          using safe Received Inr am nd by auto
        ultimately show ?thesis using delivery_step [of ?y i R nd "env_now env"] R Some by auto
      qed
    qed
  next
    case GossipTick
    let ?cc1 = "after_gc env ?cc"
    have g: "gossip_multiple ops env srv = (srv', sent)" using t GossipTick by (auto split: prod.splits)
    have wf: "cc_wf ?cc1" "self_chitchat_id ?cc1 = i"
      using after_gc_sendable [OF Q(1), of env] I(3) by (simp_all add: cc_sendable_def self_chitchat_id_def)
    have "gossip_step\<^sup>*\<^sup>* ?y (sys_update i (replica ?cc1 c) ?y)" by (rule tick_start_steps [OF inv i])
    also have "gossip_step\<^sup>*\<^sup>* (sys_update i (replica ?cc1 c) ?y) (sys_update i (replica (srv_chitchat srv') c) ?y)"
      using liveness_steps [OF wf, of "sys_update i (replica ?cc1 c) ?y" c "env_now env"] by (simp add: gossip_multiple_eq(1) [OF g])
    finally show ?thesis .
  next
    case (CommandReceived cmd)
    then have "srv' = srv"
      using t by (cases "(ops, env, e, srv)" rule: server_turn.cases) auto
    then show ?thesis
      using held by (simp add: sys_update_idem)
  qed
  then show ?thesis unfolding abs_put .
qed

lemma turn_steps:
  assumes inv: "cluster_inv P zd s" and i: "cl_servers s i = Some srv" and ok: "rng_ok ops" "env_ok env" "zstd_inverse (env_zstd env) zd"
    and e: "may_happen zd s e" "delivery_safe s i e"
    and t: "server_turn ops env e srv = Inr (r, srv', sent, fx)"
  shows "gossip_step\<^sup>*\<^sup>* (abs_system zd c s)
    (abs_system zd c ((put_server i srv' s)\<lparr>cl_net := cl_net s \<union> payloads (env_zstd env) sent\<rparr>))"
proof -
  let ?s = "put_server i srv' s" and ?B = "payloads (env_zstd env) sent"
  let ?D = "{nd. ndl_chitchat_id nd = c \<and> (\<exists>bs \<in> ?B. \<exists>m rest. message_deserialize zd bs = Inr (m, rest) \<and> nd \<in> set (message_deltas m))}"
  note T = turn_in_cluster' [OF inv i ok(1,2) e(1) t]
  have new: "nd \<in> (\<Union>(a, m) \<in> set sent. set (message_deltas m)) \<and> reports_on (srv_chitchat srv') nd" if nd: "nd \<in> ?D" for nd
  proof -
    obtain bs m rest where bs: "bs \<in> ?B" "message_deserialize zd bs = Inr (m, rest)" "nd \<in> set (message_deltas m)"
      using nd by blast
    then obtain a m' where m': "(a, m') \<in> set sent" "udp_payload (env_zstd env) m' = Inr bs"
      by (auto simp: payloads_def)
    with T(3) have "good_message P (env_zstd env) m'" by auto
    then have "m' = m" using good_message_decodes [OF _ ok(2,3) m'(2)] bs(2) by simp
    with m' bs(3) T(3) show ?thesis by auto
  qed
  have "finite (\<Union>(a, m) \<in> set sent. set (message_deltas m))" by (intro finite_UN_I) auto
  then have fin: "finite ?D" by (rule rev_finite_subset) (use new in blast)
  have "gossip_step\<^sup>*\<^sup>* (abs_system zd c s) (abs_system zd c ?s)"
    by (rule replica_turn_steps [OF inv i ok(1,2) e t])
  also have "gossip_step\<^sup>*\<^sup>* (abs_system zd c ?s) ((abs_system zd c ?s)\<lparr>sys_deltas := sys_deltas (abs_system zd c ?s) \<union> ?D\<rparr>)"
  proof (rule send_steps [OF fin, where i = i], rule ballI)
    fix nd
    assume "nd \<in> ?D"
    with new [OF this] show "\<exists>digest scheduled sn. node_delta_covers sn nd
        \<and> stale_node_of digest scheduled (ndl_chitchat_id nd, sys_states (abs_system zd c ?s) i) = Some sn"
      by (auto simp: reports_on_def)
  qed
  also have "(abs_system zd c ?s)\<lparr>sys_deltas := sys_deltas (abs_system zd c ?s) \<union> ?D\<rparr>
      = abs_system zd c (?s\<lparr>cl_net := cl_net ?s \<union> ?B\<rparr>)"
    unfolding abs_net by simp
  finally show ?thesis by (simp add: put_server_net)
qed

lemma write_steps:
  assumes inv: "cluster_inv P zd s" and i: "cl_servers s i = Some srv" and w: "write_ok w"
    and room: "ns_max_version (self_node_state (srv_chitchat srv)) \<noteq> - 1" and wr: "self_write w now (srv_chitchat srv) = Inr cc"
  shows "gossip_step\<^sup>*\<^sup>* (abs_system zd c s) (abs_system zd c
    (add_log i (logged (write_key w) (self_node_state (srv_chitchat srv)) (self_node_state cc))
      (put_server i (srv\<lparr>srv_chitchat := cc\<rparr>) s)))"
proof -
  let ?cc = "srv_chitchat srv" and ?y = "abs_system zd c s"
  note I = cluster_invD(2,3) [OF inv i] and Q = participant_invD [OF cluster_invD(2) [OF inv i]]
  obtain ns where ns: "cc = put_self_node_state ns ?cc" "owner_write w now (self_node_state ?cc) = Inr ns"
    by (rule self_write_put [OF I(1) wr])
  have held: "held s i c = replica ?cc c" for c by (simp add: held_def i)
  have self: "self_node_state ?cc = held s i i" using I(2) by (simp add: self_node_state_replica held)
  have new: "self_node_state cc = ns" using Q(6) by (simp add: ns(1))
  show ?thesis
  proof (cases "c = i")
    case True
    have "gossip_step ?y ((sys_update i ns ?y)\<lparr>sys_log := sys_log ?y @ logged (write_key w) (held s i i) ns\<rparr>)"
      using gossip_step.owner [of ?y w now ns] room ns(2) self True by simp
    moreover have "replica cc c = ns" using ns(1) Q(6) I(2) True by simp
    ultimately show ?thesis using self new True by (simp add: abs_log abs_put r_into_rtranclp)
  next
    case False
    then have "replica cc c = held s i c" using ns(1) Q(6) I(2) held by simp
    with False show ?thesis by (simp add: abs_log abs_put sys_update_idem)
  qed
qed

lemma join_steps:
  assumes "cl_servers s i = None" and "i = cfg_chitchat_id config" and "config_ok config kvs" and "finite seeds"
    and "with_chitchat_id_and_seeds config seeds kvs = Inr cc"
  shows "gossip_step\<^sup>*\<^sup>* (abs_system zd c s) (abs_system zd c
    (add_log i (initial_log kvs (inc_heartbeat (NodeState_new i))) (put_server i \<lparr>srv_chitchat = cc, srv_rng = rng\<rparr> s)))"
proof (cases "c = i")
  case True
  let ?y = "abs_system zd i s"
  have held: "held s i i = NodeState_new i" using assms(1) by (simp add: held_def)
  let ?z = "sys_update i (inc_heartbeat (NodeState_new i)) ?y"
  have "gossip_step\<^sup>*\<^sup>* ?y ?z" using held by (intro heartbeat_step) simp
  moreover have "gossip_step\<^sup>*\<^sup>* ?z ((sys_update (sys_owner ?z) (replica cc i) ?z)\<lparr>sys_log := sys_log ?z
      @ initial_log kvs (inc_heartbeat (NodeState_new i))\<rparr>)"
    by (rule joins_ok(5) [OF assms(3-5,2)]) simp
  ultimately have "gossip_step\<^sup>*\<^sup>* ?y ((sys_update (sys_owner ?z) (replica cc i) ?z)\<lparr>sys_log := sys_log ?z
      @ initial_log kvs (inc_heartbeat (NodeState_new i))\<rparr>)" by (rule rtranclp_trans)
  then show ?thesis using True by (simp add: abs_log abs_put)
next
  case False
  then have "replica cc c = held s i c"
    using joins_ok(3) [OF assms(3-5,2), of c] assms(1) by (simp add: held_def)
  with False show ?thesis by (simp add: abs_log abs_put sys_update_idem)
qed

lemma replica_peripheral: "peripheral_step cc cc' \<Longrightarrow> replica cc' = replica cc"
  by (drule peripheral_step_same(2)) (simp add: fun_eq_iff replica_def node_state_mut_def)

lemma abs_system_step:
  assumes inv: "cluster_inv P zd s" and "cluster_step P zd ops delivery_safe s s'"
  shows "gossip_step\<^sup>*\<^sup>* (abs_system zd c s) (abs_system zd c s')"
  using assms(2)
proof cases
  case (joins i config kvs seeds cc rng)
  from join_steps [OF joins(4) joins(5) [symmetric] joins(6,8,10)] show ?thesis by (simp add: joins(1))
next
  case (takes_turn i srv env e r srv' sent fx)
  from turn_steps [OF inv takes_turn(2-8)] show ?thesis by (simp add: takes_turn(1))
next
  case (tick_starts i srv env srv' addrs)
  from tick_start_steps [OF inv tick_starts(2), of c env] show ?thesis
    by (simp add: tick_starts(1) abs_put gossip_multiple_start_eq [OF tick_starts(4)])
next
  case (tick_ends i srv env)
  note I = cluster_invD(2,3) [OF inv tick_ends(2)]
  from liveness_steps [OF participant_invD(6) [OF I(1)] I(2), of "abs_system zd c s" c "env_now env"] show ?thesis
    by (simp add: tick_ends(1,2) abs_put gossip_multiple_end_def held_def)
next
  case (owner_writes i srv w now cc)
  from write_steps [OF inv owner_writes(2-5)] show ?thesis by (simp add: owner_writes(1))
next
  case (peripheral i srv cc)
  with replica_peripheral [OF peripheral(3)] show ?thesis by (simp add: abs_put sys_update_idem held_def)
qed

interpretation safe_cluster: refinement_map cluster_init "cluster_step P zd ops delivery_safe" "cluster_inv P zd"
  gossip_init gossip_step "abs_system zd c" for P zd ops c
proof
  fix s :: "'b cluster"
  assume "cluster_init s"
  then have "abs_system zd c s = gossip_start c (\<lambda>_. c)"
    by (simp add: cluster_init_def abs_system_def gossip_start_def held_def in_flight_def)
  then show "gossip_init (abs_system zd c s)" by (auto simp: gossip_init_def)
qed (rule abs_system_step)

section \<open>A cluster of one\<close>

abbreviation demo_node_id :: ChitchatId where
  "demo_node_id \<equiv> cfg_chitchat_id demo_config"

definition demo_joined :: "unit cluster" where
  "demo_joined = add_log demo_node_id [] (put_server demo_node_id \<lparr>srv_chitchat = demo_chitchat, srv_rng = ()\<rparr>
     \<lparr>cl_servers = \<lambda>_. None, cl_logs = \<lambda>_. [], cl_net = {}\<rparr>)"

lemma demo_participants_ok: "participants_ok {demo_node_id}"
  using demo_chitchat_id(3) by (simp add: participants_ok_def) (simp add: demo_config_def len_id_def len_str_def len_addr_def)

lemma demo_joined_reachable:
  "reachable cluster_init (cluster_step {demo_node_id} zd demo_rng allowed) demo_joined"
proof -
  let ?s = "\<lparr>cl_servers = \<lambda>_. None, cl_logs = \<lambda>_. [], cl_net = {}\<rparr> :: unit cluster"
  have config: "config_ok demo_config []" "wire_string (cfg_cluster_id demo_config)"
    using demo_config_window demo_chitchat_id(3) by (simp_all add: config_ok_def) (simp add: demo_config_def wire_string_ascii)
  have "cluster_step {demo_node_id} zd demo_rng allowed ?s demo_joined"
    using cluster_step.joins [OF demo_participants_ok, of demo_node_id ?s demo_config "[]" "{}" demo_chitchat zd demo_rng allowed "()"]
      config demo_chitchat_created by (simp add: demo_joined_def)
  moreover have "cluster_init ?s" by (simp add: cluster_init_def)
  ultimately show ?thesis by (blast intro: reachable.intros)
qed

lemma demo_joined_server [simp]:
  "cl_servers demo_joined demo_node_id = Some \<lparr>srv_chitchat = demo_chitchat, srv_rng = ()\<rparr>"
  by (simp add: demo_joined_def put_server_def add_log_def)

section \<open>Properties\<close>

text \<open>
  C4. No server of a cluster ever panics: in every reachable state, whatever datagrams were lost,
  duplicated, delayed, reordered or sent to the wrong node, every server handles every datagram that
  the cluster has produced, every tick and every command; the loop stops only on a broken transport
  or a shutdown; and every message it sends can be encoded and is decoded to itself by its receiver.
  The participants are few enough for a digest of at most 65406 bytes, and applications use keys that
  start with a one-byte character.
\<close>

theorem cluster_never_panics:
  assumes "reachable cluster_init (cluster_step P zd ops allowed) s" and "cl_servers s i = Some srv"
    and "rng_ok ops" and "env_ok env" and "zstd_inverse (env_zstd env) zd" and "may_happen zd s e"
  shows "\<exists>r srv' sent fx. server_turn ops env e srv = Inr (r, srv', sent, fx) \<and> (r = StillRunning \<longleftrightarrow> \<not> stops e)
    \<and> (\<forall>(a, m) \<in> set sent. \<exists>bs. udp_payload (env_zstd env) m = Inr bs \<and> message_deserialize zd bs = Inr (m, []))"
proof -
  have inv: "cluster_inv P zd s" by (rule any_cluster.invariant [OF assms(1)])
  obtain r srv' sent fx where t: "server_turn ops env e srv = Inr (r, srv', sent, fx)"
      "participant_inv P (srv_chitchat srv')" "self_chitchat_id (srv_chitchat srv') = i"
      "\<forall>(a, m) \<in> set sent. good_message P (env_zstd env) m \<and> (\<forall>nd \<in> set (message_deltas m). reports_on (srv_chitchat srv') nd)"
    by (rule turn_in_cluster [OF inv assms(2-4,6)])
  have "event_acceptable e"
    using may_happen_confined [OF inv assms(6)] by (cases "(P, e)" rule: event_confined.cases) (simp_all add: message_acceptable_def)
  then have "r = StillRunning \<longleftrightarrow> \<not> stops e"
    using server_turn_spec [OF participant_invD(1) [OF cluster_invD(2) [OF inv assms(2)]] assms(3,4)] t(1) by fastforce
  moreover have "\<exists>bs. udp_payload (env_zstd env) m = Inr bs \<and> message_deserialize zd bs = Inr (m, [])"
    if "(a, m) \<in> set sent" for a m
  proof -
    have good: "good_message P (env_zstd env) m" using t(4) that by auto
    then obtain bs where "udp_payload (env_zstd env) m = Inr bs" by (auto simp: good_message_def udp_payload_def)
    with good_message_decodes [OF good assms(4,5)] show ?thesis by blast
  qed
  ultimately show ?thesis using t(1) by blast
qed

theorem cluster_never_panics_witness:
  "\<exists>srv' sent fx. server_turn demo_rng demo_env GossipTick \<lparr>srv_chitchat = demo_chitchat, srv_rng = ()\<rparr>
     = Inr (StillRunning, srv', sent, fx)"
proof -
  have "zstd_inverse (env_zstd demo_env) zstd_never" by (simp add: demo_env_def zstd_never_contract)
  from cluster_never_panics [OF demo_joined_reachable demo_joined_server demo_rng_ok demo_env_ok this, of GossipTick]
  show ?thesis by (simp del: server_turn.simps) blast
qed



text \<open>
  C3. In every reachable state of a cluster with safe deliveries, every node's own state is up to date
  with the history of its application's writes, and every participant's replica of it agrees with that
  history: what it stores was written, nothing up to its max version is missing but collected
  deletions, and once it has caught up it shows the last value written to each key, or nothing when
  that value was deleted or its time to live has run out.
\<close>

theorem cluster_replicas_correct:
  assumes "reachable cluster_init (cluster_step P zd ops delivery_safe) s"
  shows "log_wf (cl_logs s c) \<and> ns_max_version (held s c c) = log_max (cl_logs s c)
    \<and> replica_inv (cl_logs s c) (held s p c)
    \<and> (caught_up (cl_logs s c) (held s p c) \<longrightarrow> get (held s p c) k = visible (cl_logs s c) k
       \<or> (expired (cl_logs s c) (held s p c) k \<and> get (held s p c) k = None))"
proof -
  have "sys_inv (abs_system zd c s)" by (rule gossip.invariant [OF safe_cluster.refines [OF assms]])
  then have I: "log_wf (cl_logs s c)" "owner_inv (cl_logs s c) (held s c c)" "replica_inv (cl_logs s c) (held s p c)"
    by (simp_all add: sys_inv_def abs_system_def)
  with caught_up_visible [OF I(1,3), of k] show ?thesis by (auto simp: owner_inv_def)
qed

theorem cluster_replicas_correct_witness:
  "\<exists>s. reachable cluster_init (cluster_step {demo_node_id} zstd_never demo_rng delivery_safe) s
     \<and> visible (cl_logs s demo_node_id) ''a'' = Some ''1''"
proof -
  let ?srv = "\<lparr>srv_chitchat = demo_chitchat, srv_rng = ()\<rparr>"
  have self: "self_node_state demo_chitchat = inc_heartbeat (NodeState_new demo_node_id)"
    by (simp add: demo_chitchat_def update_self_heartbeat_def put_self_node_state_def self_node_state_def
        self_chitchat_id_def cs_wf_with_seed_addrs)
      (simp add: with_seed_addrs_def node_state_mut_def)
  have room: "ns_max_version (self_node_state demo_chitchat) \<noteq> - 1"
    by (simp add: self inc_heartbeat_def NodeState_new_def)
  have key: "''a'' = [] \<or> is_char_boundary ''a'' 1" by (simp add: is_char_boundary_def)
  obtain cc fx where cc: "self_set ''a'' ''1'' demo_chitchat = Inr (cc, fx)" "cc_config cc = cc_config demo_chitchat"
      "get (self_node_state cc) ''a'' = Some ''1''"
    using self_set_ok [OF demo_chitchat_wf(1) room key, of "''1''" "''a''"] by auto
  have wr: "self_write (WSet ''a'' ''1'') 0 (srv_chitchat ?srv) = Inr cc" by (simp add: cc(1))
  have "write_ok (WSet ''a'' ''1'')" using key by (simp add: write_ok_def key_ok_def wire_string_ascii)
  from cluster_step.owner_writes [OF demo_joined_server this _ wr] room
  obtain s where s: "cluster_step {demo_node_id} zstd_never demo_rng delivery_safe demo_joined s"
      "cl_servers s demo_node_id = Some (?srv\<lparr>srv_chitchat := cc\<rparr>)"
    by (fastforce simp: put_server_def add_log_def)
  have r: "reachable cluster_init (cluster_step {demo_node_id} zstd_never demo_rng delivery_safe) s"
    by (rule reachable.then_step [OF demo_joined_reachable s(1)])
  have "get (held s demo_node_id demo_node_id) ''a'' = Some ''1''"
    using cc(2,3) by (simp add: held_def s(2) self_node_state_replica self_chitchat_id_def demo_chitchat_id)
  with cluster_replicas_correct [OF r, of demo_node_id demo_node_id "''a''"]
    caught_up_at_max [of "cl_logs s demo_node_id" "held s demo_node_id demo_node_id"] r show ?thesis by auto
qed

end
