(* ===== verification/Handshake.thy ===== *)
theory Handshake
  imports Cluster
begin

text \<open>
  Liveness of the handshake: when what a participant misses fits in one block of the compressed stream
  and in the datagram, the delta is not cut short, and one Syn and one SynAck bring the replica of the
  answering node up to date.
\<close>

section \<open>Deltas that are not cut short\<close>

text \<open>The serializer has room for \<open>n\<close> more bytes without flushing its block.\<close>

definition roomy :: "DeltaSerializer \<Rightarrow> nat \<Rightarrow> bool" where
  "roomy s n \<longleftrightarrow> (let w = ds_compressed_stream_writer s in csw_output w = []
     \<and> length (csw_uncompressed_block w) + n \<le> csw_block_threshold w \<and> csw_block_threshold w \<le> 65535
     \<and> length (csw_uncompressed_block w) + n + 4 \<le> ds_mtu s)"

lemma try_add_op_roomy:
  assumes "roomy s (len_op op + n)" and "op_wf op" and "apply_op (ds_delta_builder s) op = Inr b"
  shows "\<exists>s'. try_add_op zc op s = Inr (True, s') \<and> ds_delta_builder s' = b \<and> roomy s' n"
proof -
  let ?w = "ds_compressed_stream_writer s"
  have w: "csw_output ?w = []" "length (csw_uncompressed_block ?w) + len_op op + n \<le> csw_block_threshold ?w"
    "csw_block_threshold ?w \<le> 65535" "length (csw_uncompressed_block ?w) + len_op op + n + 4 \<le> ds_mtu s"
    using assms(1) by (simp_all add: roomy_def Let_def add.assoc)
  have len: "length (ser_op op) = len_op op" by (rule op.length_ser [OF assms(2)])
  have "serialized_len_upperbound_after len_op ?w op = Inr (3 + length (csw_uncompressed_block ?w) + len_op op + 1)"
    using w(1,2) len_op_pos [of op] by (simp add: serialized_len_upperbound_after_def Let_def)
  moreover have "append_item zc ser_op len_op op ?w = Inr (?w\<lparr>csw_uncompressed_block := csw_uncompressed_block ?w @ ser_op op\<rparr>)"
    using w(2,3) len by (intro append_item_no_flush) simp_all
  ultimately have "try_add_op zc op s = Inr (True, s\<lparr>ds_compressed_stream_writer :=
      ?w\<lparr>csw_uncompressed_block := csw_uncompressed_block ?w @ ser_op op\<rparr>, ds_delta_builder := b\<rparr>)"
    using w(4) assms(3) by (simp add: try_add_op_def)
  then show ?thesis using w len by (simp add: roomy_def Let_def)
qed

definition ops_len :: "DeltaOp list \<Rightarrow> nat" where
  "ops_len ops = (\<Sum>op \<leftarrow> ops. len_op op)"

lemma ops_len_simps [simp]: "ops_len [] = 0" "ops_len (op # ops) = len_op op + ops_len ops"
  "ops_len (ops @ ops') = ops_len ops + ops_len ops'"
  by (simp_all add: ops_len_def)

lemma add_kvs_roomy:
  assumes "roomy s (ops_len (map (\<lambda>e. OpKeyValue (kv_mutation e)) kvs) + n)"
    and "db_current_node_delta (ds_delta_builder s) = Some nd"
    and "sorted_wrt (<) (map kvm_version (ndl_key_values nd @ map kv_mutation kvs))"
    and "\<forall>m \<in> set (map kv_mutation kvs). kvm_wf m"
  shows "\<exists>s'. add_stale_key_values zc kvs added s = Inr (False, added \<or> kvs \<noteq> [], s') \<and> roomy s' n
    \<and> ds_delta_builder s' = (ds_delta_builder s)\<lparr>db_current_node_delta :=
        Some (nd\<lparr>ndl_key_values := ndl_key_values nd @ map kv_mutation kvs\<rparr>)\<rparr>"
  using assms
proof (induction kvs arbitrary: s nd added)
  case Nil
  then show ?case by (cases "ds_delta_builder s") auto
next
  case (Cons e kvs)
  let ?m = "kv_mutation e" and ?b = "ds_delta_builder s"
  let ?nd = "nd\<lparr>ndl_key_values := ndl_key_values nd @ [?m]\<rparr>"
  have "ndl_key_values nd \<noteq> [] \<Longrightarrow> kvm_version (last (ndl_key_values nd)) < kvm_version ?m"
    using Cons.prems(3) by (auto simp: sorted_wrt_append)
  then have ok: "apply_op ?b (OpKeyValue ?m) = Inr (?b\<lparr>db_current_node_delta := Some ?nd\<rparr>)"
    using Cons.prems(2) by auto
  have room: "roomy s (len_op (OpKeyValue ?m) + (ops_len (map (\<lambda>e. OpKeyValue (kv_mutation e)) kvs) + n))" "op_wf (OpKeyValue ?m)"
    using Cons.prems(1,4) by (simp_all add: add.assoc)
  obtain s1 where s1: "try_add_op zc (OpKeyValue ?m) s = Inr (True, s1)"
      "ds_delta_builder s1 = ?b\<lparr>db_current_node_delta := Some ?nd\<rparr>"
      "roomy s1 (ops_len (map (\<lambda>e. OpKeyValue (kv_mutation e)) kvs) + n)"
    using try_add_op_roomy [OF room ok, of zc] by blast
  have "try_add_kv zc (fst e) (snd e) s = Inr (True, s1)" using s1(1) by (simp add: try_add_kv_def kv_mutation_def)
  with Cons.IH [OF s1(3), of ?nd True] s1(2) Cons.prems(3,4) show ?case by (cases e) simp
qed

lemma add_node_roomy:
  assumes room: "roomy s (ops_len (node_delta_operations (full_node_delta sn)) + n)"
    and fresh: "sn_chitchat_id sn \<notin> db_existing_nodes (ds_delta_builder s)"
    and wf: "ns_wf (sn_node_state sn)" "sn_codable sn"
  shows "\<exists>s'. add_stale_node zc sn s = Inr (True, s') \<and> roomy s' n
    \<and> builder_nodes (ds_delta_builder s') = builder_nodes (ds_delta_builder s) @ [full_node_delta sn]
    \<and> db_existing_nodes (ds_delta_builder s') = insert (sn_chitchat_id sn) (db_existing_nodes (ds_delta_builder s))"
proof -
  let ?b = "ds_delta_builder s" and ?i = "sn_chitchat_id sn" and ?ns = "sn_node_state sn"
  let ?op = "OpNode ?i (ns_last_gc_version ?ns) (sn_from_version_excluded sn)" and ?kvs = "sn_stale_key_values sn"
  let ?b1 = "\<lambda>nd. (builder_flush ?b)\<lparr>db_existing_nodes := insert ?i (db_existing_nodes ?b), db_current_node_delta := Some nd\<rparr>"
  let ?set = "if ?kvs = [] then [OpSetMaxVersion (ns_max_version ?ns)] else []"
  have ops: "node_delta_operations (full_node_delta sn) = ?op # map (\<lambda>e. OpKeyValue (kv_mutation e)) ?kvs @ ?set"
    by (simp add: node_delta_operations_def full_node_delta_def sn_node_delta_def sn_mutations_def comp_def)
  have b1: "builder_nodes (?b1 nd) = builder_nodes ?b @ [nd]" for nd by (simp add: builder_nodes_current)
  have ok: "apply_op ?b ?op = Inr (?b1 (sn_node_delta sn))" using fresh by (simp add: Let_def sn_node_delta_def)
  have op: "roomy s (len_op ?op + (ops_len (map (\<lambda>e. OpKeyValue (kv_mutation e)) ?kvs) + (ops_len ?set + n)))" "op_wf ?op"
    using room wf(2) by (simp_all add: ops add.assoc sn_codable_def del: len_op.simps)
  obtain s1 where s1: "try_add_op zc ?op s = Inr (True, s1)" "ds_delta_builder s1 = ?b1 (sn_node_delta sn)"
      "roomy s1 (ops_len (map (\<lambda>e. OpKeyValue (kv_mutation e)) ?kvs) + (ops_len ?set + n))"
    using try_add_op_roomy [OF op ok, of zc] by blast
  have kvs: "sorted_wrt (<) (map kvm_version (ndl_key_values (sn_node_delta sn) @ map kv_mutation ?kvs))"
      "\<forall>m \<in> set (map kv_mutation ?kvs). kvm_wf m" "db_current_node_delta (ds_delta_builder s1) = Some (sn_node_delta sn)"
    using sorted_sn_mutations [OF wf(1)] wf(2) s1(2) by (simp_all add: sn_mutations_def sn_codable_def sn_node_delta_def)
  obtain s2 where s2: "add_stale_key_values zc ?kvs False s1 = Inr (False, ?kvs \<noteq> [], s2)" "roomy s2 (ops_len ?set + n)"
      "ds_delta_builder s2 = ?b1 ((sn_node_delta sn)\<lparr>ndl_key_values := sn_mutations sn\<rparr>)"
    using add_kvs_roomy [OF s1(3) kvs(3,1,2), of zc False] s1(2) by (auto simp: sn_mutations_def sn_node_delta_def)
  show ?thesis
  proof (cases "?kvs = []")
    case False
    then have "full_node_delta sn = (sn_node_delta sn)\<lparr>ndl_key_values := sn_mutations sn\<rparr>"
      by (simp add: full_node_delta_def sn_mutations_def sn_node_delta_def)
    with False s1(1) s2 show ?thesis by (simp add: add_stale_node_def try_add_node_def b1)
  next
    case True
    have ok2: "apply_op (ds_delta_builder s2) (OpSetMaxVersion (ns_max_version ?ns)) = Inr (?b1 (full_node_delta sn))"
      using s2(3) True by (simp add: full_node_delta_def sn_mutations_def)
    obtain s3 where "try_add_op zc (OpSetMaxVersion (ns_max_version ?ns)) s2 = Inr (True, s3)"
        "ds_delta_builder s3 = ?b1 (full_node_delta sn)" "roomy s3 n"
      using try_add_op_roomy [OF _ _ ok2, of n zc] s2(2) True by auto
    with True s1(1) s2(1) show ?thesis by (simp add: add_stale_node_def try_add_node_def try_set_max_version_def b1)
  qed
qed

lemma add_nodes_roomy:
  assumes "roomy s (\<Sum>sn \<leftarrow> sns. ops_len (node_delta_operations (full_node_delta sn)))" and "distinct (map sn_chitchat_id sns)"
    and "db_existing_nodes (ds_delta_builder s) \<inter> sn_chitchat_id ` set sns = {}"
    and "\<forall>sn \<in> set sns. ns_wf (sn_node_state sn) \<and> sn_codable sn"
  shows "\<exists>s'. add_stale_nodes zc sns s = Inr s'
    \<and> builder_nodes (ds_delta_builder s') = builder_nodes (ds_delta_builder s) @ map full_node_delta sns"
  using assms
proof (induction sns arbitrary: s)
  case (Cons sn sns)
  obtain s1 where s1: "add_stale_node zc sn s = Inr (True, s1)"
      "roomy s1 (\<Sum>sn \<leftarrow> sns. ops_len (node_delta_operations (full_node_delta sn)))"
      "builder_nodes (ds_delta_builder s1) = builder_nodes (ds_delta_builder s) @ [full_node_delta sn]"
      "db_existing_nodes (ds_delta_builder s1) = insert (sn_chitchat_id sn) (db_existing_nodes (ds_delta_builder s))"
    using add_node_roomy [of s sn "\<Sum>sn \<leftarrow> sns. ops_len (node_delta_operations (full_node_delta sn))" zc] Cons.prems by auto
  have "db_existing_nodes (ds_delta_builder s1) \<inter> sn_chitchat_id ` set sns = {}"
    using Cons.prems(2,3) by (auto simp: s1(4))
  with Cons.IH [OF s1(2)] Cons.prems(2,4) s1(1,3) show ?case by auto
qed simp

text \<open>The number of bytes that all that a digest asks for takes, before compression.\<close>

definition missing_bytes :: "Digest \<Rightarrow> ChitchatId set \<Rightarrow> ClusterState \<Rightarrow> nat" where
  "missing_bytes digest scheduled cs =
     (\<Sum>sn \<leftarrow> offered digest scheduled (cs_node_states cs). ops_len (node_delta_operations (full_node_delta sn)))"

lemma sum_list_mset: "mset xs = mset ys \<Longrightarrow> sum_list (map f xs) = sum_list (map f ys :: nat list)"
  by (metis mset_map sum_mset_sum_list)

lemma compute_full_delta_list:
  assumes sh: "permutes shuffle" and wf: "cs_wf cs" "cs_codable cs" and mtu: "100 \<le> mtu"
    and room: "missing_bytes digest scheduled cs \<le> 16384" "missing_bytes digest scheduled cs + 4 \<le> mtu"
    and d: "compute_partial_delta_respecting_mtu zc shuffle cs digest mtu scheduled = Inr d"
  defines "sns \<equiv> stale_into_iter shuffle (foldl (\<lambda>ssn e. offer_node digest scheduled e ssn) [] (cs_node_states cs))"
  shows "node_deltas d = map full_node_delta sns" and "mset sns = mset (offered digest scheduled (cs_node_states cs))"
proof -
  let ?off = "offered digest scheduled (cs_node_states cs)"
  have "ssn_wf []" by (simp add: ssn_wf_def)
  from offer_all [OF this, of digest scheduled "cs_node_states cs"]
  show mset: "mset sns = mset ?off" using mset_stale_into_iter [OF sh] by (simp add: sns_def)
  obtain s where s: "with_mtu mtu = Inr s" using with_mtu_ok [OF mtu] by blast
  have s0: "ds_delta_builder s = DeltaBuilder_default" "roomy s (missing_bytes digest scheduled cs)"
    using s room by (auto simp: with_mtu_def Let_def BLOCK_THRESHOLD_def roomy_def with_block_threshold_def
        unat_of_nat_u16 split: if_splits)
  have "distinct (map fst (cs_node_states cs))" using wf(1) by (simp add: cs_wf_def btm_wf_def strict_sorted_iff)
  then have "distinct (map sn_chitchat_id sns)"
    using distinct_offered [of "cs_node_states cs" digest scheduled] mset_eq_imp_distinct_iff [of "map sn_chitchat_id sns"] mset
    by (metis mset_map)
  moreover have "\<forall>sn \<in> set sns. ns_wf (sn_node_state sn) \<and> sn_codable sn"
    using offered_wf(1,2) [OF wf] mset_eq_setD [OF mset] by blast
  moreover have "roomy s (\<Sum>sn \<leftarrow> sns. ops_len (node_delta_operations (full_node_delta sn)))"
    using s0(2) sum_list_mset [OF mset] by (simp add: missing_bytes_def)
  ultimately obtain s' where "add_stale_nodes zc sns s = Inr s'"
      "builder_nodes (ds_delta_builder s') = map full_node_delta sns"
    using add_nodes_roomy [of s sns zc] s0(1) by (auto simp: builder_nodes_def DeltaBuilder_default_def Delta_default_def)
  then show "node_deltas d = map full_node_delta sns"
    using d s by (auto simp: compute_partial_delta_respecting_mtu_def sns_def [symmetric] finish_delta_def builder_finish_eq)
qed

lemma compute_full_delta:
  assumes "permutes shuffle" and "cs_wf cs" "cs_codable cs" and "100 \<le> mtu"
    and "missing_bytes digest scheduled cs \<le> 16384" "missing_bytes digest scheduled cs + 4 \<le> mtu"
    and "compute_partial_delta_respecting_mtu zc shuffle cs digest mtu scheduled = Inr d"
  shows "set (node_deltas d) = full_node_delta ` set (offered digest scheduled (cs_node_states cs))"
  using compute_full_delta_list(1) [OF assms] mset_eq_setD [OF compute_full_delta_list(2) [OF assms]] by simp

section \<open>What a digest tells\<close>

text \<open>The digest describes the state \<open>R\<close> of node \<open>c\<close>, or leaves out an empty one.\<close>

definition digest_tells :: "Digest \<Rightarrow> ChitchatId \<Rightarrow> NodeState \<Rightarrow> bool" where
  "digest_tells g c R \<longleftrightarrow> (case btm_get (node_digests g) c of
     None \<Rightarrow> ns_last_gc_version R = 0 \<and> ns_max_version R = 0
   | Some nd \<Rightarrow> nd_last_gc_version nd = ns_last_gc_version R \<and> nd_max_version nd = ns_max_version R)"

lemma map_of_filtered: "map_of (map (\<lambda>(i, x). (i, f x)) (filter (\<lambda>(i, _). P i) m)) c = (if P c then map_option f (map_of m c) else None)"
  by (induction m) auto

lemma own_digest_tells: "c \<notin> scheduled \<Longrightarrow> digest_tells (cc_compute_digest scheduled cc) c (replica cc c)"
  by (auto simp: digest_tells_def cc_compute_digest_def cluster_compute_digest_def btm_get_def map_of_filtered
      replica_def node_state_mut_def node_digest_of_def NodeState_new_def split: option.splits)

lemma digest_tells_beats: "beats R R' \<Longrightarrow> digest_tells g c R' = digest_tells g c R"
  by (auto simp: digest_tells_def beats_def split: option.splits)

lemma stale_node_of_told:
  assumes "digest_tells g c R" and "c \<notin> scheduled"
  shows "stale_node_of g scheduled (c, N) = stale_node_of \<lparr>node_digests = [(c, node_digest_of R)]\<rparr> {} (c, N)"
proof -
  have one: "btm_get [(c, x)] c = Some x" for x :: NodeDigest by (simp add: btm_get_def)
  show ?thesis
    using assms
    by (cases "btm_get (node_digests g) c") (simp_all add: stale_node_of_def digest_tells_def node_digest_of_def one)
qed

text \<open>A delta that is not cut short answers the digest for every node.\<close>

lemma delta_answers:
  assumes env: "permutes shuffle" and cc: "cc_sendable cc" and c: "c \<in> set (nodes (cc_cluster_state cc))" "c \<notin> scheduled"
    and g: "digest_tells g c R" and mtu: "100 \<le> mtu" "mtu \<le> 65535"
    and room: "missing_bytes g scheduled (cc_cluster_state cc) \<le> 16384" "missing_bytes g scheduled (cc_cluster_state cc) + 4 \<le> mtu"
    and d: "compute_partial_delta_respecting_mtu zc shuffle (cc_cluster_state cc) g mtu scheduled = Inr d" "delta_ordered d"
  shows "delta_for c (Ack d) = answer c (replica cc c) R"
proof -
  let ?cs = "cc_cluster_state cc" and ?N = "replica cc c"
  have wf: "cs_wf ?cs" "cs_codable ?cs" using cc by (simp_all add: cc_sendable_def cc_wf_def)
  have bwf: "btm_wf (cs_node_states ?cs)" using wf(1) by (simp add: cs_wf_def)
  obtain x0 where x0: "btm_get (cs_node_states ?cs) c = Some x0" using c(1) by (auto simp: nodes_def set_btm_keys)
  then have "?N = x0" by (simp add: replica_def node_state_mut_def)
  with x0 have N: "(c, x) \<in> set (cs_node_states ?cs) \<longleftrightarrow> x = ?N" for x
    by (auto simp: in_set_btm_get [OF bwf])
  note full = compute_full_delta [OF env wf mtu(1) room d(1)]
  have dist: "distinct (map fst (map (\<lambda>nd. (ndl_chitchat_id nd, nd)) (node_deltas d)))"
    using d(2) by (simp add: delta_ordered_def comp_def)
  have id: "ndl_chitchat_id (full_node_delta sn) = sn_chitchat_id sn" for sn
    by (simp add: full_node_delta_def sn_node_delta_def)
  show ?thesis
  proof (cases "stale_node_of g scheduled (c, ?N)")
    case None
    have "ndl_chitchat_id nd \<noteq> c" if mem: "nd \<in> set (node_deltas d)" for nd
    proof
      assume nd: "ndl_chitchat_id nd = c"
      obtain sn where sn: "nd = full_node_delta sn" "sn \<in> set (offered g scheduled (cs_node_states ?cs))"
        using mem full by blast
      then obtain e where "e \<in> set (cs_node_states ?cs)" "stale_node_of g scheduled e = Some sn"
        unfolding offered_in_set by blast
      then obtain i x where x: "(i, x) \<in> set (cs_node_states ?cs)" "stale_node_of g scheduled (i, x) = Some sn"
        by (metis surj_pair)
      have i: "i = c" using stale_node_of_Some(1) [OF x(2)] nd sn(1) id by simp
      then have "x = ?N" using x(1) N by blast
      with i x(2) None show False by simp
    qed
    then have "c \<notin> ndl_chitchat_id ` set (node_deltas d)" by blast
    then have "delta_for c (Ack d) = None" by (simp add: delta_for_def map_of_eq_None_iff image_image)
    moreover have "answer c ?N R = None" using None stale_node_of_told [OF g c(2)] by (simp add: answer_def)
    ultimately show ?thesis by simp
  next
    case (Some sn)
    then have "sn \<in> set (offered g scheduled (cs_node_states ?cs))" using N unfolding offered_in_set by blast
    with full have "full_node_delta sn \<in> set (node_deltas d)" by blast
    then have "delta_for c (Ack d) = Some (full_node_delta sn)"
      using map_of_is_SomeI [OF dist] stale_node_of_Some(1) [OF Some] id [of sn] by (force simp: delta_for_def)
    moreover have "answer c ?N R = Some (full_node_delta sn)"
      using Some stale_node_of_told [OF g c(2)] by (simp add: answer_def)
    ultimately show ?thesis by simp
  qed
qed

section \<open>The messages of a handshake\<close>

lemma report_heartbeats_dead:
  "cc_sendable cc \<Longrightarrow> \<forall>e \<in> set es. id_wf (fst e) \<Longrightarrow> report_heartbeats es now cc = Inr cc' \<Longrightarrow>
   cc_dead_nodes cc' = cc_dead_nodes cc"
proof (induction es arbitrary: cc)
  case (Cons e es)
  obtain i nd where e: "e = (i, nd)" by fastforce
  obtain cc1 where cc1: "cc_report_heartbeat i (nd_heartbeat nd) now cc = Inr cc1" "report_heartbeats es now cc1 = Inr cc'"
    using Cons.prems(3) by (auto simp: e)
  have "report_heartbeats [e] now cc = Inr cc1" by (simp add: e cc1(1))
  then have s1: "cc_sendable cc1" using report_heartbeats_ok [OF Cons.prems(1), of "[e]" now] Cons.prems(2) by auto
  have "fd_wf (cc_failure_detector cc)" using Cons.prems(1) by (simp add: cc_sendable_def cc_wf_def)
  then obtain fd where "fd_report_heartbeat i now (cc_failure_detector cc) = Inr fd"
      "fd_dead_nodes fd = fd_dead_nodes (cc_failure_detector cc)"
    using fd_report_heartbeat_ok by blast
  with cc1(1) have "cc_dead_nodes cc1 = cc_dead_nodes cc"
    by (auto simp: cc_report_heartbeat_def cc_dead_nodes_def fd_dead_node_ids_def Let_def split: if_splits prod.splits)
  with Cons.IH [OF s1 _ cc1(2)] Cons.prems(2) show ?case by simp
qed simp

lemma scheduled_dead: "c \<in> cc_scheduled_for_deletion_nodes env cc \<Longrightarrow> c \<in> set (cc_dead_nodes cc)"
  by (auto simp: cc_scheduled_for_deletion_nodes_def fd_scheduled_for_deletion_nodes_def Let_def cc_dead_nodes_def
      fd_dead_node_ids_def btm_keys_def)

lemma self_not_scheduled: "cc_wf cc \<Longrightarrow> self_chitchat_id cc \<notin> cc_scheduled_for_deletion_nodes env cc"
  using scheduled_dead [of "self_chitchat_id cc" env cc]
  by (auto simp: cc_wf_def cc_dead_nodes_def fd_dead_node_ids_def btm_keys_def)

text \<open>The answer to a Syn, and to a SynAck: the state from which the delta is computed, and the delta.\<close>

definition fits_one_block :: "Digest \<Rightarrow> ChitchatId set \<Rightarrow> ClusterState \<Rightarrow> nat \<Rightarrow> bool" where
  "fits_one_block g scheduled cs mtu \<longleftrightarrow> missing_bytes g scheduled cs \<le> 16384 \<and> missing_bytes g scheduled cs + 4 \<le> mtu"

lemma good_message_typed: "good_message P zc m \<Longrightarrow> message_typed m \<and> message_confined P m \<and> message_deliverable m"
  by (cases m) (auto simp: good_message_def delta_codable_typed)

lemma participant_process:
  assumes P: "participants_ok P" and inv: "participant_inv P cc" and env: "env_ok env" and m: "good_message P zc m"
    and p: "process_message env m cc = Inr (cc', reply, fx)"
  shows "participant_inv P cc' \<and> cc_config cc' = cc_config cc \<and> (\<forall>r. reply = Some r \<longrightarrow> good_message P (env_zstd env) r)"
proof -
  let ?srv = "\<lparr>srv_chitchat = cc, srv_rng = ()\<rparr>" and ?a = "SocketAddrV4 [127, 0, 0, 1] 0"
  have inv': "participant_inv P (srv_chitchat ?srv)" using inv by simp
  have e: "event_confined P (Received (Inr (?a, m)))" using good_message_typed [OF m] by simp
  obtain r srv' sent fx' where t: "server_turn demo_rng env (Received (Inr (?a, m))) ?srv = Inr (r, srv', sent, fx')"
      "participant_inv P (srv_chitchat srv')" "cc_config (srv_chitchat srv') = cc_config (srv_chitchat ?srv)"
      "\<forall>(a, m) \<in> set sent. good_message P (env_zstd env) m \<and> (\<forall>nd \<in> set (message_deltas m). reports_on (srv_chitchat srv') nd)"
    by (rule participant_turn [OF P inv' demo_rng_ok env e])
  then have "srv_chitchat srv' = cc'" "sent = (case reply of None \<Rightarrow> [] | Some r \<Rightarrow> [(?a, r)])"
    using p by (auto simp: handle_message_def)
  with t(2-4) show ?thesis by auto
qed

lemma process_message_returns:
  assumes "participant_inv P cc" and "env_ok env" and "good_message P zc m"
  obtains cc' reply fx where "process_message env m cc = Inr (cc', reply, fx)"
    "reply_expected (cfg_cluster_id (cc_config cc)) m reply"
  using process_message_ok_aux [OF assms(2) participant_invD(5,7) [OF assms(1)], of m] good_message_typed [OF assms(3)]
  by (auto simp: message_acceptable_def)

text \<open>The state from which the delta of a reply is computed: only heartbeats have changed since the
  message was applied.\<close>

lemma syn_answer:
  assumes inv: "participant_inv P cc" and m: "good_message P zc (Syn cluster g)"
    and p: "process_message env (Syn cluster g) cc = Inr (cc', Some (SynAck g' d), fx)"
  shows "g' = cc_compute_digest (cc_scheduled_for_deletion_nodes env cc') cc'" "cc_dead_nodes cc' = cc_dead_nodes cc"
    "compute_partial_delta_respecting_mtu (env_zstd env) (env_shuffle env) (cc_cluster_state cc') g
       (65506 - len_digest g) (cc_scheduled_for_deletion_nodes env cc') = Inr d"
proof -
  note I = participant_invD [OF inv]
  let ?cc = "update_self_heartbeat cc"
  have g: "digest_wf g" "len_digest g \<le> 65406" using m by (simp_all add: good_message_def)
  have cc0: "cc_sendable ?cc" by (rule update_self_heartbeat_sendable [OF I(5,7)])
  have ids: "\<forall>e \<in> set (node_digests g). id_wf (fst e)" using g(1) by (simp add: digest_wf_def)
  have mtu: "usize_sub (MAX_UDP_DATAGRAM_PAYLOAD_SIZE - 1) (len_digest g) = 65506 - len_digest g"
    using g(2) by (simp add: MAX_UDP_DATAGRAM_PAYLOAD_SIZE_def usize_sub_eq)
  have r: "report_heartbeats (node_digests g) (env_now env) ?cc = Inr cc'"
      "g' = cc_compute_digest (cc_scheduled_for_deletion_nodes env cc') cc'"
      "compute_partial_delta_respecting_mtu (env_zstd env) (env_shuffle env) (cc_cluster_state cc') g
         (65506 - len_digest g) (cc_scheduled_for_deletion_nodes env cc') = Inr d"
    using p mtu by (auto simp: process_message_def Let_def report_heartbeats_in_digest_def split: if_splits)
  have "cc_dead_nodes ?cc = cc_dead_nodes cc"
    by (simp add: cc_dead_nodes_def update_self_heartbeat_def put_self_node_state_def)
  then show "cc_dead_nodes cc' = cc_dead_nodes cc" using report_heartbeats_dead [OF cc0 ids r(1)] by simp
  show "g' = cc_compute_digest (cc_scheduled_for_deletion_nodes env cc') cc'" by (rule r(2))
  show "compute_partial_delta_respecting_mtu (env_zstd env) (env_shuffle env) (cc_cluster_state cc') g
      (65506 - len_digest g) (cc_scheduled_for_deletion_nodes env cc') = Inr d" by (rule r(3))
qed

lemma synack_answer:
  assumes p: "process_message env (SynAck g d) cc = Inr (cc', Some (Ack d'), fx)"
  shows "compute_partial_delta_respecting_mtu (env_zstd env) (env_shuffle env) (cc_cluster_state cc') g
    65506 (cc_scheduled_for_deletion_nodes env cc') = Inr d'"
  using p by (auto simp: process_message_def Let_def MAX_UDP_DATAGRAM_PAYLOAD_SIZE_def)

section \<open>Both sides catch up\<close>

lemma beats_inv:
  assumes "beats R R'"
  shows "replica_inv L R' = replica_inv L R" "owner_inv L R' = owner_inv L R"
    "at_gc_boundary N R' = at_gc_boundary N R" "at_gc_boundary R' N = at_gc_boundary R N"
    "ns_max_version R' = ns_max_version R"
  using assms by (auto simp: beats_def owner_inv_def at_gc_boundary_def)

text \<open>A node that the digest shows to be up to date is not in the delta.\<close>

lemma not_asked_not_sent:
  assumes "env_ok env" and "cc_sendable cc" and "100 \<le> mtu" and "mtu \<le> 65535"
    and "compute_partial_delta_respecting_mtu (env_zstd env) (env_shuffle env) (cc_cluster_state cc) g mtu scheduled = Inr d"
    and "digest_tells g c R" and "c \<notin> scheduled" and "ns_max_version (replica cc c) \<le> ns_max_version R"
  shows "delta_for c (Ack d) = None"
proof -
  have "stale_node_of g scheduled (c, replica cc c) = None"
    using assms(6,8) by (auto simp: stale_node_of_def digest_tells_def split: option.splits)
  then have "ndl_chitchat_id nd \<noteq> c" if "nd \<in> set (node_deltas d)" for nd
    using computed_stale [OF assms(1-5) that] by fastforce
  then have "c \<notin> ndl_chitchat_id ` set (node_deltas d)" by blast
  then show ?thesis by (simp add: delta_for_def map_of_eq_None_iff image_image)
qed

text \<open>The receiver of an uncut delta for a digest that described its replica.\<close>

lemma receiver_catches_up:
  assumes L: "log_wf L" "owner_inv L (replica sender c)" "replica_inv L R" "\<not> at_gc_boundary (replica sender c) R"
    and R: "beats R R'" and d: "delta_for c (Ack d) = answer c (replica sender c) R"
    and S: "S = (case delta_for c (Ack d) of None \<Rightarrow> R' | Some nd \<Rightarrow> fst (node_apply_delta nd now R'))"
  shows "caught_up L S \<and> (get S k = visible L k \<or> (expired L S k \<and> get S k = None))"
proof -
  have "answer c (replica sender c) R' = answer c (replica sender c) R"
    using R by (auto simp: beats_def answer_def stale_node_of_def node_digest_of_def btm_get_def)
  then have "S = exchange c (replica sender c) now R'" using d S by (simp add: exchange_def)
  moreover have "replica_inv L R'" "\<not> at_gc_boundary (replica sender c) R'" using L(3,4) beats_inv [OF R] by simp_all
  ultimately show ?thesis
    using exchange_caught_up [OF L(1,2), of R' c now] caught_up_visible [OF L(1), of S k] by simp
qed

text \<open>The two ends of a handshake and the histories of their nodes.\<close>

definition ends_ok :: "ChitchatId set \<Rightarrow> Chitchat \<Rightarrow> Chitchat \<Rightarrow> log \<Rightarrow> log \<Rightarrow> bool" where
  "ends_ok P cca ccb La Lb \<longleftrightarrow> participants_ok P \<and> participant_inv P cca \<and> participant_inv P ccb
     \<and> self_chitchat_id cca \<noteq> self_chitchat_id ccb \<and> cfg_cluster_id (cc_config cca) = cfg_cluster_id (cc_config ccb)
     \<and> log_wf La \<and> log_wf Lb
     \<and> owner_inv La (replica cca (self_chitchat_id cca)) \<and> replica_inv La (replica ccb (self_chitchat_id cca))
     \<and> owner_inv Lb (replica ccb (self_chitchat_id ccb)) \<and> replica_inv Lb (replica cca (self_chitchat_id ccb))
     \<and> self_chitchat_id cca \<notin> set (cc_dead_nodes ccb) \<and> self_chitchat_id ccb \<notin> set (cc_dead_nodes cca)"

text \<open>The first half: the Syn of \<open>ccb\<close> is answered by \<open>cca\<close>, and \<open>ccb\<close> applies the answer.\<close>

lemma handshake_first_half:
  assumes ok: "ends_ok P cca ccb La Lb" and env: "env_ok e0" "env_ok e1" "env_ok e2"
    and g0: "g0 = cc_compute_digest (cc_scheduled_for_deletion_nodes e0 ccb) ccb"
  obtains cca' g d fx1 ccb' d' fx2 where
    "process_message e1 (create_syn_message e0 ccb) cca = Inr (cca', Some (SynAck g d), fx1)"
    "process_message e2 (SynAck g d) ccb = Inr (ccb', Some (Ack d'), fx2)"
    "ends_ok P cca' ccb La Lb" "good_message P (env_zstd e1) (SynAck g d)" "good_message P (env_zstd e2) (Ack d')"
    "participant_inv P ccb'" "self_chitchat_id cca' = self_chitchat_id cca"
    "\<forall>i. beats (replica cca i) (replica cca' i)"
    "g = cc_compute_digest (cc_scheduled_for_deletion_nodes e1 cca') cca'" "len_digest g0 \<le> 65406"
    "compute_partial_delta_respecting_mtu (env_zstd e1) (env_shuffle e1) (cc_cluster_state cca') g0
       (65506 - len_digest g0) (cc_scheduled_for_deletion_nodes e1 cca') = Inr d"
proof -
  let ?a = "self_chitchat_id cca" and ?b = "self_chitchat_id ccb"
  note O = ok [unfolded ends_ok_def]
  have I: "participants_ok P" "participant_inv P cca" "participant_inv P ccb" using O by simp_all
  have syn: "create_syn_message e0 ccb = Syn (cfg_cluster_id (cc_config cca)) g0"
    using O by (simp add: create_syn_message_def g0)
  have good0: "good_message P (env_zstd e0) (create_syn_message e0 ccb)"
    using good_message_sent_from [OF sent_from_syn env(1) participant_invD(5,2) [OF I(3)] I(1) participant_invD(4) [OF I(3)]]
    by blast
  obtain cca' reply fx1 where p1: "process_message e1 (create_syn_message e0 ccb) cca = Inr (cca', reply, fx1)"
      "reply_expected (cfg_cluster_id (cc_config cca)) (create_syn_message e0 ccb) reply"
    by (rule process_message_returns [OF I(2) env(2) good0])
  then obtain g d where reply: "reply = Some (SynAck g d)" by (auto simp: syn)
  have q1: "participant_inv P cca'" "cc_config cca' = cc_config cca" "good_message P (env_zstd e1) (SynAck g d)"
    using participant_process [OF I(1,2) env(2) good0 p1(1)] reply by simp_all
  obtain ccb' reply2 fx2 where p2: "process_message e2 (SynAck g d) ccb = Inr (ccb', reply2, fx2)"
      "reply_expected (cfg_cluster_id (cc_config ccb)) (SynAck g d) reply2"
    by (rule process_message_returns [OF I(3) env(3) q1(3)])
  then obtain d' where reply2: "reply2 = Some (Ack d')" by auto
  have q2: "participant_inv P ccb'" "good_message P (env_zstd e2) (Ack d')"
    using participant_process [OF I(1,3) env(3) q1(3) p2(1)] reply2 by simp_all
  note ans = syn_answer [OF I(2) good0 [unfolded syn] p1(1) [unfolded syn reply]]
  have typed: "message_acceptable (create_syn_message e0 ccb)"
    using good_message_typed [OF good0] by (simp add: message_acceptable_def)
  have beat: "beats (replica cca i) (replica cca' i)" for i
    using process_message_effect(1) [OF env(2) participant_invD(5,7) [OF I(2)] typed p1(1), of i]
    by (auto simp: delta_for_None)
  have id: "self_chitchat_id cca' = ?a" using q1(2) by (simp add: self_chitchat_id_def)
  have "ends_ok P cca' ccb La Lb"
    using O q1(1,2) ans(2) id by (simp add: ends_ok_def beats_inv [OF beat])
  moreover have "len_digest g0 \<le> 65406" using good0 by (simp add: syn good_message_def)
  ultimately show ?thesis using that p1(1) p2(1) reply reply2 q1(3) q2 id beat ans(1,3) by blast
qed

lemma self_known: "cc_wf cc \<Longrightarrow> self_chitchat_id cc \<in> set (nodes (cc_cluster_state cc))"
  by (auto simp: cc_wf_def nodes_def set_btm_keys node_state_def)

lemma handshake_ends:
  assumes ok: "ends_ok P cca ccb La Lb" and env: "env_ok e0" "env_ok e1" "env_ok e2" "env_ok e3"
    and g0: "g0 = cc_compute_digest (cc_scheduled_for_deletion_nodes e0 ccb) ccb"
    and a: "a = self_chitchat_id cca" "\<not> at_gc_boundary (replica cca a) (replica ccb a)"
    and b: "b = self_chitchat_id ccb" "\<not> at_gc_boundary (replica ccb b) (replica cca b)"
  obtains cca' g d fx1 ccb' d' fx2 cca'' fx3 where
    "process_message e1 (create_syn_message e0 ccb) cca = Inr (cca', Some (SynAck g d), fx1)"
    "process_message e2 (SynAck g d) ccb = Inr (ccb', Some (Ack d'), fx2)"
    "process_message e3 (Ack d') cca' = Inr (cca'', None, fx3)"
    "fits_one_block g0 (cc_scheduled_for_deletion_nodes e1 cca') (cc_cluster_state cca') (65506 - len_digest g0) \<Longrightarrow>
       caught_up La (replica ccb' a) \<and> (get (replica ccb' a) k = visible La k \<or> (expired La (replica ccb' a) k \<and> get (replica ccb' a) k = None))"
    "fits_one_block g (cc_scheduled_for_deletion_nodes e2 ccb') (cc_cluster_state ccb') 65506 \<Longrightarrow>
       caught_up Lb (replica cca'' b) \<and> (get (replica cca'' b) k = visible Lb k \<or> (expired Lb (replica cca'' b) k \<and> get (replica cca'' b) k = None))"
proof -
  obtain cca' g d fx1 ccb' d' fx2 where h:
      "process_message e1 (create_syn_message e0 ccb) cca = Inr (cca', Some (SynAck g d), fx1)"
      "process_message e2 (SynAck g d) ccb = Inr (ccb', Some (Ack d'), fx2)"
      "ends_ok P cca' ccb La Lb" "good_message P (env_zstd e1) (SynAck g d)" "good_message P (env_zstd e2) (Ack d')"
      "participant_inv P ccb'" "self_chitchat_id cca' = self_chitchat_id cca"
      "\<forall>i. beats (replica cca i) (replica cca' i)"
      "g = cc_compute_digest (cc_scheduled_for_deletion_nodes e1 cca') cca'" "len_digest g0 \<le> 65406"
      "compute_partial_delta_respecting_mtu (env_zstd e1) (env_shuffle e1) (cc_cluster_state cca') g0
         (65506 - len_digest g0) (cc_scheduled_for_deletion_nodes e1 cca') = Inr d"
    by (rule handshake_first_half [OF ok env(1-3) g0])
  have O: "participant_inv P cca'" "participant_inv P ccb" "log_wf La" "log_wf Lb"
      "owner_inv La (replica cca' a)" "replica_inv La (replica ccb a)"
      "owner_inv Lb (replica ccb b)" "replica_inv Lb (replica cca' b)"
      "a \<notin> set (cc_dead_nodes ccb)" "b \<notin> set (cc_dead_nodes cca')" "a \<noteq> b"
    using h(3,7) by (simp_all add: ends_ok_def a(1) b(1))
  note A = participant_invD [OF O(1)] and B = participant_invD [OF O(2)] and B' = participant_invD [OF h(6)]
  have mtu: "100 \<le> 65506 - len_digest g0" "65506 - len_digest g0 \<le> 65535" using h(10) by simp_all
  have acc: "message_acceptable (SynAck g d)" "message_acceptable (Ack d')"
    using good_message_typed [OF h(4)] good_message_typed [OF h(5)] by (simp_all add: message_acceptable_def)
  have ord: "delta_ordered d" "delta_ordered d'" using h(4,5) by (simp_all add: good_message_def)
  have sh: "permutes (env_shuffle e1)" "permutes (env_shuffle e2)" using env by (simp_all add: env_ok_def)
  have same: "delta_for i (SynAck g d) = delta_for i (Ack d)" for i by (simp add: delta_for_def)
  obtain cca'' reply fx3 where p3: "process_message e3 (Ack d') cca' = Inr (cca'', reply, fx3)"
      "reply_expected (cfg_cluster_id (cc_config cca')) (Ack d') reply"
    by (rule process_message_returns [OF O(1) env(4) h(5)])
  have told: "digest_tells g0 a (replica ccb a)" "digest_tells g0 b (replica ccb b)" "digest_tells g b (replica cca' b)"
    unfolding g0 h(9) using O(9,10) scheduled_dead self_not_scheduled [OF B(6)] b(1) by (auto intro!: own_digest_tells)
  note effect_b = process_message_effect(1) [OF env(3) B(5,7) acc(1) h(2), unfolded same]
  note effect_a = process_message_effect(1) [OF env(4) A(5,7) acc(2) p3(1)]
  have first: "caught_up La (replica ccb' a) \<and> (get (replica ccb' a) k = visible La k
      \<or> (expired La (replica ccb' a) k \<and> get (replica ccb' a) k = None))"
    if fits: "fits_one_block g0 (cc_scheduled_for_deletion_nodes e1 cca') (cc_cluster_state cca') (65506 - len_digest g0)"
  proof -
    have self: "a \<in> set (nodes (cc_cluster_state cca'))" "a \<notin> cc_scheduled_for_deletion_nodes e1 cca'"
      using self_known [OF A(6)] self_not_scheduled [OF A(6)] h(7) by (simp_all add: a(1))
    have ans: "delta_for a (Ack d) = answer a (replica cca' a) (replica ccb a)"
      by (rule delta_answers [OF sh(1) A(5) self told(1) mtu _ _ h(11) ord(1)]) (use fits in \<open>simp_all add: fits_one_block_def\<close>)
    have "\<not> at_gc_boundary (replica cca' a) (replica ccb a)" using a(2) h(8) beats_inv(4) by blast
    with effect_b [of a] receiver_catches_up [OF O(3,5,6) _ _ ans, of _ "replica ccb' a"] show ?thesis by blast
  qed
  have second: "caught_up Lb (replica cca'' b) \<and> (get (replica cca'' b) k = visible Lb k
      \<or> (expired Lb (replica cca'' b) k \<and> get (replica cca'' b) k = None))"
    if fits: "fits_one_block g (cc_scheduled_for_deletion_nodes e2 ccb') (cc_cluster_state ccb') 65506"
  proof -
    have idb: "self_chitchat_id ccb' = b"
      using participant_process [OF _ O(2) env(3) h(4,2)] ok by (simp add: ends_ok_def b(1) self_chitchat_id_def)
    have self: "b \<in> set (nodes (cc_cluster_state ccb'))" "b \<notin> cc_scheduled_for_deletion_nodes e2 ccb'"
      using self_known [OF B'(6)] self_not_scheduled [OF B'(6)] idb by simp_all
    have "b \<notin> cc_scheduled_for_deletion_nodes e1 cca'" using O(10) scheduled_dead by blast
    moreover have "ns_max_version (replica cca' b) \<le> ns_max_version (replica ccb b)"
      using O(7) replica_invD(3) [OF O(8)] by (simp add: owner_inv_def)
    ultimately have "delta_for b (Ack d) = None" by (rule not_asked_not_sent [OF env(2) A(5) mtu h(11) told(2)])
    then have beat: "beats (replica ccb b) (replica ccb' b)" using effect_b [of b] by auto
    have ans: "delta_for b (Ack d') = answer b (replica ccb' b) (replica cca' b)"
      by (rule delta_answers [OF sh(2) B'(5) self told(3) _ _ _ _ synack_answer [OF h(2)] ord(2)])
        (use fits in \<open>simp_all add: fits_one_block_def\<close>)
    have "owner_inv Lb (replica ccb' b)" "\<not> at_gc_boundary (replica ccb' b) (replica cca' b)"
      using O(7) b(2) beats_inv [OF beat] beats_inv(3) [of "replica cca b" "replica cca' b"] h(8) by simp_all
    with effect_a [of b] receiver_catches_up [OF O(4) _ O(8) _ _ ans, of _ "replica cca'' b"] show ?thesis by blast
  qed
  from that [OF h(1,2)] p3 first second show ?thesis by simp
qed

section \<open>Properties\<close>

text \<open>
  C5. One handshake brings both ends up to date. In a cluster with safe deliveries, let one server
  send a Syn to another of the same cluster that neither considers dead, and let the three messages
  be processed in turn: the handlers return a SynAck and an Ack, and when what each side misses fits
  in one block and in the datagram, each replica of the other end has caught up with the history of
  that node and shows its values. A replica exactly at the \<^verbatim>\<open>last_gc_version\<close> of the owner is the
  exception (C37).
\<close>

theorem handshake_converges:
  assumes "reachable cluster_init (cluster_step P zd ops delivery_safe) s"
    and "cl_servers s a = Some srva" and "cl_servers s b = Some srvb" and "a \<noteq> b"
    and "cfg_cluster_id (cc_config (srv_chitchat srva)) = cfg_cluster_id (cc_config (srv_chitchat srvb))"
    and "a \<notin> set (cc_dead_nodes (srv_chitchat srvb))" and "b \<notin> set (cc_dead_nodes (srv_chitchat srva))"
    and "\<not> at_gc_boundary (held s a a) (held s b a)" and "\<not> at_gc_boundary (held s b b) (held s a b)"
    and "env_ok e0" and "env_ok e1" and "env_ok e2" and "env_ok e3"
    and "g0 = cc_compute_digest (cc_scheduled_for_deletion_nodes e0 (srv_chitchat srvb)) (srv_chitchat srvb)"
  shows "\<exists>cca g d fx1 ccb d' fx2 cca' fx3.
      process_message e1 (create_syn_message e0 (srv_chitchat srvb)) (srv_chitchat srva) = Inr (cca, Some (SynAck g d), fx1)
    \<and> process_message e2 (SynAck g d) (srv_chitchat srvb) = Inr (ccb, Some (Ack d'), fx2)
    \<and> process_message e3 (Ack d') cca = Inr (cca', None, fx3)
    \<and> (fits_one_block g0 (cc_scheduled_for_deletion_nodes e1 cca) (cc_cluster_state cca) (65506 - len_digest g0) \<longrightarrow>
        caught_up (cl_logs s a) (replica ccb a) \<and> (get (replica ccb a) k = visible (cl_logs s a) k
          \<or> (expired (cl_logs s a) (replica ccb a) k \<and> get (replica ccb a) k = None)))
    \<and> (fits_one_block g (cc_scheduled_for_deletion_nodes e2 ccb) (cc_cluster_state ccb) 65506 \<longrightarrow>
        caught_up (cl_logs s b) (replica cca' b) \<and> (get (replica cca' b) k = visible (cl_logs s b) k
          \<or> (expired (cl_logs s b) (replica cca' b) k \<and> get (replica cca' b) k = None)))"
proof -
  let ?cca = "srv_chitchat srva" and ?ccb = "srv_chitchat srvb"
  have inv: "cluster_inv P zd s" by (rule any_cluster.invariant [OF assms(1)])
  have "sys_inv (abs_system zd c s)" for c by (rule gossip.invariant [OF safe_cluster.refines [OF assms(1)]])
  then have L: "log_wf (cl_logs s c)" "owner_inv (cl_logs s c) (held s c c)" "replica_inv (cl_logs s c) (held s p c)" for c p
    by (simp_all add: sys_inv_def abs_system_def)
  have held: "held s a c = replica ?cca c" "held s b c = replica ?ccb c" for c by (simp_all add: held_def assms(2,3))
  have ids: "self_chitchat_id ?cca = a" "self_chitchat_id ?ccb = b" by (rule cluster_invD(3) [OF inv assms(2)] cluster_invD(3) [OF inv assms(3)])+
  have "ends_ok P ?cca ?ccb (cl_logs s a) (cl_logs s b)"
    using cluster_invD(1,2) [OF inv assms(2)] cluster_invD(2) [OF inv assms(3)] assms(4-7)
      L(1,2) [of a] L(1,2) [of b] L(3) [of a b] L(3) [of b a]
    by (simp add: ends_ok_def ids held)
  from handshake_ends [OF this assms(10-14) ids(1) [symmetric] _ ids(2) [symmetric]] assms(8,9)
  show ?thesis unfolding held by metis
qed

definition demo_peer_config :: ChitchatConfig where
  "demo_peer_config = demo_config\<lparr>cfg_chitchat_id := demo_peer\<rparr>"

definition demo_peer_chitchat :: Chitchat where
  "demo_peer_chitchat = update_self_heartbeat \<lparr>cc_config = demo_peer_config, cc_cluster_state = with_seed_addrs {},
     cc_failure_detector = demo_detector, cc_previous_live_nodes = [], cc_live_nodes_watch = []\<rparr>"

definition demo_pair :: "unit cluster" where
  "demo_pair = add_log demo_peer [] (put_server demo_peer \<lparr>srv_chitchat = demo_peer_chitchat, srv_rng = ()\<rparr> demo_joined)"

lemma demo_pair_ok: "participants_ok {demo_node_id, demo_peer}" "demo_peer \<noteq> demo_node_id" "id_wf demo_peer"
proof -
  show peer: "demo_peer \<noteq> demo_node_id" "id_wf demo_peer"
    by (simp_all add: demo_peer_def demo_config_def id_wf_def wire_string_ascii plain_addr_def)
  show "participants_ok {demo_node_id, demo_peer}"
    using demo_chitchat_id(3) peer
    by (simp add: participants_ok_def) (simp add: demo_config_def demo_peer_def len_id_def len_str_def len_addr_def)
qed

lemma demo_pair_reachable:
  "reachable cluster_init (cluster_step {demo_node_id, demo_peer} zd demo_rng allowed) demo_pair"
proof -
  let ?P = "{demo_node_id, demo_peer}" and ?s = "\<lparr>cl_servers = \<lambda>_. None, cl_logs = \<lambda>_. [], cl_net = {}\<rparr> :: unit cluster"
  have config: "config_ok demo_config []" "wire_string (cfg_cluster_id demo_config)"
    "config_ok demo_peer_config []" "wire_string (cfg_cluster_id demo_peer_config)" "cfg_chitchat_id demo_peer_config = demo_peer"
    using demo_config_window demo_chitchat_id(3) demo_pair_ok(3)
    by (simp_all add: config_ok_def demo_peer_config_def) (simp_all add: demo_config_def wire_string_ascii)
  have new: "with_chitchat_id_and_seeds demo_peer_config {} [] = Inr demo_peer_chitchat"
    by (simp add: with_chitchat_id_and_seeds_def demo_peer_chitchat_def demo_detector_def demo_peer_config_def demo_config_def)
  have "cluster_step ?P zd demo_rng allowed ?s demo_joined"
    using cluster_step.joins [OF demo_pair_ok(1), of demo_node_id ?s demo_config "[]" "{}" demo_chitchat zd demo_rng allowed "()"]
      config demo_chitchat_created by (simp add: demo_joined_def)
  moreover have "cl_servers demo_joined demo_peer = None"
    using demo_pair_ok(2) by (simp add: demo_joined_def put_server_def add_log_def)
  then have "cluster_step ?P zd demo_rng allowed demo_joined demo_pair"
    using cluster_step.joins [OF demo_pair_ok(1), of demo_peer demo_joined demo_peer_config "[]" "{}" demo_peer_chitchat zd demo_rng allowed "()"]
      config new by (simp add: demo_pair_def)
  moreover have "cluster_init ?s" by (simp add: cluster_init_def)
  ultimately show ?thesis by (blast intro: reachable.intros)
qed

theorem handshake_converges_witness:
  "\<exists>cca g d fx1 ccb d' fx2 cca' fx3.
      process_message demo_env (create_syn_message demo_env demo_peer_chitchat) demo_chitchat = Inr (cca, Some (SynAck g d), fx1)
    \<and> process_message demo_env (SynAck g d) demo_peer_chitchat = Inr (ccb, Some (Ack d'), fx2)
    \<and> process_message demo_env (Ack d') cca = Inr (cca', None, fx3)"
proof -
  let ?a = "\<lparr>srv_chitchat = demo_chitchat, srv_rng = ()\<rparr>" and ?b = "\<lparr>srv_chitchat = demo_peer_chitchat, srv_rng = ()\<rparr>"
  have servers: "cl_servers demo_pair demo_node_id = Some ?a" "cl_servers demo_pair demo_peer = Some ?b"
    using demo_pair_ok(2) demo_joined_server by (simp_all add: demo_pair_def put_server_def add_log_def)
  have dead: "cc_dead_nodes demo_chitchat = []" "cc_dead_nodes demo_peer_chitchat = []"
    by (simp_all add: demo_chitchat_def demo_peer_chitchat_def demo_detector_def cc_dead_nodes_def fd_dead_node_ids_def
        FailureDetector_new_def update_self_heartbeat_def put_self_node_state_def btm_keys_def)
  have config: "cfg_cluster_id (cc_config demo_chitchat) = cfg_cluster_id (cc_config demo_peer_chitchat)"
    by (simp add: demo_chitchat_id demo_peer_chitchat_def update_self_heartbeat_def put_self_node_state_def demo_peer_config_def)
  have gc: "ns_last_gc_version (held demo_pair demo_node_id demo_node_id) = 0" "ns_last_gc_version (held demo_pair demo_peer demo_peer) = 0"
    by (simp_all add: held_def servers)
      (simp_all add: replica_def demo_chitchat_def demo_peer_chitchat_def update_self_heartbeat_def put_self_node_state_def
        self_node_state_def self_chitchat_id_def demo_peer_config_def put_node_state_def with_seed_addrs_def
        node_state_mut_def btm_get_def inc_heartbeat_def NodeState_new_def)
  have "\<not> at_gc_boundary (held demo_pair demo_node_id demo_node_id) (held demo_pair demo_peer demo_node_id)"
    "\<not> at_gc_boundary (held demo_pair demo_peer demo_peer) (held demo_pair demo_node_id demo_peer)"
    by (simp_all add: at_gc_boundary_def gc)
  from handshake_converges [OF demo_pair_reachable servers demo_pair_ok(2) [symmetric] _ _ _ this
      demo_env_ok demo_env_ok demo_env_ok demo_env_ok refl, of "[]"]
  show ?thesis using dead config by fastforce
qed

end
