(* ===== verification/Progress.thy ===== *)
theory Progress
  imports Handshake
begin

text \<open>
  Deltas that are cut short. When what a participant misses does not fit in one datagram, each handshake
  still delivers at least one key-value of the stalest node, and a measure shows that after finitely many
  handshakes nothing is missing.
\<close>

section \<open>How far a replica lags behind\<close>

text \<open>A replica \<open>R\<close> that the sender, whose state of the node is \<open>N\<close>, will reset; and the number of
  node deltas with news that are still needed at most: one for each key-value above the replica's
  \<^verbatim>\<open>max_version\<close>, or for all of them and the reset.\<close>

definition reset_due :: "NodeState \<Rightarrow> NodeState \<Rightarrow> bool" where
  "reset_due N R \<longleftrightarrow> ns_last_gc_version R < ns_last_gc_version N \<and> ns_max_version R \<le> ns_last_gc_version N"

definition lag :: "NodeState \<Rightarrow> NodeState \<Rightarrow> nat" where
  "lag N R = (if reset_due N R then Suc (length (ns_key_values N)) else length (stale_key_values N (ns_max_version R)))"

text \<open>
  When a replica can follow a sender: the sender stores no deletion below its \<^verbatim>\<open>last_gc_version\<close>, and the
  write with its \<^verbatim>\<open>max_version\<close> unless that is collected; the replica has not collected more than the
  sender, is not at the boundary, and has not been left empty by a reset.
\<close>

definition none_below_gc :: "NodeState \<Rightarrow> bool" where
  "none_below_gc N \<longleftrightarrow> list_all (\<lambda>(k, vv). time_of_start_scheduled_for_deletion (vv_status vv) \<noteq> None \<longrightarrow>
     ns_last_gc_version N < vv_version vv) (ns_key_values N)"

definition stores_max :: "NodeState \<Rightarrow> bool" where
  "stores_max N \<longleftrightarrow> ns_last_gc_version N < ns_max_version N \<longrightarrow> list_ex (\<lambda>(k, vv). vv_version vv = ns_max_version N) (ns_key_values N)"

definition can_follow :: "NodeState \<Rightarrow> NodeState \<Rightarrow> bool" where
  "can_follow N R \<longleftrightarrow> none_below_gc N \<and> stores_max N \<and> ns_last_gc_version R \<le> ns_last_gc_version N
     \<and> \<not> at_gc_boundary N R \<and> (0 < ns_last_gc_version R \<longrightarrow> 0 < ns_max_version R)"

text \<open>A node delta with news.\<close>

definition informative :: "NodeDelta \<Rightarrow> bool" where
  "informative nd \<longleftrightarrow> delta_max_version nd \<noteq> None"

lemma informative_iff: "informative nd \<longleftrightarrow> ndl_key_values nd \<noteq> [] \<or> ndl_max_version nd \<noteq> None"
  by (cases "ndl_key_values nd") (auto simp: informative_def delta_max_version_def split: option.splits)

lemma lag_beats: "beats N N' \<Longrightarrow> beats R R' \<Longrightarrow> lag N' R' = lag N R"
  "beats N N' \<Longrightarrow> beats R R' \<Longrightarrow> can_follow N' R' = can_follow N R"
  by (auto simp: beats_def lag_def reset_due_def can_follow_def none_below_gc_def stores_max_def at_gc_boundary_def
      stale_key_values_def key_values_including_deleted_def)

lemma lag_0: "lag N R = 0 \<longleftrightarrow> \<not> reset_due N R \<and> (\<forall>(k, vv) \<in> set (ns_key_values N). vv_version vv \<le> ns_max_version R)"
  by (auto simp: lag_def stale_key_values_def key_values_including_deleted_def filter_empty_conv not_less)

lemma lag_le: "lag N R \<le> Suc (length (ns_key_values N))"
  by (simp add: lag_def stale_key_values_def key_values_including_deleted_def le_SucI)


text \<open>Key-values leave the list of stale ones as the replica's \<^verbatim>\<open>max_version\<close> passes them.\<close>

lemma stale_key_values_shrink:
  assumes "v \<le> v'"
  shows "stale_key_values N v' = filter (\<lambda>(_, vv). v' < vv_version vv) (stale_key_values N v)"
  using assms by (auto simp: stale_key_values_def intro!: filter_cong)

lemma stale_key_values_less:
  assumes "v \<le> v'" and "(k, vv) \<in> set (ns_key_values N)" and "v < vv_version vv" and "vv_version vv \<le> v'"
  shows "length (stale_key_values N v') < length (stale_key_values N v)"
  unfolding stale_key_values_shrink [OF assms(1)]
  by (rule length_filter_less [of "(k, vv)"]) (use assms in \<open>auto simp: stale_key_values_def key_values_including_deleted_def\<close>)

lemma stale_key_values_le: "v \<le> v' \<Longrightarrow> length (stale_key_values N v') \<le> length (stale_key_values N v)"
  unfolding stale_key_values_shrink by simp

text \<open>What a sender that stores no collected deletion sends is stored.\<close>

lemma sent_is_stored:
  assumes N: "none_below_gc (sn_node_state sn)" and B: "ns_last_gc_version B \<le> ns_last_gc_version (sn_node_state sn)"
    and cov: "node_delta_covers sn nd" and m: "m \<in> set (ndl_key_values nd)" and c: "c \<le> sn_from_version_excluded sn"
  shows "kvm_version m \<le> ns_max_version (fst (apply_mutations c now (ndl_key_values nd) B))"
    and "sn_from_version_excluded sn < kvm_version m"
    and "\<exists>k vv. (k, vv) \<in> set (ns_key_values (sn_node_state sn)) \<and> vv_version vv = kvm_version m"
proof -
  have "m \<in> set (sn_mutations sn)" using cov m in_set_takeD unfolding node_delta_covers_def by metis
  then obtain k vv where vv: "m = kv_mutation (k, vv)" "(k, vv) \<in> set (ns_key_values (sn_node_state sn))"
      "sn_from_version_excluded sn < vv_version vv"
    by (auto simp: set_sn_mutations)
  have "scheduled_for_deletion (kvm_status m) \<Longrightarrow> ns_last_gc_version (sn_node_state sn) < kvm_version m"
    using N vv(2) by (cases "vv_status vv") (auto simp: none_below_gc_def list_all_iff vv(1))
  then show "kvm_version m \<le> ns_max_version (fst (apply_mutations c now (ndl_key_values nd) B))"
    using apply_mutations_max_version [OF m, of c B now] B c vv by fastforce
  show "sn_from_version_excluded sn < kvm_version m" "\<exists>k vv. (k, vv) \<in> set (ns_key_values (sn_node_state sn)) \<and> vv_version vv = kvm_version m"
    using vv by auto
qed

lemma sn_mutations_empty: "sn_mutations sn = [] \<longleftrightarrow> stale_key_values (sn_node_state sn) (sn_from_version_excluded sn) = []"
  unfolding sn_mutations_def sn_stale_key_values_def by (metis length_0_conv length_map length_sort)

text \<open>What the node delta for a stale node starts from.\<close>

definition follows_from :: "StaleNode \<Rightarrow> NodeState \<Rightarrow> bool" where
  "follows_from sn R \<longleftrightarrow> ns_max_version R < ns_max_version (sn_node_state sn)
     \<and> sn_from_version_excluded sn = (if ns_last_gc_version R < ns_last_gc_version (sn_node_state sn)
         \<and> ns_max_version R < ns_last_gc_version (sn_node_state sn) then 0 else ns_max_version R)"

lemma follow_reset:
  fixes now
  assumes N: "ns_wf (sn_node_state sn)" "can_follow (sn_node_state sn) R" and sn: "follows_from sn R"
    and cov: "node_delta_covers sn nd" and due: "reset_due (sn_node_state sn) R" and news: "informative nd"
  defines "R' \<equiv> fst (node_apply_delta nd now R)"
  shows "can_follow (sn_node_state sn) R' \<and> lag (sn_node_state sn) R' < lag (sn_node_state sn) R"
proof -
  let ?N = "sn_node_state sn" and ?B = "reset_state nd"
  have start: "sn_from_version_excluded sn = 0"
    using sn due N(2) by (auto simp: follows_from_def reset_due_def can_follow_def at_gc_boundary_def)
  have nd: "ndl_from_version_excluded nd = 0" "ndl_last_gc_version nd = ns_last_gc_version ?N"
    using cov start by (simp_all add: node_delta_covers_def)
  have reset: "delta_is_reset nd R" using due news nd by (auto simp: delta_is_reset_def reset_due_def informative_def)
  have R': "R' = fst (apply_mutations (ns_max_version ?B) now (ndl_key_values nd) ?B)"
    using reset update_reset_exclusive [OF reset] by (simp add: R'_def node_apply_delta_eq)
  have gc: "ns_last_gc_version R' = ns_last_gc_version ?N" by (simp add: R' nd reset_state_def)
  have B: "ns_last_gc_version ?B \<le> ns_last_gc_version ?N" by (simp add: reset_state_def nd)
  have "0 < ns_max_version R'"
  proof (cases "ndl_key_values nd")
    case Nil
    then have "ndl_max_version nd = Some (ns_max_version ?N)"
      using news cov by (auto simp: informative_iff node_delta_covers_def split: option.splits)
    then show ?thesis using Nil sn le_less_trans [OF word_zero_le] by (auto simp: R' reset_state_def follows_from_def)
  next
    case (Cons m ms)
    then have "ns_max_version ?B = 0" by (simp add: reset_state_def split: option.split)
    moreover have "kvm_version m \<le> ns_max_version (fst (apply_mutations 0 now (ndl_key_values nd) ?B))" "0 < kvm_version m"
      using sent_is_stored(1,2) [OF _ B cov] Cons N(2) start by (simp_all add: can_follow_def)
    ultimately show ?thesis by (simp add: R')
  qed
  then have "can_follow ?N R'" using N(2) gc by (simp add: can_follow_def at_gc_boundary_def)
  moreover have "lag ?N R' < lag ?N R"
    using due gc by (simp add: lag_def reset_due_def stale_key_values_def key_values_including_deleted_def le_imp_less_Suc)
  ultimately show ?thesis by simp
qed

lemma follow_update:
  fixes now
  assumes N: "ns_wf (sn_node_state sn)" "can_follow (sn_node_state sn) R" and sn: "follows_from sn R"
    and cov: "node_delta_covers sn nd" and due: "\<not> reset_due (sn_node_state sn) R"
  defines "R' \<equiv> fst (node_apply_delta nd now R)"
  shows "can_follow (sn_node_state sn) R' \<and> lag (sn_node_state sn) R' \<le> lag (sn_node_state sn) R
    \<and> (ndl_key_values nd \<noteq> [] \<longrightarrow> lag (sn_node_state sn) R' < lag (sn_node_state sn) R)"
proof -
  let ?N = "sn_node_state sn"
  have start: "sn_from_version_excluded sn = ns_max_version R"
    using sn due by (auto simp: follows_from_def reset_due_def)
  have nd: "ndl_from_version_excluded nd = ns_max_version R" "ndl_last_gc_version nd = ns_last_gc_version ?N"
    using cov start by (simp_all add: node_delta_covers_def)
  have "delta_is_update nd R" using due nd by (auto simp: delta_is_update_def reset_due_def)
  then have R': "R' = fst (apply_mutations (ns_max_version R) now (ndl_key_values nd) R)"
    by (simp add: R'_def node_apply_delta_eq)
  have gc: "ns_last_gc_version R' = ns_last_gc_version R" "ns_max_version R \<le> ns_max_version R'"
    using apply_mutations_max_version_ge by (simp_all add: R')
  then have follow: "can_follow ?N R'" and due': "\<not> reset_due ?N R'"
    using N(2) due by (auto simp: can_follow_def at_gc_boundary_def reset_due_def)
  have "lag ?N R' < lag ?N R" if "ndl_key_values nd = m # ms" for m ms
  proof -
    have m: "none_below_gc ?N" "ns_last_gc_version R \<le> ns_last_gc_version ?N" "m \<in> set (ndl_key_values nd)" "ns_max_version R \<le> sn_from_version_excluded sn"
      using N(2) that start by (simp_all add: can_follow_def)
    obtain k vv where vv: "(k, vv) \<in> set (ns_key_values ?N)" "vv_version vv = kvm_version m"
      using sent_is_stored(3) [OF m(1,2) cov m(3,4)] by blast
    then have "ns_max_version R < vv_version vv" "vv_version vv \<le> ns_max_version R'"
      using sent_is_stored(1) [OF m(1,2) cov m(3,4), of now] sent_is_stored(2) [OF m(1,2) cov m(3,4)] start by (simp_all add: R')
    from stale_key_values_less [OF gc(2) vv(1) this] due due' show ?thesis by (simp add: lag_def)
  qed
  with follow due due' stale_key_values_le [OF gc(2)] show ?thesis by (cases "ndl_key_values nd") (simp_all add: lag_def)
qed

lemma not_informative: "\<not> informative nd \<Longrightarrow> fst (node_apply_delta nd now R) = R"
  using informative_iff [of nd] by (auto simp: node_apply_delta_eq delta_is_reset_def informative_def)

text \<open>A node delta never makes a replica that can follow lag further behind, and one with news brings it closer.\<close>

lemma follow_step:
  fixes now
  assumes N: "ns_wf (sn_node_state sn)" "can_follow (sn_node_state sn) R" and sn: "follows_from sn R" and cov: "node_delta_covers sn nd"
  defines "R' \<equiv> fst (node_apply_delta nd now R)"
  shows "can_follow (sn_node_state sn) R' \<and> lag (sn_node_state sn) R' \<le> lag (sn_node_state sn) R
    \<and> (informative nd \<and> 0 < lag (sn_node_state sn) R \<longrightarrow> lag (sn_node_state sn) R' < lag (sn_node_state sn) R)"
proof (cases "informative nd")
  case False
  with N not_informative show ?thesis by (simp add: R'_def)
next
  case True
  show ?thesis
  proof (cases "reset_due (sn_node_state sn) R")
    case due: True
    from follow_reset [OF N sn cov due True] show ?thesis by (simp add: R'_def less_imp_le)
  next
    case due: False
    have "0 < lag (sn_node_state sn) R \<Longrightarrow> ndl_key_values nd \<noteq> []"
    proof
      assume "0 < lag (sn_node_state sn) R" and nil: "ndl_key_values nd = []"
      then have "sn_mutations sn \<noteq> []"
        using due sn by (auto simp: lag_def sn_mutations_empty follows_from_def reset_due_def split: if_splits)
      with True nil cov show False by (auto simp: informative_iff node_delta_covers_def split: option.splits)
    qed
    with follow_update [OF N sn cov due] show ?thesis by (auto simp: R'_def)
  qed
qed


section \<open>The first node of a delta\<close>

text \<open>The bytes of the first news about a stale node: its header, and its first key-value or its
  \<^verbatim>\<open>max_version\<close>.\<close>

definition first_bytes :: "StaleNode \<Rightarrow> nat" where
  "first_bytes sn = len_op (OpNode (sn_chitchat_id sn) (ns_last_gc_version (sn_node_state sn)) (sn_from_version_excluded sn))
     + (case sn_mutations sn of [] \<Rightarrow> len_op (OpSetMaxVersion (ns_max_version (sn_node_state sn))) | m # _ \<Rightarrow> len_op (OpKeyValue m))"

lemma added_op_inv:
  assumes "zstd_fits zc" and "serializer_inv zc s" and "ds_mtu s \<le> 65535" and "op_wf op" and "op_in_order (ds_delta_builder s) op"
    and "apply_op (ds_delta_builder s) op = Inr b" and "try_add_op zc op s = Inr (added, s')"
  shows "serializer_inv zc s'" "ds_mtu s' \<le> 65535"
  by (rule try_add_op_step [OF assms(1-6), of False]; use assms(3,7) in simp)+

lemma add_stale_node_news:
  assumes z: "zstd_fits zc" and inv: "serializer_inv zc s" and mtu: "ds_mtu s \<le> 65535"
    and fresh: "sn_chitchat_id sn \<notin> ndl_chitchat_id ` set (builder_nodes (ds_delta_builder s))"
    and wf: "ns_wf (sn_node_state sn)" "sn_codable sn" and room: "roomy s (first_bytes sn)"
  shows "\<exists>cont s' nd. add_stale_node zc sn s = Inr (cont, s')
    \<and> builder_nodes (ds_delta_builder s') = builder_nodes (ds_delta_builder s) @ [nd] \<and> informative nd"
proof (cases "sn_stale_key_values sn")
  case Nil
  have fresh': "sn_chitchat_id sn \<notin> db_existing_nodes (ds_delta_builder s)"
    using fresh inv by (simp add: serializer_inv_def builder_inv_def)
  have "ops_len (node_delta_operations (full_node_delta sn)) + 0 = first_bytes sn"
    by (simp add: Nil first_bytes_def node_delta_operations_def full_node_delta_def sn_node_delta_def sn_mutations_def)
  with add_node_roomy [of s sn 0 zc] room fresh' wf full_node_delta_simps(4) [of sn] show ?thesis
    by (fastforce simp: informative_def)
next
  case (Cons e kvs)
  let ?b = "ds_delta_builder s" and ?i = "sn_chitchat_id sn" and ?ns = "sn_node_state sn" and ?m = "kv_mutation e"
  let ?op = "OpNode ?i (ns_last_gc_version ?ns) (sn_from_version_excluded sn)" and ?nd = "sn_node_delta sn"
  let ?b1 = "\<lambda>nd. (builder_flush ?b)\<lparr>db_existing_nodes := insert ?i (db_existing_nodes ?b), db_current_node_delta := Some nd\<rparr>"
  have b1: "builder_nodes (?b1 nd) = builder_nodes ?b @ [nd]" for nd by (simp add: builder_nodes_current)
  have "?i \<notin> db_existing_nodes ?b" using fresh inv by (simp add: serializer_inv_def builder_inv_def)
  then have ok: "apply_op ?b ?op = Inr (?b1 ?nd)" by (simp add: Let_def sn_node_delta_def)
  have op: "op_wf ?op" "op_in_order ?b ?op" "roomy s (len_op ?op + (len_op (OpKeyValue ?m) + 0))"
    using wf room Cons by (simp_all add: sn_codable_def first_bytes_def sn_mutations_def)
  obtain s1 where s1: "try_add_op zc ?op s = Inr (True, s1)" "ds_delta_builder s1 = ?b1 ?nd" "roomy s1 (len_op (OpKeyValue ?m) + 0)"
    using try_add_op_roomy [OF op(3,1) ok, of zc] by blast
  have inv1: "serializer_inv zc s1" "ds_mtu s1 \<le> 65535" by (rule added_op_inv [OF z inv mtu op(1,2) ok s1(1)])+
  have sorted: "sorted_wrt (<) (map kvm_version (ndl_key_values ?nd @ map kv_mutation (e # kvs)))"
    "\<forall>m \<in> set (map kv_mutation (e # kvs)). kvm_wf m"
    using sorted_sn_mutations [OF wf(1)] wf(2) Cons by (simp_all add: sn_mutations_def sn_codable_def sn_node_delta_def)
  let ?nd2 = "?nd\<lparr>ndl_key_values := [?m]\<rparr>"
  have ok2: "apply_op (ds_delta_builder s1) (OpKeyValue ?m) = Inr (?b1 ?nd2)"
    using s1(2) by (simp add: sn_node_delta_def)
  have op2: "op_wf (OpKeyValue ?m)" "op_in_order (ds_delta_builder s1) (OpKeyValue ?m)"
    using sorted(2) s1(2) by (simp_all add: sn_node_delta_def)
  obtain s2 where s2: "try_add_op zc (OpKeyValue ?m) s1 = Inr (True, s2)" "ds_delta_builder s2 = ?b1 ?nd2"
    using try_add_op_roomy [OF s1(3) op2(1) ok2, of zc] by blast
  have inv2: "serializer_inv zc s2" "ds_mtu s2 \<le> 65535" by (rule added_op_inv [OF z inv1 op2 ok2 s2(1)])+
  obtain reached added s3 n where s3: "add_stale_key_values zc kvs True s2 = Inr (reached, added, s3)" "\<not> reached \<longrightarrow> added"
      "ds_delta_builder s3 = ?b1 (?nd2\<lparr>ndl_key_values := [?m] @ map kv_mutation (take n kvs)\<rparr>)"
    using add_stale_key_values_ok [OF z inv2, of ?nd2 kvs False True] s2(2) sorted by (auto simp: sn_node_delta_def)
  have "add_stale_key_values zc (sn_stale_key_values sn) False s1 = Inr (reached, added, s3)"
    using s2(1) s3(1) Cons by (cases e) (simp add: try_add_kv_def kv_mutation_def)
  then have "\<exists>cont. add_stale_node zc sn s = Inr (cont, s3)"
    using s1(1) s3(2) by (auto simp: add_stale_node_def try_add_node_def)
  moreover have "builder_nodes (ds_delta_builder s3) = builder_nodes ?b @ [?nd2\<lparr>ndl_key_values := [?m] @ map kv_mutation (take n kvs)\<rparr>]"
    unfolding s3(3) b1 ..
  ultimately show ?thesis by (force simp: informative_iff)
qed

text \<open>The first node of a delta is the stalest one, and there is news about it when that fits.\<close>

lemma computed_first:
  assumes z: "zstd_fits zc" and sh: "permutes shuffle" and wf: "cs_wf cs" "cs_codable cs" and mtu: "100 \<le> mtu" "mtu \<le> 65535"
    and d: "compute_partial_delta_respecting_mtu zc shuffle cs digest mtu scheduled = Inr d"
    and off: "offered digest scheduled (cs_node_states cs) \<noteq> []"
  obtains sn where "sn \<in> set (offered digest scheduled (cs_node_states cs))"
    "\<forall>sn' \<in> set (offered digest scheduled (cs_node_states cs)). the (sn_key sn') \<le> the (sn_key sn)"
    "first_bytes sn \<le> 16384 \<and> first_bytes sn + 4 \<le> mtu \<Longrightarrow>
       \<exists>nd \<in> set (node_deltas d). ndl_chitchat_id nd = sn_chitchat_id sn \<and> informative nd"
proof -
  let ?off = "offered digest scheduled (cs_node_states cs)"
  define sns where "sns = stale_into_iter shuffle (foldl (\<lambda>ssn e. offer_node digest scheduled e ssn) [] (cs_node_states cs))"
  have "ssn_wf []" by (simp add: ssn_wf_def)
  note ssn = offer_all [OF this, of digest scheduled "cs_node_states cs"]
  have mset: "mset sns = mset ?off" and decr: "sorted_wrt (\<lambda>a b. the (sn_key b) \<le> the (sn_key a)) sns"
    using ssn mset_stale_into_iter [OF sh] stale_into_iter_decreasing [OF sh] by (simp_all add: sns_def)
  have set_sns: "set sns = set ?off" using mset_eq_setD [OF mset] .
  obtain sn rest where sns: "sns = sn # rest" using off set_sns by (cases sns) auto
  have max: "\<forall>sn' \<in> set ?off. the (sn_key sn') \<le> the (sn_key sn)" using decr unfolding set_sns [symmetric] sns by auto
  have dist: "distinct (map sn_chitchat_id sns)"
    using distinct_offered [of "cs_node_states cs" digest scheduled] mset wf(1)
    by (metis btm_wf_distinct cs_wf_def mset_eq_imp_distinct_iff mset_map)
  have ok: "\<forall>sn \<in> set sns. ns_wf (sn_node_state sn) \<and> sn_codable sn" using offered_wf(1,2) [OF wf] set_sns by blast
  obtain s where s: "with_mtu mtu = Inr s" using with_mtu_ok [OF mtu(1)] by blast
  note s_inv = with_mtu_inv [OF s, of zc]
  have "\<exists>nd \<in> set (node_deltas d). ndl_chitchat_id nd = sn_chitchat_id sn \<and> informative nd"
    if fits: "first_bytes sn \<le> 16384 \<and> first_bytes sn + 4 \<le> mtu"
  proof -
    have "roomy s (first_bytes sn)"
      using s fits by (auto simp: with_mtu_def Let_def BLOCK_THRESHOLD_def roomy_def with_block_threshold_def
          unat_of_nat_u16 split: if_splits)
    moreover have s0: "ds_mtu s \<le> 65535" "builder_nodes (ds_delta_builder s) = []" using s_inv mtu(2) by simp_all
    ultimately obtain cont s1 nd where s1: "add_stale_node zc sn s = Inr (cont, s1)" "builder_nodes (ds_delta_builder s1) = [nd]" "informative nd"
      using add_stale_node_news [OF z, of s sn] s_inv ok sns by auto
    have s1': "serializer_inv zc s1" "ds_mtu s1 \<le> 65535" "node_delta_covers sn nd"
      using add_stale_node_ok [OF z, of s sn False] s_inv s0 ok sns s1(1,2) by auto
    then have id: "ndl_chitchat_id nd = sn_chitchat_id sn" by (simp add: node_delta_covers_def)
    obtain s2 nds where s2: "(if cont then add_stale_nodes zc rest s1 else Inr s1) = Inr s2" "builder_nodes (ds_delta_builder s2) = nd # nds"
      using add_stale_nodes_ok [OF z s1'(1,2), of rest False] dist ok s1(2) id by (cases cont) (auto simp: sns)
    then have "node_deltas d = nd # nds"
      using d s s1(1) by (auto simp: compute_partial_delta_respecting_mtu_def sns_def [symmetric] sns finish_delta_def builder_finish_eq)
    with id s1(3) show ?thesis by simp
  qed
  with that [of sn] max set_sns sns show ?thesis by auto
qed


section \<open>The stalest node lags behind if any does\<close>

text \<open>Replicas that are as far as the sender are not in the delta and need not be able to follow.\<close>

definition behind :: "NodeState \<Rightarrow> NodeState \<Rightarrow> nat" where
  "behind N R = (if ns_max_version N \<le> ns_max_version R then 0 else lag N R)"

definition followed :: "NodeState \<Rightarrow> NodeState \<Rightarrow> bool" where
  "followed N R \<longleftrightarrow> ns_max_version N \<le> ns_max_version R \<or> can_follow N R"

lemma behind_beats: "beats N N' \<Longrightarrow> beats R R' \<Longrightarrow> behind N' R' = behind N R"
  "beats N N' \<Longrightarrow> beats R R' \<Longrightarrow> followed N' R' = followed N R"
  using lag_beats [of N N' R R'] beats_inv(5) [of N N'] beats_inv(5) [of R R'] by (simp_all add: behind_def followed_def)

lemma told_stale:
  assumes "digest_tells g c R"
  shows "stale_node_of g scheduled (c, N) = Some sn \<Longrightarrow> follows_from sn R \<and> sn_node_state sn = N \<and> sn_chitchat_id sn = c"
    and "c \<notin> scheduled \<Longrightarrow> ns_max_version R < ns_max_version N \<Longrightarrow> stale_node_of g scheduled (c, N) \<noteq> None"
  using assms by (auto simp: stale_node_of_def digest_tells_def follows_from_def Let_def not_le word_pos_iff split: option.splits if_splits)

lemma lag_of_key:
  assumes f: "can_follow (sn_node_state sn) R" and sn: "follows_from sn R"
  shows "lag (sn_node_state sn) R = 0 \<longleftrightarrow> the (sn_key sn) \<le> (False, 0)"
proof -
  let ?N = "sn_node_state sn" and ?v = "sn_from_version_excluded sn"
  have lt: "?v < ns_max_version ?N" using sn le_less_trans [OF word_zero_le] by (auto simp: follows_from_def split: if_splits)
  then have key: "the (sn_key sn) = (?v = 0, if ?v = 0 then - uint (ns_max_version ?N) else int (length (stale_key_values ?N ?v)))"
    using lt [folded not_le] by (auto simp: sn_key_def staleness_score_eq staleness_key_def)
  show ?thesis
  proof (cases "reset_due ?N R")
    case True
    then have "?v = 0" using f sn by (auto simp: follows_from_def can_follow_def reset_due_def at_gc_boundary_def)
    with True key show ?thesis by (simp add: lag_def)
  next
    case False
    then have v: "?v = ns_max_version R" using sn by (auto simp: follows_from_def reset_due_def)
    have "stale_key_values ?N ?v \<noteq> []" if 0: "?v = 0"
    proof -
      have "ns_last_gc_version ?N = 0" using f False v 0 by (auto simp: can_follow_def reset_due_def word_pos_iff)
      then obtain k vv where "(k, vv) \<in> set (ns_key_values ?N)" "vv_version vv = ns_max_version ?N"
        using f lt 0 by (auto simp: can_follow_def stores_max_def list_ex_iff)
      with lt show ?thesis by (auto simp: stale_key_values_def key_values_including_deleted_def filter_empty_conv intro!: bexI [of _ "(k, vv)"])
    qed
    with False key v show ?thesis by (auto simp: lag_def)
  qed
qed

text \<open>The first news about any node of a state fit in \<open>room\<close> bytes.\<close>

definition small_entries :: "nat \<Rightarrow> ChitchatId \<Rightarrow> NodeState \<Rightarrow> bool" where
  "small_entries room c N \<longleftrightarrow> 17 + len_id c + 9 \<le> room
     \<and> list_all (\<lambda>e. 17 + len_id c + (1 + len_kvm (kv_mutation e)) \<le> room) (ns_key_values N)"

lemma small_entries_beats: "beats N N' \<Longrightarrow> small_entries room c N' = small_entries room c N"
  by (auto simp: small_entries_def beats_def)

lemma first_bytes_le:
  assumes "small_entries room (sn_chitchat_id sn) (sn_node_state sn)"
  shows "first_bytes sn \<le> room"
proof (cases "sn_mutations sn")
  case Nil
  with assms show ?thesis by (simp add: first_bytes_def small_entries_def)
next
  case (Cons m ms)
  then have "m \<in> set (sn_mutations sn)" by simp
  then obtain e where "m = kv_mutation e" "e \<in> set (ns_key_values (sn_node_state sn))" by (auto simp: set_sn_mutations)
  with assms Cons show ?thesis by (auto simp: first_bytes_def small_entries_def list_all_iff)
qed

section \<open>One delta\<close>

lemma delta_progress:
  assumes env: "env_ok env" and cc: "cc_sendable cc" "set (nodes (cc_cluster_state cc)) \<subseteq> P" and mtu: "100 \<le> mtu" "mtu \<le> 65535"
    and d: "compute_partial_delta_respecting_mtu (env_zstd env) (env_shuffle env) (cc_cluster_state cc) g mtu scheduled = Inr d" "delta_ordered d"
    and told: "\<forall>c \<in> P. digest_tells g c (R c)" and follow: "\<forall>c \<in> P. followed (replica cc c) (R c)"
    and fits: "\<forall>c \<in> P. small_entries room c (replica cc c)" "room \<le> 16384" "room + 4 \<le> mtu"
    and R': "\<forall>c \<in> P. \<exists>R1. beats (R c) R1 \<and> R' c = (case delta_for c (Ack d) of None \<Rightarrow> R1 | Some nd \<Rightarrow> fst (node_apply_delta nd now R1))"
  shows "\<forall>c \<in> P. followed (replica cc c) (R' c) \<and> behind (replica cc c) (R' c) \<le> behind (replica cc c) (R c)"
    and "c \<in> P \<Longrightarrow> c \<notin> scheduled \<Longrightarrow> 0 < behind (replica cc c) (R c) \<Longrightarrow>
      \<exists>c \<in> P. behind (replica cc c) (R' c) < behind (replica cc c) (R c)"
proof -
  let ?cs = "cc_cluster_state cc" and ?N = "replica cc"
  have wf: "cs_wf ?cs" "cs_codable ?cs" using cc by (simp_all add: cc_sendable_def cc_wf_def)
  have bwf: "btm_wf (cs_node_states ?cs)" using wf(1) by (simp add: cs_wf_def)
  have N: "(c, x) \<in> set (cs_node_states ?cs) \<Longrightarrow> x = ?N c" for c x
    by (simp add: in_set_btm_get [OF bwf] replica_def node_state_mut_def)
  have z: "zstd_fits (env_zstd env)" "permutes (env_shuffle env)" using env by (simp_all add: env_ok_def)
  have step: "followed (?N c) (R' c) \<and> behind (?N c) (R' c) \<le> behind (?N c) (R c)
      \<and> (informative nd \<and> 0 < behind (?N c) (R c) \<longrightarrow> behind (?N c) (R' c) < behind (?N c) (R c))"
    if c: "c \<in> P" and nd: "delta_for c (Ack d) = Some nd" for c nd
  proof -
    have nd': "nd \<in> set (node_deltas d)" "ndl_chitchat_id nd = c" using delta_for_Some [OF nd] by simp_all
    obtain sn where sn: "stale_node_of g scheduled (c, ?N c) = Some sn" "node_delta_covers sn nd"
      using computed_stale [OF env cc(1) mtu d(1) nd'(1)] nd'(2) by metis
    obtain R1 where R1: "beats (R c) R1" "R' c = fst (node_apply_delta nd now R1)" using R' c nd by fastforce
    note told_stale(1) [OF told [rule_format, OF c] sn(1)]
    then have from_sn: "follows_from sn R1" "sn_node_state sn = ?N c" "ns_max_version (R c) < ns_max_version (?N c)"
      using beats_inv(5) [OF R1(1)] R1(1) by (auto simp: follows_from_def beats_def)
    have "can_follow (?N c) (R c)" using follow [rule_format, OF c] from_sn(3) by (auto simp: followed_def)
    then have "can_follow (sn_node_state sn) R1" using lag_beats(2) [OF beats_refl R1(1)] from_sn(2) by simp
    moreover have "ns_wf (sn_node_state sn)" using cs_wf_node_mut [OF wf(1)] from_sn(2) by (simp add: replica_def)
    ultimately show ?thesis
      using follow_step [OF _ _ from_sn(1) sn(2), of now] R1(2) from_sn(2) from_sn(3) [folded not_le] lag_beats(1) [OF beats_refl R1(1), of "?N c"]
      by (simp add: behind_def followed_def)
  qed
  have same: "followed (?N c) (R' c) \<and> behind (?N c) (R' c) = behind (?N c) (R c)" if c: "c \<in> P" and "delta_for c (Ack d) = None" for c
    using that R' follow behind_beats [OF beats_refl, of "R c" "R' c"] by fastforce
  show "\<forall>c \<in> P. followed (?N c) (R' c) \<and> behind (?N c) (R' c) \<le> behind (?N c) (R c)"
  proof
    fix c assume "c \<in> P"
    with step same show "followed (?N c) (R' c) \<and> behind (?N c) (R' c) \<le> behind (?N c) (R c)"
      by (cases "delta_for c (Ack d)") auto
  qed
  have offered_sn: "follows_from sn (R (sn_chitchat_id sn)) \<and> sn_node_state sn = ?N (sn_chitchat_id sn) \<and> sn_chitchat_id sn \<in> P
      \<and> can_follow (sn_node_state sn) (R (sn_chitchat_id sn))"
    if off: "sn \<in> set (offered g scheduled (cs_node_states ?cs))" for sn
  proof -
    obtain i x where x: "(i, x) \<in> set (cs_node_states ?cs)" "stale_node_of g scheduled (i, x) = Some sn"
      using off unfolding offered_in_set by (metis surj_pair)
    have i: "i \<in> P" using x(1) cc(2) by (auto simp: nodes_def btm_keys_def image_iff)
    from told_stale(1) [OF told [rule_format, OF i] x(2)] N [OF x(1)] i follow [rule_format, OF i]
    show ?thesis by (auto simp: followed_def follows_from_def)
  qed
  assume c: "c \<in> P" "c \<notin> scheduled" "0 < behind (?N c) (R c)"
  then have lt: "ns_max_version (R c) < ns_max_version (?N c)" "0 < lag (?N c) (R c)" by (auto simp: behind_def split: if_splits)
  then have "?N c \<noteq> NodeState_new c" using le_less_trans [OF word_zero_le lt(1)] by (auto simp: NodeState_new_def)
  then have "(c, ?N c) \<in> set (cs_node_states ?cs)"
    by (auto simp: replica_def node_state_mut_def in_set_btm_get [OF bwf] split: option.splits)
  then obtain sn0 where sn0: "sn0 \<in> set (offered g scheduled (cs_node_states ?cs))" "sn_node_state sn0 = ?N c" "sn_chitchat_id sn0 = c"
    using told_stale [OF told [rule_format, OF c(1)], of scheduled "?N c"] c(2) lt(1) unfolding offered_in_set by fastforce
  then have "offered g scheduled (cs_node_states ?cs) \<noteq> []" by auto
  then obtain sn where sn: "sn \<in> set (offered g scheduled (cs_node_states ?cs))"
      "\<forall>sn' \<in> set (offered g scheduled (cs_node_states ?cs)). the (sn_key sn') \<le> the (sn_key sn)"
      "first_bytes sn \<le> 16384 \<and> first_bytes sn + 4 \<le> mtu \<Longrightarrow>
         \<exists>nd \<in> set (node_deltas d). ndl_chitchat_id nd = sn_chitchat_id sn \<and> informative nd"
    using computed_first [OF z wf mtu d(1)] by blast
  note S = offered_sn [OF sn(1)] and S0 = offered_sn [OF sn0(1)]
  have "\<not> the (sn_key sn0) \<le> (False, 0)" using lag_of_key [of sn0 "R c"] S0 sn0(2,3) lt(2) by simp
  then have "\<not> the (sn_key sn) \<le> (False, 0)" using sn(2) sn0(1) order_trans by blast
  then have lag: "0 < lag (sn_node_state sn) (R (sn_chitchat_id sn))" using lag_of_key [OF conjunct2 [OF conjunct2 [OF conjunct2 [OF S]]] conjunct1 [OF S]] by simp
  have "first_bytes sn \<le> room" using S fits(1) by (intro first_bytes_le) auto
  then obtain nd where nd: "nd \<in> set (node_deltas d)" "ndl_chitchat_id nd = sn_chitchat_id sn" "informative nd"
    using sn(3) fits(2,3) by auto
  have "distinct (map fst (map (\<lambda>nd. (ndl_chitchat_id nd, nd)) (node_deltas d)))" using d(2) by (simp add: delta_ordered_def comp_def)
  then have "delta_for (sn_chitchat_id sn) (Ack d) = Some nd" using nd(1,2) map_of_is_SomeI by (force simp: delta_for_def)
  moreover have "0 < behind (?N (sn_chitchat_id sn)) (R (sn_chitchat_id sn))"
    using S lag by (auto simp: behind_def follows_from_def)
  ultimately show "\<exists>c \<in> P. behind (?N c) (R' c) < behind (?N c) (R c)" using step nd(3) S by blast
qed


section \<open>Repeated handshakes\<close>

text \<open>One participant asks, the other answers: the Syn of \<open>ccb\<close> and the SynAck of \<open>cca\<close>. The Ack is lost.
  Each message is handled in an environment of its own.\<close>

definition pull :: "Env \<times> Env \<times> Env \<Rightarrow> Chitchat \<times> Chitchat \<Rightarrow> (Chitchat \<times> Chitchat) outcome" where
  "pull envs ccs = (let (e0, e1, e2) = envs; (cca, ccb) = ccs in
     result_bind (process_message e1 (create_syn_message e0 ccb) cca) (\<lambda>(cca, reply, _). case reply of
       None \<Rightarrow> Inr (cca, ccb)
     | Some m \<Rightarrow> result_bind (process_message e2 m ccb) (\<lambda>(ccb, _, _). Inr (cca, ccb))))"

definition envs_ok :: "Env \<times> Env \<times> Env \<Rightarrow> bool" where
  "envs_ok envs \<longleftrightarrow> (let (e0, e1, e2) = envs in env_ok e0 \<and> env_ok e1 \<and> env_ok e2)"

text \<open>The room that the digest of all participants leaves for the first news of a delta.\<close>

definition room_for :: "ChitchatId set \<Rightarrow> nat" where
  "room_for P = min 16384 (65502 - (2 + (\<Sum>i \<in> P. len_id i + 24)))"

definition pull_inv :: "ChitchatId set \<Rightarrow> ChitchatId \<Rightarrow> log \<Rightarrow> log \<Rightarrow> ChitchatId set \<Rightarrow> (ChitchatId \<Rightarrow> NodeState) \<Rightarrow> Chitchat \<times> Chitchat \<Rightarrow> bool" where
  "pull_inv P a La Lb D N ccs \<longleftrightarrow> (let (cca, ccb) = ccs in
     ends_ok P cca ccb La Lb \<and> self_chitchat_id cca = a \<and> cc_dead_nodes ccb = [] \<and> set (cc_dead_nodes cca) = D
     \<and> (\<forall>c. beats (N c) (replica cca c)) \<and> (\<forall>c \<in> P. followed (N c) (replica ccb c) \<and> small_entries (room_for P) c (N c)))"

definition pull_goal :: "ChitchatId set \<Rightarrow> ChitchatId set \<Rightarrow> (ChitchatId \<Rightarrow> NodeState) \<Rightarrow> Chitchat \<times> Chitchat \<Rightarrow> bool" where
  "pull_goal P D N ccs \<longleftrightarrow> (\<forall>c \<in> P - D. behind (N c) (replica (snd ccs) c) = 0)"

definition pull_size :: "ChitchatId set \<Rightarrow> (ChitchatId \<Rightarrow> NodeState) \<Rightarrow> Chitchat \<times> Chitchat \<Rightarrow> nat" where
  "pull_size P N ccs = (\<Sum>c \<in> P. behind (N c) (replica (snd ccs) c))"

lemma own_digest_len:
  assumes "confined P cc" and "cc_sendable cc" and "finite P"
  shows "len_digest (cc_compute_digest scheduled cc) \<le> 2 + (\<Sum>i \<in> P. len_id i + 24)"
proof -
  let ?ids = "filter (\<lambda>i. i \<notin> scheduled) (map fst (cs_node_states (cc_cluster_state cc)))"
  have "distinct ?ids" using assms(2) by (simp add: cc_sendable_def cc_wf_def cs_wf_def btm_wf_def strict_sorted_iff)
  moreover have "set ?ids \<subseteq> P" using assms(1) by (auto simp: confined_def)
  ultimately have "(\<Sum>i \<leftarrow> ?ids. len_id i + 24) \<le> (\<Sum>i \<in> P. len_id i + 24)"
    using sum_mono2 [OF assms(3), of "set ?ids" "\<lambda>i. len_id i + 24"] by (simp add: sum_list_distinct_conv_sum_set)
  moreover have "len_digest (cc_compute_digest scheduled cc) = 2 + (\<Sum>i \<leftarrow> ?ids. len_id i + 24)"
    by (simp add: len_digest_def len_node_digest_def cc_compute_digest_def cluster_compute_digest_def filter_map comp_def case_prod_unfold)
  ultimately show ?thesis by simp
qed

lemma synack_dead:
  assumes "cc_sendable cc" and "id_wf (self_chitchat_id cc)" and "digest_wf g" and "process_message env (SynAck g d) cc = Inr (cc', reply, fx)"
  shows "cc_dead_nodes cc' = cc_dead_nodes cc"
proof -
  let ?cc = "update_self_heartbeat cc"
  obtain cc1 where cc1: "report_heartbeats (node_digests g) (env_now env) ?cc = Inr cc1" "cc_dead_nodes cc' = cc_dead_nodes cc1"
    using assms(4) by (auto simp: process_message_def Let_def report_heartbeats_in_digest_def process_delta_def cc_dead_nodes_def case_prod_unfold)
  have "cc_dead_nodes ?cc = cc_dead_nodes cc"
    by (simp add: cc_dead_nodes_def update_self_heartbeat_def put_self_node_state_def)
  with report_heartbeats_dead [OF update_self_heartbeat_sendable [OF assms(1,2)] _ cc1(1)] cc1(2) assms(3) show ?thesis
    by (simp add: digest_wf_def)
qed

text \<open>A replica that can follow is delivered safe deltas only.\<close>

lemma followed_safe:
  assumes "can_follow (sn_node_state sn) R" and "follows_from sn R" and "node_delta_covers sn nd"
  shows "delta_safe nd R"
  using assms by (auto simp: delta_safe_def delta_is_reset_def can_follow_def follows_from_def node_delta_covers_def at_gc_boundary_def
      split: if_splits)


lemma pulled_replica_inv:
  assumes "env_ok env" and "cc_sendable cc" and "100 \<le> mtu" "mtu \<le> 65535"
    and "compute_partial_delta_respecting_mtu (env_zstd env) (env_shuffle env) (cc_cluster_state cc) g mtu scheduled = Inr d"
    and told: "digest_tells g c R \<and> followed (replica cc c) R" and L: "log_wf L" "owner_inv L (replica cc c)" "replica_inv L R"
    and R': "\<exists>R1. beats R R1 \<and> R' = (case delta_for c (Ack d) of None \<Rightarrow> R1 | Some nd \<Rightarrow> fst (node_apply_delta nd now R1))"
  shows "replica_inv L R'"
proof -
  obtain R1 where R1: "beats R R1" "R' = (case delta_for c (Ack d) of None \<Rightarrow> R1 | Some nd \<Rightarrow> fst (node_apply_delta nd now R1))"
    using R' by blast
  have inv1: "replica_inv L R1" using L(3) beats_inv(1) [OF R1(1)] by simp
  show ?thesis
  proof (cases "delta_for c (Ack d)")
    case None
    with R1 inv1 show ?thesis by simp
  next
    case (Some nd)
    have nd: "nd \<in> set (node_deltas d)" "ndl_chitchat_id nd = c" using delta_for_Some [OF Some] by simp_all
    obtain sn where sn: "stale_node_of g scheduled (c, replica cc c) = Some sn" "node_delta_covers sn nd"
      using computed_stale [OF assms(1-5) nd(1)] nd(2) by metis
    have f: "follows_from sn R" "sn_node_state sn = replica cc c" using told_stale(1) [OF _ sn(1)] told by blast+
    then have "can_follow (sn_node_state sn) R" using told by (auto simp: followed_def follows_from_def)
    then have "can_follow (sn_node_state sn) R1" "follows_from sn R1"
      using f(1) R1(1) lag_beats(2) [OF beats_refl R1(1)] by (auto simp: follows_from_def beats_def)
    then have "delta_safe nd R1" using followed_safe sn(2) by blast
    moreover have "delta_inv L nd" using delta_inv_covers [OF L(1) _ sn(2)] L(2) f(2) by (simp add: owner_inv_def)
    ultimately show ?thesis using replica_inv_apply [OF L(1) _ inv1] Some R1(2) by simp
  qed
qed

text \<open>The parts of a round: what the digest tells, what the answer is computed from, and what becomes of
  each replica of the one who asked.\<close>

lemma pull_parts:
  assumes inv: "pull_inv P a La Lb D N (cca, ccb)" and env: "env_ok e0" "env_ok e1" "env_ok e2"
  defines "g \<equiv> cc_compute_digest (cc_scheduled_for_deletion_nodes e0 ccb) ccb"
  obtains cca' ccb' d where "pull (e0, e1, e2) (cca, ccb) = Inr (cca', ccb')" "ends_ok P cca' ccb La Lb" "participant_inv P ccb'"
    "cc_config ccb' = cc_config ccb" "cc_dead_nodes ccb' = []" "set (cc_dead_nodes cca') = D" "self_chitchat_id cca' = self_chitchat_id cca"
    "\<forall>c. beats (N c) (replica cca' c)" "\<forall>c. digest_tells g c (replica ccb c)" "len_digest g \<le> 2 + (\<Sum>i \<in> P. len_id i + 24)"
    "compute_partial_delta_respecting_mtu (env_zstd e1) (env_shuffle e1) (cc_cluster_state cca') g
       (65506 - len_digest g) (cc_scheduled_for_deletion_nodes e1 cca') = Inr d" "delta_ordered d" "len_digest g \<le> 65406"
    "\<forall>c. \<exists>R1. beats (replica ccb c) R1 \<and> replica ccb' c
       = (case delta_for c (Ack d) of None \<Rightarrow> R1 | Some nd \<Rightarrow> fst (node_apply_delta nd (env_now e2) R1))"
proof -
  note I = inv [unfolded pull_inv_def, simplified]
  have ok: "ends_ok P cca ccb La Lb" using I by simp
  obtain cca' g' d fx1 ccb' d' fx2 where h:
      "process_message e1 (create_syn_message e0 ccb) cca = Inr (cca', Some (SynAck g' d), fx1)"
      "process_message e2 (SynAck g' d) ccb = Inr (ccb', Some (Ack d'), fx2)"
      "ends_ok P cca' ccb La Lb" "good_message P (env_zstd e1) (SynAck g' d)" "good_message P (env_zstd e2) (Ack d')"
      "participant_inv P ccb'" "self_chitchat_id cca' = self_chitchat_id cca"
      "\<forall>i. beats (replica cca i) (replica cca' i)"
      "g' = cc_compute_digest (cc_scheduled_for_deletion_nodes e1 cca') cca'" "len_digest g \<le> 65406"
      "compute_partial_delta_respecting_mtu (env_zstd e1) (env_shuffle e1) (cc_cluster_state cca') g
         (65506 - len_digest g) (cc_scheduled_for_deletion_nodes e1 cca') = Inr d"
    by (rule handshake_first_half [OF ok env g_def [THEN meta_eq_to_obj_eq]])
  note A = participant_invD [of P cca] and B = participant_invD [of P ccb]
  have O: "participants_ok P" "participant_inv P cca" "participant_inv P ccb" "cfg_cluster_id (cc_config cca) = cfg_cluster_id (cc_config ccb)"
    using ok by (simp_all add: ends_ok_def)
  have acc: "message_acceptable (SynAck g' d)" using good_message_typed [OF h(4)] by (simp add: message_acceptable_def)
  have same: "delta_for c (SynAck g' d) = delta_for c (Ack d)" for c by (simp add: delta_for_def)
  have syn: "create_syn_message e0 ccb = Syn (cfg_cluster_id (cc_config cca)) g" by (simp add: create_syn_message_def g_def O(4))
  have good0: "good_message P (env_zstd e0) (create_syn_message e0 ccb)"
    using good_message_sent_from [OF sent_from_syn env(1) B(5,2) [OF O(3)] O(1) B(4) [OF O(3)]] by blast
  have dead_a: "cc_dead_nodes cca' = cc_dead_nodes cca"
    by (rule syn_answer(2) [OF O(2) good0 [unfolded syn] h(1) [unfolded syn]])
  have dead_b: "cc_dead_nodes ccb' = cc_dead_nodes ccb"
    using synack_dead [OF B(5,7) [OF O(3)] _ h(2)] h(4) by (simp add: good_message_def)
  have told: "\<forall>c. digest_tells g c (replica ccb c)"
    unfolding g_def using scheduled_dead [of _ e0 ccb] I by (auto intro!: own_digest_tells)
  have "len_digest g \<le> 2 + (\<Sum>i \<in> P. len_id i + 24)"
    unfolding g_def using own_digest_len B(2,5) [OF O(3)] O(1) by (simp add: participants_ok_def)
  moreover have "pull (e0, e1, e2) (cca, ccb) = Inr (cca', ccb')" by (simp add: pull_def h(1,2))
  moreover have "\<forall>c. beats (N c) (replica cca' c)" using I h(8) beats_trans by blast
  moreover have "cc_config ccb' = cc_config ccb" using participant_process [OF O(1,3) env(3) h(4,2)] by simp
  moreover have "delta_ordered d" using h(4) by (simp add: good_message_def)
  ultimately show ?thesis
    using that h(3,6,7,10,11) told dead_a dead_b I process_message_effect(1) [OF env(3) B(5,7) [OF O(3)] acc h(2), unfolded same] by simp
qed


lemma pull_round:
  assumes inv: "pull_inv P a La Lb D N ccs" and env: "envs_ok envs"
  shows "\<exists>ccs'. pull envs ccs = Inr ccs' \<and> pull_inv P a La Lb D N ccs' \<and> (pull_goal P D N ccs \<longrightarrow> pull_goal P D N ccs')
    \<and> (pull_goal P D N ccs \<or> pull_size P N ccs' < pull_size P N ccs)"
proof -
  obtain cca ccb where ccs: "ccs = (cca, ccb)" by fastforce
  obtain e0 e1 e2 where e: "envs = (e0, e1, e2)" "env_ok e0" "env_ok e1" "env_ok e2"
    using env by (cases envs) (auto simp: envs_ok_def)
  note I = inv [unfolded ccs pull_inv_def, simplified]
  let ?g = "cc_compute_digest (cc_scheduled_for_deletion_nodes e0 ccb) ccb" and ?a = "self_chitchat_id cca" and ?b = "self_chitchat_id ccb"
  obtain cca' ccb' d where p: "pull (e0, e1, e2) (cca, ccb) = Inr (cca', ccb')" and ok: "ends_ok P cca' ccb La Lb" and ccb': "participant_inv P ccb'"
    and same: "cc_config ccb' = cc_config ccb" "cc_dead_nodes ccb' = []" "set (cc_dead_nodes cca') = D" "self_chitchat_id cca' = ?a"
    and N: "\<forall>c. beats (N c) (replica cca' c)" and told: "\<forall>c. digest_tells ?g c (replica ccb c)"
    and len: "len_digest ?g \<le> 2 + (\<Sum>i \<in> P. len_id i + 24)"
    and d: "compute_partial_delta_respecting_mtu (env_zstd e1) (env_shuffle e1) (cc_cluster_state cca') ?g
       (65506 - len_digest ?g) (cc_scheduled_for_deletion_nodes e1 cca') = Inr d" "delta_ordered d" and mtu: "len_digest ?g \<le> 65406"
    and R': "\<forall>c. \<exists>R1. beats (replica ccb c) R1 \<and> replica ccb' c
       = (case delta_for c (Ack d) of None \<Rightarrow> R1 | Some nd \<Rightarrow> fst (node_apply_delta nd (env_now e2) R1))"
    by (rule pull_parts [OF inv [unfolded ccs] e(2-4)])
  have O: "participants_ok P" "participant_inv P cca'" using ok by (simp_all add: ends_ok_def)
  note A = participant_invD [OF O(2)]
  have N_eq: "followed (replica cca' c) R \<longleftrightarrow> followed (N c) R" "behind (replica cca' c) R = behind (N c) R" for c R
    using behind_beats [OF N [rule_format, of c] beats_refl [of R]] by simp_all
  have mtu': "100 \<le> 65506 - len_digest ?g" "65506 - len_digest ?g \<le> 65535" using mtu by simp_all
  have small: "\<forall>c \<in> P. small_entries (room_for P) c (replica cca' c)"
    using I small_entries_beats [OF N [rule_format]] by blast
  have room: "room_for P \<le> 16384" "room_for P + 4 \<le> 65506 - len_digest ?g"
    using len O(1) by (auto simp: room_for_def participants_ok_def)
  have known: "set (nodes (cc_cluster_state cca')) \<subseteq> P" using confined_known [OF A(2)] .
  note progress = delta_progress [OF e(3) A(5) known mtu' d _ _ small room, of "replica ccb" "replica ccb'" "env_now e2"]
  have step: "\<forall>c \<in> P. followed (N c) (replica ccb' c) \<and> behind (N c) (replica ccb' c) \<le> behind (N c) (replica ccb c)"
    using progress(1) told R' I N_eq by auto
  have strict: "\<exists>c \<in> P. behind (N c) (replica ccb' c) < behind (N c) (replica ccb c)" if short: "\<not> pull_goal P D N ccs"
  proof -
    obtain c where "c \<in> P" "c \<notin> D" "0 < behind (N c) (replica ccb c)" using short by (auto simp: pull_goal_def ccs)
    with progress(2) [of c] told R' I N_eq same(3) scheduled_dead [of c e1 cca'] show ?thesis by auto
  qed
  have ends: "ends_ok P cca' ccb' La Lb"
  proof -
    have E: "log_wf La" "owner_inv La (replica cca' ?a)" "replica_inv La (replica ccb ?a)" "owner_inv Lb (replica ccb ?b)"
        "replica_inv Lb (replica cca' ?b)" "?a \<in> P" "?b \<notin> set (cc_dead_nodes cca')"
      using ok A(3) same(4) by (simp_all add: ends_ok_def)
    have id: "self_chitchat_id ccb' = ?b" using same(1) by (simp add: self_chitchat_id_def)
    have "delta_for ?b (Ack d) = None"
      using E(4,5,7) replica_invD(3) [OF E(5)] told scheduled_dead [of ?b e1 cca']
      by (intro not_asked_not_sent [OF e(3) A(5) mtu' d(1), of ?b "replica ccb ?b"]) (auto simp: owner_inv_def)
    then have "beats (replica ccb ?b) (replica ccb' ?b)" using R' [rule_format, of ?b] by auto
    then have own: "owner_inv Lb (replica ccb' ?b)" using E(4) beats_inv(2) by blast
    have "replica_inv La (replica ccb' ?a)" by (rule pulled_replica_inv [OF _ _ _ _ _ _ E(1-3) R' [rule_format, of ?a]])
        (use e A mtu' d told I N_eq E(6) in auto)
    with own id ok ccb' same show ?thesis by (simp add: ends_ok_def)
  qed
  have "pull_inv P a La Lb D N (cca', ccb')" using ends same N step I by (simp add: pull_inv_def)
  moreover have "pull_goal P D N ccs \<longrightarrow> pull_goal P D N (cca', ccb')" using step by (fastforce simp: pull_goal_def ccs)
  moreover have "pull_goal P D N ccs \<or> pull_size P N (cca', ccb') < pull_size P N ccs"
    using strict step O(1) by (auto simp: pull_size_def ccs participants_ok_def intro!: sum_strict_mono_ex1)
  ultimately show ?thesis using p by (auto simp: ccs e(1))
qed

interpretation pulling: measured_rounds pull envs_ok "pull_inv P a La Lb D N" "pull_goal P D N" "pull_size P N"
proof
  show "pull_inv P a La Lb D N s \<Longrightarrow> pull_size P N s = 0 \<Longrightarrow> pull_goal P D N s" for s
    by (auto simp: pull_inv_def pull_size_def pull_goal_def ends_ok_def participants_ok_def split: prod.splits)
qed (rule pull_round)


lemma not_behind_entries:
  "ns_wf N \<Longrightarrow> behind N R = 0 \<Longrightarrow> (k, vv) \<in> set (ns_key_values N) \<Longrightarrow> vv_version vv \<le> ns_max_version R"
  by (auto simp: behind_def lag_0 ns_wf_def list_all_iff split: if_splits)

text \<open>A replica of the owner's node that is not behind has caught up with its history.\<close>

lemma not_behind_caught_up:
  assumes L: "log_wf L" "owner_inv L N" "replica_inv L R" and f: "followed N R" and 0: "behind N R = 0"
  shows "caught_up L R"
proof (cases "ns_max_version N \<le> ns_max_version R")
  case True
  then have "ns_max_version R = log_max L" using L(2) replica_invD(3) [OF L(3)] by (simp add: owner_inv_def)
  with L(1) show ?thesis by (rule caught_up_at_max)
next
  case False
  then have N: "can_follow N R" "lag N R = 0" using f 0 by (simp_all add: followed_def behind_def)
  let ?c = "ns_chitchat_id N"
  obtain nd where nd: "answer ?c N R = Some nd"
    using False by (cases "answer ?c N R") (auto simp: answer_def stale_node_of_def node_digest_of_def btm_get_def Let_def split: if_splits)
  then obtain sn where sn: "nd = full_node_delta sn" "sn_node_state sn = N"
      "sn_from_version_excluded sn = (if ns_last_gc_version R < ns_last_gc_version N \<and> ns_max_version R < ns_last_gc_version N
         then 0 else ns_max_version R)"
    by (rule answer_Some)
  have start: "sn_from_version_excluded sn = ns_max_version R" using N(2) sn(3) by (auto simp: lag_0 reset_due_def)
  then have "sn_mutations sn = []" using N(2) sn(2) by (auto simp: sn_mutations_empty lag_def split: if_splits)
  moreover have "delta_is_update nd R" using N(2) sn(1,2) start by (auto simp: delta_is_update_def full_node_delta_simps lag_0 reset_due_def)
  ultimately have "exchange ?c N 0 R = R" using nd sn(1) by (simp add: exchange_def node_apply_delta_eq full_node_delta_simps)
  with exchange_caught_up [OF L, of ?c 0] N(1) show ?thesis by (simp add: can_follow_def)
qed

section \<open>Properties\<close>


text \<open>A cluster of two, in which one has written a key that the other does not know.\<close>

definition demo_written :: NodeState where
  "demo_written = \<lparr>ns_chitchat_id = demo_node_id, ns_heartbeat = 1,
     ns_key_values = [(''k'', \<lparr>vv_value = ''v'', vv_version = 1, vv_status = StatusSet\<rparr>)], ns_max_version = 1, ns_last_gc_version = 0\<rparr>"

definition demo_writer :: Chitchat where
  "demo_writer = put_self_node_state demo_written demo_chitchat"

definition demo_uneven :: "unit cluster" where
  "demo_uneven = add_log demo_node_id [kv_mutation (''k'', \<lparr>vv_value = ''v'', vv_version = 1, vv_status = StatusSet\<rparr>)]
     (put_server demo_node_id \<lparr>srv_chitchat = demo_writer, srv_rng = ()\<rparr> demo_pair)"

lemma demo_replicas:
  "replica demo_chitchat c = (if c = demo_node_id then inc_heartbeat (NodeState_new c) else NodeState_new c)"
  "replica demo_peer_chitchat c = (if c = demo_peer then inc_heartbeat (NodeState_new c) else NodeState_new c)"
  "replica demo_writer c = (if c = demo_node_id then demo_written else NodeState_new c)"
  by (simp_all add: demo_writer_def demo_chitchat_def demo_peer_chitchat_def demo_peer_config_def update_self_heartbeat_def
      put_self_node_state_def self_node_state_def self_chitchat_id_def replica_def put_node_state_def with_seed_addrs_def
      node_state_mut_def btm_get_def)

lemma demo_writes: "self_write (WSet ''k'' ''v'') 0 demo_chitchat = Inr demo_writer"
  "logged ''k'' (self_node_state demo_chitchat) (self_node_state demo_writer)
     = [kv_mutation (''k'', \<lparr>vv_value = ''v'', vv_version = 1, vv_status = StatusSet\<rparr>)]"
proof -
  have self: "self_node_state demo_chitchat = inc_heartbeat (NodeState_new demo_node_id)" "self_node_state demo_writer = demo_written"
    by (simp_all add: self_node_state_replica demo_replicas demo_chitchat_id(1))
      (simp add: demo_writer_def put_self_node_state_def self_chitchat_id_def demo_chitchat_id demo_replicas(3) [unfolded demo_writer_def put_self_node_state_def])
  have "node_set ''k'' ''v'' (inc_heartbeat (NodeState_new demo_node_id))
      = Inr (demo_written, [\<lparr>kce_key = ''k'', kce_value = ''v'', kce_node = demo_node_id\<rparr>])"
    by (simp add: demo_written_def node_set_def Let_def NodeState_new_def inc_heartbeat_def get_versioned_def btm_get_def
        set_with_version_def set_versioned_value_def is_deleted_def heartbeat_inc_def)
  moreover have "deliver_events demo_writer [\<lparr>kce_key = ''k'', kce_value = ''v'', kce_node = demo_node_id\<rparr>] = Inr []"
  proof -
    have "cs_listeners (cc_cluster_state demo_writer) = cs_listeners (with_seed_addrs {})"
      by (simp add: demo_writer_def demo_chitchat_def update_self_heartbeat_def put_self_node_state_def put_node_state_def)
    moreover have "is_char_boundary ''k'' 1" by code_simp
    ultimately show ?thesis
      by (simp add: deliver_events_def with_seed_addrs_def trigger_event_def InnerListeners_default_def Let_def btm_range_def btm_get_def)
  qed
  ultimately show "self_write (WSet ''k'' ''v'') 0 demo_chitchat = Inr demo_writer"
    by (simp add: self_set_def self demo_writer_def)
  show "logged ''k'' (self_node_state demo_chitchat) (self_node_state demo_writer)
     = [kv_mutation (''k'', \<lparr>vv_value = ''v'', vv_version = 1, vv_status = StatusSet\<rparr>)]"
    by (simp add: self logged_def demo_written_def inc_heartbeat_def NodeState_new_def get_versioned_def btm_get_def)
qed

lemma demo_uneven_reachable:
  "reachable cluster_init (cluster_step {demo_node_id, demo_peer} zd demo_rng allowed) demo_uneven"
proof -
  let ?srv = "\<lparr>srv_chitchat = demo_chitchat, srv_rng = ()\<rparr>"
  have "cl_servers demo_pair demo_node_id = Some ?srv"
    using demo_pair_ok(2) demo_joined_server by (simp add: demo_pair_def put_server_def add_log_def)
  moreover have "write_ok (WSet ''k'' ''v'')" by (simp add: write_ok_def wire_string_ascii key_ok_def) code_simp
  moreover have "ns_max_version (self_node_state demo_chitchat) \<noteq> - 1"
    by (simp add: self_node_state_replica demo_replicas demo_chitchat_id(1) inc_heartbeat_def NodeState_new_def)
  ultimately have "cluster_step {demo_node_id, demo_peer} zd demo_rng allowed demo_pair demo_uneven"
    using cluster_step.owner_writes [of demo_pair demo_node_id ?srv "WSet ''k'' ''v''" 0 demo_writer] demo_writes
    by (simp add: demo_uneven_def)
  with demo_pair_reachable show ?thesis by (rule reachable.then_step)
qed


end
