(* ===== verification/Udp_Socket.thy ===== *)
theory Udp_Socket
  imports Transport
begin

text \<open>
  The UDP socket of \<^verbatim>\<open>chitchat/src/transport/udp.rs\<close>. The sockets of the operating system
  (\<^verbatim>\<open>tokio::net::UdpSocket\<close>) are a parameter, the record \<open>udp_os\<close> of the three calls the code makes; what the code
  relies on is the predicate \<open>kernel_ok\<close>. The two buffers are kept, because a socket that read past what
  was received, or sent what an earlier message left behind, would be wrong. On the list of datagrams a
  socket is given, the receiving loop is \<^const>\<open>udp_recv\<close>, the reference the server and the cluster use.
\<close>

section \<open>The operating system\<close>

text \<open>A socket is known by the address it is bound to. Receiving is given the length of the buffer and returns
  the sender and the bytes that were written to the buffer; \<^term>\<open>None\<close> when nothing has arrived.\<close>

record 'o udp_os =
  os_bind :: "SocketAddr \<Rightarrow> 'o \<Rightarrow> (transport_error + unit) \<times> 'o"
  os_send_to :: "SocketAddr \<Rightarrow> bytes \<Rightarrow> SocketAddr \<Rightarrow> 'o \<Rightarrow> (transport_error + nat) \<times> 'o"
  os_recv_from :: "SocketAddr \<Rightarrow> nat \<Rightarrow> 'o \<Rightarrow> (transport_error + bytes \<times> SocketAddr) option \<times> 'o"

section \<open>The socket\<close>

record UdpSocket =
  us_buf_send :: bytes
  us_buf_recv :: bytes
  us_socket :: SocketAddr

definition udp_open :: "'o udp_os \<Rightarrow> SocketAddr \<Rightarrow> 'o \<Rightarrow> (transport_error + UdpSocket) \<times> 'o" where
  "udp_open os bind_addr k = (case os_bind os bind_addr k of
     (Inl err, k) \<Rightarrow> (Inl err, k)
   | (Inr _, k) \<Rightarrow> (Inr \<lparr>us_buf_send = [], us_buf_recv = replicate MAX_UDP_DATAGRAM_PAYLOAD_SIZE 0, us_socket = bind_addr\<rparr>, k))"

definition send_bytes :: "'o udp_os \<Rightarrow> UdpSocket \<Rightarrow> SocketAddr \<Rightarrow> bytes \<Rightarrow> 'o \<Rightarrow> (transport_error + unit) \<times> 'o" where
  "send_bytes os s to_addr payload k = (case os_send_to os (us_socket s) payload to_addr k of
     (Inl err, k) \<Rightarrow> (Inl err, k) | (Inr _, k) \<Rightarrow> (Inr (), k))"

text \<open>\<^const>\<open>message_serialize\<close> gives the bytes that \<^verbatim>\<open>serialize\<close> appends to the buffer.\<close>

definition udp_send :: "zstd \<Rightarrow> 'o udp_os \<Rightarrow> SocketAddr \<Rightarrow> ChitchatMessage \<Rightarrow> UdpSocket \<Rightarrow> 'o
     \<Rightarrow> panic + ((transport_error + unit) \<times> UdpSocket \<times> 'o)" where
  "udp_send zc os to_addr message s k =
     (let s = s\<lparr>us_buf_send := []\<rparr>
      in result_bind (message_serialize zc message) (\<lambda>buf.
           let s = s\<lparr>us_buf_send := us_buf_send s @ buf\<rparr>;
               (r, k) = send_bytes os s to_addr (us_buf_send s) k
           in Inr (r, s, k)))"

datatype 'a recv_outcome = Waiting | Failed transport_error | Ready 'a

text \<open>The bytes the operating system wrote are at the front of the buffer; what is behind them is left from
  earlier datagrams, and is not looked at.\<close>

definition udp_receive_one :: "zstd \<Rightarrow> 'o udp_os \<Rightarrow> UdpSocket \<Rightarrow> 'o \<Rightarrow> envelope option recv_outcome \<times> UdpSocket \<times> 'o" where
  "udp_receive_one zd os s k = (case os_recv_from os (us_socket s) (length (us_buf_recv s)) k of
     (None, k) \<Rightarrow> (Waiting, s, k)
   | (Some (Inl err), k) \<Rightarrow> (Failed err, s, k)
   | (Some (Inr (bs, from_addr)), k) \<Rightarrow>
       let len = length bs;
           s = s\<lparr>us_buf_recv := bs @ drop len (us_buf_recv s)\<rparr>;
           buf = take len (us_buf_recv s)
       in (Ready (case message_deserialize zd buf of Inr (msg, _) \<Rightarrow> Some (from_addr, msg) | Inl _ \<Rightarrow> None), s, k))"

text \<open>The loop has no bound of its own: it goes on as long as junk arrives.\<close>

partial_function (option) udp_recv_loop :: "zstd \<Rightarrow> 'o udp_os \<Rightarrow> UdpSocket \<Rightarrow> 'o \<Rightarrow> (envelope recv_outcome \<times> UdpSocket \<times> 'o) option" where
  "udp_recv_loop zd os s k = (case udp_receive_one zd os s k of
     (Waiting, s, k) \<Rightarrow> Some (Waiting, s, k)
   | (Failed err, s, k) \<Rightarrow> Some (Failed err, s, k)
   | (Ready (Some message), s, k) \<Rightarrow> Some (Ready message, s, k)
   | (Ready None, s, k) \<Rightarrow> udp_recv_loop zd os s k)"

section \<open>What the socket relies on\<close>

text \<open>
  Every socket has a queue of the datagrams and the errors it has yet to receive. Receiving takes the
  oldest and cuts a datagram to the length of the buffer. Sending loses the datagram or adds it, with the
  address of the sender, to the queue of its destination.
\<close>

type_synonym 'o arrivals = "'o \<Rightarrow> SocketAddr \<Rightarrow> (transport_error + SocketAddr \<times> bytes) list"

definition kernel_recv_ok :: "'o udp_os \<Rightarrow> 'o arrivals \<Rightarrow> bool" where
  "kernel_recv_ok os arrived \<longleftrightarrow> (\<forall>a len k. case arrived k a of
     [] \<Rightarrow> os_recv_from os a len k = (None, k)
   | Inl err # q \<Rightarrow> (\<exists>k'. os_recv_from os a len k = (Some (Inl err), k') \<and> arrived k' a = q)
   | Inr (b, bs) # q \<Rightarrow> (\<exists>k'. os_recv_from os a len k = (Some (Inr (take len bs, b)), k') \<and> arrived k' a = q))"

definition kernel_send_ok :: "'o udp_os \<Rightarrow> 'o arrivals \<Rightarrow> bool" where
  "kernel_send_ok os arrived \<longleftrightarrow> (\<forall>a bs b k r k'. os_send_to os a bs b k = (r, k') \<longrightarrow>
     arrived k' b \<in> {arrived k b, arrived k b @ [Inr (a, bs)]}
     \<and> (isl r \<longrightarrow> arrived k' b = arrived k b) \<and> (\<forall>c. c \<noteq> b \<longrightarrow> arrived k' c = arrived k c))"

definition kernel_ok :: "'o udp_os \<Rightarrow> 'o arrivals \<Rightarrow> bool" where
  "kernel_ok os arrived \<longleftrightarrow> kernel_recv_ok os arrived \<and> kernel_send_ok os arrived"

lemma kernel_recvD:
  assumes "kernel_recv_ok os arrived"
  shows "arrived k a = [] \<Longrightarrow> os_recv_from os a len k = (None, k)"
    and "arrived k a = Inl err # q \<Longrightarrow> \<exists>k'. os_recv_from os a len k = (Some (Inl err), k') \<and> arrived k' a = q"
    and "arrived k a = Inr (b, bs) # q \<Longrightarrow> \<exists>k'. os_recv_from os a len k = (Some (Inr (take len bs, b)), k') \<and> arrived k' a = q"
  using assms [unfolded kernel_recv_ok_def, THEN spec, THEN spec, THEN spec, of a len k] by simp_all

text \<open>A socket that \<^const>\<open>udp_open\<close> returned, and that has sent and received since.\<close>

definition udp_wf :: "UdpSocket \<Rightarrow> bool" where
  "udp_wf s \<longleftrightarrow> length (us_buf_recv s) = MAX_UDP_DATAGRAM_PAYLOAD_SIZE"

lemma udp_open_wf:
  assumes "udp_open os a k = (Inr s, k')"
  shows "udp_wf s \<and> us_socket s = a"
proof -
  obtain r k1 where b: "os_bind os a k = (r, k1)" by (cases "os_bind os a k")
  with assms obtain u where "r = Inr u" by (cases r) (simp_all add: udp_open_def)
  with assms b have s: "\<lparr>us_buf_send = [], us_buf_recv = replicate MAX_UDP_DATAGRAM_PAYLOAD_SIZE 0, us_socket = a\<rparr> = s"
    by (simp add: udp_open_def)
  show ?thesis by (simp add: udp_wf_def flip: s)
qed

section \<open>The socket refines its reference\<close>

lemma udp_receive_one_refines:
  assumes "kernel_recv_ok os arrived" and "udp_wf s" and "arrived k (us_socket s) = Inr d # q"
  shows "\<exists>s' k'. udp_receive_one zd os s k = (Ready (receive_one zd d), s', k') \<and> udp_wf s'
    \<and> us_socket s' = us_socket s \<and> us_buf_send s' = us_buf_send s \<and> arrived k' (us_socket s) = q"
proof -
  obtain b bs where d: "d = (b, bs)" by (cases d)
  let ?n = "MAX_UDP_DATAGRAM_PAYLOAD_SIZE"
  obtain k' where "os_recv_from os (us_socket s) ?n k = (Some (Inr (take ?n bs, b)), k')" "arrived k' (us_socket s) = q"
    using kernel_recvD(3) [OF assms(1), of k "us_socket s" b bs q] assms(3) d by blast
  with assms(2) d show ?thesis
    by (auto simp: udp_receive_one_def udp_wf_def Let_def receive_one_def split: sum.splits)
qed

text \<open>What the loop gives on a queue: the first datagram that decodes, or the first error, or it waits.\<close>

fun recv_reference :: "zstd \<Rightarrow> (transport_error + SocketAddr \<times> bytes) list
     \<Rightarrow> envelope recv_outcome \<times> (transport_error + SocketAddr \<times> bytes) list" where
  "recv_reference zd [] = (Waiting, [])"
| "recv_reference zd (Inl err # q) = (Failed err, q)"
| "recv_reference zd (Inr d # q) = (case receive_one zd d of Some message \<Rightarrow> (Ready message, q) | None \<Rightarrow> recv_reference zd q)"

lemma recv_reference_udp_recv:
  "recv_reference zd (map Inr ds) = (case udp_recv zd ds of None \<Rightarrow> (Waiting, []) | Some (message, rest) \<Rightarrow> (Ready message, map Inr rest))"
  by (induction ds) (auto split: option.split)

lemma udp_recv_loop_refines:
  assumes "kernel_recv_ok os arrived" and "udp_wf s"
  shows "\<exists>s' k'. udp_recv_loop zd os s k = Some (fst (recv_reference zd (arrived k (us_socket s))), s', k')
    \<and> arrived k' (us_socket s) = snd (recv_reference zd (arrived k (us_socket s)))
    \<and> udp_wf s' \<and> us_socket s' = us_socket s"
  using assms(2)
proof (induction "arrived k (us_socket s)" arbitrary: s k)
  case Nil
  then have "udp_receive_one zd os s k = (Waiting, s, k)"
    using kernel_recvD(1) [OF assms(1), of k "us_socket s"] by (simp add: udp_receive_one_def)
  with Nil show ?case by (simp add: udp_recv_loop.simps flip: Nil.hyps)
next
  case (Cons x q)
  show ?case
  proof (cases x)
    case (Inl err)
    with Cons.hyps(2) obtain k' where "udp_receive_one zd os s k = (Failed err, s, k')" "arrived k' (us_socket s) = q"
      using kernel_recvD(2) [OF assms(1), of k "us_socket s" err q "length (us_buf_recv s)"]
      by (auto simp: udp_receive_one_def)
    with Inl Cons.prems show ?thesis by (simp add: udp_recv_loop.simps flip: Cons.hyps(2))
  next
    case (Inr d)
    with Cons.hyps(2) obtain s' k' where r: "udp_receive_one zd os s k = (Ready (receive_one zd d), s', k')"
      and s': "udp_wf s'" "us_socket s' = us_socket s" "arrived k' (us_socket s) = q"
      using udp_receive_one_refines [OF assms(1) Cons.prems, of k d q zd] by auto
    have loop: "udp_recv_loop zd os s k = (case receive_one zd d of Some m \<Rightarrow> Some (Ready m, s', k') | None \<Rightarrow> udp_recv_loop zd os s' k')"
      by (subst udp_recv_loop.simps) (simp add: r split: option.split)
    show ?thesis
    proof (cases "receive_one zd d")
      case None
      with Cons.hyps(1) [of k' s'] s' loop Inr show ?thesis by (simp flip: Cons.hyps(2))
    next
      case (Some m)
      with s' loop Inr show ?thesis by (simp flip: Cons.hyps(2))
    qed
  qed
qed

section \<open>Properties\<close>

lemma udp_send_bytes:
  assumes "message_serialize zc m = Inr bs"
  shows "udp_send zc os to_addr m s k = Inr (fst (send_bytes os s to_addr bs k), s\<lparr>us_buf_send := bs\<rparr>, snd (send_bytes os s to_addr bs k))"
  using assms by (simp add: udp_send_def send_bytes_def split: prod.split)

lemma send_bytes_state: "snd (send_bytes os s b bs k) = snd (os_send_to os (us_socket s) bs b k)"
  by (auto simp: send_bytes_def split: prod.splits sum.splits)

lemma recv_reference_junk:
  "list_all (\<lambda>d. receive_one zd d = None) junk \<Longrightarrow> recv_reference zd (map Inr junk @ q) = recv_reference zd q"
  by (induction junk) auto


text \<open>An operating system with a queue for every address, that loses nothing.\<close>

definition queue_os :: "(SocketAddr \<Rightarrow> (transport_error + SocketAddr \<times> bytes) list) udp_os" where
  "queue_os = \<lparr>os_bind = (\<lambda>a k. (Inr (), k)), os_send_to = (\<lambda>a bs b k. (Inr (length bs), k(b := k b @ [Inr (a, bs)]))),
     os_recv_from = (\<lambda>a len k. case k a of [] \<Rightarrow> (None, k) | Inl err # q \<Rightarrow> (Some (Inl err), k(a := q))
       | Inr (b, bs) # q \<Rightarrow> (Some (Inr (take len bs, b)), k(a := q)))\<rparr>"

lemma queue_os_ok: "kernel_ok queue_os (\<lambda>k. k)"
  by (auto simp: kernel_ok_def kernel_recv_ok_def kernel_send_ok_def queue_os_def split: list.split sum.split)

text \<open>An empty datagram came first, and both buffers still hold earlier payloads.\<close>

definition demo_udp :: "u16 \<Rightarrow> UdpSocket" where
  "demo_udp p = \<lparr>us_buf_send = [1, 2, 3], us_buf_recv = replicate MAX_UDP_DATAGRAM_PAYLOAD_SIZE 7,
     us_socket = SocketAddrV4 [127, 0, 0, 1] p\<rparr>"


end
