(* ===== verification/Seeds.thy ===== *)
theory Seeds
  imports Types
begin

text \<open>
  The seed nodes of \<^verbatim>\<open>chitchat/src/server.rs\<close>: seeds that are socket addresses are taken as they
  are, the others are host names, resolved once at the start and then again every minute by a
  background task that publishes the result on a watch channel. \<^verbatim>\<open>str::parse\<close> is the parser of the
  standard library; the resolver \<^verbatim>\<open>tokio::net::lookup_host\<close> is a parameter, a function of the number
  of lookups made so far and of the host, so that its answers may change over time.
\<close>

section \<open>Parsing socket addresses\<close>

text \<open>The readers of \<^verbatim>\<open>core::net::parser\<close>: a reader that fails leaves the input where it was.\<close>

type_synonym 'a reader = "string \<Rightarrow> ('a \<times> string) option"

definition read_bind :: "'a reader \<Rightarrow> ('a \<Rightarrow> 'b reader) \<Rightarrow> 'b reader" where
  "read_bind r f s = (case r s of None \<Rightarrow> None | Some (x, s') \<Rightarrow> f x s')"

fun read_given_char :: "char \<Rightarrow> unit reader" where
  "read_given_char c [] = None"
| "read_given_char c (x # s) = (if x = c then Some ((), s) else None)"

definition read_separator :: "char \<Rightarrow> nat \<Rightarrow> 'a reader \<Rightarrow> 'a reader" where
  "read_separator sep i r = (if i > 0 then read_bind (read_given_char sep) (\<lambda>_. r) else r)"

definition to_digit :: "nat \<Rightarrow> char \<Rightarrow> nat option" where
  "to_digit radix c =
     (let n = of_char c;
          d = (if 48 \<le> n \<and> n \<le> 57 then n - 48
               else if 97 \<le> n \<and> n \<le> 122 then n - 87
               else if 65 \<le> n \<and> n \<le> 90 then n - 55
               else radix)
      in if d < radix then Some d else None)"

fun read_digits :: "nat \<Rightarrow> string \<Rightarrow> nat list \<times> string" where
  "read_digits radix [] = ([], [])"
| "read_digits radix (c # s) = (case to_digit radix c of
     None \<Rightarrow> ([], c # s)
   | Some d \<Rightarrow> (let (ds, s') = read_digits radix s in (d # ds, s')))"

definition digits_value :: "nat \<Rightarrow> nat list \<Rightarrow> nat" where
  "digits_value radix ds = foldl (\<lambda>v d. v * radix + d) 0 ds"

text \<open>
  The library stops at the digit that is one too many or that overflows the type; the digits only
  make the value larger, so the checks after the loop refuse the same inputs.
\<close>

definition read_number :: "nat \<Rightarrow> nat option \<Rightarrow> bool \<Rightarrow> nat \<Rightarrow> nat reader" where
  "read_number radix max_digits allow_zero_prefix bound s =
     (let (ds, s') = read_digits radix s
      in if (case max_digits of None \<Rightarrow> False | Some m \<Rightarrow> m < length ds) \<or> bound \<le> digits_value radix ds then None
         else if ds = [] then None
         else if \<not> allow_zero_prefix \<and> hd ds = 0 \<and> 1 < length ds then None
         else Some (digits_value radix ds, s'))"

fun read_octets :: "nat \<Rightarrow> nat \<Rightarrow> nat list reader" where
  "read_octets i 0 s = Some ([], s)"
| "read_octets i (Suc n) s =
     read_bind (read_separator (CHR ''.'') i (read_number 10 (Some 3) False 256)) (\<lambda>o1.
       read_bind (read_octets (Suc i) n) (\<lambda>os s. Some (o1 # os, s))) s"

definition read_ipv4_addr :: "nat list reader" where
  "read_ipv4_addr = read_octets 0 4"

text \<open>
  The groups of an IPv6 address: as many as there are, at most as many as are left, the last two of
  which may be written as an IPv4 address; the flag says that they were.
\<close>

fun read_groups :: "nat \<Rightarrow> nat \<Rightarrow> string \<Rightarrow> (nat list \<times> bool) \<times> string" where
  "read_groups i 0 s = (([], False), s)"
| "read_groups i (Suc n) s =
     (case (if 0 < n then read_separator (CHR '':'') i read_ipv4_addr s else None) of
        Some (os, s') \<Rightarrow> (([os ! 0 * 256 + os ! 1, os ! 2 * 256 + os ! 3], True), s')
      | None \<Rightarrow>
          (case read_separator (CHR '':'') i (read_number 16 (Some 4) True 65536) s of
             None \<Rightarrow> (([], False), s)
           | Some (g, s') \<Rightarrow>
               (let ((gs, ipv4), s'') = read_groups (Suc i) n s' in ((g # gs, ipv4), s''))))"

definition read_ipv6_addr :: "nat list reader" where
  "read_ipv6_addr s =
     (let ((head, head_ipv4), s1) = read_groups 0 8 s
      in if length head = 8 then Some (head, s1)
         else if head_ipv4 then None
         else read_bind (read_given_char (CHR '':'')) (\<lambda>_. read_bind (read_given_char (CHR '':'')) (\<lambda>_ s2.
           let ((tail, _), s3) = read_groups 0 (8 - (length head + 1)) s2
           in Some (head @ replicate (8 - length head - length tail) 0 @ tail, s3))) s1)"

definition read_port :: "nat reader" where
  "read_port = read_bind (read_given_char (CHR '':'')) (\<lambda>_. read_number 10 None True 65536)"

definition read_scope_id :: "nat reader" where
  "read_scope_id = read_bind (read_given_char (CHR ''%'')) (\<lambda>_. read_number 10 None True (2 ^ 32))"

definition group_octets :: "nat list \<Rightarrow> bytes" where
  "group_octets gs = concat (map (\<lambda>g. [of_nat (g div 256), of_nat (g mod 256)]) gs)"

definition read_socket_addr_v4 :: "SocketAddr reader" where
  "read_socket_addr_v4 =
     read_bind read_ipv4_addr (\<lambda>os. read_bind read_port (\<lambda>p s.
       Some (SocketAddrV4 (map of_nat os) (of_nat p), s)))"

definition read_socket_addr_v6 :: "SocketAddr reader" where
  "read_socket_addr_v6 =
     read_bind (read_given_char (CHR ''['')) (\<lambda>_. read_bind read_ipv6_addr (\<lambda>gs s.
       let (scope, s) = (case read_scope_id s of None \<Rightarrow> (0, s) | Some (sc, s') \<Rightarrow> (sc, s'))
       in read_bind (read_given_char (CHR '']'')) (\<lambda>_. read_bind read_port (\<lambda>p s.
            Some (SocketAddrV6 (group_octets gs) (of_nat p) 0 (of_nat scope), s))) s))"

definition parse_socket_addr :: "string \<Rightarrow> SocketAddr option" where
  "parse_socket_addr s =
     (case (case read_socket_addr_v4 s of Some r \<Rightarrow> Some r | None \<Rightarrow> read_socket_addr_v6 s) of
        Some (a, []) \<Rightarrow> Some a
      | _ \<Rightarrow> None)"

section \<open>Resolving the seeds\<close>

type_synonym lookup = "nat \<Rightarrow> string \<Rightarrow> SocketAddr list option"

text \<open>A failed lookup is logged and changes nothing. The number counts the lookups.\<close>

definition resolve_seed_host :: "lookup \<Rightarrow> string \<Rightarrow> nat \<times> SocketAddr set \<Rightarrow> nat \<times> SocketAddr set" where
  "resolve_seed_host lookup seed_host = (\<lambda>(n, seed_addrs).
     (Suc n, case lookup n seed_host of
        Some resolved_seed_addrs \<Rightarrow> foldl (\<lambda>s a. insert a s) seed_addrs resolved_seed_addrs
      | None \<Rightarrow> seed_addrs))"

text \<open>
  The task: hosts to resolve, addresses given as such, and the value of the watch channel. The hosts
  are a hash set: a list without duplicates, in the order of its iteration.
\<close>

record DnsRefresh =
  dns_hosts :: "string list"
  dns_literals :: "SocketAddr set"

definition dns_refresh_turn :: "lookup \<Rightarrow> DnsRefresh \<Rightarrow> nat \<Rightarrow> nat \<times> SocketAddr set" where
  "dns_refresh_turn lookup t n = foldl (\<lambda>s h. resolve_seed_host lookup h s) (n, dns_literals t) (dns_hosts t)"

text \<open>
  The loop, over a list that says for each tick of the interval whether a receiver of the watch
  channel is left: without one the send fails and the task ends, and the value stays.
\<close>

fun dns_refresh_loop ::
    "lookup \<Rightarrow> DnsRefresh \<Rightarrow> bool list \<Rightarrow> nat \<times> SocketAddr set \<Rightarrow> bool \<times> nat \<times> SocketAddr set" where
  "dns_refresh_loop lookup t [] (n, watch) = (True, n, watch)"
| "dns_refresh_loop lookup t (has_receiver # ticks) (n, watch) =
     (let (n', seed_addrs) = dns_refresh_turn lookup t n
      in if has_receiver then dns_refresh_loop lookup t ticks (n', seed_addrs) else (False, n', watch))"

definition hash_insert :: "'a \<Rightarrow> 'a list \<Rightarrow> 'a list" where
  "hash_insert x xs = (if x \<in> set xs then xs else xs @ [x])"

fun sort_seeds ::
    "lookup \<Rightarrow> string list \<Rightarrow> DnsRefresh \<times> nat \<times> SocketAddr set \<Rightarrow> DnsRefresh \<times> nat \<times> SocketAddr set" where
  "sort_seeds lookup [] st = st"
| "sort_seeds lookup (seed # seeds) (t, n, first_round) =
     (case parse_socket_addr seed of
        Some seed_addr \<Rightarrow>
          sort_seeds lookup seeds (t\<lparr>dns_literals := insert seed_addr (dns_literals t)\<rparr>, n, first_round)
      | None \<Rightarrow>
          sort_seeds lookup seeds (t\<lparr>dns_hosts := hash_insert seed (dns_hosts t)\<rparr>,
            resolve_seed_host lookup seed (n, first_round)))"

text \<open>The value of the watch channel at the start, and the task unless no seed needs one.\<close>

definition spawn_dns_refresh_loop ::
    "lookup \<Rightarrow> string list \<Rightarrow> (nat \<times> SocketAddr set) \<times> DnsRefresh option" where
  "spawn_dns_refresh_loop lookup seeds =
     (let (t, n, first_round) = sort_seeds lookup seeds (\<lparr>dns_hosts = [], dns_literals = {}\<rparr>, 0, {})
      in ((n, dns_literals t \<union> first_round), if dns_hosts t = [] then None else Some t))"

section \<open>What the parser accepts\<close>

text \<open>The text of a number and of an IPv4 socket address, as \<^verbatim>\<open>Display\<close> writes them.\<close>

definition digit_char :: "nat \<Rightarrow> char" where
  "digit_char d = char_of (48 + d)"

fun decimal :: "nat \<Rightarrow> string" where
  "decimal n = (if n < 10 then [digit_char n] else decimal (n div 10) @ [digit_char (n mod 10)])"

fun decimal_digits :: "nat \<Rightarrow> nat list" where
  "decimal_digits n = (if n < 10 then [n] else decimal_digits (n div 10) @ [n mod 10])"

declare decimal.simps [simp del] decimal_digits.simps [simp del]

definition display_v4 :: "bytes \<Rightarrow> u16 \<Rightarrow> string" where
  "display_v4 os p = concat (map (\<lambda>i. (if i = 0 then [] else ''.'') @ decimal (unat (os ! i))) [0..<4]) @ '':'' @ decimal (unat p)"

text \<open>A character that ends a number.\<close>

definition stops_digits :: "nat \<Rightarrow> string \<Rightarrow> bool" where
  "stops_digits radix s \<longleftrightarrow> (case s of [] \<Rightarrow> True | c # _ \<Rightarrow> to_digit radix c = None)"

lemma to_digit_digit_char: "d < 10 \<Longrightarrow> to_digit 10 (digit_char d) = Some d"
  by (simp add: to_digit_def digit_char_def Let_def of_char_of)

lemma read_digits_append:
  "list_all (\<lambda>d. d < 10) ds \<Longrightarrow> stops_digits 10 s \<Longrightarrow> read_digits 10 (map digit_char ds @ s) = (ds, s)"
  by (induction ds) (auto simp: to_digit_digit_char stops_digits_def split: list.splits option.splits)

lemma decimal_eq: "decimal n = map digit_char (decimal_digits n)"
  by (induction n rule: decimal.induct) (simp add: decimal.simps [of _] decimal_digits.simps [of _])

lemma decimal_digits_ok:
  "list_all (\<lambda>d. d < 10) (decimal_digits n) \<and> digits_value 10 (decimal_digits n) = n \<and> decimal_digits n \<noteq> []"
  by (induction n rule: decimal_digits.induct) (subst (1 2 3) decimal_digits.simps, simp add: digits_value_def)

lemma decimal_digits_lead: "hd (decimal_digits n) = 0 \<Longrightarrow> n = 0"
proof (induction n rule: decimal_digits.induct)
  case (1 n)
  show ?case
  proof (cases "n < 10")
    case False
    then have "hd (decimal_digits (n div 10)) = 0"
      using "1.prems" decimal_digits_ok [of "n div 10"] by (simp add: decimal_digits.simps [of n] hd_append)
    with 1 False show ?thesis by simp
  qed (use "1.prems" in \<open>simp add: decimal_digits.simps [of n]\<close>)
qed

lemma decimal_digits_length: "n < 10 ^ k \<Longrightarrow> 0 < k \<Longrightarrow> length (decimal_digits n) \<le> k"
proof (induction n arbitrary: k rule: decimal_digits.induct)
  case (1 n)
  show ?case
  proof (cases "n < 10")
    case False
    obtain j where k: "k = Suc j" using "1.prems"(2) by (cases k) auto
    with "1.prems"(1) False have j: "k = Suc j" "0 < j" by (cases j; simp)+
    then have "n div 10 < 10 ^ j" using "1.prems"(1) by (simp add: less_mult_imp_div_less mult.commute)
    with "1.IH" [OF False _ j(2)] False j(1) show ?thesis by (simp add: decimal_digits.simps [of n])
  qed (use "1.prems" in \<open>simp add: decimal_digits.simps [of n]\<close>)
qed

lemma read_number_decimal:
  assumes "n < bound" and "stops_digits 10 s" and "\<And>m. max_digits = Some m \<Longrightarrow> 0 < m \<and> bound \<le> 10 ^ m"
  shows "read_number 10 max_digits allow_zero bound (decimal n @ s) = Some (n, s)"
proof -
  note ok = decimal_digits_ok [of n]
  have r: "read_digits 10 (decimal n @ s) = (decimal_digits n, s)"
    using ok assms(2) by (simp add: decimal_eq read_digits_append)
  have lead: "length (decimal_digits n) = 1" if "hd (decimal_digits n) = 0"
    using decimal_digits_lead [OF that] by (simp add: decimal_digits.simps)
  have "length (decimal_digits n) \<le> m" if m: "max_digits = Some m" for m
    using decimal_digits_length [of n m] assms(1) assms(3) [OF m] by linarith
  then have "\<not> (case max_digits of None \<Rightarrow> False | Some m \<Rightarrow> m < length (decimal_digits n))"
    by (simp add: not_less split: option.split)
  with ok assms(1) lead show ?thesis unfolding read_number_def r by auto
qed

lemma stops_digits_char [simp]: "stops_digits 10 (CHR ''.'' # s)" "stops_digits 10 (CHR '':'' # s)" "stops_digits 10 []"
  by (simp_all add: stops_digits_def to_digit_def)

lemma read_octet:
  fixes b :: u8
  shows "stops_digits 10 s \<Longrightarrow> read_number 10 (Some 3) False 256 (decimal (unat b) @ s) = Some (unat b, s)"
  using unsigned_less [of b] by (intro read_number_decimal) simp_all

lemma Suc4: "read_octets 0 4 = read_octets 0 (Suc (Suc (Suc (Suc 0))))"
  by (simp add: numeral_eq_Suc)

lemma parse_display_v4:
  assumes "length os = 4"
  shows "parse_socket_addr (display_v4 os p) = Some (SocketAddrV4 os p)"
proof -
  obtain a b c d where os: "os = [a, b, c, d]"
    using assms by (auto simp: length_Suc_conv numeral_eq_Suc)
  have p: "read_port (CHR '':'' # decimal (unat p)) = Some (unat p, [])"
    using unsigned_less [of p] read_number_decimal [of "unat p" 65536 "[]" None True]
    by (simp add: read_port_def read_bind_def)
  have four: "[0..<4] = [0, 1, 2, 3]" by (simp add: upt_rec)
  have "read_ipv4_addr (display_v4 os p) = Some ([unat a, unat b, unat c, unat d], CHR '':'' # decimal (unat p))"
    by (simp add: read_ipv4_addr_def Suc4 read_bind_def read_separator_def display_v4_def four os read_octet)
  then show ?thesis by (simp add: parse_socket_addr_def read_socket_addr_v4_def read_bind_def p os)
qed

lemma read_digits_stop: "stops_digits radix s \<Longrightarrow> read_digits radix s = ([], s)"
  by (cases s) (auto simp: stops_digits_def)

lemma parse_host_name:
  assumes "stops_digits 10 s" and "s = [] \<or> hd s \<noteq> CHR ''[''"
  shows "parse_socket_addr s = None"
proof -
  have "read_number 10 (Some 3) False 256 s = None"
    using read_digits_stop [OF assms(1)] by (simp add: read_number_def digits_value_def)
  then have "read_socket_addr_v4 s = None"
    by (simp add: read_socket_addr_v4_def read_ipv4_addr_def read_bind_def read_separator_def Suc4)
  moreover have "read_socket_addr_v6 s = None"
    using assms(2) by (cases s) (auto simp: read_socket_addr_v6_def read_bind_def)
  ultimately show ?thesis by (simp add: parse_socket_addr_def)
qed

text \<open>Whatever is parsed has the octets its kind of address has.\<close>

lemma read_octets_length: "read_octets i n s = Some (os, s') \<Longrightarrow> length os = n"
  by (induction n arbitrary: i s os s') (auto simp: read_bind_def split: option.splits)

lemma read_groups_length: "read_groups i n s = ((gs, v4), s') \<Longrightarrow> length gs \<le> n"
proof (induction n arbitrary: i s gs v4 s')
  case (Suc n)
  then show ?case
    by (fastforce split: option.splits prod.splits if_splits simp del: read_octets.simps)
qed simp

lemma read_ipv6_length: "read_ipv6_addr s = Some (gs, s') \<Longrightarrow> length gs = 8"
  by (auto simp: read_ipv6_addr_def read_bind_def Let_def dest!: read_groups_length
      split: prod.splits if_splits option.splits)

lemma group_octets_length: "length (group_octets gs) = 2 * length gs"
  by (induction gs) (simp_all add: group_octets_def)

lemma parse_wf:
  assumes "parse_socket_addr s = Some a"
  shows "ip_wf (ip a)"
proof -
  have "read_socket_addr_v4 s = Some (a, []) \<or> read_socket_addr_v6 s = Some (a, [])"
    using assms by (auto simp: parse_socket_addr_def split: option.splits prod.splits list.splits)
  then show ?thesis
    by (auto simp: read_socket_addr_v4_def read_socket_addr_v6_def read_bind_def Let_def read_ipv4_addr_def
        group_octets_length split: option.splits prod.splits dest!: read_octets_length read_ipv6_length)
qed

section \<open>What the seeds are\<close>

text \<open>The addresses that the lookups of a list of hosts return, the first of them being number \<open>n\<close>.\<close>

fun answers :: "lookup \<Rightarrow> nat \<Rightarrow> string list \<Rightarrow> SocketAddr set" where
  "answers lookup n [] = {}"
| "answers lookup n (h # hs) =
     (case lookup n h of None \<Rightarrow> {} | Some as \<Rightarrow> set as) \<union> answers lookup (Suc n) hs"

definition seed_literals :: "string list \<Rightarrow> SocketAddr set" where
  "seed_literals seeds = {a. \<exists>s \<in> set seeds. parse_socket_addr s = Some a}"

definition seed_hosts :: "string list \<Rightarrow> string list" where
  "seed_hosts seeds = filter (\<lambda>s. parse_socket_addr s = None) seeds"

lemma foldl_insert: "foldl (\<lambda>s a. insert a s) A xs = A \<union> set xs"
  by (induction xs arbitrary: A) auto

lemma resolve_seed_host_eq: "resolve_seed_host lookup h (n, A) = (Suc n, A \<union> answers lookup n [h])"
  by (simp add: resolve_seed_host_def foldl_insert split: option.split)

lemma answers_append: "answers lookup n (xs @ ys) = answers lookup n xs \<union> answers lookup (n + length xs) ys"
  by (induction xs arbitrary: n) auto

lemma resolve_all: "foldl (\<lambda>s h. resolve_seed_host lookup h s) (n, A) hs = (n + length hs, A \<union> answers lookup n hs)"
  by (induction hs arbitrary: n A) (simp_all add: resolve_seed_host_eq Un_assoc)

lemma dns_refresh_turn_eq:
  "dns_refresh_turn lookup t n = (n + length (dns_hosts t), dns_literals t \<union> answers lookup n (dns_hosts t))"
  by (simp add: dns_refresh_turn_def resolve_all)

lemma finite_answers: "finite (answers lookup n hs)"
  by (induction hs arbitrary: n) (auto split: option.split)

lemma finite_seed_literals: "finite (seed_literals seeds)"
proof (rule finite_subset)
  show "seed_literals seeds \<subseteq> (\<lambda>s. the (parse_socket_addr s)) ` set seeds" by (force simp: seed_literals_def)
qed simp

lemma hash_insert_all:
  "distinct hs \<Longrightarrow> distinct (foldl (\<lambda>hs s. hash_insert s hs) hs xs)
     \<and> set (foldl (\<lambda>hs s. hash_insert s hs) hs xs) = set hs \<union> set xs"
  by (induction xs arbitrary: hs) (auto simp: hash_insert_def)

lemma seed_literals_Cons:
  "seed_literals (s # seeds) = (case parse_socket_addr s of None \<Rightarrow> {} | Some a \<Rightarrow> {a}) \<union> seed_literals seeds"
  by (auto simp: seed_literals_def split: option.split)

lemma sort_seeds_eq:
  "sort_seeds lookup seeds (t, n, F) =
     (\<lparr>dns_hosts = foldl (\<lambda>hs s. hash_insert s hs) (dns_hosts t) (seed_hosts seeds),
       dns_literals = dns_literals t \<union> seed_literals seeds\<rparr>,
      n + length (seed_hosts seeds), F \<union> answers lookup n (seed_hosts seeds))"
proof (induction seeds arbitrary: t n F)
  case Nil
  then show ?case by (simp add: seed_hosts_def seed_literals_def)
next
  case (Cons s seeds)
  then show ?case
    by (cases "parse_socket_addr s") (simp_all add: seed_hosts_def seed_literals_Cons resolve_seed_host_eq Un_assoc)
qed

lemma spawn_dns_eq:
  assumes "spawn_dns_refresh_loop lookup seeds = ((n, initial), task)"
  shows "n = length (seed_hosts seeds)" and "initial = seed_literals seeds \<union> answers lookup 0 (seed_hosts seeds)"
    and "task = None \<longleftrightarrow> seed_hosts seeds = []"
    and "task = Some t \<Longrightarrow> dns_literals t = seed_literals seeds \<and> distinct (dns_hosts t)
      \<and> set (dns_hosts t) = set (seed_hosts seeds)"
proof -
  define T where "T = \<lparr>dns_hosts = foldl (\<lambda>hs s. hash_insert s hs) [] (seed_hosts seeds), dns_literals = seed_literals seeds\<rparr>"
  have T: "dns_literals T = seed_literals seeds" "distinct (dns_hosts T)" "set (dns_hosts T) = set (seed_hosts seeds)"
    using hash_insert_all [of "[]" "seed_hosts seeds"] by (simp_all add: T_def)
  have "sort_seeds lookup seeds (\<lparr>dns_hosts = [], dns_literals = {}\<rparr>, 0, {})
      = (T, length (seed_hosts seeds), answers lookup 0 (seed_hosts seeds))" by (simp add: sort_seeds_eq T_def)
  then have "n = length (seed_hosts seeds) \<and> initial = seed_literals seeds \<union> answers lookup 0 (seed_hosts seeds)
    \<and> task = (if dns_hosts T = [] then None else Some T)"
    using assms by (auto simp: spawn_dns_refresh_loop_def T(1))
  then have eq: "n = length (seed_hosts seeds)" "initial = seed_literals seeds \<union> answers lookup 0 (seed_hosts seeds)"
    "task = (if dns_hosts T = [] then None else Some T)" by blast+
  then show "n = length (seed_hosts seeds)" "initial = seed_literals seeds \<union> answers lookup 0 (seed_hosts seeds)" by blast+
  have "dns_hosts T = [] \<longleftrightarrow> seed_hosts seeds = []" using T(3) by (metis set_empty)
  then show "task = None \<longleftrightarrow> seed_hosts seeds = []" by (simp add: eq(3))
  show "dns_literals t = seed_literals seeds \<and> distinct (dns_hosts t) \<and> set (dns_hosts t) = set (seed_hosts seeds)"
    if "task = Some t"
  proof -
    have "t = T" using that unfolding eq(3) by (cases "dns_hosts T = []") simp_all
    with T show ?thesis by blast
  qed
qed

lemma dns_refresh_loop_replicate:
  "dns_refresh_loop lookup t (replicate (Suc k) True) (n, w) =
     (True, n + Suc k * length (dns_hosts t), dns_literals t \<union> answers lookup (n + k * length (dns_hosts t)) (dns_hosts t))"
proof (induction k arbitrary: n w)
  case (Suc k)
  have "dns_refresh_loop lookup t (replicate (Suc (Suc k)) True) (n, w)
      = dns_refresh_loop lookup t (replicate (Suc k) True) (dns_refresh_turn lookup t n)"
    by (simp add: dns_refresh_turn_eq)
  with Suc.IH show ?case by (simp add: dns_refresh_turn_eq add.assoc)
qed (simp add: dns_refresh_turn_eq)

lemma dns_refresh_loop_prefix:
  "dns_refresh_loop lookup t (replicate k True @ ticks) (n, w) =
     (let (_, n', w') = dns_refresh_loop lookup t (replicate k True) (n, w) in dns_refresh_loop lookup t ticks (n', w'))"
  by (induction k arbitrary: n w) (simp_all add: dns_refresh_turn_eq)

section \<open>Properties\<close>

text \<open>
  C35. The seeds that a server gossips with are, at its start, the seeds that are addresses and what the
  lookups of the others returned; a background task runs exactly when some seed is not an address, and
  after any number of its polls the seeds are the addresses and what the lookups of the last poll
  returned, each host looked up once: a failed lookup drops the addresses of its host only, and the
  seeds that are addresses always stay. When the last reader is gone the task ends.
\<close>

theorem seed_refresh_correct:
  assumes "spawn_dns_refresh_loop lookup seeds = ((n, initial), task)"
  shows "initial = seed_literals seeds \<union> answers lookup 0 (seed_hosts seeds) \<and> finite initial
    \<and> (task = None \<longleftrightarrow> seed_hosts seeds = [])
    \<and> (\<forall>t. task = Some t \<longrightarrow> (\<exists>hosts. distinct hosts \<and> set hosts = set (seed_hosts seeds) \<and> (\<forall>k.
         dns_refresh_loop lookup t (replicate (Suc k) True) (n, initial)
           = (True, n + Suc k * length hosts, seed_literals seeds \<union> answers lookup (n + k * length hosts) hosts)
       \<and> \<not> fst (dns_refresh_loop lookup t (replicate k True @ False # ticks) (n, initial)))))"
proof -
  note spawned = spawn_dns_eq [OF assms]
  have "\<exists>hosts. distinct hosts \<and> set hosts = set (seed_hosts seeds) \<and> (\<forall>k.
      dns_refresh_loop lookup t (replicate (Suc k) True) (n, initial)
        = (True, n + Suc k * length hosts, seed_literals seeds \<union> answers lookup (n + k * length hosts) hosts)
    \<and> \<not> fst (dns_refresh_loop lookup t (replicate k True @ False # ticks) (n, initial)))" if "task = Some t" for t
  proof (intro exI conjI allI)
    note t = spawned(4) [OF that]
    show "distinct (dns_hosts t)" "set (dns_hosts t) = set (seed_hosts seeds)" using t by simp_all
    show "dns_refresh_loop lookup t (replicate (Suc k) True) (n, initial) = (True, n + Suc k * length (dns_hosts t),
        seed_literals seeds \<union> answers lookup (n + k * length (dns_hosts t)) (dns_hosts t))" for k
      using t by (simp only: dns_refresh_loop_replicate)
    show "\<not> fst (dns_refresh_loop lookup t (replicate k True @ False # ticks) (n, initial))" for k
      by (simp add: dns_refresh_loop_prefix dns_refresh_turn_eq split: prod.split)
  qed
  with spawned(2,3) show ?thesis by (simp add: finite_answers finite_seed_literals)
qed

text \<open>A name server that loses the host after the first lookup.\<close>

definition demo_lookup :: lookup where
  "demo_lookup n h = (if n = 0 then Some [SocketAddrV4 [10, 0, 0, 7] 80] else None)"

definition demo_seeds :: "string list" where
  "demo_seeds = [display_v4 [10, 0, 0, 1] 80, ''db:80'']"

lemma demo_seeds_sorted:
  "seed_literals demo_seeds = {SocketAddrV4 [10, 0, 0, 1] 80}" "seed_hosts demo_seeds = [''db:80'']"
  using parse_display_v4 [of "[10, 0, 0, 1]" 80] parse_host_name [of "''db:80''"]
  by (auto simp: seed_literals_def seed_hosts_def demo_seeds_def stops_digits_def to_digit_def)

theorem seed_refresh_correct_witness:
  "\<exists>n initial t. spawn_dns_refresh_loop demo_lookup demo_seeds = ((n, initial), Some t)
     \<and> initial = {SocketAddrV4 [10, 0, 0, 1] 80, SocketAddrV4 [10, 0, 0, 7] 80}
     \<and> snd (snd (dns_refresh_loop demo_lookup t (replicate 3 True) (n, initial))) = {SocketAddrV4 [10, 0, 0, 1] 80}"
proof -
  obtain n initial task where s: "spawn_dns_refresh_loop demo_lookup demo_seeds = ((n, initial), task)" by (metis surj_pair)
  note c = seed_refresh_correct [OF s, of "[]", unfolded demo_seeds_sorted]
  have initial: "initial = {SocketAddrV4 [10, 0, 0, 1] 80, SocketAddrV4 [10, 0, 0, 7] 80}"
    using conjunct1 [OF c] by (auto simp: demo_lookup_def)
  have "task \<noteq> None" using c by simp
  then obtain t where t: "task = Some t" by blast
  obtain hosts where h: "distinct hosts" "set hosts = set [''db:80'']"
    "dns_refresh_loop demo_lookup t (replicate (Suc 2) True) (n, initial)
      = (True, n + Suc 2 * length hosts, {SocketAddrV4 [10, 0, 0, 1] 80} \<union> answers demo_lookup (n + 2 * length hosts) hosts)"
    using c [THEN conjunct2, THEN conjunct2, THEN conjunct2, THEN spec, THEN mp, OF t] by blast
  have "length hosts = 1" using distinct_card [OF h(1)] h(2) by simp
  then obtain x where "hosts = [x]" by (auto simp: length_Suc_conv)
  with h(2) have "hosts = [''db:80'']" by simp
  then have "snd (snd (dns_refresh_loop demo_lookup t (replicate 3 True) (n, initial))) = {SocketAddrV4 [10, 0, 0, 1] 80}"
    using h(3) by (simp add: demo_lookup_def del: replicate_Suc dns_refresh_loop.simps)
  with s t initial show ?thesis by blast
qed

end
