(* ===== verification/Handle.thy ===== *)
theory Handle
  imports Server Seeds Transition_System
begin

text \<open>
  The handle of \<^verbatim>\<open>chitchat/src/server.rs\<close>: \<^verbatim>\<open>spawn_chitchat\<close> resolves the seeds, opens the transport and
  starts the server as a background task; the application then talks to it through a queue of commands,
  and to the instance through its mutex. A task is the server with its queue and how it ended. What
  the handle, the task and the resolver do is interleaved in any order.
\<close>

section \<open>The server task\<close>

datatype task_state =
    Running
  | Finished "transport_error + unit"
  | Panicked panic
  | Aborted

text \<open>The sender of the queue lives in the handle: it goes when the handle is dropped or shut down.\<close>

datatype handle_state = Held | ShutDown | Dropped

record 's ServerTask =
  tk_server :: "'s Server"
  tk_commands :: "Command list"
  tk_state :: task_state
  tk_handle :: handle_state

definition Server_new :: "Chitchat \<Rightarrow> 's \<Rightarrow> 's ServerTask" where
  "Server_new cc rng = \<lparr>tk_server = \<lparr>srv_chitchat = cc, srv_rng = rng\<rparr>, tk_commands = [], tk_state = Running, tk_handle = Held\<rparr>"

text \<open>What \<^verbatim>\<open>run\<close> does before its loop: an interval of zero length panics.\<close>

definition run_prologue :: "'s ServerTask \<Rightarrow> 's ServerTask" where
  "run_prologue task = (if cfg_gossip_interval (cc_config (srv_chitchat (tk_server task))) = 0
     then task\<lparr>tk_state := Panicked ZeroPeriod\<rparr> else task)"

definition task_turn :: "'s rng_ops \<Rightarrow> Env \<Rightarrow> event \<Rightarrow> 's ServerTask \<Rightarrow> 's ServerTask \<times> sends" where
  "task_turn ops env e task = (case server_turn ops env e (tk_server task) of
     Inl p \<Rightarrow> (task\<lparr>tk_state := Panicked p\<rparr>, [])
   | Inr (r, srv, sent, _) \<Rightarrow>
       (task\<lparr>tk_server := srv, tk_state := (case r of StillRunning \<Rightarrow> Running | Stopped res \<Rightarrow> Finished res)\<rparr>, sent))"

text \<open>The branches of the \<^verbatim>\<open>select!\<close>: a command is only there when the queue holds one or is closed.\<close>

datatype wakeup = WakeReceived "transport_error + (SocketAddr \<times> ChitchatMessage)" | WakeTick | WakeCommand

fun task_wake :: "'s rng_ops \<Rightarrow> Env \<Rightarrow> wakeup \<Rightarrow> 's ServerTask \<Rightarrow> 's ServerTask \<times> sends" where
  "task_wake ops env (WakeReceived result) task = task_turn ops env (Received result) task"
| "task_wake ops env WakeTick task = task_turn ops env GossipTick task"
| "task_wake ops env WakeCommand task = (case tk_commands task of
     c # cs \<Rightarrow> task_turn ops env (CommandReceived (Some c)) (task\<lparr>tk_commands := cs\<rparr>)
   | [] \<Rightarrow> if tk_handle task = Dropped then task_turn ops env (CommandReceived None) task else (task, []))"

text \<open>The task over a sequence of wake-ups; once it has ended nothing more happens.\<close>

fun task_run :: "'s rng_ops \<Rightarrow> (Env \<times> wakeup) list \<Rightarrow> 's ServerTask \<Rightarrow> 's ServerTask \<times> sends" where
  "task_run ops [] task = (task, [])"
| "task_run ops ((env, w) # ws) task =
     (if tk_state task \<noteq> Running then (task, [])
      else let (task, sent) = task_wake ops env w task; (task, sent') = task_run ops ws task
           in (task, sent @ sent'))"

section \<open>The handle\<close>

datatype handle_error = CommandQueueClosed | ServerError transport_error | JoinError

text \<open>Sending fails when the task, which owns the receiver, has ended.\<close>

definition send_command :: "Command \<Rightarrow> 's ServerTask \<Rightarrow> (handle_error + unit) \<times> 's ServerTask" where
  "send_command c task = (if tk_state task = Running
     then (Inr (), task\<lparr>tk_commands := tk_commands task @ [c]\<rparr>) else (Inl CommandQueueClosed, task))"

definition handle_gossip :: "SocketAddr \<Rightarrow> 's ServerTask \<Rightarrow> (handle_error + unit) \<times> 's ServerTask" where
  "handle_gossip addr task = send_command (CommandGossip addr) task"

definition handle_shutdown :: "'s ServerTask \<Rightarrow> 's ServerTask" where
  "handle_shutdown task = (snd (send_command CommandShutdown task))\<lparr>tk_handle := ShutDown\<rparr>"

text \<open>What \<^verbatim>\<open>shutdown\<close> returns once the task has ended.\<close>

fun join_result :: "task_state \<Rightarrow> (handle_error + unit) option" where
  "join_result Running = None"
| "join_result (Finished (Inr ())) = Some (Inr ())"
| "join_result (Finished (Inl err)) = Some (Inl (ServerError err))"
| "join_result (Panicked p) = Some (Inl JoinError)"
| "join_result Aborted = Some (Inl JoinError)"

definition handle_abort :: "'s ServerTask \<Rightarrow> 's ServerTask" where
  "handle_abort task = (if tk_state task = Running then task\<lparr>tk_state := Aborted\<rparr> else task)"

definition handle_dropped :: "'s ServerTask \<Rightarrow> 's ServerTask" where
  "handle_dropped task = task\<lparr>tk_handle := Dropped\<rparr>"

definition with_chitchat :: "(Chitchat \<Rightarrow> 'r \<times> Chitchat) \<Rightarrow> 's ServerTask \<Rightarrow> 'r \<times> 's ServerTask" where
  "with_chitchat f task = (let (r, cc) = f (srv_chitchat (tk_server task))
     in (r, task\<lparr>tk_server := (tk_server task)\<lparr>srv_chitchat := cc\<rparr>\<rparr>))"

section \<open>Starting a server\<close>

text \<open>The handle, the task and the task that resolves the seeds, with the number of lookups so far.\<close>

record 's ChitchatHandle =
  h_chitchat_id :: ChitchatId
  h_task :: "'s ServerTask"
  h_dns :: "DnsRefresh option"
  h_lookups :: nat

definition spawn_chitchat ::
    "lookup \<Rightarrow> (SocketAddr \<Rightarrow> transport_error + unit) \<Rightarrow> ChitchatConfig \<Rightarrow> (string \<times> string) list \<Rightarrow> 's
     \<Rightarrow> (transport_error + 's ChitchatHandle) outcome" where
  "spawn_chitchat lookup open_transport config initial_key_values rng =
     (let ((n, seed_addrs), dns) = spawn_dns_refresh_loop lookup (cfg_seed_nodes config)
      in case open_transport (cfg_listen_addr config) of
           Inl err \<Rightarrow> Inr (Inl err)
         | Inr _ \<Rightarrow>
             result_bind (with_chitchat_id_and_seeds config seed_addrs initial_key_values) (\<lambda>cc.
               Inr (Inr \<lparr>h_chitchat_id = cfg_chitchat_id config, h_task = run_prologue (Server_new cc rng),
                 h_dns = dns, h_lookups = n\<rparr>)))"

definition dns_refreshed :: "lookup \<Rightarrow> DnsRefresh \<Rightarrow> 's ChitchatHandle \<Rightarrow> 's ChitchatHandle" where
  "dns_refreshed lookup t h =
     (let (n, addrs) = dns_refresh_turn lookup t (h_lookups h)
      in h\<lparr>h_lookups := n, h_task := snd (with_chitchat (\<lambda>cc. ((), cc_watch_seeds addrs cc)) (h_task h))\<rparr>)"

section \<open>One turn of the task\<close>

fun state_after :: "event \<Rightarrow> task_state" where
  "state_after (Received (Inl err)) = Finished (Inl err)"
| "state_after (CommandReceived None) = Finished (Inr ())"
| "state_after (CommandReceived (Some CommandShutdown)) = Finished (Inr ())"
| "state_after _ = Running"

lemma server_turn_result:
  "server_turn ops env e srv = Inr (r, srv', sent, fx) \<Longrightarrow>
     (case r of StillRunning \<Rightarrow> Running | Stopped res \<Rightarrow> Finished res) = state_after e"
  by (cases "(ops, env, e, srv)" rule: server_turn.cases) (auto split: prod.splits)

lemma gossip_multiple_seeds: "cc_seeds (srv_chitchat (fst (gossip_multiple ops env srv))) = cc_seeds (srv_chitchat srv)"
  by (simp add: gossip_multiple_defs Let_def split_beta)

lemma server_turn_seeds:
  assumes "server_turn ops env e srv = Inr (r, srv', sent, fx)"
  shows "cc_seeds (srv_chitchat srv') = cc_seeds (srv_chitchat srv)"
  using assms
proof (cases "(ops, env, e, srv)" rule: server_turn.cases)
  case (1 ops' env' a m srv'')
  with assms show ?thesis by (auto simp: handle_message_def dest: process_message_seeds)
next
  case (3 ops' env' srv'')
  with assms gossip_multiple_seeds [of ops env srv] show ?thesis by (auto split: prod.splits)
qed (use assms in auto)

lemma task_turn_ok:
  assumes "server_reachable ops (tk_server task)" and "rng_ok ops" and "env_ok env" and "event_acceptable e"
  obtains srv sent where "task_turn ops env e task = (task\<lparr>tk_server := srv, tk_state := state_after e\<rparr>, sent)"
    "server_reachable ops srv" "cc_seeds (srv_chitchat srv) = cc_seeds (srv_chitchat (tk_server task))"
    "\<And>addr. e = CommandReceived (Some (CommandGossip addr)) \<Longrightarrow> addr \<in> fst ` set sent"
proof -
  obtain r srv sent fx where t: "server_turn ops env e (tk_server task) = Inr (r, srv, sent, fx)"
    using server_turn_spec [OF server_reachable_inv [OF assms(2,1)] assms(2-4)] by blast
  show thesis
  proof (rule that)
    show "task_turn ops env e task = (task\<lparr>tk_server := srv, tk_state := state_after e\<rparr>, sent)"
      using server_turn_result [OF t] by (simp add: task_turn_def t)
    show "server_reachable ops srv" by (rule server_reachable.turn [OF assms(1,3,4) t])
    show "cc_seeds (srv_chitchat srv) = cc_seeds (srv_chitchat (tk_server task))" by (rule server_turn_seeds [OF t])
    show "addr \<in> fst ` set sent" if "e = CommandReceived (Some (CommandGossip addr))" for addr
      using t that by (auto simp: gossip_def)
  qed
qed

section \<open>Interleavings of the handle, the task and the resolver\<close>

fun wakeup_acceptable :: "wakeup \<Rightarrow> bool" where
  "wakeup_acceptable (WakeReceived result) \<longleftrightarrow> event_acceptable (Received result)"
| "wakeup_acceptable _ \<longleftrightarrow> True"

definition handle_init :: "lookup \<Rightarrow> string list \<Rightarrow> 's ChitchatHandle \<Rightarrow> bool" where
  "handle_init lookup seeds h \<longleftrightarrow> (\<exists>open_transport config kvs rng. config_ok config kvs \<and> 0 < cfg_gossip_interval config
     \<and> cfg_seed_nodes config = seeds \<and> spawn_chitchat lookup open_transport config kvs rng = Inr (Inr h))"

text \<open>The closures of the application cannot reach the watch channel of the seeds.\<close>

inductive handle_step :: "lookup \<Rightarrow> 's rng_ops \<Rightarrow> 's ChitchatHandle \<Rightarrow> 's ChitchatHandle \<Rightarrow> bool" for lookup ops where
  wakes: "tk_state (h_task h) = Running \<Longrightarrow> rng_ok ops \<Longrightarrow> env_ok env \<Longrightarrow> wakeup_acceptable w \<Longrightarrow>
    handle_step lookup ops h (h\<lparr>h_task := fst (task_wake ops env w (h_task h))\<rparr>)"
| gossips: "tk_handle (h_task h) = Held \<Longrightarrow> handle_step lookup ops h (h\<lparr>h_task := snd (handle_gossip addr (h_task h))\<rparr>)"
| uses: "app_step (srv_chitchat (tk_server (h_task h))) cc \<Longrightarrow> cc_seeds cc = cc_seeds (srv_chitchat (tk_server (h_task h))) \<Longrightarrow>
    handle_step lookup ops h (h\<lparr>h_task := snd (with_chitchat (\<lambda>_. ((), cc)) (h_task h))\<rparr>)"
| shuts_down: "tk_handle (h_task h) = Held \<Longrightarrow> handle_step lookup ops h (h\<lparr>h_task := handle_shutdown (h_task h)\<rparr>)"
| aborts: "tk_handle (h_task h) = Held \<Longrightarrow> handle_step lookup ops h (h\<lparr>h_task := handle_abort (h_task h)\<rparr>)"
| drops: "tk_handle (h_task h) = Held \<Longrightarrow> handle_step lookup ops h (h\<lparr>h_task := handle_dropped (h_task h)\<rparr>)"
| refreshes: "h_dns h = Some t \<Longrightarrow> handle_step lookup ops h (dns_refreshed lookup t h)"

definition task_inv :: "'s rng_ops \<Rightarrow> SocketAddr set \<Rightarrow> 's ServerTask \<Rightarrow> bool" where
  "task_inv ops literals task \<longleftrightarrow> server_reachable ops (tk_server task) \<and> (\<forall>p. tk_state task \<noteq> Panicked p)
     \<and> (tk_handle task = Held \<longrightarrow> tk_state task \<noteq> Finished (Inr ()) \<and> CommandShutdown \<notin> set (tk_commands task))
     \<and> literals \<subseteq> cc_seeds (srv_chitchat (tk_server task))"

definition handle_inv :: "'s rng_ops \<Rightarrow> string list \<Rightarrow> 's ChitchatHandle \<Rightarrow> bool" where
  "handle_inv ops seeds h \<longleftrightarrow> task_inv ops (seed_literals seeds) (h_task h)
     \<and> (\<forall>t. h_dns h = Some t \<longrightarrow> dns_literals t = seed_literals seeds)"

lemma task_turn_inv:
  assumes "task_inv ops L task" and "rng_ok ops" and "env_ok env" and "event_acceptable e"
    and "state_after e = Finished (Inr ()) \<Longrightarrow> tk_handle task \<noteq> Held"
  shows "task_inv ops L (fst (task_turn ops env e task))"
proof -
  have r: "server_reachable ops (tk_server task)" using assms(1) by (simp add: task_inv_def)
  obtain srv sent where t: "task_turn ops env e task = (task\<lparr>tk_server := srv, tk_state := state_after e\<rparr>, sent)"
    "server_reachable ops srv" "cc_seeds (srv_chitchat srv) = cc_seeds (srv_chitchat (tk_server task))"
    by (rule task_turn_ok [OF r assms(2-4)])
  have "state_after e \<noteq> Panicked p" for p by (cases e rule: state_after.cases) simp_all
  with assms(1,5) t show ?thesis by (auto simp: task_inv_def)
qed

lemma task_wake_inv:
  assumes "task_inv ops L task" and "rng_ok ops" and "env_ok env" and "wakeup_acceptable w"
  shows "task_inv ops L (fst (task_wake ops env w task))"
proof (cases w)
  case (WakeReceived result)
  then show ?thesis using task_turn_inv [OF assms(1-3), of "Received result"] assms(4) by (cases result) simp_all
next
  case WakeTick
  then show ?thesis using task_turn_inv [OF assms(1-3), of GossipTick] by simp
next
  case WakeCommand
  show ?thesis
  proof (cases "tk_commands task")
    case Nil
    then show ?thesis using WakeCommand assms(1) task_turn_inv [OF assms(1-3), of "CommandReceived None"] by simp
  next
    case (Cons c cs)
    then have "task_inv ops L (task\<lparr>tk_commands := cs\<rparr>)" using assms(1) by (auto simp: task_inv_def)
    moreover have "tk_handle task \<noteq> Held" if "c = CommandShutdown" using assms(1) Cons that by (auto simp: task_inv_def)
    ultimately show ?thesis
      using WakeCommand Cons task_turn_inv [of ops L "task\<lparr>tk_commands := cs\<rparr>" env "CommandReceived (Some c)"] assms(2,3)
      by (cases c) simp_all
  qed
qed

lemma with_chitchat_inv:
  assumes "task_inv ops L task" and "app_step (srv_chitchat (tk_server task)) cc" and "L \<subseteq> cc_seeds cc"
  shows "task_inv ops L (snd (with_chitchat (\<lambda>_. ((), cc)) task))"
  using assms server_reachable.application [of ops "tk_server task" cc] by (simp add: task_inv_def with_chitchat_def)

lemma dns_refreshed_eq:
  "dns_refreshed lookup t h = (let addrs = dns_literals t \<union> answers lookup (h_lookups h) (dns_hosts t)
     in h\<lparr>h_lookups := h_lookups h + length (dns_hosts t),
          h_task := snd (with_chitchat (\<lambda>_. ((), cc_watch_seeds addrs (srv_chitchat (tk_server (h_task h))))) (h_task h))\<rparr>)"
  by (simp add: dns_refreshed_def dns_refresh_turn_eq with_chitchat_def Let_def)

lemma dns_refreshed_inv:
  assumes "handle_inv ops seeds h" and "h_dns h = Some t"
  shows "handle_inv ops seeds (dns_refreshed lookup t h)"
proof -
  let ?cc = "srv_chitchat (tk_server (h_task h))"
  let ?addrs = "dns_literals t \<union> answers lookup (h_lookups h) (dns_hosts t)"
  have lit: "dns_literals t = seed_literals seeds" using assms by (simp add: handle_inv_def)
  then have "finite ?addrs" by (simp add: finite_seed_literals finite_answers)
  then have "app_step ?cc (cc_watch_seeds ?addrs ?cc)" by (intro app_step.app_peripheral peripheral_step.seeds_resolved)
  moreover have "seed_literals seeds \<subseteq> cc_seeds (cc_watch_seeds ?addrs ?cc)"
    using lit by (auto simp: cc_seeds_def cc_watch_seeds_def)
  ultimately have "task_inv ops (seed_literals seeds) (snd (with_chitchat (\<lambda>_. ((), cc_watch_seeds ?addrs ?cc)) (h_task h)))"
    using with_chitchat_inv assms(1) unfolding handle_inv_def by blast
  with assms(1) show ?thesis unfolding dns_refreshed_eq Let_def by (simp add: handle_inv_def)
qed

lemma handle_inv_task:
  "handle_inv ops seeds h \<Longrightarrow> task_inv ops (seed_literals seeds) task \<Longrightarrow> handle_inv ops seeds (h\<lparr>h_task := task\<rparr>)"
  by (simp add: handle_inv_def)

lemma handle_step_inv:
  assumes "handle_step lookup ops h h'" and inv: "handle_inv ops seeds h"
  shows "handle_inv ops seeds h'"
  using assms(1)
proof cases
  case (wakes env w)
  with inv task_wake_inv show ?thesis by (auto simp: handle_inv_def)
next
  case (gossips addr)
  with inv show ?thesis by (auto simp: handle_inv_def task_inv_def handle_gossip_def send_command_def)
next
  case (uses cc)
  have "task_inv ops (seed_literals seeds) (snd (with_chitchat (\<lambda>_. ((), cc)) (h_task h)))"
    using inv uses with_chitchat_inv [of ops "seed_literals seeds" "h_task h" cc] by (simp add: handle_inv_def task_inv_def)
  with inv uses(1) show ?thesis by (simp add: handle_inv_def)
next
  case shuts_down
  with inv show ?thesis by (auto simp: handle_inv_def task_inv_def handle_shutdown_def send_command_def)
next
  case aborts
  with inv show ?thesis by (auto simp: handle_inv_def task_inv_def handle_abort_def)
next
  case drops
  with inv show ?thesis by (auto simp: handle_inv_def task_inv_def handle_dropped_def)
next
  case (refreshes t)
  with inv dns_refreshed_inv show ?thesis by blast
qed

lemma with_chitchat_id_and_seeds_seeds:
  assumes "with_chitchat_id_and_seeds config seeds kvs = Inr cc"
  shows "cc_seeds cc = seeds" and "cc_config cc = config"
proof -
  have "cc_seeds cc' = cc_seeds cc0 \<and> cc_config cc' = cc_config cc0" if "set_initial_key_values kvs cc0 = Inr cc'" for kvs cc0 cc'
    using that
  proof (induction kvs arbitrary: cc0)
    case (Cons kv kvs)
    then show ?case by (cases kv) (fastforce simp: self_set_def Let_def put_self_node_state_def cc_seeds_def)
  qed simp
  then have "cc_seeds cc = seeds \<and> cc_config cc = config"
    using assms unfolding with_chitchat_id_and_seeds_def Let_def
    by (fastforce simp: cc_seeds_def with_seed_addrs_def update_self_heartbeat_def put_self_node_state_def)
  then show "cc_seeds cc = seeds" "cc_config cc = config" by simp_all
qed

lemma spawn_chitchat_Ok:
  assumes "spawn_chitchat lookup open_transport config kvs rng = Inr (Inr h)"
  obtains cc where "with_chitchat_id_and_seeds config (cc_seeds cc) kvs = Inr cc"
    "cc_seeds cc = seed_literals (cfg_seed_nodes config) \<union> answers lookup 0 (seed_hosts (cfg_seed_nodes config))"
    "h_task h = run_prologue (Server_new cc rng)" "h_chitchat_id h = cfg_chitchat_id config"
    "h_dns h = None \<longleftrightarrow> seed_hosts (cfg_seed_nodes config) = []"
    "\<And>t. h_dns h = Some t \<Longrightarrow> dns_literals t = seed_literals (cfg_seed_nodes config)"
proof -
  obtain n addrs dns where s: "spawn_dns_refresh_loop lookup (cfg_seed_nodes config) = ((n, addrs), dns)" by (metis surj_pair)
  note d = spawn_dns_eq [OF s]
  have "\<exists>cc. with_chitchat_id_and_seeds config addrs kvs = Inr cc
    \<and> h = \<lparr>h_chitchat_id = cfg_chitchat_id config, h_task = run_prologue (Server_new cc rng), h_dns = dns, h_lookups = n\<rparr>"
    using assms unfolding spawn_chitchat_def s Let_def prod.case
    by (cases "open_transport (cfg_listen_addr config)") (simp, simp add: eq_commute [of h])
  then obtain cc where cc: "with_chitchat_id_and_seeds config addrs kvs = Inr cc"
    "h = \<lparr>h_chitchat_id = cfg_chitchat_id config, h_task = run_prologue (Server_new cc rng), h_dns = dns, h_lookups = n\<rparr>"
    by blast
  note seeds = with_chitchat_id_and_seeds_seeds(1) [OF cc(1)]
  show thesis
  proof (rule that [of cc])
    show "with_chitchat_id_and_seeds config (cc_seeds cc) kvs = Inr cc" using cc(1) by (simp only: seeds)
    show "cc_seeds cc = seed_literals (cfg_seed_nodes config) \<union> answers lookup 0 (seed_hosts (cfg_seed_nodes config))"
      by (simp only: seeds d(2))
    show "dns_literals t = seed_literals (cfg_seed_nodes config)" if "h_dns h = Some t" for t
      using d(4) [of t] that by (simp add: cc(2))
  qed (simp_all add: cc(2) d(3))
qed

lemma handle_init_inv:
  assumes "handle_init lookup seeds h"
  shows "handle_inv ops seeds h"
proof -
  obtain open_transport config kvs rng where c: "config_ok config kvs" "0 < cfg_gossip_interval config"
    "cfg_seed_nodes config = seeds" "spawn_chitchat lookup open_transport config kvs rng = Inr (Inr h)"
    using assms by (auto simp: handle_init_def)
  obtain cc where cc: "with_chitchat_id_and_seeds config (cc_seeds cc) kvs = Inr cc"
    "cc_seeds cc = seed_literals seeds \<union> answers lookup 0 (seed_hosts seeds)"
    "h_task h = run_prologue (Server_new cc rng)" "\<And>t. h_dns h = Some t \<Longrightarrow> dns_literals t = seed_literals seeds"
    using spawn_chitchat_Ok [OF c(4)] c(3) by metis
  have "h_task h = Server_new cc rng"
    using with_chitchat_id_and_seeds_seeds(2) [OF cc(1)] c(2) by (simp add: cc(3) run_prologue_def Server_new_def)
  moreover have "server_reachable ops \<lparr>srv_chitchat = cc, srv_rng = rng\<rparr>"
    using server_reachable.start [OF c(1) _ cc(1)] cc(2) by (simp add: finite_answers finite_seed_literals)
  ultimately show ?thesis using cc(2,4) by (simp add: handle_inv_def task_inv_def Server_new_def)
qed

interpretation spawned: transition_invariant "handle_init lookup seeds" "handle_step lookup ops" "handle_inv ops seeds"
  for lookup seeds ops
  by unfold_locales (blast intro: handle_init_inv handle_step_inv)+

section \<open>Shutting down\<close>

text \<open>A wake-up that a healthy transport and peers of the cluster give.\<close>

definition healthy :: "Env \<times> wakeup \<Rightarrow> bool" where
  "healthy = (\<lambda>(env, w). env_ok env \<and> wakeup_acceptable w \<and> (\<forall>err. w \<noteq> WakeReceived (Inl err)))"

definition commands_polled :: "(Env \<times> wakeup) list \<Rightarrow> nat" where
  "commands_polled ws = length (filter (\<lambda>(_, w). w = WakeCommand) ws)"

lemma commands_polled_Cons:
  "commands_polled ((env, w) # ws) = (if w = WakeCommand then 1 else 0) + commands_polled ws"
  by (simp add: commands_polled_def)

text \<open>A wake-up that is no command, and one that is.\<close>

lemma task_wake_other:
  assumes "server_reachable ops (tk_server task)" and "rng_ok ops" and "healthy (env, w)" and "w \<noteq> WakeCommand"
    and "tk_state task = Running"
  obtains srv sent where "task_wake ops env w task = (task\<lparr>tk_server := srv\<rparr>, sent)" "server_reachable ops srv"
proof -
  define e where "e = (case w of WakeReceived r \<Rightarrow> Received r | _ \<Rightarrow> GossipTick)"
  have e: "event_acceptable e" "env_ok env" "state_after e = Running" "task_wake ops env w task = task_turn ops env e task"
    using assms(3,4) by (cases w; cases "case w of WakeReceived r \<Rightarrow> r | _ \<Rightarrow> undefined"; auto simp: healthy_def e_def)+
  obtain srv sent where t: "task_turn ops env e task = (task\<lparr>tk_server := srv, tk_state := state_after e\<rparr>, sent)"
    "server_reachable ops srv" by (rule task_turn_ok [OF assms(1,2) e(2,1)])
  have "task\<lparr>tk_server := srv, tk_state := Running\<rparr> = task\<lparr>tk_server := srv\<rparr>" using assms(5) by (cases task) simp
  with that [of srv sent] t e show thesis by simp
qed

lemma task_wake_command:
  assumes "server_reachable ops (tk_server task)" and "rng_ok ops" and "env_ok env" and "tk_commands task = c # cs"
  obtains srv sent where "task_wake ops env WakeCommand task = (task\<lparr>tk_commands := cs, tk_server := srv,
      tk_state := state_after (CommandReceived (Some c))\<rparr>, sent)"
    "server_reachable ops srv" "\<And>addr. c = CommandGossip addr \<Longrightarrow> addr \<in> fst ` set sent"
proof -
  have r: "server_reachable ops (tk_server (task\<lparr>tk_commands := cs\<rparr>))" using assms(1) by simp
  have e: "event_acceptable (CommandReceived (Some c))" by simp
  show thesis
  proof (rule task_turn_ok [OF r assms(2,3) e])
    fix srv sent
    assume t: "task_turn ops env (CommandReceived (Some c)) (task\<lparr>tk_commands := cs\<rparr>)
        = (task\<lparr>tk_commands := cs, tk_server := srv, tk_state := state_after (CommandReceived (Some c))\<rparr>, sent)"
      "server_reachable ops srv"
      "\<And>addr. CommandReceived (Some c) = CommandReceived (Some (CommandGossip addr)) \<Longrightarrow> addr \<in> fst ` set sent"
    show thesis by (rule that [OF _ t(2)]) (use t(1,3) assms(4) in simp_all)
  qed
qed

lemma task_run_ended: "tk_state task \<noteq> Running \<Longrightarrow> task_run ops ws task = (task, [])"
  by (cases ws) auto

lemma task_run_shutdown:
  assumes "rng_ok ops" and "list_all healthy ws" and "server_reachable ops (tk_server task)" and "tk_state task = Running"
    and "tk_commands task = cs @ CommandShutdown # rest" and "CommandShutdown \<notin> set cs" and "length cs < commands_polled ws"
  shows "\<exists>task' sent. task_run ops ws task = (task', sent) \<and> tk_state task' = Finished (Inr ())
    \<and> server_reachable ops (tk_server task') \<and> (\<forall>addr. CommandGossip addr \<in> set cs \<longrightarrow> addr \<in> fst ` set sent)"
  using assms(2-)
proof (induction ws arbitrary: task cs)
  case Nil
  then show ?case by (simp add: commands_polled_def)
next
  case (Cons x ws)
  obtain env w where x: "x = (env, w)" by (cases x)
  have h: "healthy (env, w)" "list_all healthy ws" "env_ok env" using Cons.prems(1) by (auto simp: x healthy_def)
  have run: "task_run ops (x # ws) task = (let (task, sent) = task_wake ops env w task; (task, sent') = task_run ops ws task
      in (task, sent @ sent'))" using Cons.prems(3) by (simp add: x)
  show ?case
  proof (cases "w = WakeCommand")
    case False
    obtain srv sent where t: "task_wake ops env w task = (task\<lparr>tk_server := srv\<rparr>, sent)" "server_reachable ops srv"
      by (rule task_wake_other [OF Cons.prems(2) assms(1) h(1) False Cons.prems(3)])
    have "length cs < commands_polled ws" using Cons.prems(6) False by (simp add: x commands_polled_Cons)
    from Cons.IH [OF h(2), of "task\<lparr>tk_server := srv\<rparr>" cs] t(2) Cons.prems(3-5) this
    show ?thesis unfolding run t(1) by (fastforce split: prod.splits)
  next
    case True
    show ?thesis
    proof (cases cs)
      case Nil
      then have q: "tk_commands task = CommandShutdown # rest" using Cons.prems(4) by simp
      obtain srv sent where "task_wake ops env WakeCommand task = (task\<lparr>tk_commands := rest, tk_server := srv,
          tk_state := Finished (Inr ())\<rparr>, sent)" "server_reachable ops srv"
        using task_wake_command [OF Cons.prems(2) assms(1) h(3) q] by (metis state_after.simps(3))
      then show ?thesis unfolding run True by (simp add: task_run_ended Nil)
    next
      case q: (Cons c cs')
      then obtain addr where c: "c = CommandGossip addr" using Cons.prems(5) by (cases c) auto
      have cmds: "tk_commands task = c # (cs' @ CommandShutdown # rest)" using Cons.prems(4) q by simp
      obtain srv sent where t: "task_wake ops env WakeCommand task = (task\<lparr>tk_commands := cs' @ CommandShutdown # rest,
          tk_server := srv, tk_state := Running\<rparr>, sent)" "server_reachable ops srv" "addr \<in> fst ` set sent"
        using task_wake_command [OF Cons.prems(2) assms(1) h(3) cmds] c by (metis state_after.simps(6))
      have "length cs' < commands_polled ws" using Cons.prems(6) True q by (simp add: x commands_polled_Cons)
      from Cons.IH [OF h(2), of "task\<lparr>tk_commands := cs' @ CommandShutdown # rest, tk_server := srv, tk_state := Running\<rparr>" cs']
        t(2) Cons.prems(5) this q obtain task' sent' where
        "task_run ops ws (task\<lparr>tk_commands := cs' @ CommandShutdown # rest, tk_server := srv, tk_state := Running\<rparr>) = (task', sent')"
        "tk_state task' = Finished (Inr ())" "server_reachable ops (tk_server task')"
        "\<forall>addr. CommandGossip addr \<in> set cs' \<longrightarrow> addr \<in> fst ` set sent'" by auto
      with t(3) q c show ?thesis unfolding run True t(1) by auto
    qed
  qed
qed

section \<open>A server that was just started\<close>

definition demo_handle :: "unit ChitchatHandle" where
  "demo_handle = \<lparr>h_chitchat_id = cfg_chitchat_id demo_config, h_task = Server_new demo_chitchat (), h_dns = None, h_lookups = 0\<rparr>"

lemma demo_config_ok: "config_ok demo_config []"
  using demo_config_window demo_chitchat_id(3) by (simp add: config_ok_def)

lemma demo_handle_spawned: "spawn_chitchat demo_lookup (\<lambda>_. Inr ()) demo_config [] () = Inr (Inr demo_handle)"
proof -
  have "spawn_dns_refresh_loop demo_lookup [] = ((0, {}), None)" by (simp add: spawn_dns_refresh_loop_def)
  moreover have "cfg_seed_nodes demo_config = []" "cfg_gossip_interval (cc_config demo_chitchat) \<noteq> 0"
    by (simp add: demo_config_def) (simp add: demo_chitchat_id demo_config_def from_secs_def)
  ultimately show ?thesis
    by (simp add: spawn_chitchat_def demo_chitchat_created demo_handle_def run_prologue_def Server_new_def)
qed

lemma demo_handle_reachable: "reachable (handle_init demo_lookup []) (handle_step demo_lookup demo_rng) demo_handle"
proof (rule reachable.initial)
  show "handle_init demo_lookup [] demo_handle" unfolding handle_init_def
    using demo_handle_spawned demo_config_ok
    by (intro exI [of _ "\<lambda>_. Inr ()"] exI [of _ demo_config] exI [of _ "[]"] exI [of _ "()"])
      (simp add: demo_config_def from_secs_def)
qed

section \<open>Properties\<close>

text \<open>
  C28. Starting a server fails only when the transport cannot be opened, with the error of the
  transport, and otherwise returns a handle with the configured identifier, to a task that runs unless
  the gossip interval is zero; its instance has the initial key-values and as seeds the addresses
  among the configured seeds with what the others resolved to, and the resolver runs when one of them
  is a host name.
\<close>

theorem spawn_chitchat_correct:
  assumes "0 < fdc_sampling_window_size (cfg_failure_detector_config config)"
    and "length kvs < 2 ^ 64" and "\<forall>(k, _) \<in> set kvs. k = [] \<or> is_char_boundary k 1"
  shows "case open_transport (cfg_listen_addr config) of
      Inl err \<Rightarrow> spawn_chitchat lookup open_transport config kvs rng = Inr (Inl err)
    | Inr _ \<Rightarrow> \<exists>h cc. spawn_chitchat lookup open_transport config kvs rng = Inr (Inr h)
        \<and> h_chitchat_id h = cfg_chitchat_id config \<and> cc = srv_chitchat (tk_server (h_task h))
        \<and> tk_state (h_task h) = (if cfg_gossip_interval config = 0 then Panicked ZeroPeriod else Running)
        \<and> cc_wf cc \<and> get (self_node_state cc) k = map_of (rev kvs) k
        \<and> cc_seeds cc = seed_literals (cfg_seed_nodes config) \<union> answers lookup 0 (seed_hosts (cfg_seed_nodes config))
        \<and> (h_dns h = None \<longleftrightarrow> seed_hosts (cfg_seed_nodes config) = [])"
proof (cases "open_transport (cfg_listen_addr config)")
  case (Inl err)
  then show ?thesis by (simp add: spawn_chitchat_def split: prod.split)
next
  case (Inr u)
  obtain n addrs dns where s: "spawn_dns_refresh_loop lookup (cfg_seed_nodes config) = ((n, addrs), dns)" by (metis surj_pair)
  obtain cc where cc: "with_chitchat_id_and_seeds config addrs kvs = Inr cc" "cc_wf cc"
      "get (self_node_state cc) k = map_of (rev kvs) k"
    using new_instance [OF assms, of addrs k] by blast
  let ?h = "\<lparr>h_chitchat_id = cfg_chitchat_id config, h_task = run_prologue (Server_new cc rng), h_dns = dns, h_lookups = n\<rparr>"
  have h: "spawn_chitchat lookup open_transport config kvs rng = Inr (Inr ?h)" by (simp add: spawn_chitchat_def s Inr cc(1))
  note seeds = with_chitchat_id_and_seeds_seeds [OF cc(1)]
  have t: "tk_server (h_task ?h) = \<lparr>srv_chitchat = cc, srv_rng = rng\<rparr>"
    "tk_state (h_task ?h) = (if cfg_gossip_interval config = 0 then Panicked ZeroPeriod else Running)"
    by (simp_all add: run_prologue_def Server_new_def seeds(2))
  show ?thesis unfolding Inr sum.case
    by (intro exI [of _ ?h] exI [of _ cc] conjI h) (use t cc(2,3) seeds(1) spawn_dns_eq(2,3) [OF s] in simp_all)
qed

theorem spawn_chitchat_correct_witness:
  "\<exists>h. spawn_chitchat demo_lookup (\<lambda>_. Inr ()) demo_config [(''a'', ''1'')] () = Inr (Inr h) \<and> tk_state (h_task h) = Running
     \<and> get (self_node_state (srv_chitchat (tk_server (h_task h)))) ''a'' = Some ''1''"
proof -
  have "cfg_gossip_interval demo_config \<noteq> 0" by (simp add: demo_config_def from_secs_def)
  moreover have "is_char_boundary ''a'' 1" by code_simp
  ultimately show ?thesis
    using spawn_chitchat_correct [OF demo_config_window, where kvs = "[(''a'', ''1'')]" and open_transport = "\<lambda>_. Inr ()" and k = "''a''"
        and lookup = demo_lookup and rng = "()"]
    by fastforce
qed



text \<open>
  C18. Shutting a server down completes: once the loop has polled its commands more often than there are
  commands in the queue, whatever messages and ticks come between, every gossip that was asked for
  before has been sent to its address, the task has ended, the caller of the shutdown gets the success
  of the loop, and later commands are refused.
\<close>

theorem shutdown_completes:
  assumes "reachable (handle_init lookup seeds) (handle_step lookup ops) h" and "rng_ok ops"
    and "tk_state (h_task h) = Running" and "tk_handle (h_task h) = Held"
    and "list_all healthy ws" and "length (tk_commands (h_task h)) < commands_polled ws"
  shows "\<exists>task sent. task_run ops ws (handle_shutdown (h_task h)) = (task, sent)
    \<and> join_result (tk_state task) = Some (Inr ()) \<and> server_reachable ops (tk_server task)
    \<and> (\<forall>addr. CommandGossip addr \<in> set (tk_commands (h_task h)) \<longrightarrow> addr \<in> fst ` set sent)
    \<and> handle_gossip addr task = (Inl CommandQueueClosed, task)"
proof -
  let ?task = "handle_shutdown (h_task h)"
  have I: "server_reachable ops (tk_server (h_task h))" "CommandShutdown \<notin> set (tk_commands (h_task h))"
    using spawned.invariant [OF assms(1)] assms(4) by (simp_all add: handle_inv_def task_inv_def)
  have sd: "server_reachable ops (tk_server ?task)" "tk_state ?task = Running"
    "tk_commands ?task = tk_commands (h_task h) @ CommandShutdown # []"
    using I assms(3) by (simp_all add: handle_shutdown_def send_command_def)
  obtain task sent where "task_run ops ws ?task = (task, sent)" "tk_state task = Finished (Inr ())"
    "server_reachable ops (tk_server task)" "\<forall>addr. CommandGossip addr \<in> set (tk_commands (h_task h)) \<longrightarrow> addr \<in> fst ` set sent"
    using task_run_shutdown [OF assms(2,5) sd I(2) assms(6)] by blast
  then show ?thesis by (auto simp: handle_gossip_def send_command_def)
qed

theorem shutdown_completes_witness:
  "\<exists>task sent. task_run demo_rng [(demo_env, WakeCommand)] (handle_shutdown (h_task demo_handle)) = (task, sent)
     \<and> join_result (tk_state task) = Some (Inr ())"
proof -
  have "tk_state (h_task demo_handle) = Running" "tk_handle (h_task demo_handle) = Held" "tk_commands (h_task demo_handle) = []"
    by (simp_all add: demo_handle_def Server_new_def)
  moreover have "list_all healthy [(demo_env, WakeCommand)]" "commands_polled [(demo_env, WakeCommand)] = 1"
    by (simp_all add: healthy_def demo_env_ok commands_polled_def)
  ultimately show ?thesis
    using shutdown_completes [OF demo_handle_reachable demo_rng_ok, of "[(demo_env, WakeCommand)]"] by (metis list.size(3) zero_less_one)
qed

end
