(* ===== verification/Service.thy ===== *)
theory Service
  imports Handle
begin

text \<open>
  The demonstration service of \<^verbatim>\<open>chitchat-test\<close> and the default configurations of
  \<^verbatim>\<open>chitchat/src/configuration.rs\<close>. The service starts a server over UDP from its command line and
  offers three requests over HTTP, which lock the instance and read or write it. The web framework, the
  JSON of the answers and the parser of the command line are not in the repository: a request is the
  function that handles it, and an answer the value that is serialized.
\<close>

section \<open>Default configurations\<close>

definition from_millis :: "nat \<Rightarrow> duration" where
  "from_millis ms = ms * 1000000"

definition for_local_test :: "u16 \<Rightarrow> ChitchatId" where
  "for_local_test p = ChitchatId_new (''node-'' @ decimal (unat p)) 0 (SocketAddrV4 [127, 0, 0, 1] p)"

definition ChitchatConfig_for_test :: "u16 \<Rightarrow> ChitchatConfig" where
  "ChitchatConfig_for_test p =
     \<lparr>cfg_chitchat_id = for_local_test p, cfg_cluster_id = ''default-cluster'', cfg_gossip_interval = from_millis 50,
      cfg_listen_addr = gossip_advertise_addr (for_local_test p), cfg_seed_nodes = [],
      cfg_failure_detector_config = FailureDetectorConfig_default,
      cfg_marked_for_deletion_grace_period = from_secs 10000, cfg_catchup_callback = False,
      cfg_extra_liveness_predicate = None\<rparr>"

definition ChitchatConfig_default :: ChitchatConfig where
  "ChitchatConfig_default =
     \<lparr>cfg_chitchat_id = for_local_test 10000, cfg_cluster_id = ''default-cluster'', cfg_gossip_interval = from_millis 1000,
      cfg_listen_addr = gossip_advertise_addr (for_local_test 10000), cfg_seed_nodes = [],
      cfg_failure_detector_config = FailureDetectorConfig_default,
      cfg_marked_for_deletion_grace_period = from_secs (3600 * 2), cfg_catchup_callback = False,
      cfg_extra_liveness_predicate = None\<rparr>"

section \<open>The requests\<close>

text \<open>The live nodes are listed in the arbitrary order of a hash set: the answer keeps the set.\<close>

record ApiResponse =
  ar_cluster_id :: string
  ar_cluster_state :: ClusterStateSnapshot
  ar_live_nodes :: "ChitchatId set"
  ar_dead_nodes :: "ChitchatId list"

record SetKeyValueResponse =
  kvr_status :: bool

definition api_index :: "Chitchat \<Rightarrow> ApiResponse" where
  "api_index cc = \<lparr>ar_cluster_id = cfg_cluster_id (cc_config cc), ar_cluster_state = state_snapshot cc,
     ar_live_nodes = cc_live_nodes cc, ar_dead_nodes = cc_dead_nodes cc\<rparr>"

definition api_set_kv :: "string \<Rightarrow> string \<Rightarrow> Chitchat \<Rightarrow> (SetKeyValueResponse \<times> Chitchat) outcome" where
  "api_set_kv key value cc = result_bind (self_set key value cc) (\<lambda>(cc, _). Inr (\<lparr>kvr_status = True\<rparr>, cc))"

definition api_mark_for_deletion :: "string \<Rightarrow> instant \<Rightarrow> Chitchat \<Rightarrow> SetKeyValueResponse \<times> Chitchat" where
  "api_mark_for_deletion key now cc = (\<lparr>kvr_status = True\<rparr>, self_delete key now cc)"

section \<open>Starting the service\<close>

record Opt =
  opt_listen_addr :: SocketAddr
  opt_public_addr :: "SocketAddr option"
  opt_node_id :: "string option"
  opt_seeds :: "string list"
  opt_interval :: nat

text \<open>The generated identifier holds a random name; \<open>generate_server_id\<close> is the parameter that makes it.\<close>

definition service_config :: "(SocketAddr \<Rightarrow> string) \<Rightarrow> u64 \<Rightarrow> Opt \<Rightarrow> ChitchatConfig" where
  "service_config generate_server_id generation opt =
     (let public_addr = (case opt_public_addr opt of Some a \<Rightarrow> a | None \<Rightarrow> opt_listen_addr opt);
          node_id = (case opt_node_id opt of Some i \<Rightarrow> i | None \<Rightarrow> generate_server_id public_addr)
      in \<lparr>cfg_chitchat_id = ChitchatId_new node_id generation public_addr, cfg_cluster_id = ''testing'',
          cfg_gossip_interval = from_millis (opt_interval opt), cfg_listen_addr = opt_listen_addr opt,
          cfg_seed_nodes = opt_seeds opt,
          cfg_failure_detector_config = FailureDetectorConfig_default\<lparr>fdc_dead_node_grace_period := from_secs 10\<rparr>,
          cfg_marked_for_deletion_grace_period = from_secs 60, cfg_catchup_callback = False,
          cfg_extra_liveness_predicate = None\<rparr>)"

definition service_main ::
    "lookup \<Rightarrow> (SocketAddr \<Rightarrow> transport_error + unit) \<Rightarrow> (SocketAddr \<Rightarrow> string) \<Rightarrow> u64 \<Rightarrow> Opt \<Rightarrow> 's
     \<Rightarrow> (transport_error + 's ChitchatHandle) outcome" where
  "service_main lookup open_udp generate_server_id generation opt rng =
     spawn_chitchat lookup open_udp (service_config generate_server_id generation opt) [] rng"

section \<open>What the service does\<close>

lemma decimal_ascii: "\<forall>c \<in> set (decimal n). of_char c < (128 :: nat)"
  using decimal_digits_ok [of n] by (auto simp: decimal_eq list_all_iff digit_char_def of_char_of)

lemma default_configs_ok: "config_ok (ChitchatConfig_for_test p) []" "config_ok ChitchatConfig_default []"
proof -
  have len: "length (decimal_digits (unat p)) \<le> 5" for p :: u16
  proof (rule decimal_digits_length)
    have "unat p < 2 ^ LENGTH(16)" by (rule unsigned_less)
    then show "unat p < 10 ^ 5" by simp
  qed simp
  have "wire_string (''node-'' @ decimal (unat p))" for p :: u16
    using decimal_ascii [of "unat p"] le_less_trans [OF len [of p], of 65531]
    by (intro wire_string_ascii) (simp_all add: list_all_iff decimal_eq)
  then have "id_wf (for_local_test p)" for p
    by (simp add: for_local_test_def ChitchatId_new_def id_wf_def plain_addr_def)
  then show "config_ok (ChitchatConfig_for_test p) []" "config_ok ChitchatConfig_default []"
    by (simp_all add: config_ok_def ChitchatConfig_for_test_def ChitchatConfig_default_def FailureDetectorConfig_default_def)
qed

text \<open>What the index shows of the local node.\<close>

definition shown :: "ApiResponse \<Rightarrow> ChitchatId \<Rightarrow> string \<Rightarrow> string option \<Rightarrow> bool" where
  "shown r i key value \<longleftrightarrow> (\<exists>ns \<in> set (css_node_states (ar_cluster_state r)). ns_chitchat_id ns = i \<and> get ns key = value)"

lemma shown_self:
  assumes "cc_wf cc"
  shows "shown (api_index (put_self_node_state ns cc)) (ns_chitchat_id ns) key (get ns key)"
proof -
  have "(self_chitchat_id cc, ns) \<in> set (btm_insert (self_chitchat_id cc) ns (cs_node_states (cc_cluster_state cc)))"
    using cc_wfD(1) [OF assms] by (simp add: set_btm_insert cs_wf_def)
  then have "ns \<in> set (css_node_states (ar_cluster_state (api_index (put_self_node_state ns cc))))"
    by (force simp: api_index_def state_snapshot_def snapshot_of_def put_self_node_state_def put_node_state_def btm_values_def)
  then show ?thesis by (auto simp: shown_def)
qed

text \<open>After a write the index shows it; after a deletion it does not show the key.\<close>

lemma set_kv_shown:
  assumes "cc_wf cc" and "ns_max_version (self_node_state cc) \<noteq> - 1" and "key = [] \<or> is_char_boundary key 1"
  obtains cc' where "api_set_kv key v cc = Inr (\<lparr>kvr_status = True\<rparr>, cc')" "cc_wf cc'"
    "shown (api_index cc') (self_chitchat_id cc) key (Some v)"
proof -
  note self = self_node_state_wf [OF assms(1)]
  obtain cc' fx where cc': "self_set key v cc = Inr (cc', fx)" "cc_wf cc'" "get (self_node_state cc') key = Some v"
    using self_set_ok [OF assms, of v key] by auto
  obtain ns es where ns: "node_set key v (self_node_state cc) = Inr (ns, es)" "cc' = put_self_node_state ns cc"
    using cc'(1) by (auto simp: self_set_def Let_def)
  have "shown (api_index cc') (ns_chitchat_id ns) key (get ns key)" unfolding ns(2) by (rule shown_self [OF assms(1)])
  moreover have "self_node_state cc' = ns" using assms(1) by (simp add: ns(2))
  ultimately show thesis using that [of cc'] cc' node_set_id [OF ns(1)] self by (simp add: api_set_kv_def)
qed

lemma mark_for_deletion_hides:
  assumes "cc_wf cc" and "ns_max_version (self_node_state cc) \<noteq> - 1"
  shows "shown (api_index (snd (api_mark_for_deletion key now cc))) (self_chitchat_id cc) key None"
proof -
  let ?ns = "delete key now (self_node_state cc)"
  have "get ?ns key = None" "ns_chitchat_id ?ns = self_chitchat_id cc"
    using self_node_state_wf [OF assms(1)]
    by (auto simp: delete_eq get_def get_versioned_put is_deleted_def split: option.splits)
  with shown_self [OF assms(1), of ?ns key] show ?thesis by (simp add: api_mark_for_deletion_def self_delete_def)
qed

text \<open>A service with a node identifier that fits the wire format and a gossip interval is a server as
  those of the handle's properties.\<close>

lemma service_started:
  assumes "service_main lookup open_udp gen generation opt rng = Inr (Inr h)" and "0 < opt_interval opt"
    and "id_wf (cfg_chitchat_id (service_config gen generation opt))"
  shows "handle_init lookup (opt_seeds opt) h"
proof -
  let ?config = "service_config gen generation opt"
  have "config_ok ?config []" using assms(3) by (simp add: config_ok_def) (simp add: service_config_def Let_def FailureDetectorConfig_default_def)
  moreover have "0 < cfg_gossip_interval ?config" "cfg_seed_nodes ?config = opt_seeds opt"
    using assms(2) by (simp_all add: service_config_def Let_def from_millis_def)
  ultimately show ?thesis using assms(1) unfolding handle_init_def service_main_def by blast
qed

end
