(* ===== verification/Test_Support.thy ===== *)
theory Test_Support
  imports Service "HOL-Library.Monad_Syntax"
begin

text \<open>
  What the unit tests of the crate are written with. The theories \<open>State_Tests\<close>, \<open>Codec_Tests\<close>, \<open>Stream_Tests\<close>,
  \<open>Instance_Tests\<close>, \<open>Detector_Tests\<close>, \<open>Handshake_Tests\<close> and \<open>Server_Tests\<close> translate test functions line by line and evaluate them in the kernel: they validate
  the definitions of the model against what the authors of the code expect of them.

  A test is a computation that returns \<open>Some ()\<close>, or \<open>None\<close> when an assertion fails, a value that is
  unwrapped is missing, or the code panics. The clock of tokio is paused in the tests that wait: an
  instant is written where the code reads the clock.
\<close>

type_synonym test = "unit option"

definition assert :: "bool \<Rightarrow> test" where
  "assert b = (if b then Some () else None)"

definition run :: "'e + 'a \<Rightarrow> 'a option" where
  "run x = (case x of Inl _ \<Rightarrow> None | Inr y \<Rightarrow> Some y)"

lemma run_eq_Some: "run x = Some y \<longleftrightarrow> x = Inr y"
  by (auto simp: run_def split: sum.splits)

lemma assert_eq_Some: "assert b = Some u \<longleftrightarrow> b"
  by (simp add: assert_def)

text \<open>The nodes of the tests; their names are printed once, here.\<close>

definition node1 :: ChitchatId where
  "node1 = for_local_test 10001"

definition node2 :: ChitchatId where
  "node2 = for_local_test 10002"

definition node3 :: ChitchatId where
  "node3 = for_local_test 10003"

definition node4 :: ChitchatId where
  "node4 = for_local_test 10004"

definition node5 :: ChitchatId where
  "node5 = for_local_test 10005"

definition node6 :: ChitchatId where
  "node6 = for_local_test 10006"

lemma node_ids [code]:
  "node1 = ChitchatId ''node-10001'' 0 (SocketAddrV4 [127, 0, 0, 1] 10001)"
  "node2 = ChitchatId ''node-10002'' 0 (SocketAddrV4 [127, 0, 0, 1] 10002)"
  "node3 = ChitchatId ''node-10003'' 0 (SocketAddrV4 [127, 0, 0, 1] 10003)"
  "node4 = ChitchatId ''node-10004'' 0 (SocketAddrV4 [127, 0, 0, 1] 10004)"
  "node5 = ChitchatId ''node-10005'' 0 (SocketAddrV4 [127, 0, 0, 1] 10005)"
  "node6 = ChitchatId ''node-10006'' 0 (SocketAddrV4 [127, 0, 0, 1] 10006)"
  by (simp_all add: node1_def node2_def node3_def node4_def node5_def node6_def for_local_test_def ChitchatId_new_def
      decimal.simps digit_char_def char_of_def bit_0)

definition VersionedValue_for_test :: "string \<Rightarrow> Version \<Rightarrow> VersionedValue" where
  "VersionedValue_for_test v n = \<lparr>vv_value = v, vv_version = n, vv_status = StatusSet\<rparr>"

text \<open>The equality of statuses and values in tests, which ignores the instants.\<close>

definition status_test_eq :: "DeletionStatus \<Rightarrow> DeletionStatus \<Rightarrow> bool" where
  "status_test_eq a b \<longleftrightarrow> (case (a, b) of (StatusSet, StatusSet) \<Rightarrow> True | (StatusDeleted _, StatusDeleted _) \<Rightarrow> True
     | (StatusDeleteAfterTtl _, StatusDeleteAfterTtl _) \<Rightarrow> True | _ \<Rightarrow> False)"

definition vv_test_eq :: "VersionedValue \<Rightarrow> VersionedValue \<Rightarrow> bool" where
  "vv_test_eq a b \<longleftrightarrow> vv_value a = vv_value b \<and> vv_version a = vv_version b \<and> status_test_eq (vv_status a) (vv_status b)"

definition digest_add_node :: "ChitchatId \<Rightarrow> Heartbeat \<Rightarrow> Version \<Rightarrow> Version \<Rightarrow> Digest \<Rightarrow> Digest" where
  "digest_add_node i h g m d = d\<lparr>node_digests := btm_insert i \<lparr>nd_heartbeat = h, nd_last_gc_version = g, nd_max_version = m\<rparr> (node_digests d)\<rparr>"

definition delta_add_node :: "ChitchatId \<Rightarrow> Version \<Rightarrow> Version \<Rightarrow> Delta \<Rightarrow> Delta option" where
  "delta_add_node i g f d = do {
     assert (\<not> list_ex (\<lambda>nd. ndl_chitchat_id nd = i) (node_deltas d));
     Some (d\<lparr>node_deltas := node_deltas d @ [\<lparr>ndl_chitchat_id = i, ndl_from_version_excluded = f, ndl_last_gc_version = g,
       ndl_key_values = [], ndl_max_version = None\<rparr>]\<rparr>)}"

fun push_kv :: "ChitchatId \<Rightarrow> KeyValueMutation \<Rightarrow> NodeDelta list \<Rightarrow> NodeDelta list option" where
  "push_kv i m [] = None"
| "push_kv i m (nd # nds) = (if ndl_chitchat_id nd = i then Some (nd\<lparr>ndl_key_values := ndl_key_values nd @ [m]\<rparr> # nds)
     else map_option ((#) nd) (push_kv i m nds))"

definition delta_add_kv :: "ChitchatId \<Rightarrow> string \<Rightarrow> string \<Rightarrow> Version \<Rightarrow> bool \<Rightarrow> Delta \<Rightarrow> Delta option" where
  "delta_add_kv i k v n deleted d = map_option (\<lambda>nds. d\<lparr>node_deltas := nds\<rparr>)
     (push_kv i \<lparr>kvm_key = k, kvm_value = v, kvm_version = n, kvm_status = (if deleted then MutDelete else MutSet)\<rparr> (node_deltas d))"

end
