(* ===== verification/State_Tests.thy ===== *)
theory State_Tests
  imports Test_Support Handshake
begin

text \<open>
  The unit tests of \<^verbatim>\<open>chitchat/src/state.rs\<close>, run on \<open>Node_State\<close> and \<open>Cluster_State\<close>. Instants and
  durations are in seconds. Four tests, which compare deltas for all sizes of a datagram between 100
  bytes and the size of the whole delta, are left out: they expect no entry in the smallest of these
  deltas, so they can only pass when the whole delta takes at most 100 bytes, and then compare nothing.
\<close>

section \<open>What the tests are written with\<close>

definition ClusterState_default :: ClusterState where
  "ClusterState_default = \<lparr>cs_node_states = [], cs_seed_addrs = {}, cs_listeners = InnerListeners_default\<rparr>"

text \<open>Operations whose events no listener sees.\<close>

definition nset :: "string \<Rightarrow> string \<Rightarrow> NodeState \<Rightarrow> NodeState option" where
  "nset k v ns = map_option fst (run (node_set k v ns))"

definition nset_version :: "string \<Rightarrow> string \<Rightarrow> Version \<Rightarrow> NodeState \<Rightarrow> NodeState option" where
  "nset_version k v n ns = map_option fst (run (set_with_version k v n ns))"

definition set_value :: "string \<Rightarrow> Version \<Rightarrow> VersionedValue" where
  "set_value v n = \<lparr>vv_value = v, vv_version = n, vv_status = StatusSet\<rparr>"

section \<open>Reads and writes of a node\<close>

definition test_cluster_state_missing_node :: test where
  "test_cluster_state_missing_node = assert (node_state ClusterState_default node1 = None)"

definition test_cluster_state_first_version_is_one :: test where
  "test_cluster_state_first_version_is_one = do {
     ns \<leftarrow> nset ''key_a'' [] (node_state_mut ClusterState_default node1);
     vv \<leftarrow> get_versioned ns ''key_a'';
     assert (vv_test_eq vv (set_value [] 1))}"

definition test_cluster_state_set :: test where
  "test_cluster_state_set = do {
     ns \<leftarrow> nset ''key_a'' ''1'' (node_state_mut ClusterState_default node1);
     a \<leftarrow> get_versioned ns ''key_a'';
     assert (vv_test_eq a (set_value ''1'' 1));
     ns \<leftarrow> nset ''key_b'' ''2'' ns;
     a \<leftarrow> get_versioned ns ''key_a'';
     assert (vv_test_eq a (set_value ''1'' 1));
     b \<leftarrow> get_versioned ns ''key_b'';
     assert (vv_test_eq b (set_value ''2'' 2));
     ns \<leftarrow> nset ''key_a'' ''3'' ns;
     a \<leftarrow> get_versioned ns ''key_a'';
     assert (vv_test_eq a (set_value ''3'' 3))}"

definition test_cluster_state_set_with_same_value_updates_version :: test where
  "test_cluster_state_set_with_same_value_updates_version = do {
     ns \<leftarrow> nset ''key'' ''1'' (node_state_mut ClusterState_default node1);
     vv \<leftarrow> get_versioned ns ''key'';
     assert (vv_test_eq vv (set_value ''1'' 1));
     ns \<leftarrow> nset ''key'' ''1'' ns;
     vv \<leftarrow> get_versioned ns ''key'';
     assert (vv_test_eq vv (set_value ''1'' 1))}"

definition test_cluster_state_set_and_mark_for_deletion :: test where
  "test_cluster_state_set_and_mark_for_deletion = do {
     let ns = (node_state_mut ClusterState_default node1)\<lparr>ns_heartbeat := 10\<rparr>;
     ns \<leftarrow> nset ''key'' ''1'' ns;
     let ns = delete ''key'' 0 ns;
     assert (get ns ''key'' = None);
     vv \<leftarrow> get_versioned ns ''key'';
     assert (vv_value vv = []);
     assert (vv_version vv = 2);
     assert (is_deleted vv);
     assert (time_of_start_scheduled_for_deletion (vv_status vv) \<noteq> None);
     ns \<leftarrow> nset ''key'' ''2'' ns;
     vv \<leftarrow> get_versioned ns ''key'';
     assert (vv_value vv = ''2'');
     assert (vv_version vv = 3);
     assert (\<not> is_deleted vv);
     assert (time_of_start_scheduled_for_deletion (vv_status vv) = None)}"

definition test_cluster_state_delete_after_ttl :: test where
  "test_cluster_state_delete_after_ttl = do {
     let ns = (node_state_mut ClusterState_default node1)\<lparr>ns_heartbeat := 10\<rparr>;
     ns \<leftarrow> nset ''key'' ''1'' ns;
     let ns = delete_after_ttl ''key'' 0 ns;
     v \<leftarrow> get ns ''key'';
     assert (v = ''1'');
     vv \<leftarrow> get_versioned ns ''key'';
     assert (vv_value vv = ''1'');
     assert (vv_version vv = 2);
     assert (time_of_start_scheduled_for_deletion (vv_status vv) \<noteq> None);
     assert (\<not> is_deleted vv);
     assert (case vv_status vv of StatusDeleteAfterTtl _ \<Rightarrow> True | _ \<Rightarrow> False);
     ns \<leftarrow> nset ''key'' ''2'' ns;
     vv \<leftarrow> get_versioned ns ''key'';
     assert (vv_value vv = ''2'');
     assert (vv_version vv = 3);
     assert (\<not> is_deleted vv);
     assert (time_of_start_scheduled_for_deletion (vv_status vv) = None);
     assert (case vv_status vv of StatusSet \<Rightarrow> True | _ \<Rightarrow> False)}"

definition test_iter_prefix :: test where
  "test_iter_prefix = do {
     ns \<leftarrow> nset ''Europe'' [] NodeState_for_test;
     ns \<leftarrow> nset ''Europe:'' [] ns;
     ns \<leftarrow> nset ''Europe:UK'' [] ns;
     ns \<leftarrow> nset ''Asia:Japan'' [] ns;
     ns \<leftarrow> nset ''Europe:Italy'' [] ns;
     ns \<leftarrow> nset ''Africa:Uganda'' [] ns;
     ns \<leftarrow> nset ''Oceania'' [] ns;
     let ns = delete ''Europe:UK'' 0 ns;
     assert (map fst (iter_prefix ns ''Europe:'') = [''Europe:'', ''Europe:Italy''])}"

definition test_node_set_delete :: test where
  "test_node_set_delete = do {
     ns \<leftarrow> nset ''key_a'' ''val_b'' NodeState_for_test;
     let ns = delete ''key_a'' 0 ns;
     assert (get ns ''key_a'' = None)}"

definition test_node_set_delete_after_ttl_set :: test where
  "test_node_set_delete_after_ttl_set = do {
     ns \<leftarrow> nset ''key_a'' ''val_b'' NodeState_for_test;
     let ns = delete_after_ttl ''key_a'' 0 ns;
     ns \<leftarrow> nset ''key_a'' ''val_b2'' ns;
     vv \<leftarrow> get_versioned ns ''key_a'';
     assert (case vv_status vv of StatusSet \<Rightarrow> True | _ \<Rightarrow> False)}"

definition test_node_set_with_ttl :: test where
  "test_node_set_with_ttl = do {
     let ns = fst (set_with_ttl ''key_a'' ''val_b'' 0 NodeState_for_test);
     vv \<leftarrow> get_versioned ns ''key_a'';
     assert (case vv_status vv of StatusDeleteAfterTtl _ \<Rightarrow> True | _ \<Rightarrow> False);
     assert (vv_value vv = ''val_b'')}"

section \<open>Garbage collection, digests and deltas\<close>

definition test_cluster_state_compute_digest :: test where
  "test_cluster_state_compute_digest = do {
     let cs = ClusterState_default;
     ns1 \<leftarrow> nset ''key_a'' [] (node_state_mut cs node1);
     let cs = put_node_state node1 ns1 cs;
     let ns2 = set_last_gc_version 10 (node_state_mut cs node2);
     ns2 \<leftarrow> nset ''key_a'' [] ns2;
     ns2 \<leftarrow> nset ''key_b'' [] ns2;
     let cs = put_node_state node2 ns2 cs;
     let digest = cluster_compute_digest cs {};
     let expected_node_digests = digest_add_node node2 0 10 2 (digest_add_node node1 0 0 1 Digest_default);
     assert (digest = expected_node_digests)}"

definition test_cluster_state_gc_keys_marked_for_deletion :: test where
  "test_cluster_state_gc_keys_marked_for_deletion = do {
     let cs = ClusterState_default;
     ns \<leftarrow> nset ''key_a'' ''1'' (node_state_mut cs node1);
     let ns = delete ''key_a'' 0 ns;
     ns \<leftarrow> nset_version ''key_b'' ''3'' 13 ns;
     let cs = put_node_state node1 (ns\<lparr>ns_heartbeat := 110\<rparr>) cs;
     let cs = cluster_gc_keys_marked_for_deletion 10 5 cs;
     ns \<leftarrow> node_state cs node1;
     _ \<leftarrow> btm_get (ns_key_values ns) ''key_a'';
     _ \<leftarrow> btm_get (ns_key_values ns) ''key_b'';
     let cs = cluster_gc_keys_marked_for_deletion 10 10 cs;
     ns \<leftarrow> node_state cs node1;
     assert (\<not> btm_contains (ns_key_values ns) ''key_a'');
     _ \<leftarrow> btm_get (ns_key_values ns) ''key_b'';
     Some ()}"

definition test_cluster_state_apply_delta :: test where
  "test_cluster_state_apply_delta = do {
     let cs = ClusterState_default;
     ns1 \<leftarrow> nset_version ''key_a'' ''1'' 1 (node_state_mut cs node1);
     ns1 \<leftarrow> nset_version ''key_b'' ''3'' 3 ns1;
     let cs = put_node_state node1 ns1 cs;
     ns2 \<leftarrow> nset_version ''key_c'' ''3'' 1 (node_state_mut cs node2);
     let cs = put_node_state node2 ns2 cs;
     delta \<leftarrow> delta_add_node node1 0 0 Delta_default;
     delta \<leftarrow> delta_add_kv node1 ''key_a'' ''4'' 4 False delta;
     delta \<leftarrow> delta_add_kv node1 ''key_b'' ''2'' 2 False delta;
     delta \<leftarrow> delta_add_node node2 3 0 delta;
     delta \<leftarrow> delta_add_kv node2 ''key_d'' ''4'' 4 False delta;
     let cs = fst (cluster_apply_delta delta 0 cs);
     ns1 \<leftarrow> node_state cs node1;
     a \<leftarrow> get_versioned ns1 ''key_a'';
     assert (vv_test_eq a (set_value ''4'' 4));
     b \<leftarrow> get_versioned ns1 ''key_b'';
     assert (vv_test_eq b (set_value ''3'' 3));
     ns2 \<leftarrow> node_state cs node2;
     assert (length (ns_key_values ns2) = 1);
     d \<leftarrow> get_versioned ns2 ''key_d'';
     assert (vv_test_eq d (set_value ''4'' 4))}"

text \<open>The next test compares the deltas that a cluster state offers to a node that knows version 1 of the
  first node. It is parameterised by the computation of these deltas, so that it can be run with every
  compressor; the lengths, which depend on the compressor, are not compared.\<close>

definition old_digest :: Digest where
  "old_digest = digest_add_node node1 0 0 1 Digest_default"

definition old_state_delta :: "zstd \<Rightarrow> ClusterState \<Rightarrow> NodeDelta list option" where
  "old_state_delta zc cs = map_option node_deltas
     (run (compute_partial_delta_respecting_mtu zc (\<lambda>_ xs. xs) cs old_digest MAX_UDP_DATAGRAM_PAYLOAD_SIZE {}))"

definition needs_reset_test :: "(ClusterState \<Rightarrow> NodeDelta list option) \<Rightarrow> test" where
  "needs_reset_test compute = do {
     let cs = ClusterState_default;
     ns1 \<leftarrow> nset_version ''key_a'' ''1'' 1 ((node_state_mut cs node1)\<lparr>ns_heartbeat := 10000\<rparr>);
     ns1 \<leftarrow> nset_version ''key_b'' ''2'' 2 ns1;
     let cs = put_node_state node1 ns1 cs;
     ns2 \<leftarrow> nset_version ''key_c'' ''3'' 2 (node_state_mut cs node2);
     let cs = put_node_state node2 ns2 cs;
     delta \<leftarrow> compute cs;
     expected \<leftarrow> delta_add_node node2 0 0 Delta_default;
     expected \<leftarrow> delta_add_kv node2 ''key_c'' ''3'' 2 False expected;
     expected \<leftarrow> delta_add_node node1 0 1 expected;
     expected \<leftarrow> delta_add_kv node1 ''key_b'' ''2'' 2 False expected;
     assert (delta = node_deltas expected);
     let cs = put_node_state node1 (delete ''key_a'' 0 (node_state_mut cs node1)) cs;
     let cs = cluster_gc_keys_marked_for_deletion 10 5 cs;
     delta \<leftarrow> compute cs;
     expected \<leftarrow> delta_add_kv node1 ''key_a'' [] 3 True expected;
     assert (delta = node_deltas expected);
     let cs = put_node_state node1 (node_gc_keys_marked_for_deletion 10 15 (node_state_mut cs node1)) cs;
     delta \<leftarrow> compute cs;
     expected \<leftarrow> delta_add_node node2 0 0 Delta_default;
     expected \<leftarrow> delta_add_kv node2 ''key_c'' ''3'' 2 False expected;
     expected \<leftarrow> delta_add_node node1 3 0 expected;
     expected \<leftarrow> delta_add_kv node1 ''key_b'' ''2'' 2 False expected;
     assert (delta = node_deltas expected)}"

definition test_cluster_state_compute_delta_with_old_node_state_that_needs_reset :: "zstd \<Rightarrow> test" where
  "test_cluster_state_compute_delta_with_old_node_state_that_needs_reset zc = needs_reset_test (old_state_delta zc)"

section \<open>Stale nodes\<close>

definition test_stale_node_iter_stale_key_values :: test where
  "test_stale_node_iter_stale_key_values = do {
     let stale_node = \<lparr>sn_chitchat_id = node1, sn_node_state = NodeState_for_test, sn_from_version_excluded = 0\<rparr>;
     assert (sn_stale_key_values stale_node = []);
     let kvs = btm_insert ''key_c'' (VersionedValue_for_test ''value_c'' 1) (btm_insert ''key_b'' (VersionedValue_for_test ''value_b'' 2)
       (btm_insert ''key_a'' (VersionedValue_for_test ''value_a'' 3) (ns_key_values NodeState_for_test)));
     let stale_node = \<lparr>sn_chitchat_id = node1, sn_node_state = NodeState_for_test\<lparr>ns_key_values := kvs\<rparr>, sn_from_version_excluded = 1\<rparr>;
     assert (list_all2 (\<lambda>(k, v) (k', v'). k = k' \<and> vv_test_eq v v') (sn_stale_key_values stale_node)
       [(''key_b'', VersionedValue_for_test ''value_b'' 2), (''key_a'', VersionedValue_for_test ''value_a'' 3)])}"

definition test_sorted_stale_nodes_empty :: test where
  "test_sorted_stale_nodes_empty = assert (stale_into_iter (\<lambda>_ xs. xs) [] = [])"

text \<open>Indexing a \<^verbatim>\<open>BTreeMap\<close> by a key uses the order of the keys.\<close>

definition stale_at :: "Staleness \<Rightarrow> SortedStaleNodes \<Rightarrow> StaleNode list option" where
  "stale_at st ssn = map_option snd (find (\<lambda>(st', _). staleness_cmp st' st = Equal) ssn)"

definition test_sorted_stale_nodes_insert :: test where
  "test_sorted_stale_nodes_insert = do {
     let ns1 = set_max_version 2 NodeState_for_test;
     let stale_nodes = offer node1 ns1 0 [];
     assert (length stale_nodes = 1);
     ns2 \<leftarrow> nset_version ''key_a'' ''value_a'' 1 NodeState_for_test;
     let stale_nodes = offer node2 ns2 0 stale_nodes;
     found \<leftarrow> stale_at \<lparr>st_is_unknown = True, st_max_version = 1, st_num_stale_key_values = 0\<rparr> stale_nodes;
     assert (length found = 1);
     ns3 \<leftarrow> nset_version ''key_b'' ''value_b'' 2 NodeState_for_test;
     ns3 \<leftarrow> nset_version ''key_c'' ''value_c'' 3 ns3;
     let stale_nodes = offer node3 ns3 0 stale_nodes;
     found \<leftarrow> stale_at \<lparr>st_is_unknown = True, st_max_version = 3, st_num_stale_key_values = 3\<rparr> stale_nodes;
     assert (length found = 1)}"

definition test_sorted_stale_nodes_offer :: test where
  "test_sorted_stale_nodes_offer = do {
     let stale_nodes = offer node1 NodeState_for_test 1 [];
     assert (stale_nodes = []);
     ns2 \<leftarrow> nset_version ''key_a'' ''value_a'' 1 NodeState_for_test;
     let stale_nodes = offer node2 ns2 1 stale_nodes;
     assert (stale_nodes = []);
     ns3 \<leftarrow> nset_version ''key_a'' ''value_a'' 1 NodeState_for_test;
     ns3 \<leftarrow> nset_version ''key_b'' ''value_b'' 2 ns3;
     ns3 \<leftarrow> nset_version ''key_c'' ''value_c'' 3 ns3;
     let stale_nodes = offer node2 ns3 1 stale_nodes;
     assert (length stale_nodes = 1);
     found \<leftarrow> stale_at \<lparr>st_is_unknown = False, st_max_version = 1, st_num_stale_key_values = 2\<rparr> stale_nodes;
     assert (length found = 1)}"

definition test_sorted_stale_nodes_into_iter :: test where
  "test_sorted_stale_nodes_into_iter = do {
     ns1 \<leftarrow> nset_version ''key_a'' ''value_a'' 1 NodeState_for_test;
     ns1 \<leftarrow> nset_version ''key_b'' ''value_b'' 2 ns1;
     ns1 \<leftarrow> nset_version ''key_c'' ''value_c'' 3 ns1;
     let stale_nodes = offer node1 ns1 1 [];
     ns2 \<leftarrow> nset_version ''key_a'' ''value'' 1 NodeState_for_test;
     ns2 \<leftarrow> nset_version ''key_b'' ''value_b'' 2 ns2;
     ns2 \<leftarrow> nset_version ''key_c'' ''value_c'' 5 ns2;
     let stale_nodes = offer node2 ns2 2 stale_nodes;
     ns3 \<leftarrow> nset_version ''key_a'' ''value_a'' 1 NodeState_for_test;
     ns3 \<leftarrow> nset_version ''key_b'' ''value_b'' 2 ns3;
     ns3 \<leftarrow> nset_version ''key_c'' ''value_c'' 3 ns3;
     let stale_nodes = offer node3 ns3 7 stale_nodes;
     ns4 \<leftarrow> nset_version ''key_a'' ''value_a'' 1 NodeState_for_test;
     ns4 \<leftarrow> nset_version ''key_b'' ''value_b'' 2 ns4;
     ns4 \<leftarrow> nset_version ''key_c'' ''value_c'' 5 ns4;
     ns4 \<leftarrow> nset_version ''key_d'' ''value_d'' 7 ns4;
     let stale_nodes = offer node4 ns4 1 stale_nodes;
     let stale_nodes = offer node5 NodeState_for_test 0 stale_nodes;
     ns6 \<leftarrow> nset_version ''key_a'' ''value_a'' 1 NodeState_for_test;
     let stale_nodes = offer node6 ns6 0 stale_nodes;
     assert (map (\<lambda>sn. port (gossip_advertise_addr (sn_chitchat_id sn))) (stale_into_iter (\<lambda>_ xs. xs) stale_nodes)
       = [10006, 10004, 10001, 10002])}"

section \<open>Deltas applied to a node\<close>

definition mutation :: "string \<Rightarrow> string \<Rightarrow> Version \<Rightarrow> KeyValueMutation" where
  "mutation k v n = \<lparr>kvm_key = k, kvm_value = v, kvm_version = n, kvm_status = MutSet\<rparr>"

definition delta_for :: "NodeState \<Rightarrow> Version \<Rightarrow> Version \<Rightarrow> KeyValueMutation list \<Rightarrow> NodeDelta" where
  "delta_for ns excluded gc kvs = \<lparr>ndl_chitchat_id = ns_chitchat_id ns, ndl_from_version_excluded = excluded,
     ndl_last_gc_version = gc, ndl_key_values = kvs, ndl_max_version = None\<rparr>"

definition test_node_apply_delta_simple :: test where
  "test_node_apply_delta_simple = do {
     ns \<leftarrow> nset_version ''key_a'' ''val_a'' 1 NodeState_for_test;
     ns \<leftarrow> nset_version ''key_b'' ''val_a'' 2 ns;
     let node_delta = delta_for ns 2 0 [mutation ''key_c'' ''val_c'' 4, mutation ''key_b'' ''val_b2'' 3];
     let ns = fst (node_apply_delta node_delta 0 ns);
     assert (num_key_values ns = 3);
     assert (ns_max_version ns = 4);
     assert (ns_last_gc_version ns = 0);
     assert (get ns ''key_a'' = Some ''val_a'');
     assert (get ns ''key_b'' = Some ''val_b2'');
     assert (get ns ''key_c'' = Some ''val_c'')}"

definition test_node_apply_same_value_different_version :: test where
  "test_node_apply_same_value_different_version = do {
     ns \<leftarrow> nset_version ''key_a'' ''val_a'' 1 NodeState_for_test;
     let ns = fst (node_apply_delta (delta_for ns 1 0 [mutation ''key_a'' ''val_a'' 3]) 0 ns);
     a \<leftarrow> get_versioned ns ''key_a'';
     assert (vv_version a = 3);
     assert (status_test_eq (vv_status a) StatusSet);
     assert (vv_value a = ''val_a'')}"

definition test_node_skip_delta_from_the_future :: test where
  "test_node_skip_delta_from_the_future = do {
     ns \<leftarrow> nset_version ''key_a'' ''val_a'' 5 NodeState_for_test;
     assert (ns_max_version ns = 5);
     let ns = fst (node_apply_delta (delta_for ns 6 0 [mutation ''key_a'' ''new_val'' 7]) 0 ns);
     a \<leftarrow> get_versioned ns ''key_a'';
     assert (vv_version a = 5);
     assert (status_test_eq (vv_status a) StatusSet);
     assert (vv_value a = ''val_a'')}"

definition test_node_apply_delta_different_last_gc_is_ok_if_below_max_version :: test where
  "test_node_apply_delta_different_last_gc_is_ok_if_below_max_version = do {
     ns \<leftarrow> nset_version ''key_a'' ''val_a'' 17 NodeState_for_test;
     let ns = delete ''key_a'' 0 ns;
     let ns = node_gc_keys_marked_for_deletion 10 10 ns;
     assert (ns_last_gc_version ns = 18);
     assert (ns_max_version ns = 18);
     ns \<leftarrow> nset_version ''key_a'' ''val_a'' 31 ns;
     let ns = fst (node_apply_delta (delta_for ns 31 30 [mutation ''key_a'' ''new_val'' 32]) 10 ns);
     a \<leftarrow> get_versioned ns ''key_a'';
     assert (vv_version a = 32);
     assert (ns_max_version ns = 32);
     assert (status_test_eq (vv_status a) StatusSet);
     assert (vv_value a = ''new_val'')}"

definition test_node_apply_delta_on_reset_fresher_version :: test where
  "test_node_apply_delta_on_reset_fresher_version = do {
     ns \<leftarrow> nset_version ''key_a'' ''val_a'' 17 NodeState_for_test;
     assert (ns_max_version ns = 17);
     let ns = fst (node_apply_delta (delta_for ns 0 30 [mutation ''key_b'' ''val_b'' 32]) 0 ns);
     assert (get_versioned ns ''key_a'' = None);
     b \<leftarrow> get_versioned ns ''key_b'';
     assert (vv_version b = 32)}"

definition test_node_apply_delta_no_reset_if_older_version :: test where
  "test_node_apply_delta_no_reset_if_older_version = do {
     ns \<leftarrow> nset_version ''key_a'' ''val_a'' 31 NodeState_for_test;
     ns \<leftarrow> nset_version ''key_b'' ''val_b2'' 32 ns;
     assert (ns_max_version ns = 32);
     let ns = fst (node_apply_delta (delta_for ns 0 17 [mutation ''key_b'' ''val_b'' 30]) 0 ns);
     assert (ns_max_version ns = 32);
     b \<leftarrow> get_versioned ns ''key_b'';
     assert (vv_version b = 32);
     assert (vv_value b = ''val_b2'')}"

section \<open>The tests pass\<close>

lemma read_write_tests_pass:
  "test_cluster_state_missing_node = Some ()"
  "test_cluster_state_first_version_is_one = Some ()"
  "test_cluster_state_set = Some ()"
  "test_cluster_state_set_with_same_value_updates_version = Some ()"
  "test_cluster_state_set_and_mark_for_deletion = Some ()"
  "test_cluster_state_delete_after_ttl = Some ()"
  "test_iter_prefix = Some ()"
  "test_node_set_delete = Some ()"
  "test_node_set_delete_after_ttl_set = Some ()"
  "test_node_set_with_ttl = Some ()"
  by code_simp+

lemma apply_delta_tests_pass:
  "test_cluster_state_apply_delta = Some ()"
  "test_node_apply_delta_simple = Some ()"
  "test_node_apply_same_value_different_version = Some ()"
  "test_node_skip_delta_from_the_future = Some ()"
  "test_node_apply_delta_different_last_gc_is_ok_if_below_max_version = Some ()"
  "test_node_apply_delta_on_reset_fresher_version = Some ()"
  "test_node_apply_delta_no_reset_if_older_version = Some ()"
  by code_simp+

lemma digest_and_gc_tests_pass:
  "test_cluster_state_compute_digest = Some ()"
  "test_cluster_state_gc_keys_marked_for_deletion = Some ()"
  by code_simp+

lemma stale_node_tests_pass:
  "test_stale_node_iter_stale_key_values = Some ()"
  "test_sorted_stale_nodes_empty = Some ()"
  "test_sorted_stale_nodes_insert = Some ()"
  "test_sorted_stale_nodes_offer = Some ()"
  "test_sorted_stale_nodes_into_iter = Some ()"
  by code_simp+

text \<open>The deltas of the test that needs a reset are small enough to be whole, whatever the compressor: they
  are the stale nodes with all their stale key-values.\<close>

definition ascii :: "string \<Rightarrow> bool" where
  "ascii s \<longleftrightarrow> list_all (\<lambda>c. (of_char c :: nat) < 128) s \<and> length s < 128"

definition plain_cluster :: "ClusterState \<Rightarrow> bool" where
  "plain_cluster cs \<longleftrightarrow> list_all (\<lambda>(i, ns). i \<in> set [node1, node2]
     \<and> list_all (\<lambda>(k, vv). ascii k \<and> ascii (vv_value vv)) (ns_key_values ns)) (cs_node_states cs)"

definition whole_old_state_delta :: "ClusterState \<Rightarrow> NodeDelta list option" where
  "whole_old_state_delta cs = (if cs_wf cs \<and> plain_cluster cs \<and> missing_bytes old_digest {} cs \<le> 200
     then Some (map full_node_delta (stale_into_iter (\<lambda>_ xs. xs)
       (foldl (\<lambda>ssn e. offer_node old_digest {} e ssn) [] (cs_node_states cs)))) else None)"

lemma plain_cluster_codable: "plain_cluster cs \<Longrightarrow> cs_codable cs"
proof -
  have "id_wf node1" "id_wf node2" by (simp_all add: node_ids id_wf_def wire_string_ascii plain_addr_def)
  moreover have "wire_string s" if "ascii s" for s using that by (simp add: ascii_def wire_string_ascii)
  ultimately show "plain_cluster cs \<Longrightarrow> cs_codable cs"
    by (fastforce simp: plain_cluster_def cs_codable_def ns_codable_def list_all_iff)
qed

lemma old_state_delta_whole:
  assumes "zstd_fits zc" and "whole_old_state_delta cs = Some nds"
  shows "old_state_delta zc cs = Some nds"
proof -
  have cs: "cs_wf cs" "cs_codable cs" "missing_bytes old_digest {} cs \<le> 200"
    using assms(2) plain_cluster_codable by (auto simp: whole_old_state_delta_def split: if_splits)
  have id: "permutes (\<lambda>_ xs. xs)" by (simp add: permutes_def)
  have mtu: "100 \<le> MAX_UDP_DATAGRAM_PAYLOAD_SIZE" "MAX_UDP_DATAGRAM_PAYLOAD_SIZE \<le> 65535"
      "missing_bytes old_digest {} cs + 4 \<le> MAX_UDP_DATAGRAM_PAYLOAD_SIZE"
    using cs(3) by (simp_all add: MAX_UDP_DATAGRAM_PAYLOAD_SIZE_def)
  obtain d where d: "compute_partial_delta_respecting_mtu zc (\<lambda>_ xs. xs) cs old_digest MAX_UDP_DATAGRAM_PAYLOAD_SIZE {} = Inr d"
    using compute_partial_delta_aux [OF assms(1) id cs(1,2) mtu(1,2)] by metis
  have "missing_bytes old_digest {} cs \<le> 16384" using cs(3) by simp
  from compute_full_delta_list(1) [OF id cs(1,2) mtu(1) this mtu(3) d] show ?thesis
    using assms(2) by (auto simp: old_state_delta_def run_def d whole_old_state_delta_def split: if_splits)
qed

lemma needs_reset_test_mono:
  assumes "\<And>cs nds. f cs = Some nds \<Longrightarrow> g cs = Some nds"
  shows "needs_reset_test f = Some () \<Longrightarrow> needs_reset_test g = Some ()"
  by (auto simp: needs_reset_test_def Let_def bind_eq_Some_conv dest!: assms)

lemma needs_reset_test_whole: "needs_reset_test whole_old_state_delta = Some ()"
  by code_simp

definition state_tests :: "zstd \<Rightarrow> test list" where
  "state_tests zc =
     [test_stale_node_iter_stale_key_values, test_sorted_stale_nodes_empty, test_sorted_stale_nodes_insert,
      test_sorted_stale_nodes_offer, test_sorted_stale_nodes_into_iter, test_cluster_state_missing_node,
      test_cluster_state_first_version_is_one, test_cluster_state_set,
      test_cluster_state_set_with_same_value_updates_version, test_cluster_state_set_and_mark_for_deletion,
      test_cluster_state_delete_after_ttl, test_cluster_state_compute_digest,
      test_cluster_state_gc_keys_marked_for_deletion, test_cluster_state_apply_delta,
      test_cluster_state_compute_delta_with_old_node_state_that_needs_reset zc, test_iter_prefix,
      test_node_apply_delta_simple, test_node_apply_same_value_different_version,
      test_node_skip_delta_from_the_future, test_node_apply_delta_different_last_gc_is_ok_if_below_max_version,
      test_node_apply_delta_on_reset_fresher_version, test_node_apply_delta_no_reset_if_older_version,
      test_node_set_delete, test_node_set_delete_after_ttl_set, test_node_set_with_ttl]"

lemma state_tests_pass:
  assumes "zstd_fits zc"
  shows "list_all (\<lambda>t. t = Some ()) (state_tests zc)"
proof -
  have "test_cluster_state_compute_delta_with_old_node_state_that_needs_reset zc = Some ()"
    using needs_reset_test_mono [OF old_state_delta_whole [OF assms] needs_reset_test_whole]
    by (simp add: test_cluster_state_compute_delta_with_old_node_state_that_needs_reset_def)
  then show ?thesis
    by (simp add: state_tests_def read_write_tests_pass apply_delta_tests_pass digest_and_gc_tests_pass stale_node_tests_pass)
qed

end
