(* ===== verification/Codec_Tests.thy ===== *)
theory Codec_Tests
  imports Test_Support
begin

text \<open>
  Unit tests of the wire format: \<^verbatim>\<open>types.rs\<close>, \<^verbatim>\<open>serialize.rs\<close>, \<^verbatim>\<open>digest.rs\<close>, \<^verbatim>\<open>message.rs\<close> and \<^verbatim>\<open>delta.rs\<close> under
  \<^verbatim>\<open>chitchat/src\<close>, and of the transports (\<^verbatim>\<open>transport/mod.rs\<close>), run on \<open>Serialize\<close>, \<open>Compressed_Stream\<close>,
  \<open>Digest\<close>, \<open>Message\<close>, \<open>Delta\<close> and \<open>Transport\<close>. Lengths that
  only the real compressor reaches are not compared: the tests are run with every compressor that respects
  its output size and its decompressor.
\<close>

section \<open>Round trips\<close>

definition test_serdeser_aux :: "('a \<Rightarrow> panic + bytes) \<Rightarrow> ('a \<Rightarrow> nat) \<Rightarrow> 'a decoder \<Rightarrow> 'a \<Rightarrow> nat option \<Rightarrow> test" where
  "test_serdeser_aux ser slen de obj num_bytes = do {
     buf \<leftarrow> run (ser obj);
     assert (length buf = slen obj);
     assert (case num_bytes of None \<Rightarrow> True | Some n \<Rightarrow> length buf = n);
     (obj_serdeser, _) \<leftarrow> run (de buf);
     assert (obj = obj_serdeser)}"

definition test_serialize_bool :: test where
  "test_serialize_bool = test_serdeser_aux (\<lambda>b. Inr (ser_bool b)) (\<lambda>_. 1) de_bool True (Some 1)"

definition test_serialize_chitchat_id :: test where
  "test_serialize_chitchat_id = test_serdeser_aux (\<lambda>i. Inr (ser_id i)) len_id de_id
     (ChitchatId_new ''node-id'' 1 (SocketAddrV4 [127, 0, 0, 1] 7280)) (Some 24)"

definition test_serialize_heartbeat :: test where
  "test_serialize_heartbeat = test_serdeser_aux (\<lambda>h. Inr (ser_heartbeat h)) (\<lambda>_. 8) de_heartbeat 1 (Some 8)"

definition test_serialize_ip :: test where
  "test_serialize_ip = do {
     test_serdeser_aux (\<lambda>i. Inr (ser_ip i)) len_ip de_ip (IpV4 [127, 1, 3, 9]) (Some 5);
     test_serdeser_aux (\<lambda>i. Inr (ser_ip i)) len_ip de_ip
       (IpV6 [0, 1, 2, 3, 4, 5, 6, 7, 8, 9, 10, 11, 12, 13, 14, 15]) (Some 17)}"

definition test_node_digest_serialization :: test where
  "test_node_digest_serialization = test_serdeser_aux (\<lambda>n. Inr (ser_node_digest n)) len_node_digest de_node_digest
     \<lparr>nd_heartbeat = 100, nd_last_gc_version = 2, nd_max_version = 3\<rparr> (Some 24)"

definition test_digest_serialization :: test where
  "test_digest_serialization = test_serdeser_aux (\<lambda>d. Inr (ser_digest d)) len_digest de_digest
     (digest_add_node node2 103 0 13 (digest_add_node node2 102 20 12 (digest_add_node node1 101 1 11 Digest_default))) (Some 104)"

definition message_serdeser :: "zstd \<Rightarrow> zstd \<Rightarrow> ChitchatMessage \<Rightarrow> nat \<Rightarrow> test" where
  "message_serdeser zc zd m n = test_serdeser_aux (message_serialize zc) message_len (message_deserialize zd) m (Some n)"

definition test_syn :: "zstd \<Rightarrow> zstd \<Rightarrow> test" where
  "test_syn zc zd = do {
     message_serdeser zc zd (Syn ''cluster-a'' Digest_default) 17;
     message_serdeser zc zd (Syn ''cluster-a'' (digest_add_node node1 0 0 0 Digest_default)) 68}"

text \<open>The first halves of two tests; the other halves announce a length that the real compressor reaches.\<close>

definition test_syn_ack :: "zstd \<Rightarrow> zstd \<Rightarrow> test" where
  "test_syn_ack zc zd = message_serdeser zc zd (SynAck Digest_default Delta_default) 7"

definition test_ack :: "zstd \<Rightarrow> zstd \<Rightarrow> test" where
  "test_ack zc zd = message_serdeser zc zd (Ack Delta_default) 5"

definition test_bad_cluster :: "zstd \<Rightarrow> zstd \<Rightarrow> test" where
  "test_bad_cluster zc zd = message_serdeser zc zd BadCluster 4"

definition test_delta_serialization_default :: "zstd \<Rightarrow> zstd \<Rightarrow> test" where
  "test_delta_serialization_default zc zd =
     test_serdeser_aux (delta_serialize zc) serialized_len (delta_deserialize zd) Delta_default (Some 1)"

text \<open>The interface of the codecs carries these tests: what is left is to compute lengths.\<close>

lemma serdeser_codec:
  assumes "codec ser slen de valid" and "valid x" and "slen x = n"
  shows "test_serdeser_aux (\<lambda>x. Inr (ser x)) slen de x (Some n) = Some ()"
  using codec.length_ser [OF assms(1,2)] codec.roundtrip_whole [OF assms(1,2)] assms(3)
  by (simp add: test_serdeser_aux_def run_def assert_def)

lemma serdeser_message:
  assumes "zstd_fits zc" and "zstd_inverse zc zd" and "message_wf m" and "message_serialize zc m = Inr bs" and "message_len m = n"
  shows "message_serdeser zc zd m n = Some ()"
  using message_roundtrip_aux [OF assms(1-4), of "[]"] message_len_correct [OF assms(3,4)] assms(4,5)
  by (simp add: message_serdeser_def test_serdeser_aux_def run_def assert_def)

lemmas length_defs = len_id_def len_str_def len_addr_def len_digest_def len_node_digest_def len_kvm_def

lemma node_ids_less: "node1 < node2"
  by code_simp

lemma node_ids_wf: "id_wf node1" "id_wf node2" "len_id node1 = 27" "len_id node2 = 27" "node2 \<noteq> node1" "node1 < node2"
  using node_ids_less by (simp_all add: node_ids id_wf_def wire_string_ascii plain_addr_def length_defs)

lemma default_delta: "delta_serialize zc Delta_default = Inr (ser_block_type NoMoreBlocks)"
  "delta_ordered Delta_default" "delta_codable Delta_default" "serialized_len Delta_default = 1"
  by (simp_all add: delta_serialize_def Delta_default_def get_operations_def finish_stream_def flush_block_def
      threshold_16384 delta_ordered_def delta_codable_def)

lemma plain_codec_tests_pass:
  "test_serialize_bool = Some ()"
  "test_serialize_chitchat_id = Some ()"
  "test_serialize_heartbeat = Some ()"
  "test_serialize_ip = Some ()"
  "test_node_digest_serialization = Some ()"
  "test_digest_serialization = Some ()"
  subgoal unfolding test_serialize_bool_def by (rule serdeser_codec [OF bool.codec_axioms]) simp_all
  subgoal unfolding test_serialize_chitchat_id_def
    by (rule serdeser_codec [OF id.codec_axioms])
      (simp_all add: ChitchatId_new_def id_wf_def wire_string_ascii plain_addr_def length_defs)
  subgoal unfolding test_serialize_heartbeat_def by (rule serdeser_codec [OF heartbeat.codec_axioms]) simp_all
  subgoal by (simp add: test_serialize_ip_def serdeser_codec [OF ip.codec_axioms])
  subgoal unfolding test_node_digest_serialization_def
    by (rule serdeser_codec [OF node_digest.codec_axioms]) (simp_all add: length_defs)
  subgoal unfolding test_digest_serialization_def
    by (rule serdeser_codec [OF digest.codec_axioms])
      (use node_ids_wf in \<open>auto simp: digest_add_node_def Digest_default_def digest_wf_def btm_wf_def length_defs\<close>)
  done

lemma message_tests_pass:
  assumes "zstd_fits zc" and "zstd_inverse zc zd"
  shows "test_syn zc zd = Some ()" "test_syn_ack zc zd = Some ()" "test_ack zc zd = Some ()"
    "test_bad_cluster zc zd = Some ()" "test_delta_serialization_default zc zd = Some ()"
proof -
  have wf: "digest_wf Digest_default" "len_digest Digest_default = 2"
    "digest_wf (digest_add_node node1 0 0 0 Digest_default)" "len_digest (digest_add_node node1 0 0 0 Digest_default) = 53"
    using node_ids_wf by (simp_all add: digest_add_node_def Digest_default_def digest_wf_def btm_wf_def length_defs)
  have c: "wire_string ''cluster-a''" "len_str ''cluster-a'' = 11" by (simp_all add: wire_string_ascii length_defs)
  show "test_syn zc zd = Some ()"
    using wf c by (simp add: test_syn_def serdeser_message [OF assms])
  show "test_syn_ack zc zd = Some ()" "test_ack zc zd = Some ()" "test_bad_cluster zc zd = Some ()"
    using wf default_delta
    by (simp_all add: test_syn_ack_def test_ack_def test_bad_cluster_def serdeser_message [OF assms])
  show "test_delta_serialization_default zc zd = Some ()"
    using delta_wire_roundtrip_aux [OF assms default_delta(2,3,1), of "[]"] default_delta
    by (simp add: test_delta_serialization_default_def test_serdeser_aux_def run_def assert_def)
qed

section \<open>Codes of one byte\<close>

text \<open>The loops over all bytes: every byte that decodes is the code of what it decodes to.\<close>

definition count_codes :: "(u8 \<Rightarrow> 'a option) \<Rightarrow> ('a \<Rightarrow> u8) \<Rightarrow> nat option" where
  "count_codes decode encode = (let valid = filter (\<lambda>b. decode b \<noteq> None) (map of_nat [0..<256]) in do {
     assert (list_all (\<lambda>b. encode (the (decode b)) = b) valid);
     Some (length valid)})"

definition test_deletion_status_to_u8 :: test where
  "test_deletion_status_to_u8 = do {
     count_values \<leftarrow> count_codes status_try_from_u8 status_to_u8;
     assert (count_values = 3)}"

definition test_delta_op_tag :: test where
  "test_delta_op_tag = do {
     num_valid_tags \<leftarrow> count_codes tag_try_from tag_to_u8;
     assert (num_valid_tags = 3)}"

definition test_serialize_block_type :: test where
  "test_serialize_block_type = do {
     valid_vals_count \<leftarrow> count_codes (\<lambda>b. map_option fst (run (de_block_type [b]))) (\<lambda>t. hd (ser_block_type t));
     assert (valid_vals_count = 3)}"

lemma large_bytes: "n \<le> 253 \<Longrightarrow> filter (\<lambda>b :: u8. b < 3) (map of_nat [3..<3 + n]) = []"
  by (auto simp: filter_empty_conv word_less_nat_alt unat_of_nat take_bit_nat_def)

lemma small_bytes: "filter (\<lambda>b :: u8. b < 3) (map of_nat [0..<256]) = [0, 1, 2]"
proof -
  have "[0..<256] = [0..<3] @ [3..<3 + 253 :: nat]" by (subst upt_add_eq_append [symmetric]) simp_all
  moreover have "filter (\<lambda>b :: u8. b < 3) (map of_nat [0..<3]) = [0, 1, 2]" by (simp add: upt_rec)
  ultimately show ?thesis by (simp only: map_append filter_append large_bytes [OF order_refl] append_Nil2)
qed

lemma count_three:
  assumes "\<And>b. decode b \<noteq> None \<longleftrightarrow> b < 3" and "\<And>b. b \<in> {0, 1, 2} \<Longrightarrow> encode (the (decode b)) = b"
  shows "count_codes decode encode = Some 3"
  unfolding count_codes_def assms(1) small_bytes using assms(2) by (simp add: assert_def)

lemma below_three: "b < 3 \<longleftrightarrow> b \<in> {0, 1, 2 :: u8}"
  by (auto simp: word_less_nat_alt word_unat_eq_iff)

lemma code_tests_pass:
  "test_deletion_status_to_u8 = Some ()"
  "test_delta_op_tag = Some ()"
  "test_serialize_block_type = Some ()"
  subgoal by (subst test_deletion_status_to_u8_def, subst count_three) (auto simp: status_try_from_u8_def assert_def below_three)
  subgoal by (subst test_delta_op_tag_def, subst count_three) (auto simp: tag_try_from_def assert_def below_three)
  subgoal by (subst test_serialize_block_type_def, subst count_three)
      (auto simp: de_block_type_def assert_def below_three codec_simps run_def ser_block_type.simps ser_u8_def)
  done

section \<open>Streams\<close>

definition test_proptest_compressed_stream :: "zstd \<Rightarrow> zstd \<Rightarrow> string list \<Rightarrow> test" where
  "test_proptest_compressed_stream zc zd payload = do {
     writer \<leftarrow> run (append_items zc ser_str len_str (take (length payload - 1) payload) (with_block_threshold 1000));
     len_upper_bound \<leftarrow> run (serialized_len_upperbound_after len_str writer (payload ! (length payload - 1)));
     writer \<leftarrow> run (append_item zc ser_str len_str (payload ! (length payload - 1)) writer);
     buf \<leftarrow> run (finish_stream zc writer);
     (vals, _) \<leftarrow> run (deserialize_stream zd de_str buf);
     assert (length buf \<le> len_upper_bound);
     assert (length vals = length payload);
     assert (list_all (\<lambda>(left, right). left = right) (zip vals payload))}"

definition test_empty :: "zstd \<Rightarrow> zstd \<Rightarrow> test" where
  "test_empty zc zd = do {
     len_upper_bound \<leftarrow> run (serialized_len_upperbound_after len_str (with_block_threshold 1000) []);
     writer \<leftarrow> run (append_item zc ser_str len_str [] (with_block_threshold 1000));
     buf \<leftarrow> run (finish_stream zc writer);
     (vals, _) \<leftarrow> run (deserialize_stream zd de_str buf);
     assert (length buf \<le> len_upper_bound);
     assert (length vals = 1);
     assert (vals ! 0 = [])}"

text \<open>
  The property-based test draws its payloads at random; here it passes for every payload, as long as the
  last string fits one block. The strings that the test draws can be longer, up to 4000 bytes: the bound
  can then be too low for a compressor that does not manage to compress.
\<close>

lemma proptest_passes:
  assumes z: "zstd_fits zc" "zstd_inverse zc zd" and payload: "payload \<noteq> []" "\<forall>s \<in> set payload. wire_string s \<and> len_str s \<le> 65535"
    and fits: "len_str (last payload) \<le> 1000"
  shows "test_proptest_compressed_stream zc zd payload = Some ()"
proof -
  let ?w0 = "with_block_threshold 1000" and ?x = "last payload"
  have split: "take (length payload - 1) payload = butlast payload" "payload ! (length payload - 1) = ?x"
      "butlast payload @ [?x] = payload"
    using payload(1) append_butlast_last_id [OF payload(1)] by (simp_all add: butlast_conv_take last_conv_nth)
  have wf: "writer_wf ?w0" by (simp add: with_block_threshold_wf)
  have strs: "\<forall>s \<in> set (butlast payload). len_str s \<le> 65535" "wire_string ?x" "len_str ?x \<le> 65535"
    using payload(2) last_in_set [OF payload(1)] by (auto dest: in_set_butlastD)
  obtain w where w: "append_items zc ser_str len_str (butlast payload) ?w0 = Inr w" "writer_wf w"
      "stream_holds zd w (concat (map ser_str (butlast payload)))"
    using append_items_ok [OF z wf stream_holds_initial, of "butlast payload" len_str ser_str] strs(1) by auto
  have pending: "length (csw_uncompressed_block w) \<le> csw_block_threshold w" "csw_block_threshold w = 1000"
    using append_items_threshold [OF z(1) wf _ w(1)] by (simp_all add: with_block_threshold_def)
  obtain bound where bound: "serialized_len_upperbound_after len_str w ?x = Inr bound"
    using upperbound_returns [of len_str ?x w] str.slen_pos [OF strs(2)] by blast
  obtain w' where w': "append_item zc ser_str len_str ?x w = Inr w'" "writer_wf w'"
    "length (csw_uncompressed_block w') \<le> csw_block_threshold w'"
    using append_item_ok [where slen = len_str and item = ?x and ser = ser_str, OF z(1) w(2) strs(3)] by auto
  have holds: "stream_holds zd w' (concat (map ser_str payload))"
    using append_item_holds [OF z(2,1) w(2,3) w'(1)] arg_cong [OF split(3), of "\<lambda>p. concat (map ser_str p)"] by simp
  obtain bs where bs: "finish_stream zc w' = Inr bs" "\<And>rest. decode_blocks zd [] (bs @ rest) = Inr (concat (map ser_str payload), rest)"
    using finish_stream_decodes [OF z w'(2) holds w'(3)] by blast
  have "length bs \<le> bound"
    using finish_stream_len [OF z(1) w'(2,3) bs(1)] fits pending
      append_item_len [OF z(1) w(2) pending(1) str.length_ser [OF strs(2)] _ bound w'(1)] by simp
  moreover have "deserialize_stream zd de_str bs = Inr (payload, [])"
    using str.items_roundtrip [of payload "[]"] payload(2) bs(2) [of "[]"] by (simp add: deserialize_stream_def)
  ultimately show ?thesis
    using w(1) bound w'(1) bs(1)
    by (auto simp: test_proptest_compressed_stream_def split [simplified] run_def assert_def list_all_iff set_zip)
qed

lemma test_empty_passes:
  assumes "zstd_fits zc" "zstd_inverse zc zd"
  shows "test_empty zc zd = Some ()"
proof -
  have "test_proptest_compressed_stream zc zd [[]] = Some ()"
    by (rule proptest_passes [OF assms]) (simp_all add: wire_string_ascii len_str_def)
  then obtain bound w buf vals rest where
      "serialized_len_upperbound_after len_str (with_block_threshold 1000) [] = Inr bound"
      "append_item zc ser_str len_str [] (with_block_threshold 1000) = Inr w" "finish_stream zc w = Inr buf"
      "deserialize_stream zd de_str buf = Inr (vals, rest)" "length buf \<le> bound" "vals = [[]]"
    by (auto simp: test_proptest_compressed_stream_def bind_eq_Some_conv run_eq_Some assert_eq_Some length_Suc_conv)
  then show ?thesis by (simp add: test_empty_def run_def assert_def)
qed

text \<open>The strings of the next test are too short to be compressed.\<close>

definition test_compressed_serialized_stream_len_when_there_are_no_compressed_blocks :: "zstd \<Rightarrow> test" where
  "test_compressed_serialized_stream_len_when_there_are_no_compressed_blocks zc = do {
     serialized_len_after_hello \<leftarrow> run (serialized_len_upperbound_after len_str (with_block_threshold 10) ''xu1Y3l'');
     writer \<leftarrow> run (append_item zc ser_str len_str ''xu1Y3l'' (with_block_threshold 10));
     buffer \<leftarrow> run (finish_stream zc writer);
     assert (length buffer = serialized_len_after_hello);
     writer \<leftarrow> run (append_item zc ser_str len_str ''pTs2yYd'' (with_block_threshold 10));
     serialized_len_after_hello \<leftarrow> run (serialized_len_upperbound_after len_str writer ''vLQRFPN6'');
     writer \<leftarrow> run (append_item zc ser_str len_str ''vLQRFPN6'' writer);
     buffer \<leftarrow> run (finish_stream zc writer);
     assert (length buffer = serialized_len_after_hello)}"

lemma uncompressed_test_passes: "test_compressed_serialized_stream_len_when_there_are_no_compressed_blocks zstd_never = Some ()"
  by (simp add: test_compressed_serialized_stream_len_when_there_are_no_compressed_blocks_def zstd_never_def
      run_def assert_def with_block_threshold_def serialized_len_upperbound_after_def append_item_def flush_loop_unfold
      flush_block_def finish_stream_def Let_def len_str_def ser_str_def u16.ser_nonempty [OF TrueI])

section \<open>The serializer of deltas\<close>

text \<open>The calls of a test, with what each is asserted to return.\<close>

type_synonym writer_call = "DeltaSerializer \<Rightarrow> panic + (bool \<times> DeltaSerializer)"

fun run_calls :: "(writer_call \<times> bool) list \<Rightarrow> DeltaSerializer \<Rightarrow> DeltaSerializer option" where
  "run_calls [] s = Some s"
| "run_calls ((f, expected) # calls) s = do {
     (added, s) \<leftarrow> run (f s);
     assert (added = expected);
     run_calls calls s}"

definition test_aux_delta_writer :: "zstd \<Rightarrow> zstd \<Rightarrow> DeltaSerializer \<Rightarrow> test" where
  "test_aux_delta_writer zc zd delta_writer = do {
     delta \<leftarrow> run (finish_delta zc delta_writer);
     test_serdeser_aux (delta_serialize zc) serialized_len (delta_deserialize zd) delta None}"

definition delta_writer_test :: "zstd \<Rightarrow> zstd \<Rightarrow> nat \<Rightarrow> (writer_call \<times> bool) list \<Rightarrow> test" where
  "delta_writer_test zc zd mtu calls = do {
     delta_writer \<leftarrow> run (with_mtu mtu);
     delta_writer \<leftarrow> run_calls calls delta_writer;
     test_aux_delta_writer zc zd delta_writer}"

definition kv :: "string \<Rightarrow> Version \<Rightarrow> VersionedValue" where
  "kv v n = \<lparr>vv_value = v, vv_version = n, vv_status = StatusSet\<rparr>"

definition test_delta_serialization_with_set_max_version :: "zstd \<Rightarrow> zstd \<Rightarrow> test" where
  "test_delta_serialization_with_set_max_version zc zd = delta_writer_test zc zd 198
     [(try_add_node zc node1 80 50, True), (try_set_max_version zc 100, True)]"

definition test_delta_serialization_simple_foo :: "zstd \<Rightarrow> zstd \<Rightarrow> test" where
  "test_delta_serialization_simple_foo zc zd = delta_writer_test zc zd 198
     [(try_add_node zc node1 0 0, True), (try_add_kv zc ''key11'' (kv ''val11'' 1), True),
      (try_add_kv zc ''key12'' \<lparr>vv_value = [], vv_version = 2, vv_status = StatusDeleted 0\<rparr>, True),
      (try_add_node zc node2 0 0, True), (try_add_kv zc ''key21'' (kv ''val21'' 2), True),
      (try_add_kv zc ''key22'' (kv ''val22'' 3), True)]"

definition test_delta_serialization_simple_node :: "zstd \<Rightarrow> zstd \<Rightarrow> test" where
  "test_delta_serialization_simple_node zc zd = delta_writer_test zc zd 140
     [(try_add_node zc node1 0 0, True), (try_add_kv zc ''key11'' (kv ''val11'' 1), True),
      (try_add_kv zc ''key12'' (kv ''val12'' 2), True), (try_add_node zc node2 0 0, True)]"

definition test_delta_serialization_simple_with_nodes_to_reset :: "zstd \<Rightarrow> zstd \<Rightarrow> test" where
  "test_delta_serialization_simple_with_nodes_to_reset zc zd = delta_writer_test zc zd 155
     [(try_add_node zc node1 0 0, True), (try_add_kv zc ''key11'' (kv ''val11'' 1), True),
      (try_add_kv zc ''key12'' (kv ''val12'' 2), True), (try_add_node zc node2 0 0, True)]"

definition test_delta_serialization_exceed_mtu_on_add_node :: "zstd \<Rightarrow> zstd \<Rightarrow> test" where
  "test_delta_serialization_exceed_mtu_on_add_node zc zd = delta_writer_test zc zd 100
     [(try_add_node zc node1 0 0, True), (try_add_kv zc ''key11'' (kv ''val11'' 1), True),
      (try_add_kv zc ''key12'' (kv ''val12'' 2), True), (try_add_node zc node2 0 1, False)]"

definition test_delta_serialization_exceed_mtu_on_add_kv :: "zstd \<Rightarrow> zstd \<Rightarrow> test" where
  "test_delta_serialization_exceed_mtu_on_add_kv zc zd = delta_writer_test zc zd 100
     [(try_add_node zc node1 0 1, True), (try_add_kv zc ''key11'' (kv ''val11'' 1), True),
      (try_add_kv zc ''key12'' (kv ''val12aaaaaaaaaabcc'' 2), False)]"

text \<open>This test expects a panic of its last call; the constructor panics already.\<close>

definition test_delta_serialization_panic_if_add_after_exceed :: "zstd \<Rightarrow> test" where
  "test_delta_serialization_panic_if_add_after_exceed zc = do {
     delta_writer \<leftarrow> run (with_mtu 62);
     delta_writer \<leftarrow> run_calls [(try_add_node zc node1 0 1, True), (try_add_kv zc ''key11'' (kv ''val11'' 1), True),
       (try_add_kv zc ''key12'' (kv ''val12'' 2), False)] delta_writer;
     _ \<leftarrow> run (try_add_kv zc ''key13'' (kv ''val12'' 2) delta_writer);
     Some ()}"

text \<open>The state of a serializer below the block threshold: how many bytes are pending, and the builder.\<close>

definition writer_at :: "zstd \<Rightarrow> nat \<Rightarrow> nat \<Rightarrow> DeltaBuilder \<Rightarrow> DeltaSerializer \<Rightarrow> bool" where
  "writer_at zc mtu n b s \<longleftrightarrow> serializer_inv zc s \<and> ds_mtu s = mtu \<and> mtu < 16384 \<and> ds_delta_builder s = b
     \<and> length (csw_uncompressed_block (ds_compressed_stream_writer s)) = n \<and> (\<forall>op \<in> set (builder_ops b). op_wf op \<and> len_op op \<le> 65535)"

definition calls_pass :: "zstd \<Rightarrow> zstd \<Rightarrow> nat \<Rightarrow> nat \<Rightarrow> DeltaBuilder \<Rightarrow> (writer_call \<times> bool) list \<Rightarrow> bool" where
  "calls_pass zc zd mtu n b calls \<longleftrightarrow>
     (\<forall>s. writer_at zc mtu n b s \<longrightarrow> (run_calls calls s \<bind> test_aux_delta_writer zc zd) = Some ())"

lemma writer_at_start: "100 \<le> mtu \<Longrightarrow> mtu < 16384 \<Longrightarrow> with_mtu mtu = Inr s \<Longrightarrow> writer_at zc mtu 0 DeltaBuilder_default s"
  using with_mtu_inv [of mtu s zc]
  by (auto simp: writer_at_def with_mtu_def Let_def with_block_threshold_def builder_ops_def builder_nodes_default
      split: if_splits)

lemma delta_writer_testI:
  assumes "100 \<le> mtu" and "mtu < 16384" and "calls_pass zc zd mtu 0 DeltaBuilder_default calls"
  shows "delta_writer_test zc zd mtu calls = Some ()"
proof -
  obtain s where s: "with_mtu mtu = Inr s" using with_mtu_ok [OF assms(1)] by blast
  show ?thesis
    using assms(3) writer_at_start [OF assms(1,2) s, of zc]
    by (simp add: calls_pass_def delta_writer_test_def s run_def)
qed

lemma writer_upperbound:
  assumes "zstd_fits zc" and "writer_at zc mtu n b s"
  shows "serialized_len_upperbound_after len_op (ds_compressed_stream_writer s) op
    = Inr (n + len_op op + 4 + (if mtu < n + len_op op then 3 else 0))"
  using assms serializer_writer(2) [OF assms(1), of s] len_op_pos [of op]
  by (auto simp: writer_at_def serialized_len_upperbound_after_def Let_def threshold_for_def serializer_inv_def unflushed_def)

lemma calls_pass_full:
  assumes "zstd_fits zc" and "mtu < n + len_op op + 4 \<and> calls_pass zc zd mtu n b calls"
  shows "calls_pass zc zd mtu n b ((try_add_op zc op, False) # calls)"
proof -
  have "try_add_op zc op s = Inr (False, s)" if "writer_at zc mtu n b s" for s
    using assms(2) that writer_upperbound [OF assms(1) that] by (simp add: try_add_op_def writer_at_def)
  then show ?thesis using assms(2) by (simp add: calls_pass_def run_def assert_def)
qed

lemma calls_pass_added:
  assumes z: "zstd_fits zc" and step: "n + len_op op + 4 \<le> mtu \<and> op_wf op \<and> op_in_order b op
    \<and> (case apply_op b op of Inl _ \<Rightarrow> False | Inr b' \<Rightarrow> calls_pass zc zd mtu (n + len_op op) b' calls)"
  shows "calls_pass zc zd mtu n b ((try_add_op zc op, True) # calls)"
  unfolding calls_pass_def
proof safe
  fix s
  assume s: "writer_at zc mtu n b s"
  let ?w = "ds_compressed_stream_writer s"
  obtain b' where b': "apply_op b op = Inr b'" "calls_pass zc zd mtu (n + len_op op) b' calls"
    using step by (auto split: sum.splits)
  let ?w' = "?w\<lparr>csw_uncompressed_block := csw_uncompressed_block ?w @ ser_op op\<rparr>"
  let ?s' = "s\<lparr>ds_compressed_stream_writer := ?w', ds_delta_builder := b'\<rparr>"
  have at: "serializer_inv zc s" "ds_mtu s = mtu" "mtu < 16384" "ds_delta_builder s = b"
      "length (csw_uncompressed_block ?w) = n" "\<forall>op \<in> set (builder_ops b). op_wf op \<and> len_op op \<le> 65535"
    using s by (simp_all add: writer_at_def)
  have len: "length (ser_op op) = len_op op" using step by (simp add: op.length_ser)
  have "append_item zc ser_op len_op op ?w = Inr ?w'"
    using step at serializer_writer(2) [OF z at(1)] len by (intro append_item_no_flush) (simp_all add: threshold_for_def)
  then have add: "try_add_op zc op s = Inr (True, ?s')"
    using writer_upperbound [OF z s, of op] step at b'(1) by (simp add: try_add_op_def)
  have "serializer_inv zc ?s'" using try_add_op_inv [OF z at(1) _ _ add] step at(4) by simp
  moreover have "builder_ops b' = builder_ops b @ [op]" using apply_op_builder_ops [OF b'(1)] step by simp
  ultimately have "writer_at zc mtu (n + len_op op) b' ?s'"
    using at len step by (auto simp: writer_at_def)
  with b'(2) add show "(run_calls ((try_add_op zc op, True) # calls) s \<bind> test_aux_delta_writer zc zd) = Some ()"
    by (simp add: calls_pass_def run_def assert_def)
qed

lemma calls_pass_Nil:
  assumes z: "zstd_fits zc" "zstd_inverse zc zd"
  shows "calls_pass zc zd mtu n b []"
  unfolding calls_pass_def
proof safe
  fix s
  assume s: "writer_at zc mtu n b s"
  then obtain d bs where d: "finish_delta zc s = Inr d" "node_deltas d = builder_nodes b" "delta_ordered d"
      "delta_serialize zc d = Inr bs" "length bs = serialized_len d"
    using finish_delta_ok [OF z(1), of s] by (auto simp: writer_at_def)
  have "delta_codable d" using s d(2) by (simp add: writer_at_def delta_codable_def get_operations_def builder_ops_def)
  from delta_wire_roundtrip_aux [OF z d(3) this d(4), of "[]"]
  show "(run_calls [] s \<bind> test_aux_delta_writer zc zd) = Some ()"
    using d by (simp add: test_aux_delta_writer_def test_serdeser_aux_def run_def assert_def)
qed

lemmas writer_call_defs = try_add_node_def [abs_def] try_add_kv_def [abs_def] try_set_max_version_def [abs_def] kv_def

lemmas writer_call_simps = node_ids_wf kvm_wf_def wire_string_ascii len_kvm_def len_str_def DeltaBuilder_default_def
  Delta_default_def builder_flush_def

text \<open>Each call is stepped over, whether it adds its operation or not.\<close>

lemma delta_writer_tests_pass:
  assumes z: "zstd_fits zc" "zstd_inverse zc zd"
  shows "test_delta_serialization_with_set_max_version zc zd = Some ()"
    "test_delta_serialization_simple_foo zc zd = Some ()"
    "test_delta_serialization_simple_node zc zd = Some ()"
    "test_delta_serialization_simple_with_nodes_to_reset zc zd = Some ()"
    "test_delta_serialization_exceed_mtu_on_add_node zc zd = Some ()"
    "test_delta_serialization_exceed_mtu_on_add_kv zc zd = Some ()"
  unfolding test_delta_serialization_with_set_max_version_def
    test_delta_serialization_simple_foo_def
    test_delta_serialization_simple_node_def
    test_delta_serialization_simple_with_nodes_to_reset_def
    test_delta_serialization_exceed_mtu_on_add_node_def
    test_delta_serialization_exceed_mtu_on_add_kv_def writer_call_defs
  by (rule delta_writer_testI, simp, simp,
      (rule calls_pass_added [OF z(1)] calls_pass_full [OF z(1)], simp add: writer_call_simps)+, rule calls_pass_Nil [OF z])+

lemma panic_test_panics: "test_delta_serialization_panic_if_add_after_exceed zc = None"
  by (simp add: test_delta_serialization_panic_if_add_after_exceed_def with_mtu_def run_def)

section \<open>Transports\<close>

definition sample_syn_msg :: ChitchatMessage where
  "sample_syn_msg = Syn ''cluster_id'' Digest_default"

definition local_addr :: "u16 \<Rightarrow> SocketAddr" where
  "local_addr p = SocketAddrV4 [127, 0, 0, 1] p"

definition test_udp_transport_ignore_invalid_payload :: "zstd \<Rightarrow> zstd \<Rightarrow> test" where
  "test_udp_transport_ignore_invalid_payload zc zd = do {
     let send_addr = local_addr 30001;
     valid_payload \<leftarrow> run (message_serialize zc sample_syn_msg);
     ((send_addr2, received_message), _) \<leftarrow> udp_recv zd [(send_addr, as_bytes ''junk''), (send_addr, valid_payload)];
     assert (send_addr = send_addr2);
     assert (received_message = sample_syn_msg)}"

text \<open>The suite of the transports, on the in-memory one. A socket is closed at the end of its scope.\<close>

definition test_transport_cannot_open_twice_aux :: "ChannelTransport \<Rightarrow> ChannelTransport option" where
  "test_transport_cannot_open_twice_aux t = do {
     t \<leftarrow> run (channel_open (local_addr 10000) t);
     assert (run (channel_open (local_addr 10000) t) = None);
     Some (channel_close (local_addr 10000) t)}"

definition test_transport_recv_waits_for_message :: "zstd \<Rightarrow> zstd \<Rightarrow> ChannelTransport \<Rightarrow> ChannelTransport option" where
  "test_transport_recv_waits_for_message zc zd t = do {
     let addr1 = local_addr 20001;
     let addr2 = local_addr 20002;
     t \<leftarrow> run (channel_open addr1 t);
     t \<leftarrow> run (channel_open addr2 t);
     (received, t) \<leftarrow> run (channel_recv addr2 t);
     assert (received = None);
     (sent, t) \<leftarrow> run (channel_send zc zd addr1 addr2 sample_syn_msg t);
     _ \<leftarrow> run sent;
     (received, t) \<leftarrow> run (channel_recv addr2 t);
     (exp1, _) \<leftarrow> received;
     assert (addr1 = exp1);
     Some (channel_close addr1 (channel_close addr2 t))}"

definition test_transport_socket_released_on_drop :: "ChannelTransport \<Rightarrow> ChannelTransport option" where
  "test_transport_socket_released_on_drop t = do {
     t \<leftarrow> run (channel_open (local_addr 10000) t);
     t \<leftarrow> run (channel_open (local_addr 10000) (channel_close (local_addr 10000) t));
     Some (channel_close (local_addr 10000) t)}"

definition test_transport_sending_to_unbound_addr_is_ok :: "zstd \<Rightarrow> zstd \<Rightarrow> ChannelTransport \<Rightarrow> ChannelTransport option" where
  "test_transport_sending_to_unbound_addr_is_ok zc zd t = do {
     t \<leftarrow> run (channel_open (local_addr 40000) t);
     (sent, t) \<leftarrow> run (channel_send zc zd (local_addr 40000) (local_addr 40001) sample_syn_msg t);
     _ \<leftarrow> run sent;
     Some (channel_close (local_addr 40000) t)}"

definition test_transport_suite :: "zstd \<Rightarrow> zstd \<Rightarrow> ChannelTransport \<Rightarrow> test" where
  "test_transport_suite zc zd t = do {
     t \<leftarrow> test_transport_cannot_open_twice_aux t;
     t \<leftarrow> test_transport_socket_released_on_drop t;
     t \<leftarrow> test_transport_recv_waits_for_message zc zd t;
     t \<leftarrow> test_transport_sending_to_unbound_addr_is_ok zc zd t;
     Some ()}"

definition test_transport_in_mem :: "zstd \<Rightarrow> zstd \<Rightarrow> test" where
  "test_transport_in_mem zc zd = test_transport_suite zc zd (ChannelTransport_with_mtu MAX_UDP_DATAGRAM_PAYLOAD_SIZE)"

lemma sample_syn:
  assumes "zstd_fits zc" and "zstd_inverse zc zd"
  obtains bs where "message_serialize zc sample_syn_msg = Inr bs" "message_deserialize zd bs = Inr (sample_syn_msg, [])"
    "length bs = 18" "message_len sample_syn_msg = 18"
    "serialize_deserialize_chitchat_message zc zd sample_syn_msg = Inr sample_syn_msg"
proof -
  have wf: "message_wf sample_syn_msg" and len: "message_len sample_syn_msg = 18"
    by (simp_all add: sample_syn_msg_def wire_string_ascii Digest_default_def digest_wf_def length_defs)
  obtain bs where bs: "message_serialize zc sample_syn_msg = Inr bs" by (simp add: sample_syn_msg_def)
  have "message_deserialize zd bs = Inr (sample_syn_msg, [])" "length bs = 18"
    using message_roundtrip_aux [OF assms wf bs, of "[]"] message_len_correct [OF wf bs] len by simp_all
  with bs len show thesis by (intro that) (simp_all add: serialize_deserialize_chitchat_message_def)
qed

lemma junk_ignored: "message_deserialize zd (as_bytes ''junk'') = Inl InvalidMagicNumber"
proof -
  have "from_le_bytes (take 2 (as_bytes ''junk'')) \<noteq> MAGIC_NUMBER" by code_simp
  then show ?thesis by (simp add: message_deserialize_def)
qed

lemma transport_tests_pass:
  assumes z: "zstd_fits zc" "zstd_inverse zc zd"
  shows "test_udp_transport_ignore_invalid_payload zc zd = Some ()" "test_transport_in_mem zc zd = Some ()"
proof -
  obtain bs where syn: "message_serialize zc sample_syn_msg = Inr bs" "message_deserialize zd bs = Inr (sample_syn_msg, [])"
    "length bs = 18" "message_len sample_syn_msg = 18"
    "serialize_deserialize_chitchat_message zc zd sample_syn_msg = Inr sample_syn_msg"
    using sample_syn [OF z] .
  show "test_udp_transport_ignore_invalid_payload zc zd = Some ()"
    using syn junk_ignored [of zd]
    by (simp add: test_udp_transport_ignore_invalid_payload_def receive_one_def MAX_UDP_DATAGRAM_PAYLOAD_SIZE_def run_def assert_def)
  note defs = test_transport_in_mem_def test_transport_suite_def test_transport_cannot_open_twice_aux_def
    test_transport_recv_waits_for_message_def test_transport_socket_released_on_drop_def
    test_transport_sending_to_unbound_addr_is_ok_def ChannelTransport_with_mtu_def channel_open_def channel_close_def
    channel_recv_def channel_send_def link_removed_def try_send_def MAX_MESSAGE_PER_CHANNEL_def MAX_UDP_DATAGRAM_PAYLOAD_SIZE_def
    btm_contains_def btm_get_def btm_remove_def run_def assert_def Let_def local_addr_def
  show "test_transport_in_mem zc zd = Some ()" by (simp add: defs syn)
qed

section \<open>The tests pass\<close>

definition codec_tests :: "zstd \<Rightarrow> zstd \<Rightarrow> test list" where
  "codec_tests zc zd =
     [test_deletion_status_to_u8, test_serialize_bool, test_serialize_chitchat_id, test_serialize_heartbeat, test_serialize_ip,
      test_serialize_block_type, test_compressed_serialized_stream_len_when_there_are_no_compressed_blocks zstd_never,
      test_empty zc zd, test_node_digest_serialization, test_digest_serialization,
      test_syn zc zd, test_syn_ack zc zd, test_ack zc zd, test_bad_cluster zc zd,
      test_delta_serialization_default zc zd, test_delta_serialization_with_set_max_version zc zd,
      test_delta_serialization_simple_foo zc zd,
      test_delta_serialization_simple_node zc zd,
      test_delta_serialization_simple_with_nodes_to_reset zc zd,
      test_delta_serialization_exceed_mtu_on_add_node zc zd,
      test_delta_serialization_exceed_mtu_on_add_kv zc zd, test_delta_op_tag,
      test_udp_transport_ignore_invalid_payload zc zd, test_transport_in_mem zc zd]"

lemma codec_tests_pass:
  assumes "zstd_fits zc" and "zstd_inverse zc zd"
  shows "list_all (\<lambda>t. t = Some ()) (codec_tests zc zd)"
  by (simp add: codec_tests_def plain_codec_tests_pass code_tests_pass uncompressed_test_passes test_empty_passes [OF assms] message_tests_pass [OF assms]
      delta_writer_tests_pass [OF assms] transport_tests_pass [OF assms])

end
