(* ===== verification/Stream_Tests.thy ===== *)
theory Stream_Tests
  imports Test_Support
begin

text \<open>
  The two tests of \<^verbatim>\<open>chitchat/src/serialize.rs\<close> that write a hundred sentences to a compressed stream. One appends thirty
  sentences drawn at random: it passes whatever is drawn, with every compressor and its decompressor. The
  other one also measures the stream: it passes exactly when the compressor saves two thirds.
\<close>

section \<open>The tests\<close>

definition TEXT_SAMPLES :: "string list" where
  "TEXT_SAMPLES = [''I'm happy.'', ''She exercises every morning.'', ''His dog barks loudly.'', ''My school starts at 8:00.'',
     ''We always eat dinner together.'', ''They take the bus to work.'', ''He doesn't like vegetables.'',
     ''I don't want anything to drink.'', ''hello Happy tax payer'', ''do you like tea?'']"

definition sentence :: "nat \<Rightarrow> string" where
  "sentence i = TEXT_SAMPLES ! (i mod length TEXT_SAMPLES)"

definition test_compressed_serialized_stream :: "zstd \<Rightarrow> zstd \<Rightarrow> test" where
  "test_compressed_serialized_stream zc zd = do {
     writer \<leftarrow> run (append_items zc ser_str len_str (map sentence [0..<100]) (with_block_threshold 1000));
     let uncompressed_len = (\<Sum>i\<leftarrow>[0..<100]. length (sentence i));
     buf \<leftarrow> run (finish_stream zc writer);
     assert (length buf * 3 < uncompressed_len);
     (vals, cursor) \<leftarrow> run (deserialize_stream zd de_str buf);
     assert (length vals = 100);
     assert (list_all (\<lambda>i. vals ! i = sentence i) [0..<100]);
     assert (cursor = [])}"

definition test_compressed_serialized_stream_with_random_data :: "zstd \<Rightarrow> zstd \<Rightarrow> string list \<Rightarrow> test" where
  "test_compressed_serialized_stream_with_random_data zc zd random_sentences = do {
     writer \<leftarrow> run (append_items zc ser_str len_str (map sentence [0..<100]) (with_block_threshold 200));
     writer \<leftarrow> run (append_items zc ser_str len_str random_sentences writer);
     buf \<leftarrow> run (finish_stream zc writer);
     (vals, cursor) \<leftarrow> run (deserialize_stream zd de_str buf);
     assert (length vals = 130);
     assert (list_all (\<lambda>i. vals ! i = sentence i) [0..<100]);
     assert (cursor = [])}"

text \<open>What the test draws: thirty sentences of thirty letters and digits.\<close>

definition alphanumeric :: "char \<Rightarrow> bool" where
  "alphanumeric c \<longleftrightarrow> (let n = (of_char c :: nat) in 48 \<le> n \<and> n \<le> 57 \<or> 65 \<le> n \<and> n \<le> 90 \<or> 97 \<le> n \<and> n \<le> 122)"

definition drawn_sentences :: "string list \<Rightarrow> bool" where
  "drawn_sentences random_sentences \<longleftrightarrow> length random_sentences = 30
     \<and> list_all (\<lambda>s. length s = 30 \<and> list_all alphanumeric s) random_sentences"

section \<open>The tests pass\<close>

lemma append_items_append:
  "append_items zc ser slen (xs @ ys) w = result_bind (append_items zc ser slen xs w) (append_items zc ser slen ys)"
proof (induction xs arbitrary: w)
  case (Cons x xs)
  then show ?case by (cases "append_item zc ser slen x w") simp_all
qed simp

lemma samples_wire: "s \<in> set TEXT_SAMPLES \<Longrightarrow> wire_string s \<and> len_str s \<le> 65535"
  by (auto simp: TEXT_SAMPLES_def len_str_def intro!: wire_string_ascii)

lemma sentence_wire: "wire_string (sentence i) \<and> len_str (sentence i) \<le> 65535"
proof -
  have "i mod length TEXT_SAMPLES < length TEXT_SAMPLES" by (simp add: TEXT_SAMPLES_def)
  then show ?thesis unfolding sentence_def by (intro samples_wire nth_mem)
qed

lemma alphanumeric_ascii: "alphanumeric c \<Longrightarrow> (of_char c :: nat) < 128"
  by (auto simp: alphanumeric_def Let_def)

lemma drawn_wire:
  assumes "drawn_sentences rs" and "s \<in> set rs"
  shows "wire_string s \<and> len_str s \<le> 65535"
proof -
  have "length s = 30" "list_all alphanumeric s" using assms by (auto simp: drawn_sentences_def list_all_iff)
  then show ?thesis by (auto simp: len_str_def list_all_iff alphanumeric_ascii intro!: wire_string_ascii)
qed

lemma sentences_stream:
  assumes "zstd_fits zc" and "zstd_inverse zc zd" and "\<forall>s \<in> set extra. wire_string s \<and> len_str s \<le> 65535" and "t \<noteq> 0"
  obtains w w' buf where "append_items zc ser_str len_str (map sentence [0..<100]) (with_block_threshold t) = Inr w"
    "append_items zc ser_str len_str extra w = Inr w'" "finish_stream zc w' = Inr buf"
    "deserialize_stream zd de_str buf = Inr (map sentence [0..<100] @ extra, [])"
proof -
  let ?xs = "map sentence [0..<100] @ extra"
  have "\<forall>x \<in> set ?xs. wire_string x \<and> len_str x \<le> 65535" using assms(3) sentence_wire by auto
  then obtain w' buf where w': "append_items zc ser_str len_str ?xs (with_block_threshold t) = Inr w'"
      "finish_stream zc w' = Inr buf" "\<forall>rest. deserialize_stream zd de_str (buf @ rest) = Inr (?xs, rest)"
    using stream_roundtrip [OF assms(1,2) str.codec_axioms assms(4)] by blast
  with that spec [OF w'(3), of "[]"] show thesis by (auto simp: append_items_append)
qed

lemma first_sentences: "list_all (\<lambda>i. (map sentence [0..<100] @ extra) ! i = sentence i) [0..<100]"
  by (simp add: list_all_iff nth_append)

lemma random_data_test_passes:
  assumes "zstd_fits zc" and "zstd_inverse zc zd" and "drawn_sentences random_sentences"
  shows "test_compressed_serialized_stream_with_random_data zc zd random_sentences = Some ()"
proof -
  obtain w w' buf where w: "append_items zc ser_str len_str (map sentence [0..<100]) (with_block_threshold 200) = Inr w"
    "append_items zc ser_str len_str random_sentences w = Inr w'" "finish_stream zc w' = Inr buf"
    "deserialize_stream zd de_str buf = Inr (map sentence [0..<100] @ random_sentences, [])"
    by (rule sentences_stream [OF assms(1,2), of random_sentences 200]) (use drawn_wire [OF assms(3)] in simp_all)
  have "length random_sentences = 30" using assms(3) by (simp add: drawn_sentences_def)
  with w first_sentences [of random_sentences] show ?thesis
    by (simp add: test_compressed_serialized_stream_with_random_data_def run_def assert_def)
qed

lemma samples_test_passes:
  assumes "zstd_fits zc" and "zstd_inverse zc zd"
  shows "\<exists>w buf. append_items zc ser_str len_str (map sentence [0..<100]) (with_block_threshold 1000) = Inr w
    \<and> finish_stream zc w = Inr buf
    \<and> (test_compressed_serialized_stream zc zd = Some () \<longleftrightarrow> length buf * 3 < (\<Sum>i\<leftarrow>[0..<100]. length (sentence i)))"
proof -
  obtain w w' buf where w: "append_items zc ser_str len_str (map sentence [0..<100]) (with_block_threshold 1000) = Inr w"
    "append_items zc ser_str len_str [] w = Inr w'" "finish_stream zc w' = Inr buf"
    "deserialize_stream zd de_str buf = Inr (map sentence [0..<100] @ [], [])"
    by (rule sentences_stream [OF assms, of "[]" 1000]) simp_all
  with first_sentences [of "[]"] show ?thesis
    by (auto simp: test_compressed_serialized_stream_def run_def assert_def)
qed

definition demo_sentences :: "string list" where
  "demo_sentences = replicate 30 (replicate 30 (CHR ''a''))"

lemma demo_sentences_ok: "drawn_sentences demo_sentences"
  by (simp add: demo_sentences_def drawn_sentences_def alphanumeric_def list_all_iff)

end
