(* ===== verification/Detector_Tests.thy ===== *)
theory Detector_Tests
  imports Test_Support
begin

text \<open>
  The test of \<^verbatim>\<open>chitchat/src/failure_detector.rs\<close> that draws its intervals at random: a node that is live, goes
  down when it is silent and comes back. The draws are an argument of the test, which is shown to pass
  whatever they are.
\<close>

section \<open>The test\<close>

fun report_drawn :: "nat list \<Rightarrow> instant \<Rightarrow> FailureDetector \<Rightarrow> (instant \<times> FailureDetector) option" where
  "report_drawn [] now fd = Some (now, fd)"
| "report_drawn (time_offset # draws) now fd = do {
     let now = now + from_secs time_offset;
     fd \<leftarrow> run (fd_report_heartbeat node1 now fd);
     report_drawn draws now fd}"

definition test_failure_detector_node_state_from_live_to_down_to_live :: "nat list \<Rightarrow> nat list \<Rightarrow> test" where
  "test_failure_detector_node_state_from_live_to_down_to_live draws later_draws = do {
     (now, fd) \<leftarrow> report_drawn draws 0 (FailureDetector_new FailureDetectorConfig_default);
     let fd = update_node_liveness node1 now fd;
     assert (fd_live_nodes fd = {node1});
     let now = now + from_secs 20;
     let fd = update_node_liveness node1 now fd;
     assert (fd_live_nodes fd = {});
     (now, fd) \<leftarrow> report_drawn later_draws now fd;
     let fd = update_node_liveness node1 now fd;
     assert (fd_live_nodes fd = {node1})}"

text \<open>What the test draws: 2001 and then 501 intervals of one or two seconds.\<close>

definition drawn_intervals :: "nat \<Rightarrow> nat list \<Rightarrow> bool" where
  "drawn_intervals n draws \<longleftrightarrow> length draws = n \<and> list_all (\<lambda>d. d \<in> {1, 2}) draws"

section \<open>The window of the node\<close>

text \<open>A detector that knows one node, whose window holds \<open>n\<close> intervals of one or two seconds. Their sum is a small
  integer, which the arithmetic keeps exactly.\<close>

definition between :: "real \<Rightarrow> bool" where
  "between x \<longleftrightarrow> x \<in> {1, 2}"

definition sampled :: "nat \<Rightarrow> instant \<Rightarrow> FailureDetector \<Rightarrow> bool" where
  "sampled n t fd \<longleftrightarrow> fd_config fd = FailureDetectorConfig_default \<and> (\<exists>w. fd_node_samples fd = [(node1, w)]
     \<and> sw_wf FailureDetectorConfig_default w \<and> bas_capacity (sw_intervals w) = 1000 \<and> sw_last_heartbeat w = Some t
     \<and> length (bas_window (sw_intervals w)) = n \<and> list_all between (bas_window (sw_intervals w))
     \<and> bas_sum (sw_intervals w) = sum_list (bas_window (sw_intervals w)))"

lemma queue_append_between:
  assumes "list_all between q" and "between x" and "length q \<le> c" and "0 < c"
  shows "list_all between (queue_append c x q) \<and> length (queue_append c x q) = min c (Suc (length q))"
  using assms by (cases q) (auto simp: queue_append_def)

lemma sum_integer:
  assumes "list_all between xs" and "length xs \<le> 1000"
  obtains k where "sum_list xs = real k" "k \<le> 2000"
proof -
  have "\<exists>k. sum_list xs = real k \<and> k \<le> 2 * length xs" using assms(1)
  proof (induction xs)
    case (Cons x xs)
    then obtain k where k: "sum_list xs = real k" "k \<le> 2 * length xs" by auto
    have "x = real 1 \<or> x = real 2" using Cons.prems by (simp add: between_def)
    then obtain j where "x = real j" "j \<le> 2" by auto
    with k show ?case by (intro exI [of _ "j + k"]) simp
  qed simp
  with that assms(2) show thesis by force
qed

lemma append_exact:
  assumes wf: "bas_wf b" "bas_capacity b = 1000" and all: "list_all between (bas_window b)" "between x"
    and sum: "bas_sum b = sum_list (bas_window b)" and b': "bas_append x b = Inr b'"
  shows "bas_sum b' = sum_list (bas_window b')"
proof -
  let ?w = "bas_window b"
  have w': "bas_wf b'" "bas_capacity b' = 1000" "bas_window b' = queue_append 1000 x ?w" using bas_append_ok [OF wf(1), of x] wf(2) b' by auto
  have exact: "f64_round (sum_list v) = sum_list v" if v: "list_all between v" "length v \<le> 1000" for v
  proof -
    obtain k where "sum_list v = real k" "k \<le> 2000" by (rule sum_integer [OF v])
    then show ?thesis by (simp add: f64_round_of_nat)
  qed
  have "list_all between (bas_window b')" unfolding w'(3) by (rule list_all_queue_append [OF all])
  then have new: "f64_round (sum_list (bas_window b')) = sum_list (bas_window b')"
    using bas_window_length [OF w'(1)] w'(2) by (intro exact) simp_all
  show ?thesis
  proof (cases "bas_is_filled b")
    case False
    then have "bas_window b' = ?w @ [x]" using w'(3) wf by (simp add: queue_append_def bas_wf_def bas_window_def bas_capacity_def)
    with new b' wf(1) False sum show ?thesis by (auto simp: bas_append_def bas_wf_def Let_def f64_add_def split: if_splits)
  next
    case True
    let ?old = "bas_values b ! bas_index b"
    have w: "?w = ?old # tl ?w" "length ?w = 1000"
      using wf True by (simp_all add: bas_wf_def bas_window_def bas_capacity_def Cons_nth_drop_Suc [symmetric])
    then have t: "bas_window b' = tl ?w @ [x]" "sum_list ?w = ?old + sum_list (tl ?w)"
      using w'(3) by (simp add: queue_append_def) (metis w(1) sum_list.Cons)
    have "list_all between (tl ?w)" using all(1) by (cases ?w) simp_all
    then have "f64_sub (bas_sum b) ?old = sum_list (tl ?w)" using exact [of "tl ?w"] w(2) by (simp add: f64_sub_def sum t(2))
    with new t b' wf(1) True show ?thesis by (auto simp: bas_append_def bas_wf_def Let_def f64_add_def split: if_splits)
  qed
qed

lemma drawn_secs: "d \<in> {1, 2} \<Longrightarrow> between (as_secs_f64 (from_secs d)) \<and> from_secs d \<le> from_secs 10"
  using f64_round_of_nat [of 1] f64_round_of_nat [of 2]
  by (auto simp: between_def as_secs_f64_def from_secs_def f64_add_def f64_of_nat_def f64_quotient_def)

lemma report_sampled:
  assumes "sampled n t fd" and "d \<in> {1, 2}" and "n \<le> 1000"
  shows "\<exists>fd'. fd_report_heartbeat node1 (t + from_secs d) fd = Inr fd' \<and> sampled (min 1000 (Suc n)) (t + from_secs d) fd'
    \<and> fd_live_nodes fd' = fd_live_nodes fd"
proof -
  obtain w where w: "fd_config fd = FailureDetectorConfig_default" "fd_node_samples fd = [(node1, w)]"
      "sw_wf FailureDetectorConfig_default w" "bas_capacity (sw_intervals w) = 1000" "sw_last_heartbeat w = Some t"
      "length (bas_window (sw_intervals w)) = n" "list_all between (bas_window (sw_intervals w))"
      "bas_sum (sw_intervals w) = sum_list (bas_window (sw_intervals w))"
    using assms(1) by (auto simp: sampled_def)
  let ?x = "as_secs_f64 (from_secs d)"
  have max: "sw_max_interval w = from_secs 10" using w(3) by (simp add: sw_wf_def FailureDetectorConfig_default_def)
  obtain b where b: "bas_append ?x (sw_intervals w) = Inr b" "bas_capacity b = 1000"
      "bas_window b = queue_append 1000 ?x (bas_window (sw_intervals w))"
    using bas_append_ok [of "sw_intervals w" ?x] w(3,4) by (auto simp: sw_wf_def)
  have "bas_sum b = sum_list (bas_window b)"
    using append_exact [OF _ w(4,7) _ w(8) b(1)] w(3) drawn_secs [OF assms(2)] by (simp add: sw_wf_def)
  have r: "sw_report_heartbeat (t + from_secs d) w = Inr (w\<lparr>sw_intervals := b, sw_last_heartbeat := Some (t + from_secs d)\<rparr>)"
    using w(5) max b(1) drawn_secs [OF assms(2)] by (simp add: sw_report_heartbeat_def)
  then have "sw_wf FailureDetectorConfig_default (w\<lparr>sw_intervals := b, sw_last_heartbeat := Some (t + from_secs d)\<rparr>)"
    using sw_report_heartbeat_ok [OF w(3), of "t + from_secs d"] by simp
  with \<open>bas_sum b = sum_list (bas_window b)\<close> r b w(1,2) queue_append_between [OF w(7), of ?x 1000] drawn_secs [OF assms(2)] w(6) assms(3) show ?thesis
    by (auto simp: fd_report_heartbeat_def get_or_create_sampling_window_def btm_get_def sampled_def)
qed

lemma report_drawn_sampled:
  assumes "list_all (\<lambda>d. d \<in> {1, 2}) draws" and "sampled n t fd" and "n \<le> 1000"
  shows "\<exists>t' fd'. report_drawn draws t fd = Some (t', fd') \<and> sampled (min 1000 (n + length draws)) t' fd'
    \<and> fd_live_nodes fd' = fd_live_nodes fd"
  using assms
proof (induction draws arbitrary: n t fd)
  case (Cons d draws)
  obtain fd1 where fd1: "fd_report_heartbeat node1 (t + from_secs d) fd = Inr fd1"
      "sampled (min 1000 (Suc n)) (t + from_secs d) fd1" "fd_live_nodes fd1 = fd_live_nodes fd"
    using report_sampled [OF Cons.prems(2), of d] Cons.prems(1,3) by auto
  have "min 1000 (min 1000 (Suc n) + length draws) = min 1000 (n + length (d # draws))" by simp
  with Cons.IH [OF _ fd1(2)] fd1 Cons.prems(1) show ?case by (simp add: run_def)
qed auto

section \<open>Live, down, and live again\<close>

lemma sum_between: "list_all between xs \<Longrightarrow> real (length xs) \<le> sum_list xs \<and> sum_list xs \<le> 2 * real (length xs)"
  by (induction xs) (auto simp: between_def)

definition sampled_sum :: "FailureDetector \<Rightarrow> real" where
  "sampled_sum fd = bas_sum (sw_intervals (snd (hd (fd_node_samples fd))))"

lemma sampled_sum_bounds:
  assumes "sampled n t fd"
  shows "real n \<le> sampled_sum fd \<and> sampled_sum fd \<le> 2 * real n"
  using assms sum_between by (force simp: sampled_def sampled_sum_def sw_wf_def bas_wf_def)

lemma sampled_alive:
  fixes n fd
  defines "mean \<equiv> compute_mean \<lparr>as_prior_mean = 5, as_prior_weight = 5\<rparr> n (sampled_sum fd)"
  assumes "sampled n t fd" and "0 < n"
  shows "fd_is_alive node1 (t + late) fd \<longleftrightarrow> mean \<noteq> 0 \<and> f64_quotient (as_secs_f64 late) mean \<le> 8"
    and "0 \<le> mean" and "mean \<noteq> 0" and "mean * ((1 - f64_eps)\<^sup>2 * (real n + 5)) \<le> (1 + f64_eps)\<^sup>2 * (2 * real n + 5 * ((1 + f64_eps) * 5))"
proof -
  obtain w where w: "fd_config fd = FailureDetectorConfig_default" "fd_node_samples fd = [(node1, w)]"
      "sw_wf FailureDetectorConfig_default w" "sw_last_heartbeat w = Some t" "length (bas_window (sw_intervals w)) = n"
    using assms(2) by (auto simp: sampled_def)
  have "as_secs_f64 (from_secs 5) = 5"
    using f64_round_of_nat [of 5] by (simp add: as_secs_f64_def from_secs_def f64_add_def f64_of_nat_def f64_quotient_def)
  then have bas: "bas_len (sw_intervals w) = n" "sw_additive_smoothing w = \<lparr>as_prior_mean = 5, as_prior_weight = 5\<rparr>"
    using w(3,5) bas_len_window [of "sw_intervals w"] by (simp_all add: sw_wf_def FailureDetectorConfig_default_def)
  have s: "sampled_sum fd = bas_sum (sw_intervals w)" using w(2) by (simp add: sampled_sum_def)
  show "fd_is_alive node1 (t + late) fd \<longleftrightarrow> mean \<noteq> 0 \<and> f64_quotient (as_secs_f64 late) mean \<le> 8"
    using w(1,2,4) bas assms(3)
    by (auto simp: fd_is_alive_def fd_phi_def btm_get_def sw_phi_def f64_div_def FailureDetectorConfig_default_def s mean_def Let_def)
  note b = sampled_sum_bounds [OF assms(2)]
  have low: "- sampled_sum fd \<le> 5 * ((1 - f64_eps) * 5)" using b f64_eps_bounds by (simp add: f64_eps_def)
  note M = compute_mean_bounds [of 5, OF _ low, of n, folded mean_def, simplified]
  show "0 \<le> mean" by (rule M(1))
  have "0 < (1 - f64_eps)\<^sup>2 * (sampled_sum fd + 5 * ((1 - f64_eps) * 5))"
    using b assms(3) f64_eps_bounds by (intro mult_pos_pos add_pos_nonneg) simp_all
  with M(3) show "mean \<noteq> 0" by auto
  have "(1 + f64_eps)\<^sup>2 * (sampled_sum fd + 5 * ((1 + f64_eps) * 5)) \<le> (1 + f64_eps)\<^sup>2 * (2 * real n + 5 * ((1 + f64_eps) * 5))"
    using b by (intro mult_left_mono) simp_all
  with M(2) show "mean * ((1 - f64_eps)\<^sup>2 * (real n + 5)) \<le> (1 + f64_eps)\<^sup>2 * (2 * real n + 5 * ((1 + f64_eps) * 5))" by simp
qed

text \<open>Right after a heartbeat the node is live; twenty seconds are too long after a full window.\<close>

lemma sampled_live: "sampled n t fd \<Longrightarrow> 0 < n \<Longrightarrow> fd_is_alive node1 t fd"
  using sampled_alive(1) [of n t fd 0] sampled_alive(3) [of n t fd] by (simp add: as_secs_f64_def f64_add_def f64_of_nat_def f64_quotient_def)

lemma sampled_down:
  assumes "sampled 1000 t fd"
  shows "\<not> fd_is_alive node1 (t + from_secs 20) fd"
proof
  define mean where "mean = compute_mean \<lparr>as_prior_mean = 5, as_prior_weight = 5\<rparr> 1000 (sampled_sum fd)"
  note M = sampled_alive [OF assms, folded mean_def]
  assume "fd_is_alive node1 (t + from_secs 20) fd"
  then have phi: "f64_quotient (as_secs_f64 (from_secs 20)) mean \<le> 8" using M(1) by simp
  have "(1 + f64_eps)\<^sup>2 * (2 * real 1000 + 5 * ((1 + f64_eps) * 5)) \<le> 2030" by (simp add: f64_eps_def power2_eq_square)
  with M(4) have "mean * (1 - f64_eps)\<^sup>2 \<le> 11 / 5" by (simp add: mult_ac)
  also have "\<dots> \<le> (1 + f64_eps) ^ 5 * (11 / 5)" using one_le_power [of "1 + f64_eps" 5] f64_eps_bounds by simp
  finally have "mean * (1 - f64_eps)\<^sup>2 \<le> (1 + f64_eps) ^ 5 * (11 / 5)" .
  from phi_above [OF _ phi as_secs_f64_bounds(1) secs_nonneg _ this] M(2,3)
  have "20 \<le> (1 + f64_eps) ^ 15 * (88 / 5)" by (simp add: secs_def from_secs_def)
  moreover have "(1 + f64_eps) ^ 15 * (88 / 5) \<le> (1 + 1 / 1000000) * (88 / 5)" using f64_margin_small by (intro mult_right_mono) simp_all
  ultimately show False by simp
qed

lemma first_report:
  "\<exists>fd. fd_report_heartbeat node1 t (FailureDetector_new FailureDetectorConfig_default) = Inr fd
     \<and> sampled 0 t fd \<and> fd_live_nodes fd = {}"
proof -
  have size: "fdc_sampling_window_size FailureDetectorConfig_default = 1000" by (simp add: FailureDetectorConfig_default_def)
  have b: "bas_wf (bas_with_capacity 1000)" "bas_capacity (bas_with_capacity 1000) = 1000"
    using bas_wf_new [of 1000] by simp_all (simp add: bas_capacity_def bas_with_capacity_def)
  show ?thesis
    using b by (simp add: fd_report_heartbeat_def get_or_create_sampling_window_def FailureDetector_new_def btm_get_def Let_def
        sw_report_heartbeat_def sampled_def SamplingWindow_new_def sw_wf_def size)
qed

text \<open>The silence itself is longer than the longest interval that is counted.\<close>

lemma report_late:
  assumes "sampled n t fd" and "from_secs 10 < g"
  shows "\<exists>fd'. fd_report_heartbeat node1 (t + g) fd = Inr fd' \<and> sampled n (t + g) fd' \<and> fd_live_nodes fd' = fd_live_nodes fd"
proof -
  obtain w where w: "fd_node_samples fd = [(node1, w)]" "sw_last_heartbeat w = Some t" "sw_wf FailureDetectorConfig_default w"
    using assms(1) by (auto simp: sampled_def)
  have "sw_max_interval w = from_secs 10" using w(3) by (simp add: sw_wf_def FailureDetectorConfig_default_def)
  then have "sw_report_heartbeat (t + g) w = Inr (w\<lparr>sw_last_heartbeat := Some (t + g)\<rparr>)"
    using w(2) assms(2) by (simp add: sw_report_heartbeat_def)
  with w assms(1) show ?thesis
    by (auto simp: fd_report_heartbeat_def get_or_create_sampling_window_def btm_get_def sampled_def sw_wf_def)
qed

lemma update_sampled:
  assumes "sampled n t fd"
  shows "fd_is_alive node1 now fd \<Longrightarrow> sampled n t (update_node_liveness node1 now fd)
      \<and> fd_live_nodes (update_node_liveness node1 now fd) = insert node1 (fd_live_nodes fd)"
    and "\<not> fd_is_alive node1 now fd \<Longrightarrow> sampled 0 t (update_node_liveness node1 now fd)
      \<and> fd_live_nodes (update_node_liveness node1 now fd) = fd_live_nodes fd - {node1}"
proof -
  obtain w where w: "fd_config fd = FailureDetectorConfig_default" "fd_node_samples fd = [(node1, w)]"
      "sw_wf FailureDetectorConfig_default w" "bas_capacity (sw_intervals w) = 1000" "sw_last_heartbeat w = Some t"
    using assms by (auto simp: sampled_def)
  show "sampled n t (update_node_liveness node1 now fd)
      \<and> fd_live_nodes (update_node_liveness node1 now fd) = insert node1 (fd_live_nodes fd)" if "fd_is_alive node1 now fd"
    using assms that by (auto simp: update_node_liveness_eq sampled_def)
  have "bas_wf (bas_clear (sw_intervals w))" "bas_window (bas_clear (sw_intervals w)) = []"
      "bas_capacity (bas_clear (sw_intervals w)) = 1000"
    using w(3,4) bas_clear_wf [of "sw_intervals w"] by (simp_all add: sw_wf_def) (simp add: bas_clear_def bas_capacity_def)
  with w show "sampled 0 t (update_node_liveness node1 now fd)
      \<and> fd_live_nodes (update_node_liveness node1 now fd) = fd_live_nodes fd - {node1}" if "\<not> fd_is_alive node1 now fd"
    using that by (simp add: update_node_liveness_eq sampled_def btm_get_def sw_reset_def sw_wf_def)
qed

lemma live_again_test_passes:
  assumes "drawn_intervals 2001 draws" and "drawn_intervals 501 later"
  shows "test_failure_detector_node_state_from_live_to_down_to_live draws later = Some ()"
proof -
  obtain d ds where draws: "draws = d # ds" "d \<in> {1, 2}" "list_all (\<lambda>d. d \<in> {1, 2}) ds" "length ds = 2000"
    using assms(1) by (cases draws) (auto simp: drawn_intervals_def)
  obtain e es where later: "later = e # es" "e \<in> {1, 2}" "list_all (\<lambda>d. d \<in> {1, 2}) es" "length es = 500"
    using assms(2) by (cases later) (auto simp: drawn_intervals_def)
  obtain fd0 where fd0: "fd_report_heartbeat node1 (from_secs d) (FailureDetector_new FailureDetectorConfig_default) = Inr fd0"
      "sampled 0 (from_secs d) fd0" "fd_live_nodes fd0 = {}"
    using first_report [of "from_secs d"] by blast
  obtain t fd1 where fd1: "report_drawn ds (from_secs d) fd0 = Some (t, fd1)" "sampled 1000 t fd1" "fd_live_nodes fd1 = {}"
    using report_drawn_sampled [OF draws(3) fd0(2)] draws(4) fd0(3) by auto
  let ?fd2 = "update_node_liveness node1 t fd1"
  have fd2: "sampled 1000 t ?fd2" "fd_live_nodes ?fd2 = {node1}"
    using update_sampled(1) [OF fd1(2) sampled_live [OF fd1(2)]] fd1(3) by auto
  let ?fd3 = "update_node_liveness node1 (t + from_secs 20) ?fd2"
  have fd3: "sampled 0 t ?fd3" "fd_live_nodes ?fd3 = {}"
    using update_sampled(2) [OF fd2(1) sampled_down [OF fd2(1)]] fd2(2) by auto
  obtain fd4 where fd4: "fd_report_heartbeat node1 (t + (from_secs 20 + from_secs e)) ?fd3 = Inr fd4"
      "sampled 0 (t + (from_secs 20 + from_secs e)) fd4" "fd_live_nodes fd4 = {}"
    using report_late [OF fd3(1), of "from_secs 20 + from_secs e"] fd3(2) by (auto simp: from_secs_def)
  obtain t' fd5 where fd5: "report_drawn es (t + (from_secs 20 + from_secs e)) fd4 = Some (t', fd5)" "sampled 500 t' fd5"
      "fd_live_nodes fd5 = {}"
    using report_drawn_sampled [OF later(3) fd4(2)] later(4) fd4(3) by auto
  have fd6: "fd_live_nodes (update_node_liveness node1 t' fd5) = {node1}"
    using update_sampled(1) [OF fd5(2) sampled_live [OF fd5(2)]] fd5(3) by auto
  show ?thesis
    using fd0(1) fd1(1) fd2(2) fd3(2) fd4(1) fd5(1) fd6
    by (simp add: test_failure_detector_node_state_from_live_to_down_to_live_def draws(1) later(1) run_def assert_def add.assoc)
qed

definition demo_draws :: "nat \<Rightarrow> nat list" where
  "demo_draws n = replicate n 2"

lemma demo_draws_ok: "drawn_intervals n (demo_draws n)"
  by (simp add: demo_draws_def drawn_intervals_def list_all_iff)

end
