(* ===== verification/Instance_Tests.thy ===== *)
theory Instance_Tests
  imports Test_Support "HOL-Library.Code_Target_Nat"
begin

text \<open>
  Unit tests of \<^verbatim>\<open>chitchat/src/listener.rs\<close>, \<^verbatim>\<open>failure_detector.rs\<close>, \<^verbatim>\<open>lib.rs\<close> and \<^verbatim>\<open>server.rs\<close>, run on
  \<open>Listener\<close>, \<open>Failure_Detector\<close>, \<open>Chitchat\<close> and \<open>Server\<close>. A counter that a callback increments is the
  number of calls of this callback; the assertions that a callback makes are assertions on these calls.
  Tests that draw at random and tests of several instances are in theories of their own.
\<close>

section \<open>Listeners\<close>

definition test_node_id :: ChitchatId where
  "test_node_id = ChitchatId_new ''node7280'' 0 (SocketAddrV4 [127, 0, 0, 1] 7280)"

definition change :: "string \<Rightarrow> string \<Rightarrow> KeyChangeEvent" where
  "change k v = \<lparr>kce_key = k, kce_value = v, kce_node = test_node_id\<rparr>"

text \<open>The callbacks called by an event, when each of them sees the given key and value.\<close>

definition calls_seeing :: "string \<Rightarrow> string \<Rightarrow> InnerListeners \<Rightarrow> KeyChangeEvent \<Rightarrow> nat option" where
  "calls_seeing k v ls e = do {
     calls \<leftarrow> run (trigger_event ls e);
     assert (list_all (\<lambda>(_, e). kce_key e = k \<and> kce_value e = v) calls);
     Some (length calls)}"

definition test_listeners_simple :: test where
  "test_listeners_simple = do {
     let (ls, handle) = subscribe_event InnerListeners_default ''prefix:'' 0;
     n \<leftarrow> calls_seeing ''strippedprefix'' ''value'' ls (change ''prefix:strippedprefix'' ''value'');
     assert (n = 1);
     let ls = handle_drop ls handle;
     n \<leftarrow> calls_seeing ''strippedprefix'' ''value'' ls (change ''prefix:strippedprefix'' ''value'');
     assert (n = 0)}"

definition test_listeners_empty_prefix :: test where
  "test_listeners_empty_prefix = do {
     let (ls, handle) = subscribe_event InnerListeners_default [] 0;
     let ls = handle_drop ls (handle_forever handle);
     n \<leftarrow> calls_seeing ''prefix:strippedprefix'' ''value'' ls (change ''prefix:strippedprefix'' ''value'');
     assert (n = 1)}"

definition test_listeners_forever :: test where
  "test_listeners_forever = do {
     let (ls, handle) = subscribe_event InnerListeners_default ''prefix:'' 0;
     n \<leftarrow> calls_seeing ''strippedprefix'' ''value'' ls (change ''prefix:strippedprefix'' ''value'');
     assert (n = 1);
     let ls = handle_drop ls (handle_forever handle);
     n \<leftarrow> calls_seeing ''strippedprefix'' ''value'' ls (change ''prefix:strippedprefix'' ''value'');
     assert (n = 1)}"

text \<open>The callbacks of the last test are numbered from 0: \<open>counter_empty\<close>, \<open>counter_b\<close>, \<open>counter_bb\<close>,
  \<open>counter_bb2\<close> and \<open>counter_bc\<close>.\<close>

definition subscribe_forever :: "string \<Rightarrow> callback \<Rightarrow> InnerListeners \<Rightarrow> InnerListeners" where
  "subscribe_forever p cb ls = (let (ls, handle) = subscribe_event ls p cb in handle_drop ls (handle_forever handle))"

definition count_calls :: "InnerListeners \<Rightarrow> string \<Rightarrow> nat list \<Rightarrow> nat list option" where
  "count_calls ls k counters = do {
     calls \<leftarrow> run (trigger_event ls (change k ''value''));
     Some (map (\<lambda>i. counters ! i + length (filter (\<lambda>(cb, _). cb = i) calls)) [0, 1, 2, 3, 4])}"

definition test_listeners_prefixes :: test where
  "test_listeners_prefixes = do {
     let ls = subscribe_forever ''bc'' 4 (subscribe_forever ''bb'' 3 (subscribe_forever ''bb'' 2
       (subscribe_forever ''b'' 1 (subscribe_forever [] 0 InnerListeners_default))));
     counters \<leftarrow> count_calls ls ''hello'' [0, 0, 0, 0, 0];
     assert (counters = [1, 0, 0, 0, 0]);
     counters \<leftarrow> count_calls ls [] counters;
     assert (counters = [2, 0, 0, 0, 0]);
     counters \<leftarrow> count_calls ls ''a'' counters;
     assert (counters = [3, 0, 0, 0, 0]);
     counters \<leftarrow> count_calls ls ''b'' counters;
     assert (counters = [4, 1, 0, 0, 0]);
     counters \<leftarrow> count_calls ls ''ba'' counters;
     assert (counters = [5, 2, 0, 0, 0]);
     counters \<leftarrow> count_calls ls ''bb'' counters;
     assert (counters = [6, 3, 1, 1, 0])}"

lemma listener_tests_pass:
  "test_listeners_simple = Some ()"
  "test_listeners_empty_prefix = Some ()"
  "test_listeners_forever = Some ()"
  "test_listeners_prefixes = Some ()"
  by code_simp+

section \<open>The failure detector\<close>

definition assert_nearly_equal :: "real \<Rightarrow> real \<Rightarrow> test" where
  "assert_nearly_equal value expected = assert (\<bar>f64_sub value expected\<bar> < 1 / 2 ^ 52)"

definition f64_sum :: "real list \<Rightarrow> real" where
  "f64_sum xs = foldl f64_add 0 xs"

fun assert_phi :: "phi_value option \<Rightarrow> real \<Rightarrow> test" where
  "assert_phi (Some (Finite phi)) expected = assert_nearly_equal phi expected"
| "assert_phi _ expected = None"

fun test_array_fill :: "nat \<Rightarrow> nat list \<Rightarrow> BoundedArrayStats \<Rightarrow> real list \<Rightarrow> (BoundedArrayStats \<times> real list) option" where
  "test_array_fill capacity [] b queue = Some (b, queue)"
| "test_array_fill capacity (i # is) b queue = do {
     assert (bas_len b < capacity);
     assert (\<not> bas_is_filled b);
     b \<leftarrow> run (bas_append (f64_of_nat i) b);
     let queue = queue @ [f64_of_nat i];
     assert (bas_len b = i);
     assert (length queue = i);
     assert_nearly_equal (bas_sum b) (f64_sum queue);
     test_array_fill capacity is b queue}"

fun test_array_roll :: "nat \<Rightarrow> nat list \<Rightarrow> BoundedArrayStats \<Rightarrow> real list \<Rightarrow> test" where
  "test_array_roll capacity [] b queue = Some ()"
| "test_array_roll capacity (i # is) b queue = do {
     b \<leftarrow> run (bas_append (f64_of_nat i) b);
     let queue = tl (queue @ [f64_of_nat i]);
     assert_nearly_equal (bas_sum b) (f64_sum queue);
     assert (length queue = capacity);
     assert (bas_len b = capacity);
     test_array_roll capacity is b queue}"

definition test_bounded_array_stats :: test where
  "test_bounded_array_stats = do {
     (b, queue) \<leftarrow> test_array_fill 5 [1, 2, 3, 4, 5] (bas_with_capacity 5) [];
     assert (bas_is_filled b);
     assert_nearly_equal (bas_sum b) (f64_sum queue);
     test_array_roll 5 [6, 7, 8, 9] b queue}"

definition test_sampling_window :: test where
  "test_sampling_window = do {
     let w = SamplingWindow_new 10 (from_secs 5) (from_secs 2);
     w \<leftarrow> run (sw_report_heartbeat (from_secs 0) w);
     w \<leftarrow> run (sw_report_heartbeat (from_secs 3) w);
     let mean = f64_quotient (f64_add 3 (f64_mul 2 5)) (f64_add 1 5);
     assert_phi (sw_phi (from_secs 3) w) 0;
     assert_phi (sw_phi (from_secs 4) w) (f64_quotient 1 mean);
     w \<leftarrow> run (sw_report_heartbeat (from_secs 9) w);
     assert_phi (sw_phi (from_secs 11) w) (f64_quotient 2 mean);
     let w = sw_reset w;
     w \<leftarrow> run (sw_report_heartbeat (from_secs 111) w);
     assert (sw_phi (from_secs 111) w = None);
     w \<leftarrow> run (sw_report_heartbeat (from_secs 113) w);
     let new_mean = f64_quotient (f64_add 2 (f64_mul 2 5)) (f64_add 1 5);
     assert_phi (sw_phi (from_secs 117) w) (f64_quotient 4 new_mean)}"

definition test_failure_detector_does_not_see_a_node_as_alive_with_a_single_heartbeat :: test where
  "test_failure_detector_does_not_see_a_node_as_alive_with_a_single_heartbeat = do {
     fd \<leftarrow> run (fd_report_heartbeat node1 0 (FailureDetector_new FailureDetectorConfig_default));
     let fd = update_node_liveness node1 0 fd;
     assert (length (fd_dead_node_ids fd) = 1);
     assert (fd_live_nodes fd = {})}"

definition test_failure_detector_node_state_additive_smoothing_predominant_in_the_beginning :: test where
  "test_failure_detector_node_state_additive_smoothing_predominant_in_the_beginning = do {
     fd \<leftarrow> run (fd_report_heartbeat node1 0 (FailureDetector_new FailureDetectorConfig_default));
     fd \<leftarrow> run (fd_report_heartbeat node1 (from_millis 1200) fd);
     fd \<leftarrow> run (fd_report_heartbeat node1 (from_millis 1400) fd);
     fd \<leftarrow> run (fd_report_heartbeat node1 (from_millis 1600) fd);
     fd \<leftarrow> run (fd_report_heartbeat node1 (from_millis 1800) fd);
     fd \<leftarrow> run (fd_report_heartbeat node1 (from_millis 2000) fd);
     let fd = update_node_liveness node1 (from_secs 8) fd;
     assert (fd_live_nodes fd = {node1});
     let fd = update_node_liveness node1 (from_secs 48) fd;
     assert (fd_live_nodes fd = {})}"

text \<open>The last test of the detector reports a thousand heartbeats.\<close>

primrec report_every :: "duration \<Rightarrow> nat \<Rightarrow> FailureDetector \<Rightarrow> FailureDetector option" where
  "report_every d 0 fd = Some fd"
| "report_every d (Suc n) fd = do {
     fd \<leftarrow> report_every d n fd;
     run (fd_report_heartbeat node1 (d * Suc n) fd)}"

definition test_failure_detector_node_state_additive_smoothing_effect_fades_off :: test where
  "test_failure_detector_node_state_additive_smoothing_effect_fades_off = do {
     fd \<leftarrow> run (fd_report_heartbeat node1 0 (FailureDetector_new FailureDetectorConfig_default));
     fd \<leftarrow> report_every (from_millis 200) 1000 fd;
     let fd = update_node_liveness node1 (from_millis 200 * 1000 + from_secs 6) fd;
     assert (fd_live_nodes fd = {})}"

lemmas detector_defs =
  fd_report_heartbeat_def get_or_create_sampling_window_def FailureDetector_new_def FailureDetectorConfig_default_def
  update_node_liveness_def fd_is_alive_def fd_phi_def fd_dead_node_ids_def SamplingWindow_new_def sw_report_heartbeat_def
  sw_phi_def sw_reset_def bas_clear_def compute_mean_def f64_div_def bas_with_capacity_def bas_append_def bas_len_def
  from_secs_def from_millis_def as_secs_f64_def btm_keys_def btm_get_def btm_contains_def btm_remove_def run_def assert_def Let_def

lemma f64_round_integer [simp]:
  "f64_round 1 = 1" "numeral k \<le> (9007199254740992 :: int) \<Longrightarrow> f64_round (numeral k) = numeral k"
  using f64_round_of_int [of 1] f64_round_of_int [of "numeral k"] by simp_all

lemmas f64_defs = f64_of_nat_def f64_add_def f64_sub_def f64_mul_def f64_quotient_def assert_nearly_equal_def f64_sum_def

text \<open>What the arithmetic gives on the numbers of the tests that are no integers.\<close>

lemma f64_values:
  "f64_round (1 / 5) = 3602879701896397 / 18014398509481984"
  "f64_round (3602879701896397 / 18014398509481984) = 3602879701896397 / 18014398509481984"
  "f64_round (21617278211378381 / 18014398509481984) = 5404319552844595 / 4503599627370496"
  "f64_round (5404319552844595 / 4503599627370496) = 5404319552844595 / 4503599627370496"
  "f64_round (25220157913274777 / 18014398509481984) = 3152519739159347 / 2251799813685248"
  "f64_round (28823037615171173 / 18014398509481984) = 7205759403792793 / 4503599627370496"
  "f64_round (32425917317067569 / 18014398509481984) = 2026619832316723 / 1125899906842624"
  "f64_round (36028797018963965 / 18014398509481984) = 9007199254740991 / 4503599627370496"
  "f64_round (121597189939003391 / 4503599627370496) = 27"
  "f64_round (27 / 10) = 3039929748475085 / 1125899906842624"
  "f64_round (6755399441055744 / 3039929748475085) = 5003999585967217 / 2251799813685248"
  "f64_round (51791395714760704 / 3039929748475085) = 4795499603218583 / 281474976710656"
  "f64_round (13 / 6) = 4878899596318037 / 2251799813685248"
  "f64_round (2251799813685248 / 4878899596318037) = 4157168886803535 / 9007199254740992"
  "f64_round (4503599627370496 / 4878899596318037) = 4157168886803535 / 4503599627370496"
  by code_simp+

lemma detector_tests_pass:
  "test_bounded_array_stats = Some ()"
  "test_sampling_window = Some ()"
  "test_failure_detector_does_not_see_a_node_as_alive_with_a_single_heartbeat = Some ()"
  "test_failure_detector_node_state_additive_smoothing_predominant_in_the_beginning = Some ()"
  subgoal by (simp add: test_bounded_array_stats_def detector_defs f64_defs eval_nat_numeral)
  subgoal by (simp add: test_sampling_window_def detector_defs f64_defs f64_values)
  subgoal by (simp add: test_failure_detector_does_not_see_a_node_as_alive_with_a_single_heartbeat_def detector_defs f64_defs)
  subgoal by (simp add: test_failure_detector_node_state_additive_smoothing_predominant_in_the_beginning_def detector_defs f64_defs f64_values)
  done

definition regular_window :: "duration \<Rightarrow> nat \<Rightarrow> SamplingWindow \<Rightarrow> bool" where
  "regular_window d n w \<longleftrightarrow> bas_wf (sw_intervals w) \<and> bas_capacity (sw_intervals w) = 1000
     \<and> bas_window (sw_intervals w) = replicate n (as_secs_f64 d) \<and> sw_last_heartbeat w = Some (d * n)
     \<and> bas_drift (as_secs_f64 d) n (sw_intervals w)
     \<and> sw_max_interval w = from_secs 10 \<and> sw_additive_smoothing w = \<lparr>as_prior_mean = 5, as_prior_weight = 5\<rparr>"

definition watching :: "SamplingWindow \<Rightarrow> FailureDetector" where
  "watching w = (FailureDetector_new FailureDetectorConfig_default)\<lparr>fd_node_samples := [(node1, w)]\<rparr>"

lemma report_every_regular:
  assumes "regular_window d 0 w" and "d \<le> from_secs 10" and "n \<le> 1000"
  shows "\<exists>w'. report_every d n (watching w) = Some (watching w') \<and> regular_window d n w'"
  using assms(3)
proof (induction n)
  case (Suc n)
  then obtain w1 where w1: "report_every d n (watching w) = Some (watching w1)" "regular_window d n w1" by auto
  obtain b where b: "bas_append (as_secs_f64 d) (sw_intervals w1) = Inr b" "bas_wf b" "bas_capacity b = 1000"
      "bas_window b = queue_append 1000 (as_secs_f64 d) (replicate n (as_secs_f64 d))"
    using bas_append_ok [of "sw_intervals w1" "as_secs_f64 d"] w1(2) by (auto simp: regular_window_def)
  have "bas_drift (as_secs_f64 d) (Suc n) b"
    using bas_append_drift [OF _ _ as_secs_f64_nonneg order_refl b(1)] w1(2) by (simp add: regular_window_def)
  moreover have "queue_append 1000 x (replicate n x) = replicate (Suc n) x" for x :: real
    using Suc.prems by (simp add: queue_append_def replicate_append_same)
  ultimately show ?case using w1 b assms(2)
    by (auto simp: watching_def regular_window_def fd_report_heartbeat_def get_or_create_sampling_window_def
        btm_get_def sw_report_heartbeat_def run_def)
qed (use assms(1) in auto)

lemma fading_test_passes: "test_failure_detector_node_state_additive_smoothing_effect_fades_off = Some ()"
proof -
  define w where "w = (SamplingWindow_new 1000 (from_secs 10) (from_secs 5))\<lparr>sw_last_heartbeat := Some 0\<rparr>"
  have start: "fd_report_heartbeat node1 0 (FailureDetector_new FailureDetectorConfig_default) = Inr (watching w)"
    by (simp add: detector_defs watching_def w_def)
  have prior: "as_secs_f64 (from_secs 5) = 5" by (simp add: as_secs_f64_def from_secs_def f64_defs)
  have "bas_drift (as_secs_f64 (from_millis 200)) 0 (bas_with_capacity 1000)"
    by (rule bas_drift_empty [OF bas_window_new]) (simp_all add: bas_with_capacity_def)
  then have "regular_window (from_millis 200) 0 w"
    by (simp add: regular_window_def w_def SamplingWindow_new_def bas_wf_new bas_capacity_def prior)
      (simp add: bas_with_capacity_def)
  then obtain w' where w': "report_every (from_millis 200) 1000 (watching w) = Some (watching w')"
      "regular_window (from_millis 200) 1000 w'"
    using report_every_regular [of "from_millis 200" w 1000] by (auto simp: from_millis_def from_secs_def)
  let ?b = "sw_intervals w'" and ?x = "as_secs_f64 (from_millis 200)" and ?q = "as_secs_f64 (from_secs 6)"
  define mean where "mean = compute_mean \<lparr>as_prior_mean = 5, as_prior_weight = 5\<rparr> 1000 (bas_sum ?b)"
  have len: "bas_len ?b = 1000" using w'(2) bas_len_window [of ?b] by (simp add: regular_window_def)
  have "?x \<le> (1 + f64_eps)\<^sup>2 * (1 / 5)" using as_secs_f64_bounds(2) [of "from_millis 200"] by (simp add: secs_def from_millis_def)
  also have "\<dots> \<le> 1 / 4" by (simp add: f64_eps_def power2_eq_square)
  finally have x: "?x \<le> 1 / 4" .
  have "(1 + f64_eps) ^ 2000 \<le> 2" using eps_power_le [of 2000] by (simp add: f64_eps_def)
  then have "1000 * ?x * ((1 + f64_eps) ^ 2000 - 1) \<le> 1000 * ?x * 1" by (intro mult_left_mono) simp_all
  moreover have "\<bar>bas_sum ?b - 1000 * ?x\<bar> \<le> 1000 * ?x * ((1 + f64_eps) ^ 2000 - 1)"
    using w'(2) by (auto simp: regular_window_def bas_drift_def sum_list_replicate)
  ultimately have sum: "\<bar>bas_sum ?b - 1000 * ?x\<bar> \<le> 1000 * ?x" by linarith
  then have s: "0 \<le> bas_sum ?b" "bas_sum ?b \<le> 500" using x by linarith+
  have low: "- bas_sum ?b \<le> 5 * ((1 - f64_eps) * 5)" using s(1) f64_eps_bounds by simp
  note M = compute_mean_bounds [of 5, OF _ low, of 1000, folded mean_def, simplified]
  have "(1 + f64_eps)\<^sup>2 * (bas_sum ?b + 5 * ((1 + f64_eps) * 5)) \<le> (11 / 10) * 540"
    using s f64_eps_bounds by (intro mult_mono) (simp_all add: f64_eps_def power2_eq_square)
  with M(2) have "mean * (1 - f64_eps)\<^sup>2 \<le> 3 / 5" by (simp add: mult_ac)
  also have "\<dots> \<le> (1 + f64_eps) ^ 5 * (3 / 5)" using one_le_power [of "1 + f64_eps" 5] f64_eps_bounds by simp
  finally have mean: "mean * (1 - f64_eps)\<^sup>2 \<le> (1 + f64_eps) ^ 5 * (3 / 5)" .
  have "\<not> f64_quotient ?q mean \<le> 8" if "mean \<noteq> 0"
  proof
    assume "f64_quotient ?q mean \<le> 8"
    with phi_above [OF _ this as_secs_f64_bounds(1) secs_nonneg _ mean] M(1) that
    have "6 \<le> (1 + f64_eps) ^ 15 * (24 / 5)" by (simp add: secs_def from_secs_def)
    moreover have "(1 + f64_eps) ^ 15 * (24 / 5) \<le> (1 + 1 / 1000000) * (24 / 5)" using f64_margin_small by (intro mult_right_mono) simp_all
    ultimately show False by simp
  qed
  then have "\<not> fd_is_alive node1 (from_millis 200 * 1000 + from_secs 6) (watching w')"
    using w'(2) len
    by (auto simp: fd_is_alive_def fd_phi_def watching_def btm_get_def sw_phi_def regular_window_def f64_div_def Let_def mean_def
        FailureDetector_new_def FailureDetectorConfig_default_def mult.commute)
  then show ?thesis
    using w'(1) start
    by (simp add: test_failure_detector_node_state_additive_smoothing_effect_fades_off_def run_def assert_def
        update_node_liveness_def Let_def watching_def FailureDetector_new_def btm_get_def)
qed

section \<open>Instances\<close>

text \<open>The configuration of the tests, with a window of 4 intervals in the failure detector instead of
  1000: no test depends on it, and the kernel evaluates smaller terms.\<close>

definition test_config :: "u16 \<Rightarrow> ChitchatConfig" where
  "test_config p = (ChitchatConfig_for_test p)\<lparr>cfg_failure_detector_config := FailureDetectorConfig_default\<lparr>fdc_sampling_window_size := 4\<rparr>\<rparr>"

definition test_chitchat_dead_node_liveness :: test where
  "test_chitchat_dead_node_liveness = do {
     n1 \<leftarrow> run (with_chitchat_id_and_seeds (test_config 10001) {} []);
     let i = for_local_test 10;
     (n1, _) \<leftarrow> run (reset_node_state i [] 10000 10 n1);
     n1 \<leftarrow> run (cc_report_heartbeat i 10000 0 n1);
     n1 \<leftarrow> run (cc_report_heartbeat i 10000 0 n1);
     let n1 = update_nodes_liveness 0 n1;
     assert (card (cc_live_nodes n1) = 1)}"

definition test_maybe_trigger_catchup_callback :: test where
  "test_maybe_trigger_catchup_callback = do {
     let config = (test_config 10001)\<lparr>cfg_catchup_callback := True\<rparr>;
     node \<leftarrow> run (with_chitchat_id_and_seeds config {} []);
     (node, fx1) \<leftarrow> run (process_delta Delta_default 0 node);
     delta \<leftarrow> delta_add_node node2 1000 0 Delta_default;
     (node, fx2) \<leftarrow> run (process_delta delta 0 node);
     assert (length (filter (\<lambda>f. f = CallCatchup) (fx1 @ fx2)) = 1)}"

definition put_state :: "ChitchatId \<Rightarrow> NodeState \<Rightarrow> Chitchat \<Rightarrow> Chitchat" where
  "put_state i ns cc = cc\<lparr>cc_cluster_state := put_node_state i ns (cc_cluster_state cc)\<rparr>"

definition three_keys :: "Chitchat \<Rightarrow> ChitchatId \<Rightarrow> Chitchat option" where
  "three_keys node i = do {
     (ns, _) \<leftarrow> run (node_set ''foo'' ''bar'' (node_state_mut (cc_cluster_state node) i));
     (ns, _) \<leftarrow> run (node_set ''qux'' ''baz'' ns);
     (ns, _) \<leftarrow> run (node_set ''toto'' ''titi'' ns);
     Some (put_state i ns node)}"

definition test_reset_node_state :: test where
  "test_reset_node_state = do {
     node \<leftarrow> run (with_chitchat_id_and_seeds (test_config 10001) {} []);
     (node, _) \<leftarrow> run (reset_node_state node2 [(''foo'', VersionedValue_new ''bar'' 1 False 0)] 1 1337 node);
     ns \<leftarrow> node_state (cc_cluster_state node) node2;
     assert (num_key_values ns = 1);
     assert (get ns ''foo'' = Some ''bar'');
     assert (ns_max_version ns = 1);
     assert (ns_last_gc_version ns = 1337);
     node \<leftarrow> three_keys node node3;
     (node, _) \<leftarrow> run (reset_node_state node3 [(''qux'', VersionedValue_new ''baz'' 2 False 0), (''toto'', VersionedValue_new ''tutu'' 4 False 0)] 4 1337 node);
     ns \<leftarrow> node_state (cc_cluster_state node) node3;
     assert (num_key_values ns = 2);
     assert (get ns ''qux'' = Some ''baz'');
     assert (get ns ''toto'' = Some ''tutu'');
     assert (ns_max_version ns = 4);
     assert (ns_last_gc_version ns = 1337);
     node \<leftarrow> three_keys node node4;
     (node, _) \<leftarrow> run (reset_node_state node4 [(''foo'', VersionedValue_new ''bar'' 1 False 0), (''qux'', VersionedValue_new ''baz'' 2 False 0)] 2 1337 node);
     ns \<leftarrow> node_state (cc_cluster_state node) node4;
     assert (num_key_values ns = 3);
     assert (get ns ''foo'' = Some ''bar'');
     assert (get ns ''qux'' = Some ''baz'');
     assert (get ns ''toto'' = Some ''titi'');
     assert (ns_max_version ns = 3)}"

lemma instance_tests_pass:
  "test_chitchat_dead_node_liveness = Some ()"
  "test_maybe_trigger_catchup_callback = Some ()"
  "test_reset_node_state = Some ()"
  subgoal by code_simp
  subgoal by code_simp
  subgoal by code_simp
  done

section \<open>The selection of the nodes to gossip with\<close>

text \<open>
  The generator of these tests counts up from 0: the numbers between 0 and 1 that \<^verbatim>\<open>gen\<close> makes of its
  first outputs are 0. What it chooses depends on the crate \<^verbatim>\<open>rand\<close> and on the order of a hash set: the
  tests are run with every generator that draws 0 and chooses among what it is given.
\<close>

definition draws_zero :: "'s rng_ops \<Rightarrow> bool" where
  "draws_zero ops \<longleftrightarrow> (\<forall>s. fst (rng_gen ops s) = 0)"

definition test_addr :: "u16 \<Rightarrow> SocketAddr" where
  "test_addr p = gossip_advertise_addr (for_local_test p)"

definition test_select_nodes_for_gossip :: "'s rng_ops \<Rightarrow> 's \<Rightarrow> test" where
  "test_select_nodes_for_gossip ops rng = do {
     let ((ns, dead_node, seed_node), rng) = select_nodes_for_gossip ops {test_addr 10001, test_addr 10002, test_addr 10003}
       {test_addr 10001, test_addr 10002} {test_addr 10003} {test_addr 10002} rng;
     assert (length ns = 2);
     assert (dead_node = Some (test_addr 10003));
     assert (seed_node = None)}"

definition test_gossip_no_dead_node_no_seed_nodes :: "'s rng_ops \<Rightarrow> 's \<Rightarrow> test" where
  "test_gossip_no_dead_node_no_seed_nodes ops rng = do {
     let addrs = test_addr ` {10001, 10002, 10003, 10004, 10005};
     let ((ns, dead_node, seed_node), rng) = select_nodes_for_gossip ops addrs addrs {} {} rng;
     assert (length ns = 3);
     assert (dead_node = None);
     assert (seed_node = None)}"

definition test_gossip_dead_and_seed_node :: "'s rng_ops \<Rightarrow> 's \<Rightarrow> test" where
  "test_gossip_dead_and_seed_node ops rng = do {
     let addrs = map test_addr [10001, 10002, 10003, 10004, 10005];
     let seeds = set (take 2 (drop 3 addrs));
     let ((ns, dead_node, seed_node), rng) = select_nodes_for_gossip ops (set addrs) {addrs ! 0} (set (drop 1 addrs)) seeds rng;
     assert (ns = [addrs ! 0]);
     assert (dead_node \<noteq> None);
     assert (seed_node \<noteq> None)}"

lemma test_addr_eq: "test_addr p = SocketAddrV4 [127, 0, 0, 1] p"
  by (simp add: test_addr_def for_local_test_def ChitchatId_new_def)

text \<open>A generator that draws 0 chooses a dead node whenever there is one, and a seed unless one was
  chosen already or there is none.\<close>

lemma zero_drawn: "draws_zero ops \<Longrightarrow> rng_gen ops rng = (x, r) \<Longrightarrow> x = 0"
  unfolding draws_zero_def by (metis fst_conv)

lemma choose_nonempty:
  "rng_ok ops \<Longrightarrow> finite A \<Longrightarrow> A \<noteq> {} \<Longrightarrow> rng_choose ops A r = (c, r') \<Longrightarrow> \<exists>a \<in> A. c = Some a"
  using rng_choose_spec [of ops A r c r'] by (cases c) auto

lemma dead_node_drawn:
  assumes "rng_ok ops" and "draws_zero ops" and "finite dead" and "dead \<noteq> {}"
    and "select_dead_node_to_gossip_with ops dead n (card dead) rng = (d, rng')"
  shows "\<exists>a \<in> dead. d = Some a"
proof -
  obtain x r where x: "rng_gen ops rng = (x, r)" by fastforce
  have "0 < card dead" using assms(3,4) by (simp add: card_gt_0_iff)
  then have "rng_choose ops dead r = (d, rng')"
    using assms(5) x zero_drawn [OF assms(2) x] by (simp add: select_dead_node_to_gossip_with_def)
  from choose_nonempty [OF assms(1,3,4) this] show ?thesis .
qed

lemma seed_node_drawn:
  assumes "rng_ok ops" and "draws_zero ops" and "finite seeds" and "seeds \<noteq> {}"
    and "select_seed_node_to_gossip_with ops seeds nl nd rng = (d, rng')"
  shows "d \<noteq> None"
proof -
  obtain x r where x: "rng_gen ops rng = (x, r)" by fastforce
  then have "rng_choose ops seeds (if nl = 0 then rng else r) = (d, rng')"
    using assms(5) zero_drawn [OF assms(2) x] by (auto simp: select_seed_node_to_gossip_with_def)
  from choose_nonempty [OF assms(1,3,4) this] show ?thesis by blast
qed

lemma select_drawn:
  assumes "rng_ok ops" and "draws_zero ops" and "finite dead" and "finite seeds"
    and sel: "select_nodes_for_gossip ops peers live dead seeds rng = ((ns, d, sd), rng')"
  shows "dead \<noteq> {} \<Longrightarrow> \<exists>a \<in> dead. d = Some a"
    and "seeds \<noteq> {} \<Longrightarrow> set ns \<inter> seeds = {} \<Longrightarrow> sd \<noteq> None"
    and "set ns \<inter> seeds \<noteq> {} \<Longrightarrow> card seeds \<le> card live \<Longrightarrow> sd = None"
proof -
  obtain s1 s2 where d: "select_dead_node_to_gossip_with ops dead (card live) (card dead) s1 = (d, s2)"
    and sd: "(if \<not> list_ex (\<lambda>a. a \<in> seeds) ns \<or> card live < card seeds
      then select_seed_node_to_gossip_with ops seeds (card live) (card dead) s2 else (None, s2)) = (sd, rng')"
    using sel unfolding select_nodes_for_gossip_def by (auto simp: Let_def split: prod.splits)
  show "dead \<noteq> {} \<Longrightarrow> \<exists>a \<in> dead. d = Some a" using dead_node_drawn [OF assms(1-3) _ d] by blast
  show "seeds \<noteq> {} \<Longrightarrow> set ns \<inter> seeds = {} \<Longrightarrow> sd \<noteq> None"
    using seed_node_drawn [OF assms(1,2,4)] sd by (auto simp: list_ex_iff split: if_splits)
  show "set ns \<inter> seeds \<noteq> {} \<Longrightarrow> card seeds \<le> card live \<Longrightarrow> sd = None"
    using sd by (auto simp: list_ex_iff split: if_splits)
qed

lemma distinct_covers: "distinct xs \<Longrightarrow> set xs \<subseteq> A \<Longrightarrow> finite A \<Longrightarrow> length xs = card A \<Longrightarrow> set xs = A"
  by (metis card_subset_eq distinct_card)

lemma select_tests_pass:
  assumes "rng_ok ops" and "draws_zero ops"
  shows "test_select_nodes_for_gossip ops rng = Some ()"
    and "test_gossip_no_dead_node_no_seed_nodes ops rng = Some ()"
    and "test_gossip_dead_and_seed_node ops rng = Some ()"
proof -
  obtain ns d sd rng' where sel: "select_nodes_for_gossip ops {test_addr 10001, test_addr 10002, test_addr 10003}
      {test_addr 10001, test_addr 10002} {test_addr 10003} {test_addr 10002} rng = ((ns, d, sd), rng')" by (metis surj_pair)
  have "set ns = {test_addr 10001, test_addr 10002}" "length ns = 2"
    using select_nodes_spec(1) [OF assms(1) _ _ _ _ sel] distinct_covers [of ns "{test_addr 10001, test_addr 10002}"]
    by (simp_all add: test_addr_eq)
  then show "test_select_nodes_for_gossip ops rng = Some ()"
    using select_drawn(1,3) [OF assms _ _ sel]
    by (simp add: test_select_nodes_for_gossip_def sel assert_def) (simp add: test_addr_eq)
next
  let ?A = "test_addr ` {10001, 10002, 10003, 10004, 10005}"
  obtain ns d sd rng' where sel: "select_nodes_for_gossip ops ?A ?A {} {} rng = ((ns, d, sd), rng')" by (metis surj_pair)
  have "length ns = 3" "d = None" "sd = None"
    using select_nodes_spec(1,4,5) [OF assms(1) _ _ _ _ sel] by (simp_all add: test_addr_eq)
  then show "test_gossip_no_dead_node_no_seed_nodes ops rng = Some ()"
    by (simp only: test_gossip_no_dead_node_no_seed_nodes_def Let_def sel prod.case assert_def) simp
next
  let ?p = "map test_addr [10001, 10002, 10003, 10004, 10005]"
  obtain ns d sd rng' where sel: "select_nodes_for_gossip ops (set ?p) {?p ! 0} (set (drop 1 ?p)) (set (take 2 (drop 3 ?p))) rng
      = ((ns, d, sd), rng')" by (metis surj_pair)
  have "distinct ns" "set ns \<subseteq> {test_addr 10001}" "length ns = 1"
    using select_nodes_spec(1) [OF assms(1) _ _ _ _ sel] by simp_all
  then have "ns = [test_addr 10001]" by (cases ns) auto
  then show "test_gossip_dead_and_seed_node ops rng = Some ()"
    using select_drawn(1,2) [OF assms _ _ sel]
    by (simp only: test_gossip_dead_and_seed_node_def Let_def sel prod.case assert_def) (auto simp: test_addr_eq)
qed

section \<open>The tests pass\<close>

definition component_tests :: "'s rng_ops \<Rightarrow> 's \<Rightarrow> test list" where
  "component_tests ops rng =
     [test_listeners_simple, test_listeners_empty_prefix, test_listeners_forever, test_listeners_prefixes,
      test_bounded_array_stats, test_sampling_window,
      test_failure_detector_does_not_see_a_node_as_alive_with_a_single_heartbeat,
      test_failure_detector_node_state_additive_smoothing_predominant_in_the_beginning,
      test_failure_detector_node_state_additive_smoothing_effect_fades_off,
      test_chitchat_dead_node_liveness, test_maybe_trigger_catchup_callback, test_reset_node_state,
      test_select_nodes_for_gossip ops rng, test_gossip_no_dead_node_no_seed_nodes ops rng,
      test_gossip_dead_and_seed_node ops rng]"

lemma component_tests_pass:
  assumes "rng_ok ops" and "draws_zero ops"
  shows "list_all (\<lambda>t. t = Some ()) (component_tests ops rng)"
  by (simp add: component_tests_def listener_tests_pass detector_tests_pass fading_test_passes instance_tests_pass
      select_tests_pass [OF assms])

definition zero_rng :: "unit rng_ops" where
  "zero_rng = demo_rng\<lparr>rng_gen := \<lambda>s. (0, s)\<rparr>"

lemma zero_rng_ok: "rng_ok zero_rng" "draws_zero zero_rng"
  using demo_rng_ok by (simp_all add: zero_rng_def rng_ok_def draws_zero_def)

end
