(* ===== verification/Handshake_Tests.thy ===== *)
theory Handshake_Tests
  imports Instance_Tests
begin

text \<open>
  The unit tests of \<^verbatim>\<open>chitchat/src/lib.rs\<close> in which two instances exchange the messages of a handshake. What the
  messages carry is evaluated in full, with a compressor that never makes a block shorter; the effects
  of a handler are the callbacks that it calls.
\<close>

section \<open>The helpers of the tests\<close>

definition test_env :: Env where
  "test_env = \<lparr>env_zstd = zstd_never, env_shuffle = (\<lambda>_ xs. xs), env_half = (\<lambda>d. d div 2), env_now = 0\<rparr>"

definition run_chitchat_handshake :: "Chitchat \<Rightarrow> Chitchat \<Rightarrow> (Chitchat \<times> Chitchat \<times> effect list) option" where
  "run_chitchat_handshake initiating_node peer_node = do {
     let syn_message = create_syn_message test_env initiating_node;
     (peer_node, reply, fx1) \<leftarrow> run (process_message test_env syn_message peer_node);
     syn_ack_message \<leftarrow> reply;
     (initiating_node, reply, fx2) \<leftarrow> run (process_message test_env syn_ack_message initiating_node);
     ack_message \<leftarrow> reply;
     (peer_node, reply, fx3) \<leftarrow> run (process_message test_env ack_message peer_node);
     assert (reply = None);
     Some (initiating_node, peer_node, fx1 @ fx2 @ fx3)}"

definition assert_cluster_state_eq :: "NodeState \<Rightarrow> NodeState \<Rightarrow> test" where
  "assert_cluster_state_eq lhs rhs = do {
     assert (num_key_values lhs = num_key_values rhs);
     assert (list_all (\<lambda>(key, val). get rhs key = Some val) (key_values lhs))}"

fun assert_states_eq :: "(ChitchatId, NodeState) btree_map \<Rightarrow> (ChitchatId, NodeState) btree_map \<Rightarrow> test" where
  "assert_states_eq [] node_states = Some ()"
| "assert_states_eq ((key, ns) # first_node_states) node_states = do {
     other \<leftarrow> btm_get node_states key;
     assert_cluster_state_eq ns other;
     assert_states_eq first_node_states node_states}"

definition assert_nodes_sync :: "Chitchat \<Rightarrow> Chitchat \<Rightarrow> test" where
  "assert_nodes_sync first_node other_node = do {
     let first_node_states = cs_node_states (cc_cluster_state first_node);
     let node_states = cs_node_states (cc_cluster_state other_node);
     assert (length first_node_states = length node_states);
     assert_states_eq first_node_states node_states}"

section \<open>The tests\<close>

definition test_chitchat_handshake :: test where
  "test_chitchat_handshake = do {
     n1 \<leftarrow> run (with_chitchat_id_and_seeds (test_config 10001) {} [(''key1a'', ''1''), (''key2a'', ''2'')]);
     n2 \<leftarrow> run (with_chitchat_id_and_seeds (test_config 10002) {} [(''key1b'', ''1''), (''key2b'', ''2'')]);
     (n1, n2, _) \<leftarrow> run_chitchat_handshake n1 n2;
     assert_nodes_sync n1 n2;
     (n1, n2, _) \<leftarrow> run_chitchat_handshake n1 n2;
     assert_nodes_sync n1 n2;
     (n1, _) \<leftarrow> run (self_set ''key1a'' ''3'' n1);
     (n1, _) \<leftarrow> run (self_set ''key1c'' ''4'' n1);
     (n1, n2, _) \<leftarrow> run_chitchat_handshake n1 n2;
     assert_nodes_sync n1 n2}"

text \<open>The callbacks 0, 1 and 2 are those of \<^verbatim>\<open>self1:\<close>, \<^verbatim>\<open>other:\<close> and \<^verbatim>\<open>self2:\<close>; 0 and 2 share a counter. Each
  asserts the key and the value it is called with.\<close>

fun assert_call :: "effect \<Rightarrow> bool" where
  "assert_call (CallListener cb evt) \<longleftrightarrow> (kce_key evt, kce_value evt) =
     (if cb = 0 then (''suffix1'', ''updated'') else if cb = 1 then (''suffix'', ''hello'') else (''suffix2'', ''hello2''))"
| "assert_call CallCatchup \<longleftrightarrow> True"

fun counts :: "nat set \<Rightarrow> effect \<Rightarrow> bool" where
  "counts cbs (CallListener cb _) \<longleftrightarrow> cb \<in> cbs"
| "counts cbs CallCatchup \<longleftrightarrow> False"

definition counters :: "effect list \<Rightarrow> (nat \<times> nat) option" where
  "counters fx = (if list_all assert_call fx
     then Some (length (filter (counts {0, 2}) fx), length (filter (counts {1}) fx)) else None)"

definition subscribe_forever :: "string \<Rightarrow> nat \<Rightarrow> Chitchat \<Rightarrow> Chitchat" where
  "subscribe_forever p cb node = fst (cc_subscribe_event p cb node)"

definition test_chitchat_listener :: test where
  "test_chitchat_listener = do {
     n1 \<leftarrow> run (with_chitchat_id_and_seeds (test_config 10001) {} [(''self1:suffix1'', ''hello1'')]);
     let n1 = subscribe_forever ''self1:'' 0 n1;
     let n1 = subscribe_forever ''other:'' 1 n1;
     let n1 = subscribe_forever ''self2:'' 2 n1;
     n2 \<leftarrow> run (with_chitchat_id_and_seeds (test_config 10002) {} [(''other:suffix'', ''hello'')]);
     (n1, n2, fx) \<leftarrow> run_chitchat_handshake n1 n2;
     assert_nodes_sync n1 n2;
     assert (counters fx = Some (0, 1));
     (n1, n2, fx') \<leftarrow> run_chitchat_handshake n1 n2;
     let fx = fx @ fx';
     assert (counters fx = Some (0, 1));
     (n1, fx') \<leftarrow> run (self_set ''self2:suffix2'' ''hello2'' n1);
     let fx = fx @ fx';
     assert (counters fx = Some (1, 1));
     (n1, n2, fx') \<leftarrow> run_chitchat_handshake n1 n2;
     let fx = fx @ fx';
     assert (counters fx = Some (1, 1));
     (n1, fx') \<leftarrow> run (self_set ''self1:suffix1'' ''updated'' n1);
     let fx = fx @ fx';
     assert (counters fx = Some (2, 1));
     let n1 = self_delete ''self1:suffix1'' 0 n1;
     let n2 = self_delete ''other:suffix'' 0 n2;
     (n1, n2, fx') \<leftarrow> run_chitchat_handshake n1 n2;
     assert (counters (fx @ fx') = Some (2, 1))}"

section \<open>The tests pass\<close>

lemma handshake_test_passes: "test_chitchat_handshake = Some ()"
  by code_simp

lemma listener_test_passes: "test_chitchat_listener = Some ()"
  by code_simp

definition handshake_tests :: "test list" where
  "handshake_tests = [test_chitchat_handshake, test_chitchat_listener]"

lemma handshake_tests_pass: "list_all (\<lambda>t. t = Some ()) handshake_tests"
  by (simp add: handshake_tests_def handshake_test_passes listener_test_passes)

end
