(* ===== verification/Interleaving.thy ===== *)
theory Interleaving
  imports Cluster
begin

text \<open>
  Ticks that are not atomic. The code releases the lock on the instance between the parts of a gossip tick,
  so that the application, the resolver and the other servers act in the middle of one. Here a server has a
  program counter, and the steps are the sections of code between two releases of the lock. Such a
  cluster refines the one of \<open>Cluster\<close>.
\<close>

section \<open>Servers in the middle of a tick\<close>

text \<open>\<open>None\<close>: the server waits in \<^verbatim>\<open>select!\<close>. \<open>Some nodes\<close>: it is inside \<^verbatim>\<open>gossip_multiple\<close> and still has to
  gossip with these nodes.\<close>

record 's fine_cluster =
  fc_cluster :: "'s cluster"
  fc_pending :: "ChitchatId \<Rightarrow> SocketAddr list option"

definition fine_init :: "'s fine_cluster \<Rightarrow> bool" where
  "fine_init f \<longleftrightarrow> cluster_init (fc_cluster f) \<and> fc_pending f = (\<lambda>_. None)"

definition put_datagrams :: "zstd \<Rightarrow> sends \<Rightarrow> 's cluster \<Rightarrow> 's cluster" where
  "put_datagrams zc sent s = s\<lparr>cl_net := cl_net s \<union> payloads zc sent\<rparr>"

text \<open>What is neither a turn nor part of a tick (joining, writing, subscribing, new seeds) may happen at any
  time; a server takes its turns while it waits.\<close>

inductive fine_step ::
    "ChitchatId set \<Rightarrow> zstd \<Rightarrow> 's rng_ops \<Rightarrow> ('s cluster \<Rightarrow> ChitchatId \<Rightarrow> event \<Rightarrow> bool) \<Rightarrow> 's fine_cluster \<Rightarrow> 's fine_cluster \<Rightarrow> bool"
  for P zd ops allowed where
  meanwhile: "cluster_step P zd ops (\<lambda>_ _ _. False) (fc_cluster f) s' \<Longrightarrow> fine_step P zd ops allowed f (f\<lparr>fc_cluster := s'\<rparr>)"
| fine_turn: "fc_pending f i = None \<Longrightarrow> e \<noteq> GossipTick \<Longrightarrow> cl_servers (fc_cluster f) i = Some srv \<Longrightarrow> rng_ok ops \<Longrightarrow> env_ok env \<Longrightarrow>
    zstd_inverse (env_zstd env) zd \<Longrightarrow> may_happen zd (fc_cluster f) e \<Longrightarrow> allowed (fc_cluster f) i e \<Longrightarrow>
    server_turn ops env e srv = Inr (r, srv', sent, fx) \<Longrightarrow>
    fine_step P zd ops allowed f (f\<lparr>fc_cluster := put_datagrams (env_zstd env) sent (put_server i srv' (fc_cluster f))\<rparr>)"
| fine_start: "fc_pending f i = None \<Longrightarrow> cl_servers (fc_cluster f) i = Some srv \<Longrightarrow> allowed (fc_cluster f) i GossipTick \<Longrightarrow>
    gossip_multiple_start ops env srv = (srv', addrs) \<Longrightarrow>
    fine_step P zd ops allowed f (f\<lparr>fc_cluster := put_server i srv' (fc_cluster f), fc_pending := (fc_pending f)(i \<mapsto> addrs)\<rparr>)"
| fine_gossip: "fc_pending f i = Some (a # addrs) \<Longrightarrow> cl_servers (fc_cluster f) i = Some srv \<Longrightarrow> rng_ok ops \<Longrightarrow> env_ok env \<Longrightarrow>
    zstd_inverse (env_zstd env) zd \<Longrightarrow> allowed (fc_cluster f) i (CommandReceived (Some (CommandGossip a))) \<Longrightarrow>
    fine_step P zd ops allowed f (f\<lparr>fc_cluster := put_datagrams (env_zstd env) (gossip env a srv) (fc_cluster f),
      fc_pending := (fc_pending f)(i \<mapsto> addrs)\<rparr>)"
| fine_end: "fc_pending f i = Some [] \<Longrightarrow> cl_servers (fc_cluster f) i = Some srv \<Longrightarrow> allowed (fc_cluster f) i GossipTick \<Longrightarrow>
    fine_step P zd ops allowed f (f\<lparr>fc_cluster := put_server i (gossip_multiple_end env srv) (fc_cluster f),
      fc_pending := (fc_pending f)(i := None)\<rparr>)"

section \<open>Refinement\<close>

lemma cluster_step_allowed: "cluster_step P zd ops (\<lambda>_ _ _. False) s s' \<Longrightarrow> cluster_step P zd ops allowed s s'"
  by (erule cluster_step.cases; simp; blast intro: cluster_step.intros)

lemma put_server_same: "cl_servers s i = Some srv \<Longrightarrow> put_server i srv s = s"
  by (simp add: put_server_def fun_upd_idem)

lemma fine_step_coarse:
  assumes "fine_step P zd ops allowed f f'"
  shows "cluster_step P zd ops allowed (fc_cluster f) (fc_cluster f')"
  using assms
proof cases
  case (meanwhile s')
  from cluster_step_allowed [OF meanwhile(2)] meanwhile(1) show ?thesis by simp
next
  case (fine_turn i e srv env r srv' sent fx)
  from cluster_step.takes_turn [where allowed = allowed, OF fine_turn(4-10)] fine_turn(1) show ?thesis by (simp add: put_datagrams_def put_server_net)
next
  case (fine_start i srv env srv' addrs)
  from cluster_step.tick_starts [where allowed = allowed, OF fine_start(3-5)] fine_start(1) show ?thesis by simp
next
  case (fine_gossip i a addrs srv env)
  let ?e = "CommandReceived (Some (CommandGossip a))"
  have "server_turn ops env ?e srv = Inr (StillRunning, srv, gossip env a srv, [])" "may_happen zd (fc_cluster f) ?e" by simp_all
  from cluster_step.takes_turn [where allowed = allowed, OF fine_gossip(3-6) this(2) fine_gossip(7) this(1)] fine_gossip(1)
  show ?thesis by (simp add: put_datagrams_def put_server_same [OF fine_gossip(3)])
next
  case (fine_end i srv env)
  from cluster_step.tick_ends [where allowed = allowed, OF fine_end(3,4)] fine_end(1) show ?thesis by simp
qed

interpretation fine: refinement_map fine_init "fine_step P zd ops allowed" "\<lambda>f. cluster_inv P zd (fc_cluster f)"
    cluster_init "cluster_step P zd ops allowed" fc_cluster
  for P zd ops allowed
proof
  show "fine_init f \<Longrightarrow> cluster_inv P zd (fc_cluster f)" for f by (auto simp: fine_init_def intro: any_cluster.initially)
  show "cluster_inv P zd (fc_cluster f) \<Longrightarrow> fine_step P zd ops allowed f f' \<Longrightarrow> cluster_inv P zd (fc_cluster f')" for f f'
    by (blast intro: cluster_inv_step fine_step_coarse)
  show "fine_step P zd ops allowed f f' \<Longrightarrow> (cluster_step P zd ops allowed)\<^sup>*\<^sup>* (fc_cluster f) (fc_cluster f')" for f f'
    by (blast intro: fine_step_coarse)
qed (simp add: fine_init_def)

lemma put_datagrams_append: "put_datagrams zc xs (put_datagrams zc ys s) = put_datagrams zc (ys @ xs) s"
proof -
  have "payloads zc (ys @ xs) = payloads zc ys \<union> payloads zc xs" by (auto simp: payloads_def)
  then show ?thesis by (simp add: put_datagrams_def Un_assoc)
qed

text \<open>The atomic tick is the tick in the middle of which nothing else happens.\<close>

lemma gossips_uninterrupted:
  assumes "fc_pending f i = Some addrs" and "cl_servers (fc_cluster f) i = Some srv" and "rng_ok ops" and "env_ok env" and "zstd_inverse (env_zstd env) zd"
    and "\<And>s e. allowed s i e"
  shows "(fine_step P zd ops allowed)\<^sup>*\<^sup>* f (f\<lparr>fc_cluster := put_datagrams (env_zstd env) (concat (map (\<lambda>a. gossip env a srv) addrs)) (fc_cluster f),
    fc_pending := (fc_pending f)(i \<mapsto> [])\<rparr>)"
  using assms(1,2)
proof (induction addrs arbitrary: f)
  case Nil
  then have "f\<lparr>fc_cluster := put_datagrams (env_zstd env) [] (fc_cluster f), fc_pending := (fc_pending f)(i \<mapsto> [])\<rparr> = f"
    by (cases f; cases "fc_cluster f") (simp add: put_datagrams_def payloads_def fun_upd_idem)
  then show ?case by (simp only: list.map concat.simps)
next
  case (Cons a addrs)
  let ?f = "f\<lparr>fc_cluster := put_datagrams (env_zstd env) (gossip env a srv) (fc_cluster f), fc_pending := (fc_pending f)(i \<mapsto> addrs)\<rparr>"
  have "fine_step P zd ops allowed f ?f"
    by (rule fine_step.fine_gossip [where allowed = allowed, OF Cons.prems assms(3-6)])
  moreover have "(fine_step P zd ops allowed)\<^sup>*\<^sup>* ?f (?f\<lparr>fc_cluster := put_datagrams (env_zstd env) (concat (map (\<lambda>a. gossip env a srv) addrs)) (fc_cluster ?f),
      fc_pending := (fc_pending ?f)(i \<mapsto> [])\<rparr>)"
    using Cons.prems by (intro Cons.IH) (simp_all add: put_datagrams_def)
  then have "(fine_step P zd ops allowed)\<^sup>*\<^sup>* ?f (f\<lparr>fc_cluster := put_datagrams (env_zstd env) (concat (map (\<lambda>a. gossip env a srv) (a # addrs))) (fc_cluster f),
      fc_pending := (fc_pending f)(i \<mapsto> [])\<rparr>)"
    by (simp add: put_datagrams_append)
  ultimately show ?case by (rule converse_rtranclp_into_rtranclp)
qed

lemma tick_uninterrupted:
  assumes "fc_pending f i = None" and "cl_servers (fc_cluster f) i = Some srv" and "rng_ok ops" and "env_ok env" and "zstd_inverse (env_zstd env) zd"
    and "\<And>s e. allowed s i e" and "gossip_multiple ops env srv = (srv', sent)"
  shows "(fine_step P zd ops allowed)\<^sup>*\<^sup>* f (f\<lparr>fc_cluster := put_datagrams (env_zstd env) sent (put_server i srv' (fc_cluster f))\<rparr>)"
proof -
  obtain srv1 addrs where start: "gossip_multiple_start ops env srv = (srv1, addrs)" by fastforce
  then have g: "srv' = gossip_multiple_end env srv1" "sent = concat (map (\<lambda>a. gossip env a srv1) addrs)"
    using assms(7) by (simp_all add: gossip_multiple_def)
  let ?f1 = "f\<lparr>fc_cluster := put_server i srv1 (fc_cluster f), fc_pending := (fc_pending f)(i \<mapsto> addrs)\<rparr>"
  let ?f2 = "?f1\<lparr>fc_cluster := put_datagrams (env_zstd env) sent (fc_cluster ?f1), fc_pending := (fc_pending ?f1)(i \<mapsto> [])\<rparr>"
  have here: "cl_servers (put_server i x s) i = Some x" "cl_servers (put_datagrams zc xs s) = cl_servers s" for x zc xs and s :: "'a cluster"
    by (simp_all add: put_server_def put_datagrams_def)
  have "fine_step P zd ops allowed f ?f1" by (rule fine_step.fine_start [where allowed = allowed, OF assms(1,2,6) start])
  moreover have "(fine_step P zd ops allowed)\<^sup>*\<^sup>* ?f1 ?f2"
    using gossips_uninterrupted [of ?f1 i addrs srv1 ops env zd allowed P] assms(3-6) by (simp add: g(2) here)
  moreover have "fine_step P zd ops allowed ?f2 (?f2\<lparr>fc_cluster := put_server i srv' (fc_cluster ?f2), fc_pending := (fc_pending ?f2)(i := None)\<rparr>)"
    using fine_step.fine_end [of ?f2 i srv1 allowed P zd ops env] assms(6) by (simp add: g(1) here)
  moreover have "?f2\<lparr>fc_cluster := put_server i srv' (fc_cluster ?f2), fc_pending := (fc_pending ?f2)(i := None)\<rparr>
      = f\<lparr>fc_cluster := put_datagrams (env_zstd env) sent (put_server i srv' (fc_cluster f))\<rparr>"
    using assms(1) by (cases f; cases "fc_cluster f") (simp add: put_server_def put_datagrams_def fun_upd_idem)
  ultimately show ?thesis by (metis (no_types, lifting) converse_rtranclp_into_rtranclp rtranclp.rtrancl_into_rtrancl)
qed


section \<open>Properties\<close>


text \<open>A server in the middle of its first tick.\<close>

definition demo_ticking :: "unit fine_cluster" where
  "demo_ticking = (let (srv, addrs) = gossip_multiple_start demo_rng demo_env \<lparr>srv_chitchat = demo_chitchat, srv_rng = ()\<rparr> in
     \<lparr>fc_cluster = put_server demo_node_id srv demo_joined, fc_pending = (\<lambda>_. None)(demo_node_id \<mapsto> addrs)\<rparr>)"

lemma demo_ticking_reachable:
  "reachable fine_init (fine_step {demo_node_id} zstd_never demo_rng delivery_safe) demo_ticking"
proof -
  let ?s = "\<lparr>cl_servers = \<lambda>_. None, cl_logs = \<lambda>_. [], cl_net = {}\<rparr> :: unit cluster" and ?srv = "\<lparr>srv_chitchat = demo_chitchat, srv_rng = ()\<rparr>"
  let ?f = "\<lparr>fc_cluster = ?s, fc_pending = \<lambda>_. None\<rparr>" and ?allowed = "delivery_safe :: unit cluster \<Rightarrow> ChitchatId \<Rightarrow> event \<Rightarrow> bool"
  have config: "config_ok demo_config []" "wire_string (cfg_cluster_id demo_config)"
    using demo_config_window demo_chitchat_id(3) by (simp_all add: config_ok_def) (simp add: demo_config_def wire_string_ascii)
  have "cluster_step {demo_node_id} zstd_never demo_rng (\<lambda>_ _ _. False) ?s demo_joined"
    using cluster_step.joins [OF demo_participants_ok, of demo_node_id ?s demo_config "[]" "{}" demo_chitchat zstd_never demo_rng "\<lambda>_ _ _. False" "()"]
      config demo_chitchat_created by (simp add: demo_joined_def)
  then have 1: "fine_step {demo_node_id} zstd_never demo_rng ?allowed ?f \<lparr>fc_cluster = demo_joined, fc_pending = \<lambda>_. None\<rparr>"
    using fine_step.meanwhile [of "{demo_node_id}" zstd_never demo_rng ?f demo_joined ?allowed] by simp
  obtain srv addrs where start: "gossip_multiple_start demo_rng demo_env ?srv = (srv, addrs)" by fastforce
  then have "demo_ticking = \<lparr>fc_cluster = put_server demo_node_id srv demo_joined, fc_pending = (\<lambda>_. None)(demo_node_id \<mapsto> addrs)\<rparr>"
    by (simp add: demo_ticking_def)
  then have 2: "fine_step {demo_node_id} zstd_never demo_rng ?allowed \<lparr>fc_cluster = demo_joined, fc_pending = \<lambda>_. None\<rparr> demo_ticking"
    using fine_step.fine_start [of "\<lparr>fc_cluster = demo_joined, fc_pending = \<lambda>_. None\<rparr>" demo_node_id ?srv ?allowed demo_rng demo_env srv addrs] start by simp
  have "fine_init ?f" by (simp add: fine_init_def cluster_init_def)
  with 1 2 show ?thesis by (blast intro: reachable.intros)
qed


end
