(* ===== verification/Sockets.thy ===== *)
theory Sockets
  imports Transport
begin

text \<open>
  The traits of \<^verbatim>\<open>chitchat/src/transport/mod.rs\<close> and everything that implements them: the sockets of the
  in-memory transport (\<^verbatim>\<open>channel.rs\<close>) and the transports of \<^verbatim>\<open>utils.rs\<close> that drop and delay the messages of any
  transport below them. A transport is a record of operations on the state of the transport with all of its
  sockets; a socket is known by the address it is bound to. What every transport promises, that nothing
  is received that was not sent, nor more often, is the locale \<open>lossy_transport\<close>, which the transports of
  \<^verbatim>\<open>utils.rs\<close> keep (\<open>sublocale\<close>) and the in-memory one provides.
\<close>

section \<open>The traits\<close>

text \<open>Receiving without a message waits (\<^term>\<open>None\<close>); \<open>t_close\<close> drops the socket.\<close>

record 'n transport_ops =
  t_open :: "SocketAddr \<Rightarrow> 'n \<Rightarrow> transport_error + 'n"
  t_send :: "SocketAddr \<Rightarrow> SocketAddr \<Rightarrow> ChitchatMessage \<Rightarrow> 'n \<Rightarrow> panic + ((transport_error + unit) \<times> 'n)"
  t_recv :: "SocketAddr \<Rightarrow> 'n \<Rightarrow> transport_error + (envelope option \<times> 'n)"
  t_close :: "SocketAddr \<Rightarrow> 'n \<Rightarrow> 'n"

definition channel_ops :: "zstd \<Rightarrow> zstd \<Rightarrow> ChannelTransport transport_ops" where
  "channel_ops zc zd = \<lparr>t_open = channel_open, t_send = channel_send zc zd, t_recv = channel_recv, t_close = channel_close\<rparr>"

section \<open>Dropping messages\<close>

text \<open>Every socket has a generator of its own, seeded when it is opened: \<open>fresh\<close> gives the seeds, in the
  order of the openings, and \<open>sample\<close> draws.\<close>

record ('n, 's) TransportWithMessageDrop =
  md_transport :: 'n
  md_rngs :: "SocketAddr \<Rightarrow> 's"
  md_opened :: nat

definition drop_open :: "(nat \<Rightarrow> 's) \<Rightarrow> 'n transport_ops \<Rightarrow> SocketAddr \<Rightarrow> ('n, 's) TransportWithMessageDrop
     \<Rightarrow> transport_error + ('n, 's) TransportWithMessageDrop" where
  "drop_open fresh ops a d =
     (let rng = fresh (md_opened d)
      in result_bind (t_open ops a (md_transport d)) (\<lambda>n.
           Inr (d\<lparr>md_transport := n, md_rngs := (md_rngs d)(a := rng), md_opened := md_opened d + 1\<rparr>)))"

definition drop_send :: "('s \<Rightarrow> bool \<times> 's) \<Rightarrow> 'n transport_ops \<Rightarrow> SocketAddr \<Rightarrow> SocketAddr \<Rightarrow> ChitchatMessage
     \<Rightarrow> ('n, 's) TransportWithMessageDrop \<Rightarrow> panic + ((transport_error + unit) \<times> ('n, 's) TransportWithMessageDrop)" where
  "drop_send sample ops a b m d =
     (let (should_drop, rng) = sample (md_rngs d a);
          d = d\<lparr>md_rngs := (md_rngs d)(a := rng)\<rparr>
      in if should_drop then Inr (Inr (), d)
         else result_bind (t_send ops a b m (md_transport d)) (\<lambda>(r, n). Inr (r, d\<lparr>md_transport := n\<rparr>)))"

definition drop_recv :: "'n transport_ops \<Rightarrow> SocketAddr \<Rightarrow> ('n, 's) TransportWithMessageDrop
     \<Rightarrow> transport_error + (envelope option \<times> ('n, 's) TransportWithMessageDrop)" where
  "drop_recv ops a d = result_bind (t_recv ops a (md_transport d)) (\<lambda>(e, n). Inr (e, d\<lparr>md_transport := n\<rparr>))"

definition dropping_ops :: "('s \<Rightarrow> bool \<times> 's) \<Rightarrow> (nat \<Rightarrow> 's) \<Rightarrow> 'n transport_ops
     \<Rightarrow> ('n, 's) TransportWithMessageDrop transport_ops" where
  "dropping_ops sample fresh ops = \<lparr>t_open = drop_open fresh ops, t_send = drop_send sample ops, t_recv = drop_recv ops,
     t_close = (\<lambda>a d. d\<lparr>md_transport := t_close ops a (md_transport d)\<rparr>)\<rparr>"

text \<open>\<^verbatim>\<open>Bernoulli::new\<close> refuses what is no probability.\<close>

definition drop_message :: "(real \<Rightarrow> 's \<Rightarrow> bool \<times> 's) \<Rightarrow> (nat \<Rightarrow> 's) \<Rightarrow> real \<Rightarrow> 'n transport_ops
     \<Rightarrow> panic + ('n, 's) TransportWithMessageDrop transport_ops" where
  "drop_message bernoulli fresh drop_probability ops =
     (if 0 \<le> drop_probability \<and> drop_probability \<le> 1
      then Inr (dropping_ops (bernoulli drop_probability) fresh ops) else Inl UnwrapBernoulli)"

section \<open>Delaying messages\<close>

text \<open>
  A send spawns a task that sleeps (\<^const>\<open>send_with_delay\<close>) and then sends over the socket below, whatever
  that returns (\<^const>\<open>wake_sender\<close>). The task shares the socket below with the socket that spawned it, behind
  a lock: a socket that is dropped while its tasks sleep goes with the last of them, and a receiver
  that waits holds the lock, so that no task can send until it is done or cancelled.
\<close>

record ('n, 's) TransportWithDelay =
  dl_socket :: "'n SocketWithDelay"
  dl_rngs :: "SocketAddr \<Rightarrow> 's"
  dl_opened :: nat
  dl_closing :: "SocketAddr set"
  dl_locked :: "SocketAddr set"

definition after_send :: "'n transport_ops \<Rightarrow> SocketAddr \<Rightarrow> SocketAddr \<Rightarrow> ChitchatMessage \<Rightarrow> 'n \<Rightarrow> 'n" where
  "after_send ops a b m n = (case t_send ops a b m n of Inl _ \<Rightarrow> n | Inr (_, n') \<Rightarrow> n')"

definition delay_open :: "(nat \<Rightarrow> 's) \<Rightarrow> 'n transport_ops \<Rightarrow> SocketAddr \<Rightarrow> ('n, 's) TransportWithDelay
     \<Rightarrow> transport_error + ('n, 's) TransportWithDelay" where
  "delay_open fresh ops a d =
     (let rng = fresh (dl_opened d)
      in result_bind (t_open ops a (sd_socket (dl_socket d))) (\<lambda>n.
           Inr (d\<lparr>dl_socket := (dl_socket d)\<lparr>sd_socket := n\<rparr>, dl_rngs := (dl_rngs d)(a := rng), dl_opened := dl_opened d + 1\<rparr>)))"

definition delay_send :: "('s \<Rightarrow> real \<times> 's) \<Rightarrow> SocketAddr \<Rightarrow> SocketAddr \<Rightarrow> ChitchatMessage
     \<Rightarrow> ('n, 's) TransportWithDelay \<Rightarrow> panic + ((transport_error + unit) \<times> ('n, 's) TransportWithDelay)" where
  "delay_send sample a b m d =
     (let (delay_secs, rng) = sample (dl_rngs d a);
          d = d\<lparr>dl_rngs := (dl_rngs d)(a := rng)\<rparr>
      in result_bind (send_with_delay delay_secs (a, b, m) (dl_socket d)) (\<lambda>s. Inr (Inr (), d\<lparr>dl_socket := s\<rparr>)))"

definition delay_recv :: "'n transport_ops \<Rightarrow> SocketAddr \<Rightarrow> ('n, 's) TransportWithDelay
     \<Rightarrow> transport_error + (envelope option \<times> ('n, 's) TransportWithDelay)" where
  "delay_recv ops a d = result_bind (t_recv ops a (sd_socket (dl_socket d))) (\<lambda>(e, n).
     Inr (e, d\<lparr>dl_socket := (dl_socket d)\<lparr>sd_socket := n\<rparr>,
       dl_locked := (case e of None \<Rightarrow> insert a (dl_locked d) | Some _ \<Rightarrow> dl_locked d - {a})\<rparr>))"

definition delay_close :: "'n transport_ops \<Rightarrow> SocketAddr \<Rightarrow> ('n, 's) TransportWithDelay \<Rightarrow> ('n, 's) TransportWithDelay" where
  "delay_close ops a d =
     (let s = dl_socket d; d = d\<lparr>dl_locked := dl_locked d - {a}\<rparr>
      in if a \<in> fst ` set (sd_sleeping s) then d\<lparr>dl_closing := insert a (dl_closing d)\<rparr>
         else d\<lparr>dl_socket := s\<lparr>sd_socket := t_close ops a (sd_socket s)\<rparr>\<rparr>)"

definition delay_cancel :: "SocketAddr \<Rightarrow> ('n, 's) TransportWithDelay \<Rightarrow> ('n, 's) TransportWithDelay" where
  "delay_cancel a d = d\<lparr>dl_locked := dl_locked d - {a}\<rparr>"

definition delay_wake :: "'n transport_ops \<Rightarrow> nat \<Rightarrow> ('n, 's) TransportWithDelay \<Rightarrow> ('n, 's) TransportWithDelay" where
  "delay_wake ops i d =
     (let s = dl_socket d in
      if i < length (sd_sleeping s) \<and> fst (sd_sleeping s ! i) \<notin> dl_locked d then
        let a = fst (sd_sleeping s ! i);
            s = wake_sender (after_send ops) i s
        in if a \<in> dl_closing d \<and> a \<notin> fst ` set (sd_sleeping s)
           then d\<lparr>dl_socket := s\<lparr>sd_socket := t_close ops a (sd_socket s)\<rparr>, dl_closing := dl_closing d - {a}\<rparr>
           else d\<lparr>dl_socket := s\<rparr>
      else d)"

definition transport_delay :: "('s \<Rightarrow> real \<times> 's) \<Rightarrow> (nat \<Rightarrow> 's) \<Rightarrow> 'n transport_ops \<Rightarrow> ('n, 's) TransportWithDelay transport_ops" where
  "transport_delay sample fresh ops = \<lparr>t_open = delay_open fresh ops, t_send = delay_send sample, t_recv = delay_recv ops,
     t_close = delay_close ops\<rparr>"

section \<open>What a transport promises\<close>

text \<open>
  A run of a transport and its sockets: sockets are opened and dropped, send and receive, and in between the
  transport does what it does on its own (\<open>Internal\<close>: a task wakes up, a link is cut). An operation that
  returns an error leaves the transport as it was. The run collects what was received, and where.
\<close>

datatype 'i net_event =
  Opens SocketAddr | Closes SocketAddr | Sends SocketAddr SocketAddr ChitchatMessage | Receives SocketAddr | Internal 'i

fun net_step :: "'n transport_ops \<Rightarrow> ('i \<Rightarrow> 'n \<Rightarrow> 'n) \<Rightarrow> 'i net_event \<Rightarrow> 'n \<Rightarrow> panic + ('n \<times> (SocketAddr \<times> envelope) list)" where
  "net_step ops internal (Opens a) n = Inr (case t_open ops a n of Inl _ \<Rightarrow> n | Inr n' \<Rightarrow> n', [])"
| "net_step ops internal (Closes a) n = Inr (t_close ops a n, [])"
| "net_step ops internal (Sends a b m) n = result_bind (t_send ops a b m n) (\<lambda>(_, n'). Inr (n', []))"
| "net_step ops internal (Receives a) n = Inr (case t_recv ops a n of
     Inl _ \<Rightarrow> (n, []) | Inr (None, n') \<Rightarrow> (n', []) | Inr (Some e, n') \<Rightarrow> (n', [(a, e)]))"
| "net_step ops internal (Internal i) n = Inr (internal i n, [])"

fun net_run :: "'n transport_ops \<Rightarrow> ('i \<Rightarrow> 'n \<Rightarrow> 'n) \<Rightarrow> 'i net_event list \<Rightarrow> 'n \<Rightarrow> panic + ('n \<times> (SocketAddr \<times> envelope) list)" where
  "net_run ops internal [] n = Inr (n, [])"
| "net_run ops internal (ev # evs) n = result_bind (net_step ops internal ev n) (\<lambda>(n', got).
     result_bind (net_run ops internal evs n') (\<lambda>(n'', later). Inr (n'', got @ later)))"

fun sent_in :: "'i net_event list \<Rightarrow> posted list" where
  "sent_in [] = []"
| "sent_in (Sends a b m # evs) = (a, b, m) # sent_in evs"
| "sent_in (_ # evs) = sent_in evs"

definition received_by :: "SocketAddr \<Rightarrow> (SocketAddr \<times> envelope) list \<Rightarrow> envelope multiset" where
  "received_by b got = mset (map snd (filter (\<lambda>(a, _). a = b) got))"

lemma received_by_simps [simp]:
  "received_by b [] = {#}"
  "received_by b (got @ later) = received_by b got + received_by b later"
  "received_by b [(a, e)] = (if a = b then {#e#} else {#})"
  by (simp_all add: received_by_def)

text \<open>
  \<open>pending n b\<close> are the envelopes a transport still holds for an address. Only a send adds to them, at most
  the envelope it was given, and what a socket receives is taken from them.
\<close>

locale lossy_transport =
  fixes ops :: "'n transport_ops"
    and internal :: "'i \<Rightarrow> 'n \<Rightarrow> 'n"
    and pending :: "'n \<Rightarrow> SocketAddr \<Rightarrow> envelope multiset"
    and wf :: "'n \<Rightarrow> bool"
  assumes open_lossy: "wf n \<Longrightarrow> t_open ops a n = Inr n' \<Longrightarrow> wf n' \<and> pending n' b \<subseteq># pending n b"
    and send_lossy: "wf n \<Longrightarrow> t_send ops a c m n = Inr (r, n')
      \<Longrightarrow> wf n' \<and> pending n' b \<subseteq># pending n b + mset (addressed_to b [(a, c, m)])"
    and recv_none: "wf n \<Longrightarrow> t_recv ops a n = Inr (None, n') \<Longrightarrow> wf n' \<and> pending n' b \<subseteq># pending n b"
    and recv_some: "wf n \<Longrightarrow> t_recv ops a n = Inr (Some e, n')
      \<Longrightarrow> wf n' \<and> received_by b [(a, e)] + pending n' b \<subseteq># pending n b"
    and close_lossy: "wf n \<Longrightarrow> wf (t_close ops a n) \<and> pending (t_close ops a n) b \<subseteq># pending n b"
    and internal_lossy: "wf n \<Longrightarrow> wf (internal i n) \<and> pending (internal i n) b \<subseteq># pending n b"
begin

lemma step_sound:
  assumes "wf n" and "net_step ops internal ev n = Inr (n', got)"
  shows "wf n' \<and> received_by b got + pending n' b \<subseteq># pending n b + mset (addressed_to b (sent_in [ev]))"
proof (cases ev)
  case (Opens a)
  with assms open_lossy [OF assms(1), of a _ b] show ?thesis by (auto split: sum.splits)
next
  case (Sends a c m)
  with assms(2) obtain r where "t_send ops a c m n = Inr (r, n')" "got = []"
    by auto
  with Sends send_lossy [OF assms(1), of a c m r n' b] show ?thesis by simp
next
  case (Receives a)
  consider e where "t_recv ops a n = Inl e" | n1 where "t_recv ops a n = Inr (None, n1)"
    | e n1 where "t_recv ops a n = Inr (Some e, n1)"
    by (metis option.exhaust surj_pair old.sum.exhaust)
  then show ?thesis
    using assms Receives recv_none [OF assms(1), of a n' b] recv_some [OF assms(1), of a _ n' b] by cases auto
qed (use assms close_lossy [OF assms(1), of _ b] internal_lossy [OF assms(1), of _ b] in auto)

lemma run_sound:
  assumes "wf n" and "net_run ops internal evs n = Inr (n', got)"
  shows "wf n' \<and> received_by b got + pending n' b \<subseteq># pending n b + mset (addressed_to b (sent_in evs))"
  using assms
proof (induction evs arbitrary: n got)
  case (Cons ev evs)
  from Cons.prems(2) obtain n1 got1 got2 where s: "net_step ops internal ev n = Inr (n1, got1)"
    and r: "net_run ops internal evs n1 = Inr (n', got2)" and got: "got = got1 @ got2"
    by auto
  have one: "wf n1 \<and> received_by b got1 + pending n1 b \<subseteq># pending n b + mset (addressed_to b (sent_in [ev]))"
    by (rule step_sound [OF Cons.prems(1) s])
  then have rest: "wf n' \<and> received_by b got2 + pending n' b \<subseteq># pending n1 b + mset (addressed_to b (sent_in evs))"
    using Cons.IH [OF _ r] by blast
  have "received_by b got1 + (received_by b got2 + pending n' b)
      \<subseteq># received_by b got1 + (pending n1 b + mset (addressed_to b (sent_in evs)))"
    using rest by simp
  also have "\<dots> \<subseteq># pending n b + mset (addressed_to b (sent_in [ev])) + mset (addressed_to b (sent_in evs))"
    using one by (simp add: add.assoc [symmetric])
  also have "\<dots> = pending n b + mset (addressed_to b (sent_in (ev # evs)))"
    by (cases ev) simp_all
  finally show ?case using rest got by (simp add: add.assoc)
qed simp

end

section \<open>The transports keep the promise\<close>

text \<open>A transport that drops messages.\<close>

definition drop_internal :: "('i \<Rightarrow> 'n \<Rightarrow> 'n) \<Rightarrow> 'i \<Rightarrow> ('n, 's) TransportWithMessageDrop \<Rightarrow> ('n, 's) TransportWithMessageDrop" where
  "drop_internal internal i d = d\<lparr>md_transport := internal i (md_transport d)\<rparr>"

locale dropping_transport = lossy_transport ops internal pending wf
  for ops :: "'n transport_ops" and internal :: "'i \<Rightarrow> 'n \<Rightarrow> 'n" and pending wf +
  fixes sample :: "'s \<Rightarrow> bool \<times> 's" and fresh :: "nat \<Rightarrow> 's"

sublocale dropping_transport \<subseteq> dropped: lossy_transport "dropping_ops sample fresh ops" "drop_internal internal"
  "\<lambda>d. pending (md_transport d)" "\<lambda>d. wf (md_transport d)"
proof (unfold_locales, goal_cases)
  case (1 n a n' b)
  with open_lossy [OF 1(1), of a _ b] show ?case by (auto simp: dropping_ops_def drop_open_def Let_def)
next
  case (2 n a c m r n' b)
  with send_lossy [OF 2(1), of a c m r _ b] show ?case
    by (auto simp: dropping_ops_def drop_send_def Let_def split: if_splits prod.splits)
next
  case (3 n a n' b)
  with recv_none [OF 3(1), of a _ b] show ?case by (auto simp: dropping_ops_def drop_recv_def)
next
  case (4 n a e n' b)
  with recv_some [OF 4(1), of a e _ b] show ?case by (auto simp: dropping_ops_def drop_recv_def)
next
  case (5 n a b)
  with close_lossy [OF 5, of a b] show ?case by (simp add: dropping_ops_def)
next
  case (6 n i b)
  with internal_lossy [OF 6, of i b] show ?case by (simp add: drop_internal_def)
qed

text \<open>A transport that delays them: tasks wake up, receivers are cancelled.\<close>

datatype 'i delay_event = Below 'i | Wakes nat | Cancels SocketAddr

fun delay_internal :: "('i \<Rightarrow> 'n \<Rightarrow> 'n) \<Rightarrow> 'n transport_ops \<Rightarrow> 'i delay_event \<Rightarrow> ('n, 's) TransportWithDelay \<Rightarrow> ('n, 's) TransportWithDelay" where
  "delay_internal internal ops (Below i) d = d\<lparr>dl_socket := (dl_socket d)\<lparr>sd_socket := internal i (sd_socket (dl_socket d))\<rparr>\<rparr>"
| "delay_internal internal ops (Wakes k) d = delay_wake ops k d"
| "delay_internal internal ops (Cancels a) d = delay_cancel a d"

definition delay_pending :: "('n \<Rightarrow> SocketAddr \<Rightarrow> envelope multiset) \<Rightarrow> 'n SocketWithDelay \<Rightarrow> SocketAddr \<Rightarrow> envelope multiset" where
  "delay_pending pending s b = pending (sd_socket s) b + mset (addressed_to b (sd_sleeping s))"

lemma mset_addressed_nth:
  assumes "i < length ps"
  shows "mset (addressed_to b ps) = mset (addressed_to b [ps ! i]) + mset (addressed_to b (take i ps @ drop (Suc i) ps))"
proof -
  have "ps = take i ps @ [ps ! i] @ drop (Suc i) ps" using id_take_nth_drop [OF assms] by simp
  then have "addressed_to b ps = addressed_to b (take i ps @ [ps ! i] @ drop (Suc i) ps)" by (rule arg_cong)
  then show ?thesis by (simp only: addressed_to_simps(2) mset_append) simp
qed

locale delaying_transport = lossy_transport ops internal pending wf
  for ops :: "'n transport_ops" and internal :: "'i \<Rightarrow> 'n \<Rightarrow> 'n" and pending wf +
  fixes sample :: "'s \<Rightarrow> real \<times> 's" and fresh :: "nat \<Rightarrow> 's"
begin

lemma after_send_lossy:
  assumes "wf n"
  shows "wf (after_send ops a c m n) \<and> pending (after_send ops a c m n) b \<subseteq># pending n b + mset (addressed_to b [(a, c, m)])"
  using assms send_lossy [OF assms, of a c m _ _ b] by (auto simp: after_send_def split: sum.split)

lemma wake_lossy:
  assumes "wf (sd_socket s)"
  shows "wf (sd_socket (wake_sender (after_send ops) i s))
    \<and> delay_pending pending (wake_sender (after_send ops) i s) b \<subseteq># delay_pending pending s b"
proof (cases "i < length (sd_sleeping s)")
  case True
  obtain a c m where p: "sd_sleeping s ! i = (a, c, m)" by (metis prod_cases3)
  have "pending (after_send ops a c m (sd_socket s)) b
      + mset (addressed_to b (take i (sd_sleeping s) @ drop (Suc i) (sd_sleeping s)))
    \<subseteq># pending (sd_socket s) b + mset (addressed_to b (sd_sleeping s))"
    using after_send_lossy [OF assms, of a c m b] mset_addressed_nth [OF True, of b]
    by (simp only: p add.assoc [symmetric]) (rule subset_mset.add_right_mono, blast)
  with True after_send_lossy [OF assms, of a c m b] show ?thesis
    by (simp add: wake_sender_def p delay_pending_def)
qed (use assms in \<open>simp add: wake_sender_def\<close>)

lemma close_delayed:
  assumes "wf (sd_socket s)"
  shows "wf (t_close ops a (sd_socket s)) \<and> delay_pending pending (s\<lparr>sd_socket := t_close ops a (sd_socket s)\<rparr>) b \<subseteq># delay_pending pending s b"
  using close_lossy [OF assms, of a b] by (simp add: delay_pending_def)

lemma delay_wake_lossy:
  assumes "wf (sd_socket (dl_socket d))"
  shows "wf (sd_socket (dl_socket (delay_wake ops i d)))
    \<and> delay_pending pending (dl_socket (delay_wake ops i d)) b \<subseteq># delay_pending pending (dl_socket d) b"
proof -
  let ?s = "wake_sender (after_send ops) i (dl_socket d)" and ?a = "fst (sd_sleeping (dl_socket d) ! i)"
  have w: "wf (sd_socket ?s) \<and> delay_pending pending ?s b \<subseteq># delay_pending pending (dl_socket d) b"
    by (rule wake_lossy [OF assms])
  then have "wf (t_close ops ?a (sd_socket ?s))
      \<and> delay_pending pending (?s\<lparr>sd_socket := t_close ops ?a (sd_socket ?s)\<rparr>) b \<subseteq># delay_pending pending (dl_socket d) b"
    using close_delayed [of ?s ?a b] subset_mset.order_trans by blast
  with w assms show ?thesis by (simp add: delay_wake_def Let_def)
qed

end

sublocale delaying_transport \<subseteq> delayed: lossy_transport "transport_delay sample fresh ops" "delay_internal internal ops"
  "\<lambda>d. delay_pending pending (dl_socket d)" "\<lambda>d. wf (sd_socket (dl_socket d))"
proof (unfold_locales, goal_cases)
  case (1 n a n' b)
  with open_lossy [OF 1(1), of a _ b] show ?case by (auto simp: transport_delay_def delay_open_def Let_def delay_pending_def)
next
  case (2 n a c m r n' b)
  then show ?case
    by (auto simp: transport_delay_def delay_send_def send_with_delay_def Let_def delay_pending_def split: if_splits prod.splits)
next
  case (3 n a n' b)
  with recv_none [OF 3(1), of a _ b] show ?case by (auto simp: transport_delay_def delay_recv_def delay_pending_def)
next
  case (4 n a e n' b)
  then obtain n1 where "t_recv ops a (sd_socket (dl_socket n)) = Inr (Some e, n1)" "sd_socket (dl_socket n') = n1"
      "sd_sleeping (dl_socket n') = sd_sleeping (dl_socket n)"
    by (auto simp: transport_delay_def delay_recv_def)
  with recv_some [OF 4(1), of a e n1 b] show ?case by (simp add: delay_pending_def add.assoc [symmetric])
next
  case (5 n a b)
  with close_delayed [OF 5, of a b] show ?case by (auto simp: transport_delay_def delay_close_def Let_def)
next
  case (6 n i b)
  then show ?case
    using internal_lossy [OF 6, of _ b] delay_wake_lossy [OF 6, of _ b]
    by (cases i) (simp_all add: delay_pending_def delay_cancel_def)
qed

text \<open>The in-memory transport, whose links may be cut and restored at any time.\<close>

datatype link_event = RemoveLink SocketAddr SocketAddr | AddLink SocketAddr SocketAddr

fun link_change :: "link_event \<Rightarrow> ChannelTransport \<Rightarrow> ChannelTransport" where
  "link_change (RemoveLink a b) t = remove_link a b t"
| "link_change (AddLink a b) t = add_link a b t"

lemma link_change_wf:
  assumes "transport_wf t"
  shows "transport_wf (link_change i t)" and "channel_inbox (link_change i t) b = channel_inbox t b"
  using assms by (cases i; auto simp: transport_wf_def remove_link_def add_link_def unlink_def relink_def channel_inbox_def
      split: option.splits)+

lemma channel_recv_state:
  assumes "transport_wf t" and "channel_recv a t = Inr (e, t')"
  shows "transport_wf t'"
    and "channel_inbox t b = (case e of Some x \<Rightarrow> if b = a then [x] else [] | None \<Rightarrow> []) @ channel_inbox t' b"
proof -
  note btm = transport_wf_channels(1) [OF assms(1)]
  have cases: "e = None \<and> t' = t \<or> (\<exists>x q. e = Some x \<and> btm_get (send_channels (ct_inner t)) a = Some (x # q)
      \<and> t' = t\<lparr>ct_inner := (ct_inner t)\<lparr>send_channels := btm_insert a q (send_channels (ct_inner t))\<rparr>\<rparr>)"
    using assms(2) by (auto simp: channel_recv_def split: option.splits list.splits)
  then show "transport_wf t'"
  proof (elim disjE exE conjE)
    fix x q
    assume g: "btm_get (send_channels (ct_inner t)) a = Some (x # q)"
      and t': "t' = t\<lparr>ct_inner := (ct_inner t)\<lparr>send_channels := btm_insert a q (send_channels (ct_inner t))\<rparr>\<rparr>"
    have "length q \<le> MAX_MESSAGE_PER_CHANNEL"
      using btm_get_Some_in_set [OF g] assms(1) by (auto simp: transport_wf_def)
    with transport_wf_insert [OF assms(1), where q = q and a = a and s = "statistics (ct_inner t)"] show ?thesis by (simp add: t')
  qed (use assms(1) in simp)
  show "channel_inbox t b = (case e of Some x \<Rightarrow> if b = a then [x] else [] | None \<Rightarrow> []) @ channel_inbox t' b"
    using cases btm by (auto simp: channel_inbox_def)
qed

lemma channel_close_state:
  assumes "transport_wf t"
  shows "transport_wf (channel_close a t)"
    and "channel_inbox (channel_close a t) b = (if b = a then [] else channel_inbox t b)"
  using assms by (auto simp: transport_wf_def channel_close_def channel_inbox_def btm_wf_remove) (auto simp: btm_remove_def)

lemma channel_open_state:
  assumes "transport_wf t" and "channel_open a t = Inr t'"
  shows "transport_wf t'" and "channel_inbox t' b = channel_inbox t b"
proof -
  have c: "\<not> btm_contains (send_channels (ct_inner t)) a"
    and t': "t' = t\<lparr>ct_inner := (ct_inner t)\<lparr>send_channels := btm_insert a [] (send_channels (ct_inner t))\<rparr>\<rparr>"
    using assms(2) by (auto simp: channel_open_def Let_def split: if_splits)
  show "transport_wf t'" using transport_wf_insert [OF assms(1), where q = "[]" and a = a and s = "statistics (ct_inner t)"] by (simp add: t')
  show "channel_inbox t' b = channel_inbox t b"
    using c transport_wf_channels(1) [OF assms(1)] by (auto simp: t' channel_inbox_def btm_contains_def split: option.splits)
qed

interpretation channel_transport: lossy_transport "channel_ops zc zd" link_change "\<lambda>t b. mset (channel_inbox t b)" transport_wf
  for zc zd
proof (unfold_locales, goal_cases)
  case (1 n a n' b)
  with channel_open_state [OF 1(1), of a n'] show ?case by (simp add: channel_ops_def)
next
  case (2 n a c m r n' b)
  then have s: "channel_send zc zd a c m n = Inr (r, n')" by (simp add: channel_ops_def)
  from channel_send_state(1,2,3) [OF 2(1) s] show ?case by (cases "b = c") (auto simp: try_send_def)
next
  case (3 n a n' b)
  with channel_recv_state [OF 3(1), of a None n'] show ?case by (simp add: channel_ops_def)
next
  case (4 n a e n' b)
  with channel_recv_state [OF 4(1), of a "Some e" n'] show ?case by (simp add: channel_ops_def)
next
  case (5 n a b)
  with channel_close_state [OF 5] show ?case by (simp add: channel_ops_def)
next
  case (6 n i b)
  with link_change_wf [OF 6] show ?case by simp
qed

interpretation dropping_channel: dropping_transport "channel_ops zc zd" link_change "\<lambda>t b. mset (channel_inbox t b)" transport_wf
  sample fresh
  for zc zd sample fresh
  by unfold_locales

interpretation delaying_channel: delaying_transport "dropping_ops bernoulli fresh (channel_ops zc zd)" "drop_internal link_change"
  "\<lambda>d b. mset (channel_inbox (md_transport d) b)" "\<lambda>d. transport_wf (md_transport d)" sample fresh'
  for zc zd bernoulli fresh sample fresh'
  by unfold_locales

section \<open>A lossy and slow in-memory transport\<close>

text \<open>\<^verbatim>\<open>ChannelTransport.drop_message(drop_probability).delay(delay_secs)\<close>, with what it does on its own.\<close>

type_synonym ('s, 'd) stack = "((ChannelTransport, 's) TransportWithMessageDrop, 'd) TransportWithDelay"

definition transport_stack :: "(real \<Rightarrow> 's \<Rightarrow> bool \<times> 's) \<Rightarrow> (nat \<Rightarrow> 's) \<Rightarrow> real \<Rightarrow> ('d \<Rightarrow> real \<times> 'd) \<Rightarrow> (nat \<Rightarrow> 'd) \<Rightarrow> zstd \<Rightarrow> zstd
     \<Rightarrow> panic + (('s, 'd) stack transport_ops \<times> (link_event delay_event \<Rightarrow> ('s, 'd) stack \<Rightarrow> ('s, 'd) stack))" where
  "transport_stack bernoulli fresh drop_probability delay_secs fresh' zc zd =
     result_bind (drop_message bernoulli fresh drop_probability (channel_ops zc zd)) (\<lambda>ops.
       Inr (transport_delay delay_secs fresh' ops, delay_internal (drop_internal link_change) ops))"

abbreviation stack_channel :: "('s, 'd) stack \<Rightarrow> ChannelTransport" where
  "stack_channel n \<equiv> md_transport (sd_socket (dl_socket n))"

definition stack_on :: "ChannelTransport \<Rightarrow> (SocketAddr \<Rightarrow> 's) \<Rightarrow> (SocketAddr \<Rightarrow> 'd) \<Rightarrow> ('s, 'd) stack" where
  "stack_on t g h = \<lparr>dl_socket = \<lparr>sd_socket = \<lparr>md_transport = t, md_rngs = g, md_opened = 0\<rparr>, sd_sleeping = []\<rparr>,
     dl_rngs = h, dl_opened = 0, dl_closing = {}, dl_locked = {}\<rparr>"

text \<open>What a node will find in its inbox or is still delayed on its way to it.\<close>

definition stack_pending :: "('s, 'd) stack \<Rightarrow> SocketAddr \<Rightarrow> envelope multiset" where
  "stack_pending n b = mset (channel_inbox (stack_channel n) b) + mset (addressed_to b (sd_sleeping (dl_socket n)))"

lemma stack_pending_eq:
  "stack_pending n b = delay_pending (\<lambda>d b. mset (channel_inbox (md_transport d) b)) (dl_socket n) b"
  by (simp add: stack_pending_def delay_pending_def)

lemma delay_step_total:
  assumes "\<forall>s. 0 \<le> fst (sample s) \<and> fst (sample s) < 2 ^ 64"
  shows "\<exists>r. net_step (transport_delay sample fresh ops) internal ev n = Inr r"
proof (cases ev)
  case (Sends a b m)
  obtain secs rng where s: "sample (dl_rngs n a) = (secs, rng)" by (cases "sample (dl_rngs n a)")
  with assms [rule_format, of "dl_rngs n a"] have "\<not> (secs < 0 \<or> 2 ^ 64 \<le> secs)" by simp
  with Sends s show ?thesis by (simp add: transport_delay_def delay_send_def send_with_delay_def)
qed auto

lemma delay_run_total:
  assumes "\<forall>s. 0 \<le> fst (sample s) \<and> fst (sample s) < 2 ^ 64"
  shows "\<exists>n' got. net_run (transport_delay sample fresh ops) internal evs n = Inr (n', got)"
proof (induction evs arbitrary: n)
  case (Cons ev evs)
  obtain n1 got where "net_step (transport_delay sample fresh ops) internal ev n = Inr (n1, got)"
    using delay_step_total [OF assms, of fresh ops internal ev n] by auto
  moreover obtain n2 got' where "net_run (transport_delay sample fresh ops) internal evs n1 = Inr (n2, got')"
    using Cons.IH by blast
  ultimately show ?case by simp
qed simp

text \<open>
  C21. Over an in-memory transport that drops and delays messages, whatever sockets are opened, dropped, send and
  receive, whatever is dropped, however long each message is delayed and in whatever order the tasks wake
  up, links being cut and restored in between: as long as the delays sampled are durations no caller of a
  socket panics (a send that does takes only its own task along), and what the sockets of an address received, together with what is still on its way to it, was on
  its way before or was sent to that address, each message no more often than it was sent.
\<close>

theorem transport_stack_sound:
  assumes "transport_stack bernoulli fresh drop_probability delay_secs fresh' zc zd = Inr (ops, internal)"
    and "transport_wf (stack_channel n)"
    and "\<forall>s. 0 \<le> fst (delay_secs s) \<and> fst (delay_secs s) < 2 ^ 64"
  shows "\<exists>n' got. net_run ops internal evs n = Inr (n', got) \<and> transport_wf (stack_channel n')
    \<and> received_by b got + stack_pending n' b \<subseteq># stack_pending n b + mset (addressed_to b (sent_in evs))"
proof -
  let ?below = "dropping_ops (bernoulli drop_probability) fresh (channel_ops zc zd)"
  have ops: "ops = transport_delay delay_secs fresh' ?below" "internal = delay_internal (drop_internal link_change) ?below"
    using assms(1) by (auto simp: transport_stack_def drop_message_def split: if_splits)
  obtain n' got where run: "net_run ops internal evs n = Inr (n', got)"
    unfolding ops using delay_run_total [OF assms(3)] by blast
  with delaying_channel.delayed.run_sound [OF assms(2) run [unfolded ops], of b] show ?thesis
    by (simp add: stack_pending_eq)
qed

text \<open>And a message that is not dropped does arrive, once its task has slept.\<close>

lemma transport_stack_delivers:
  assumes "transport_stack bernoulli fresh p delay_secs fresh' zc zd = Inr (ops, internal)"
    and "transport_wf (stack_channel n)" and "\<forall>s. 0 \<le> fst (delay_secs s) \<and> fst (delay_secs s) < 2 ^ 64"
    and "\<not> fst (bernoulli p (md_rngs (sd_socket (dl_socket n)) a))"
    and "zstd_fits zc" and "zstd_inverse zc zd" and "message_wf m" and "message_serialize zc m = Inr bs"
    and "ct_mtu_opt (stack_channel n) = None \<or> length bs \<le> the (ct_mtu_opt (stack_channel n))"
    and "channel_bound (stack_channel n) b" and "\<not> link_removed a b (ct_inner (stack_channel n))"
    and "length (channel_inbox (stack_channel n) b) < 100"
    and "a \<notin> dl_closing n" and "a \<notin> dl_locked n" and "sd_sleeping (dl_socket n) = []"
  shows "\<exists>n'. net_run ops internal [Sends a b m, Internal (Wakes 0)] n = Inr (n', [])
    \<and> channel_inbox (stack_channel n') b = channel_inbox (stack_channel n) b @ [(a, m)] \<and> sd_sleeping (dl_socket n') = []"
proof -
  let ?below = "dropping_ops (bernoulli p) fresh (channel_ops zc zd)" and ?t = "stack_channel n"
  have ops: "ops = transport_delay delay_secs fresh' ?below" "internal = delay_internal (drop_internal link_change) ?below"
    using assms(1) by (auto simp: transport_stack_def drop_message_def split: if_splits)
  obtain secs rng where s: "delay_secs (dl_rngs n a) = (secs, rng)" by (cases "delay_secs (dl_rngs n a)")
  with assms(3) [rule_format, of "dl_rngs n a"] have secs: "\<not> (secs < 0 \<or> 2 ^ 64 \<le> secs)" by simp
  obtain rng' where d: "bernoulli p (md_rngs (sd_socket (dl_socket n)) a) = (False, rng')"
    using assms(4) by (metis prod.collapse)
  obtain r t' where c: "channel_send zc zd a b m ?t = Inr (r, t')" "r = Inr ()"
    "channel_inbox t' b = channel_inbox ?t b @ [(a, m)]"
    using channel_send_delivers [OF assms(5-8) assms(2), of a b b] assms(9-12) by auto
  show ?thesis
    using s secs d c assms(13-15)
    by (simp add: ops transport_delay_def delay_send_def send_with_delay_def delay_wake_def wake_sender_def after_send_def
        dropping_ops_def drop_send_def channel_ops_def)
qed

text \<open>Two messages are sent, the second one leaves first, and one of them is received.\<close>

definition demo_stack_events :: "link_event delay_event net_event list" where
  "demo_stack_events = [Sends (SocketAddrV4 [127, 0, 0, 1] 1) (SocketAddrV4 [127, 0, 0, 1] 2) BadCluster,
     Sends (SocketAddrV4 [127, 0, 0, 1] 3) (SocketAddrV4 [127, 0, 0, 1] 2) BadCluster,
     Internal (Wakes 1), Internal (Wakes 0), Receives (SocketAddrV4 [127, 0, 0, 1] 2)]"

theorem transport_stack_sound_witness:
  "\<exists>ops internal n' got. transport_stack (\<lambda>_ s. (s = 9, s + 1)) (\<lambda>i. i) (1 / 2) (\<lambda>s. (1, s)) (\<lambda>_. ()) zstd_never zstd_never
       = Inr (ops, internal)
     \<and> net_run ops internal demo_stack_events (stack_on demo_transport (\<lambda>_. 0) (\<lambda>_. ())) = Inr (n', got)
     \<and> received_by (SocketAddrV4 [127, 0, 0, 1] 2) got
         \<subseteq># {#(SocketAddrV4 [127, 0, 0, 1] 1, BadCluster), (SocketAddrV4 [127, 0, 0, 1] 3, BadCluster)#}"
proof -
  let ?b = "SocketAddrV4 [127, 0, 0, 1] 2" and ?n = "stack_on demo_transport (\<lambda>_. 0 :: nat) (\<lambda>_. ())"
  obtain ops internal where o: "transport_stack (\<lambda>_ s. (s = 9, s + 1)) (\<lambda>i. i) (1 / 2) (\<lambda>s. (1, s)) (\<lambda>_. ()) zstd_never zstd_never
      = Inr (ops, internal)"
    by (simp add: transport_stack_def drop_message_def)
  obtain n' got where r: "net_run ops internal demo_stack_events ?n = Inr (n', got)"
    and s: "received_by ?b got + stack_pending n' ?b \<subseteq># stack_pending ?n ?b + mset (addressed_to ?b (sent_in demo_stack_events))"
    using transport_stack_sound [OF o, of ?n demo_stack_events ?b] by (auto simp: stack_on_def demo_transport_wf(1))
  have "stack_pending ?n ?b = {#}" by (simp add: stack_pending_def stack_on_def demo_transport_wf(2))
  with s have "received_by ?b got + stack_pending n' ?b \<subseteq># mset (addressed_to ?b (sent_in demo_stack_events))" by simp
  then have "received_by ?b got \<subseteq># mset (addressed_to ?b (sent_in demo_stack_events))"
    by (rule subset_mset.order_trans [OF mset_subset_eq_add_left])
  then have "received_by ?b got \<subseteq># {#(SocketAddrV4 [127, 0, 0, 1] 1, BadCluster), (SocketAddrV4 [127, 0, 0, 1] 3, BadCluster)#}"
    by (simp add: demo_stack_events_def)
  with o r show ?thesis by blast
qed

end
