(* ===== verification/Deployment.thy ===== *)
theory Deployment
  imports Interleaving Sockets
begin

text \<open>
  A cluster on a transport: the servers of \<^verbatim>\<open>server.rs\<close> with the sockets they were given. A server receives what its
  socket gives it, takes its turn and hands its messages to the socket; what a send returns is dropped
  (\<^verbatim>\<open>let _\<close>, or logged). Over any transport that keeps the promise of \<open>lossy_transport\<close> such a deployment
  refines the cluster of \<open>Cluster\<close>, whose network may lose, duplicate and reorder everything. So what is
  known of a cluster holds of servers on the in-memory transport, with messages dropped and delayed.
\<close>

section \<open>Servers and their sockets\<close>

record ('s, 'n) deployment =
  dp_cluster :: "'s cluster"
  dp_transport :: 'n

fun send_out :: "'n transport_ops \<Rightarrow> SocketAddr \<Rightarrow> sends \<Rightarrow> 'n \<Rightarrow> panic + 'n" where
  "send_out net a [] n = Inr n"
| "send_out net a ((b, m) # sent) n = result_bind (t_send net a b m n) (\<lambda>(_, n). send_out net a sent n)"

definition socket_of :: "'s Server \<Rightarrow> SocketAddr" where
  "socket_of srv = cfg_listen_addr (cc_config (srv_chitchat srv))"

definition deployment_init :: "('n \<Rightarrow> bool) \<Rightarrow> ('n \<Rightarrow> SocketAddr \<Rightarrow> envelope multiset) \<Rightarrow> ('s, 'n) deployment \<Rightarrow> bool" where
  "deployment_init ok pending d \<longleftrightarrow> cluster_init (dp_cluster d) \<and> ok (dp_transport d) \<and> (\<forall>b. pending (dp_transport d) b = {#})"

text \<open>The history of all datagrams, which no step looks at, stays part of the cluster. Sockets are opened and
  closed at any time, by the servers and by others; the applications act as they do in a cluster.\<close>

inductive deployment_step ::
    "'n transport_ops \<Rightarrow> ('i \<Rightarrow> 'n \<Rightarrow> 'n) \<Rightarrow> ChitchatId set \<Rightarrow> zstd \<Rightarrow> 's rng_ops
     \<Rightarrow> ('s cluster \<Rightarrow> ChitchatId \<Rightarrow> event \<Rightarrow> bool) \<Rightarrow> ('s, 'n) deployment \<Rightarrow> ('s, 'n) deployment \<Rightarrow> bool"
  for net internal P zd rng allowed where
  opens: "t_open net a (dp_transport d) = Inr n \<Longrightarrow> deployment_step net internal P zd rng allowed d (d\<lparr>dp_transport := n\<rparr>)"
| closes: "deployment_step net internal P zd rng allowed d (d\<lparr>dp_transport := t_close net a (dp_transport d)\<rparr>)"
| network: "deployment_step net internal P zd rng allowed d (d\<lparr>dp_transport := internal ev (dp_transport d)\<rparr>)"
| waits: "t_recv net a (dp_transport d) = Inr (None, n) \<Longrightarrow> deployment_step net internal P zd rng allowed d (d\<lparr>dp_transport := n\<rparr>)"
| application: "cluster_step P zd rng (\<lambda>_ _ _. False) (dp_cluster d) s \<Longrightarrow>
    deployment_step net internal P zd rng allowed d (d\<lparr>dp_cluster := s\<rparr>)"
| receives: "cl_servers (dp_cluster d) i = Some srv \<Longrightarrow> t_recv net (socket_of srv) (dp_transport d) = Inr (Some e, n) \<Longrightarrow>
    rng_ok rng \<Longrightarrow> env_ok env \<Longrightarrow> zstd_inverse (env_zstd env) zd \<Longrightarrow> allowed (dp_cluster d) i (Received (Inr e)) \<Longrightarrow>
    server_turn rng env (Received (Inr e)) srv = Inr (r, srv', sent, fx) \<Longrightarrow> send_out net (socket_of srv) sent n = Inr n' \<Longrightarrow>
    deployment_step net internal P zd rng allowed d
      (d\<lparr>dp_cluster := put_datagrams (env_zstd env) sent (put_server i srv' (dp_cluster d)), dp_transport := n'\<rparr>)"
| acts: "cl_servers (dp_cluster d) i = Some srv \<Longrightarrow> (\<forall>e. ev \<noteq> Received (Inr e)) \<Longrightarrow>
    rng_ok rng \<Longrightarrow> env_ok env \<Longrightarrow> zstd_inverse (env_zstd env) zd \<Longrightarrow> allowed (dp_cluster d) i ev \<Longrightarrow>
    server_turn rng env ev srv = Inr (r, srv', sent, fx) \<Longrightarrow> send_out net (socket_of srv) sent (dp_transport d) = Inr n \<Longrightarrow>
    deployment_step net internal P zd rng allowed d
      (d\<lparr>dp_cluster := put_datagrams (env_zstd env) sent (put_server i srv' (dp_cluster d)), dp_transport := n\<rparr>)"

section \<open>Refinement\<close>

text \<open>Whatever the transport still holds was sent.\<close>

definition deployment_inv :: "('n \<Rightarrow> bool) \<Rightarrow> ('n \<Rightarrow> SocketAddr \<Rightarrow> envelope multiset) \<Rightarrow> ChitchatId set \<Rightarrow> zstd
     \<Rightarrow> ('s, 'n) deployment \<Rightarrow> bool" where
  "deployment_inv ok pending P zd d \<longleftrightarrow> cluster_inv P zd (dp_cluster d) \<and> ok (dp_transport d)
     \<and> (\<forall>b e. e \<in># pending (dp_transport d) b \<and> message_len (snd e) \<le> MAX_UDP_DATAGRAM_PAYLOAD_SIZE
          \<longrightarrow> may_happen zd (dp_cluster d) (Received (Inr e)))"

lemma deployment_invI:
  assumes "cluster_inv P zd (dp_cluster d)" and "ok (dp_transport d)"
    and "\<And>b e. e \<in># pending (dp_transport d) b \<Longrightarrow> message_len (snd e) \<le> MAX_UDP_DATAGRAM_PAYLOAD_SIZE
      \<Longrightarrow> may_happen zd (dp_cluster d) (Received (Inr e))"
  shows "deployment_inv ok pending P zd d"
  using assms unfolding deployment_inv_def by blast

lemma deployment_invD:
  assumes "deployment_inv ok pending P zd d"
  shows "cluster_inv P zd (dp_cluster d)" and "ok (dp_transport d)"
    and "e \<in># pending (dp_transport d) b \<Longrightarrow> message_len (snd e) \<le> MAX_UDP_DATAGRAM_PAYLOAD_SIZE
      \<Longrightarrow> may_happen zd (dp_cluster d) (Received (Inr e))"
  using assms unfolding deployment_inv_def by blast+

lemma sent_may_happen:
  assumes "cluster_inv P zd s" and "cl_servers s i = Some srv" and "rng_ok rng" and "env_ok env" and "zstd_inverse (env_zstd env) zd"
    and "may_happen zd s ev" and "server_turn rng env ev srv = Inr (r, srv', sent, fx)" and "(b, m) \<in> set sent" and "message_len m \<le> MAX_UDP_DATAGRAM_PAYLOAD_SIZE"
  shows "may_happen zd (put_datagrams (env_zstd env) sent s') (Received (Inr (a, m)))"
proof -
  have good: "good_message P (env_zstd env) m" using turn_in_cluster'(3) [OF assms(1-4,6,7)] assms(8) by auto
  then obtain bs where bs: "udp_payload (env_zstd env) m = Inr bs" "length bs \<le> MAX_UDP_DATAGRAM_PAYLOAD_SIZE"
    using assms(9) message_len_correct [of m "env_zstd env"] by (auto simp: good_message_def udp_payload_def)
  have "message_deserialize zd bs = Inr (m, [])" by (rule good_message_decodes [OF good assms(4,5) bs(1)])
  then have "receive_one zd (a, bs) = Some (a, m)" using bs(2) by (simp add: receive_one_def)
  moreover have "bs \<in> payloads (env_zstd env) sent" using assms(8) bs by (auto simp: payloads_def)
  ultimately show ?thesis by (auto simp: put_datagrams_def)
qed

lemma may_happen_mono: "may_happen zd s ev \<Longrightarrow> cl_net s \<subseteq> cl_net s' \<Longrightarrow> may_happen zd s' ev"
  by (cases "(zd, s, ev)" rule: may_happen.cases) auto

lemma cluster_step_net: "cluster_step P zd ops allowed s s' \<Longrightarrow> cl_net s \<subseteq> cl_net s'"
  by (erule cluster_step.cases) (auto simp: put_server_def add_log_def)

lemma set_addressed_out: "e \<in> set (addressed_to b (map (Pair a) sent)) \<longleftrightarrow> (\<exists>m. (b, m) \<in> set sent \<and> e = (a, m))"
  by (induction sent) (auto simp: addressed_to_def)

text \<open>A transport of datagrams refuses messages that are too long for one: none is ever received.\<close>

locale datagram_transport = lossy_transport ops internal pending wf
  for ops :: "'n transport_ops" and internal :: "'i \<Rightarrow> 'n \<Rightarrow> 'n" and pending wf +
  assumes recv_fits: "wf n \<Longrightarrow> t_recv ops a n = Inr (Some e, n') \<Longrightarrow> message_len (snd e) \<le> MAX_UDP_DATAGRAM_PAYLOAD_SIZE"
begin

lemma send_out_lossy:
  assumes "wf n" and "send_out ops a sent n = Inr n'"
  shows "wf n' \<and> pending n' b \<subseteq># pending n b + mset (addressed_to b (map (Pair a) sent))"
  using assms
proof (induction sent arbitrary: n)
  case (Cons x sent)
  obtain c m where x: "x = (c, m)" by (cases x)
  with Cons.prems(2) obtain r n1 where n1: "t_send ops a c m n = Inr (r, n1)" "send_out ops a sent n1 = Inr n'" by auto
  have one: "wf n1 \<and> pending n1 b \<subseteq># pending n b + mset (addressed_to b [(a, c, m)])" by (rule send_lossy [OF Cons.prems(1) n1(1)])
  then have rest: "wf n' \<and> pending n' b \<subseteq># pending n1 b + mset (addressed_to b (map (Pair a) sent))"
    using Cons.IH [OF _ n1(2)] by blast
  have "pending n1 b + mset (addressed_to b (map (Pair a) sent))
      \<subseteq># pending n b + mset (addressed_to b [(a, c, m)]) + mset (addressed_to b (map (Pair a) sent))"
    using one by (intro subset_mset.add_right_mono) blast
  also have "\<dots> = pending n b + mset (addressed_to b (map (Pair a) (x # sent)))" by (simp add: x)
  finally show ?case using rest subset_mset.order_trans by blast
qed simp

lemma send_out_inv:
  assumes "wf n" and "send_out ops a sent n = Inr n'" and "e \<in># pending n' b"
  shows "wf n'" and "e \<in># pending n b \<or> (\<exists>m. (b, m) \<in> set sent \<and> e = (a, m))"
proof -
  note s = send_out_lossy [OF assms(1,2)]
  show "wf n'" using s by blast
  have "e \<in># pending n b + mset (addressed_to b (map (Pair a) sent))"
    by (rule mset_subset_eqD [OF conjunct2 [OF s] assms(3)])
  then show "e \<in># pending n b \<or> (\<exists>m. (b, m) \<in> set sent \<and> e = (a, m))" by (simp add: set_addressed_out)
qed

lemma received_may_happen:
  assumes "deployment_inv wf pending P zd d" and "t_recv ops a (dp_transport d) = Inr (Some e, n)"
  shows "may_happen zd (dp_cluster d) (Received (Inr e))"
proof -
  have wf: "wf (dp_transport d)" using assms(1) by (simp add: deployment_inv_def)
  have "received_by a [(a, e)] + pending n a \<subseteq># pending (dp_transport d) a" using recv_some [OF wf assms(2)] by blast
  then have "e \<in># pending (dp_transport d) a" by (rule mset_subset_eqD) simp
  with assms(1) recv_fits [OF wf assms(2)] show ?thesis unfolding deployment_inv_def by blast
qed

lemma deployment_coarse:
  assumes "deployment_inv wf pending P zd d" and "deployment_step ops internal P zd rng allowed d d'"
  shows "(cluster_step P zd rng allowed)\<^sup>*\<^sup>* (dp_cluster d) (dp_cluster d')"
  using assms(2)
proof cases
  case (application s)
  from cluster_step_allowed [OF application(2)] application(1) show ?thesis by (simp add: r_into_rtranclp)
next
  case (receives i srv e n env r srv' sent fx n')
  note may = received_may_happen [OF assms(1) receives(3)]
  from cluster_step.takes_turn [where allowed = allowed, OF receives(2,4-6) may receives(7,8)] receives(1)
  show ?thesis by (simp add: put_datagrams_def put_server_net r_into_rtranclp)
next
  case (acts i srv ev env r srv' sent fx n)
  have may: "may_happen zd (dp_cluster d) ev" using acts(3) by (cases "(zd, dp_cluster d, ev)" rule: may_happen.cases) auto
  from cluster_step.takes_turn [where allowed = allowed, OF acts(2,4-6) may acts(7,8)] acts(1)
  show ?thesis by (simp add: put_datagrams_def put_server_net r_into_rtranclp)
qed simp_all

lemma cluster_step_keeps:
  "deployment_inv wf pending P zd d \<Longrightarrow> cluster_inv P zd s \<Longrightarrow> cl_net (dp_cluster d) \<subseteq> cl_net s \<Longrightarrow>
   deployment_inv wf pending P zd (d\<lparr>dp_cluster := s\<rparr>)"
  using may_happen_mono unfolding deployment_inv_def by fastforce

lemma transport_keeps:
  assumes "deployment_inv wf pending P zd d" and "wf n" and "\<And>b. pending n b \<subseteq># pending (dp_transport d) b"
  shows "deployment_inv wf pending P zd (d\<lparr>dp_transport := n\<rparr>)"
proof (rule deployment_invI)
  show "may_happen zd (dp_cluster (d\<lparr>dp_transport := n\<rparr>)) (Received (Inr e))"
    if "e \<in># pending (dp_transport (d\<lparr>dp_transport := n\<rparr>)) b" "message_len (snd e) \<le> MAX_UDP_DATAGRAM_PAYLOAD_SIZE" for b e
    using deployment_invD(3) [OF assms(1) mset_subset_eqD [OF assms(3)]] that by simp
qed (use deployment_invD(1) [OF assms(1)] assms(2) in simp_all)

lemma turn_keeps:
  assumes inv: "deployment_inv wf pending P zd d" and i: "cl_servers (dp_cluster d) i = Some srv" and ok: "rng_ok rng" "env_ok env"
    and z: "zstd_inverse (env_zstd env) zd" and may: "may_happen zd (dp_cluster d) ev"
    and t: "server_turn rng env ev srv = Inr (r, srv', sent, fx)"
    and n: "wf n" "\<And>b. pending n b \<subseteq># pending (dp_transport d) b" and s: "send_out ops a sent n = Inr n'"
    and c: "cluster_inv P zd (put_datagrams (env_zstd env) sent (put_server i srv' (dp_cluster d)))"
  shows "deployment_inv wf pending P zd
    (d\<lparr>dp_cluster := put_datagrams (env_zstd env) sent (put_server i srv' (dp_cluster d)), dp_transport := n'\<rparr>)"
proof -
  let ?s = "put_datagrams (env_zstd env) sent (put_server i srv' (dp_cluster d))"
  have I: "cluster_inv P zd (dp_cluster d)" using inv by (simp add: deployment_inv_def)
  have "may_happen zd ?s (Received (Inr e))" if e: "e \<in># pending n' b" "message_len (snd e) \<le> MAX_UDP_DATAGRAM_PAYLOAD_SIZE" for b e
    using send_out_inv(2) [OF n(1) s e(1)]
  proof
    assume "e \<in># pending n b"
    then have "may_happen zd (dp_cluster d) (Received (Inr e))"
      using mset_subset_eqD [OF n(2)] e(2) inv unfolding deployment_inv_def by blast
    then show ?thesis by (rule may_happen_mono) (auto simp: put_datagrams_def put_server_net)
  next
    assume "\<exists>m. (b, m) \<in> set sent \<and> e = (a, m)"
    then obtain m where m: "(b, m) \<in> set sent" "e = (a, m)" by blast
    with e(2) have len: "message_len m \<le> MAX_UDP_DATAGRAM_PAYLOAD_SIZE" by simp
    show ?thesis unfolding m(2) by (rule sent_may_happen [OF I i ok z may t m(1) len])
  qed
  moreover have "wf n'" using send_out_lossy [OF n(1) s] by blast
  ultimately show ?thesis using c by (intro deployment_invI) simp_all
qed

lemma deployment_inv_step:
  assumes inv: "deployment_inv wf pending P zd d" and step: "deployment_step ops internal P zd rng allowed d d'"
  shows "deployment_inv wf pending P zd d'"
proof -
  have I: "cluster_inv P zd (dp_cluster d)" "wf (dp_transport d)" using inv by (simp_all add: deployment_inv_def)
  have C: "cluster_inv P zd (dp_cluster d')"
    by (rule any_cluster.invariant_steps [OF deployment_coarse [OF inv step] I(1)])
  from step show ?thesis
  proof cases
    case (opens a n)
    with transport_keeps [OF inv] open_lossy [OF I(2)] show ?thesis by blast
  next
    case (closes a)
    with transport_keeps [OF inv] close_lossy [OF I(2)] show ?thesis by blast
  next
    case (network ev)
    with transport_keeps [OF inv] internal_lossy [OF I(2)] show ?thesis by blast
  next
    case (waits a n)
    with transport_keeps [OF inv] recv_none [OF I(2)] show ?thesis by blast
  next
    case (application s)
    with cluster_step_keeps [OF inv _ cluster_step_net [OF application(2)]] C show ?thesis by simp
  next
    case (receives i srv e n env r srv' sent fx n')
    have n: "wf n" "\<And>b. pending n b \<subseteq># pending (dp_transport d) b"
      using recv_some [OF I(2) receives(3)] subset_mset.order_trans [OF mset_subset_eq_add_right] by blast+
    have "cluster_inv P zd (put_datagrams (env_zstd env) sent (put_server i srv' (dp_cluster d)))" using C receives(1) by simp
    from turn_keeps [OF inv receives(2,4-6) received_may_happen [OF inv receives(3)] receives(8) n receives(9) this]
    show ?thesis by (simp add: receives(1))
  next
    case (acts i srv ev env r srv' sent fx n)
    have may: "may_happen zd (dp_cluster d) ev" using acts(3) by (cases "(zd, dp_cluster d, ev)" rule: may_happen.cases) auto
    have "cluster_inv P zd (put_datagrams (env_zstd env) sent (put_server i srv' (dp_cluster d)))" using C acts(1) by simp
    from turn_keeps [OF inv acts(2,4-6) may acts(8) I(2) subset_mset.order_refl acts(9) this]
    show ?thesis by (simp add: acts(1))
  qed
qed

end

sublocale datagram_transport \<subseteq> deployed: refinement_map "deployment_init wf pending" "deployment_step ops internal P zd rng allowed"
    "deployment_inv wf pending P zd" cluster_init "cluster_step P zd rng allowed" dp_cluster
  for P zd rng allowed
proof
  show "deployment_inv wf pending P zd d" if "deployment_init wf pending d" for d
    using that any_cluster.initially [of "dp_cluster d" P zd] by (simp add: deployment_inv_def deployment_init_def)
  show "deployment_inv wf pending P zd d'" if "deployment_inv wf pending P zd d" "deployment_step ops internal P zd rng allowed d d'" for d d'
    by (rule deployment_inv_step [OF that])
  show "(cluster_step P zd rng allowed)\<^sup>*\<^sup>* (dp_cluster d) (dp_cluster d')"
    if "deployment_inv wf pending P zd d" "deployment_step ops internal P zd rng allowed d d'" for d d'
    by (rule deployment_coarse [OF that])
qed (simp add: deployment_init_def)

section \<open>Servers on the in-memory transport\<close>

text \<open>An in-memory transport whose MTU is that of a datagram, as the tests of the servers use it.\<close>

definition bounded_channel :: "ChannelTransport \<Rightarrow> bool" where
  "bounded_channel t \<longleftrightarrow> transport_wf t \<and> (\<exists>mtu. ct_mtu_opt t = Some mtu \<and> mtu \<le> MAX_UDP_DATAGRAM_PAYLOAD_SIZE)
     \<and> (\<forall>b. list_all (\<lambda>e. message_len (snd e) \<le> MAX_UDP_DATAGRAM_PAYLOAD_SIZE) (channel_inbox t b))"

lemma bounded_shrinks:
  assumes "bounded_channel t" and "ct_mtu_opt t' = ct_mtu_opt t"
    and "transport_wf t' \<and> (\<forall>b. mset (channel_inbox t' b) \<subseteq># mset (channel_inbox t b))"
  shows "bounded_channel t'"
proof -
  have "set (channel_inbox t' b) \<subseteq> set (channel_inbox t b)" for b
    using assms(3) set_mset_mono [of "mset (channel_inbox t' b)" "mset (channel_inbox t b)"] by simp
  with assms show ?thesis by (fastforce simp: bounded_channel_def list_all_iff)
qed

lemma channel_send_bounded:
  assumes "bounded_channel t" and "channel_send zc zd a c m t = Inr (r, t')"
  shows "bounded_channel t'"
proof -
  have wf: "transport_wf t" using assms(1) by (simp add: bounded_channel_def)
  note s = channel_send_state [OF wf assms(2)]
  obtain mtu where mtu: "ct_mtu_opt t = Some mtu" "mtu \<le> MAX_UDP_DATAGRAM_PAYLOAD_SIZE"
    using assms(1) by (auto simp: bounded_channel_def)
  have same: "ct_mtu_opt t' = ct_mtu_opt t" "r = Inr () \<Longrightarrow> message_len m \<le> mtu"
    using assms(2) mtu(1) serialize_deserialize_Inr [of zc zd m]
    by (auto simp: channel_send_def Let_def split: if_splits option.splits)
  have "list_all (\<lambda>e. message_len (snd e) \<le> MAX_UDP_DATAGRAM_PAYLOAD_SIZE) (channel_inbox t' b)" for b
    using s(2) [of b] s(3) same(2) mtu(2) assms(1)
    by (cases "b = c") (auto simp: bounded_channel_def try_send_def)
  with s(1) same(1) mtu show ?thesis by (simp add: bounded_channel_def)
qed

interpretation mtu_channel: lossy_transport "channel_ops zc zd" link_change "\<lambda>t b. mset (channel_inbox t b)" bounded_channel
  for zc zd
proof (unfold_locales, goal_cases)
  case (1 n a n' b)
  then have wf: "transport_wf n" by (simp add: bounded_channel_def)
  have "ct_mtu_opt n' = ct_mtu_opt n" using 1(2) by (auto simp: channel_ops_def channel_open_def Let_def split: if_splits)
  with bounded_shrinks [OF 1(1)] channel_transport.open_lossy [OF wf 1(2)] show ?case by blast
next
  case (2 n a c m r n' b)
  then have wf: "transport_wf n" by (simp add: bounded_channel_def)
  have "bounded_channel n'" using channel_send_bounded [OF 2(1)] 2(2) by (simp add: channel_ops_def)
  with channel_transport.send_lossy [OF wf 2(2)] show ?case by blast
next
  case (3 n a n' b)
  then have wf: "transport_wf n" by (simp add: bounded_channel_def)
  have "ct_mtu_opt n' = ct_mtu_opt n" using 3(2) by (auto simp: channel_ops_def channel_recv_def split: option.splits list.splits)
  with bounded_shrinks [OF 3(1)] channel_transport.recv_none [OF wf 3(2)] show ?case by blast
next
  case (4 n a e n' b)
  then have wf: "transport_wf n" by (simp add: bounded_channel_def)
  have "ct_mtu_opt n' = ct_mtu_opt n" using 4(2) by (auto simp: channel_ops_def channel_recv_def split: option.splits list.splits)
  with bounded_shrinks [OF 4(1)] channel_transport.recv_some [OF wf 4(2)] show ?case
    using subset_mset.order_trans [OF mset_subset_eq_add_right] by blast
next
  case (5 n a b)
  then have wf: "transport_wf n" by (simp add: bounded_channel_def)
  have "ct_mtu_opt (t_close (channel_ops zc zd) a n) = ct_mtu_opt n" by (simp add: channel_ops_def channel_close_def)
  with bounded_shrinks [OF 5] channel_transport.close_lossy [OF wf] show ?case by blast
next
  case (6 n i b)
  then have wf: "transport_wf n" by (simp add: bounded_channel_def)
  have "ct_mtu_opt (link_change i n) = ct_mtu_opt n" by (cases i) (simp_all add: remove_link_def add_link_def)
  with bounded_shrinks [OF 6] channel_transport.internal_lossy [OF wf] show ?case by blast
qed

interpretation mtu_dropping: dropping_transport "channel_ops zc zd" link_change "\<lambda>t b. mset (channel_inbox t b)" bounded_channel
  sample fresh
  for zc zd sample fresh
  by unfold_locales

interpretation mtu_delaying: delaying_transport "dropping_ops bernoulli fresh (channel_ops zc zd)" "drop_internal link_change"
  "\<lambda>d b. mset (channel_inbox (md_transport d) b)" "\<lambda>d. bounded_channel (md_transport d)" sample fresh'
  for zc zd bernoulli fresh sample fresh'
  by unfold_locales

lemma channel_recv_bounded:
  assumes "bounded_channel t" and "channel_recv a t = Inr (Some e, t')"
  shows "message_len (snd e) \<le> MAX_UDP_DATAGRAM_PAYLOAD_SIZE"
proof -
  have "e \<in> set (channel_inbox t a)"
    using assms(2) by (auto simp: channel_recv_def channel_inbox_def split: option.splits list.splits)
  with assms(1) show ?thesis by (auto simp: bounded_channel_def list_all_iff)
qed

interpretation channel_deployment: datagram_transport "channel_ops zc zd" link_change "\<lambda>t b. mset (channel_inbox t b)" bounded_channel
  for zc zd
  by unfold_locales (auto simp: channel_ops_def dest: channel_recv_bounded)

interpretation stack_deployment: datagram_transport "transport_delay sample fresh' (dropping_ops bernoulli fresh (channel_ops zc zd))"
  "delay_internal (drop_internal link_change) (dropping_ops bernoulli fresh (channel_ops zc zd))"
  "\<lambda>n. delay_pending (\<lambda>d b. mset (channel_inbox (md_transport d) b)) (dl_socket n)" "\<lambda>n. bounded_channel (stack_channel n)"
  for zc zd bernoulli fresh sample fresh'
  by unfold_locales
    (auto simp: transport_delay_def delay_recv_def dropping_ops_def drop_recv_def channel_ops_def dest: channel_recv_bounded)

section \<open>Properties\<close>

lemma send_out_delayed:
  assumes "\<forall>s. 0 \<le> fst (sample s) \<and> fst (sample s) < 2 ^ 64"
  shows "\<exists>n'. send_out (transport_delay sample fresh below) a sent n = Inr n'"
proof (induction sent arbitrary: n)
  case (Cons x sent)
  obtain b m where x: "x = (b, m)" by (cases x)
  obtain r n1 where "t_send (transport_delay sample fresh below) a b m n = Inr (r, n1)"
    using delay_step_total [OF assms, of fresh below "\<lambda>_ n. n" "Sends a b m" n] by auto
  with Cons.IH [of n1] show ?case by (simp add: x)
qed simp

text \<open>A good message also survives the assertions of the plain in-memory transport.\<close>

lemma send_out_channel:
  assumes "\<forall>(b, m) \<in> set sent. good_message P zc m" and "zstd_fits zc" and "zstd_inverse zc zd"
  shows "\<exists>n'. send_out (channel_ops zc zd) a sent n = Inr n'"
  using assms(1)
proof (induction sent arbitrary: n)
  case (Cons x sent)
  obtain b m where x: "x = (b, m)" by (cases x)
  then have "message_wf m" "\<exists>bs. message_serialize zc m = Inr bs" using Cons.prems by (auto simp: good_message_def)
  then obtain r n1 where "channel_send zc zd a b m n = Inr (r, n1)"
    using channel_send_result [OF serialize_deserialize_ok [OF assms(2,3)], of m _ a b n] by blast
  with Cons.IH [of n1] Cons.prems show ?case by (simp add: x channel_ops_def)
qed simp


text \<open>A server that has joined over such a transport, at its first tick.\<close>

definition demo_deployed :: "(unit, (nat, unit) stack) deployment" where
  "demo_deployed = \<lparr>dp_cluster = demo_joined, dp_transport = stack_on demo_transport (\<lambda>_. 0) (\<lambda>_. ())\<rparr>"

lemma demo_deployed_reachable:
  "reachable (deployment_init (\<lambda>n. bounded_channel (stack_channel n)) stack_pending)
     (deployment_step net internal {demo_node_id} zd demo_rng delivery_safe) demo_deployed"
proof -
  let ?s = "\<lparr>cl_servers = \<lambda>_. None, cl_logs = \<lambda>_. [], cl_net = {}\<rparr> :: unit cluster"
  let ?d = "demo_deployed\<lparr>dp_cluster := ?s\<rparr>"
  have inbox: "channel_inbox demo_transport b = []" for b
    by (auto simp: demo_transport_def channel_open_def ChannelTransport_with_mtu_def channel_inbox_def btm_get_def btm_contains_def)
  have "ct_mtu_opt demo_transport = Some 1000"
    by (simp add: demo_transport_def channel_open_def ChannelTransport_with_mtu_def btm_contains_def btm_get_def)
  then have "bounded_channel demo_transport"
    using demo_transport_wf(1) by (simp add: bounded_channel_def inbox MAX_UDP_DATAGRAM_PAYLOAD_SIZE_def)
  then have init: "deployment_init (\<lambda>n. bounded_channel (stack_channel n)) stack_pending ?d"
    by (simp add: deployment_init_def cluster_init_def demo_deployed_def stack_on_def stack_pending_def inbox)
  have config: "config_ok demo_config []" "wire_string (cfg_cluster_id demo_config)"
    using demo_config_window demo_chitchat_id(3) by (simp_all add: config_ok_def) (simp add: demo_config_def wire_string_ascii)
  have "cluster_step {demo_node_id} zd demo_rng (\<lambda>_ _ _. False) (dp_cluster ?d) demo_joined"
    using cluster_step.joins [OF demo_participants_ok, of demo_node_id ?s demo_config "[]" "{}" demo_chitchat zd demo_rng "\<lambda>_ _ _. False" "()"]
      config demo_chitchat_created by (simp add: demo_joined_def)
  from deployment_step.application [OF this, of net internal delivery_safe]
  have "deployment_step net internal {demo_node_id} zd demo_rng delivery_safe ?d demo_deployed" by (simp add: demo_deployed_def)
  with init show ?thesis by (blast intro: reachable.intros)
qed


end
