(* ===== verification/Server_Tests.thy ===== *)
theory Server_Tests
  imports Handshake_Tests Deployment
begin

text \<open>
  Tests of \<^verbatim>\<open>chitchat/src/server.rs\<close> that start a server on the in-memory transport: the task of \<open>Handle\<close> on a socket of
  \<open>Sockets\<close>, which it is woken up for as in \<open>Deployment\<close>. The first tick of the interval comes at once: the
  tests that do not depend on it are run with the tick before and after what they are about. The
  generator takes the first address of a set; nothing else can be chosen in these tests.
\<close>

section \<open>A server on the in-memory transport\<close>

definition test_net :: "ChannelTransport transport_ops" where
  "test_net = channel_ops zstd_never zstd_never"

text \<open>
  The transport encodes and decodes every message only to assert that nothing changed: for a well-formed message
  this is known, and the kernel need not decode it again.
\<close>

definition test_encode :: "ChitchatMessage \<Rightarrow> panic + ChitchatMessage" where
  "test_encode m = serialize_deserialize_chitchat_message zstd_never zstd_never m"

definition test_send :: "SocketAddr \<Rightarrow> SocketAddr \<Rightarrow> ChitchatMessage \<Rightarrow> ChannelTransport
     \<Rightarrow> panic + ((transport_error + unit) \<times> ChannelTransport)" where
  "test_send = channel_send zstd_never zstd_never"

lemma test_encode_code [code]:
  "test_encode m = (if message_wf m then result_bind (message_serialize zstd_never m) (\<lambda>_. Inr m)
     else serialize_deserialize_chitchat_message zstd_never zstd_never m)"
proof (cases "message_serialize zstd_never m")
  case (Inl p)
  then show ?thesis by (simp add: test_encode_def serialize_deserialize_chitchat_message_def)
next
  case (Inr bs)
  then show ?thesis using serialize_deserialize_ok [OF zstd_never_contract(1,2) _ Inr] by (simp add: test_encode_def)
qed

lemmas test_send_code [code] = channel_send_def [of zstd_never zstd_never, folded test_send_def test_encode_def]

lemma test_net_code [code]:
  "test_net = \<lparr>t_open = channel_open, t_send = test_send, t_recv = channel_recv, t_close = channel_close\<rparr>"
  by (simp add: test_net_def channel_ops_def test_send_def)

type_synonym host = "unit ServerTask \<times> ChannelTransport"

definition no_lookup :: lookup where
  "no_lookup _ _ = None"

definition spawn_on :: "ChitchatConfig \<Rightarrow> ChannelTransport \<Rightarrow> host option" where
  "spawn_on config n = do {
     n' \<leftarrow> run (t_open test_net (cfg_listen_addr config) n);
     r \<leftarrow> run (spawn_chitchat no_lookup (\<lambda>_. Inr ()) config [] ());
     h \<leftarrow> run r;
     Some (h_task h, n')}"

fun panicked :: "task_state \<Rightarrow> bool" where
  "panicked (Panicked p) = True"
| "panicked _ = False"

definition wake_on :: "wakeup \<Rightarrow> host \<Rightarrow> host option" where
  "wake_on w host = (let (task, n) = host; a = socket_of (tk_server task); (task, sent) = task_wake demo_rng test_env w task in do {
     assert (\<not> panicked (tk_state task));
     n \<leftarrow> run (send_out test_net a sent n);
     Some (task, n)})"

definition receive_on :: "host \<Rightarrow> host option" where
  "receive_on host = do {
     let (task, n) = host;
     (received, n) \<leftarrow> run (t_recv test_net (socket_of (tk_server task)) n);
     e \<leftarrow> received;
     wake_on (WakeReceived (Inr e)) (task, n)}"

definition recv_at :: "SocketAddr \<Rightarrow> ChannelTransport \<Rightarrow> (envelope \<times> ChannelTransport) option" where
  "recv_at a n = do {
     (received, n) \<leftarrow> run (t_recv test_net a n);
     e \<leftarrow> received;
     Some (e, n)}"

definition send_from :: "SocketAddr \<Rightarrow> SocketAddr \<Rightarrow> ChitchatMessage \<Rightarrow> ChannelTransport \<Rightarrow> ChannelTransport option" where
  "send_from a b m n = do {
     (r, n) \<leftarrow> run (t_send test_net a b m n);
     _ \<leftarrow> run r;
     Some n}"

definition tick_if :: "bool \<Rightarrow> host \<Rightarrow> host option" where
  "tick_if b host = (if b then wake_on WakeTick host else Some host)"

definition test_channels :: ChannelTransport where
  "test_channels = ChannelTransport_with_mtu MAX_UDP_DATAGRAM_PAYLOAD_SIZE"

fun is_syn_ack :: "ChitchatMessage \<Rightarrow> bool" where
  "is_syn_ack (SynAck _ _) = True"
| "is_syn_ack _ = False"

fun is_syn :: "ChitchatMessage \<Rightarrow> bool" where
  "is_syn (Syn _ _) = True"
| "is_syn _ = False"

section \<open>The tests\<close>

definition test_server_syn :: "bool \<Rightarrow> test" where
  "test_server_syn tick_first = do {
     let config = test_config 1112;
     let test_address = gossip_advertise_addr (cfg_chitchat_id config);
     let peer_addr = SocketAddrV4 [127, 0, 0, 1] 1111;
     n \<leftarrow> run (t_open test_net peer_addr test_channels);
     (task, n) \<leftarrow> spawn_on config n;
     let (r, task) = handle_gossip peer_addr task;
     assert (r = Inr ());
     host \<leftarrow> tick_if tick_first (task, n);
     host \<leftarrow> wake_on WakeCommand host;
     (task, n) \<leftarrow> tick_if (\<not> tick_first) host;
     ((sender, message), n) \<leftarrow> recv_at peer_addr n;
     assert (sender = test_address);
     case message of
       Syn cluster_id digest \<Rightarrow> do {
         assert (cluster_id = ''default-cluster'');
         assert (length (node_digests digest) = 1)}
     | _ \<Rightarrow> None}"

definition test_server_syn_ack :: "bool \<Rightarrow> test" where
  "test_server_syn_ack tick_first = do {
     let config2 = test_config 2;
     let addr2 = gossip_advertise_addr (cfg_chitchat_id config2);
     n \<leftarrow> run (t_open test_net addr2 test_channels);
     let config1 = test_config 1;
     let addr1 = gossip_advertise_addr (cfg_chitchat_id config1);
     chitchat \<leftarrow> run (with_chitchat_id_and_seeds config2 {} []);
     host \<leftarrow> spawn_on config1 n;
     (task, n) \<leftarrow> tick_if tick_first host;
     n \<leftarrow> send_from addr2 addr1 (create_syn_message test_env chitchat) n;
     (task, n) \<leftarrow> receive_on (task, n);
     ((from1, msg), n) \<leftarrow> recv_at addr2 n;
     assert (from1 = addr1);
     assert (is_syn_ack msg)}"

definition test_syn_bad_cluster :: "bool \<Rightarrow> test" where
  "test_syn_bad_cluster tick_first = do {
     let outsider_config = (test_config 2224)\<lparr>cfg_cluster_id := ''another-cluster''\<rparr>;
     let outsider_addr = gossip_advertise_addr (cfg_chitchat_id outsider_config);
     n \<leftarrow> run (t_open test_net outsider_addr test_channels);
     outsider \<leftarrow> run (with_chitchat_id_and_seeds outsider_config {} []);
     let server_config = test_config 2223;
     let server_addr = gossip_advertise_addr (cfg_chitchat_id server_config);
     host \<leftarrow> spawn_on server_config n;
     (task, n) \<leftarrow> tick_if tick_first host;
     n \<leftarrow> send_from outsider_addr server_addr (create_syn_message test_env outsider) n;
     (task, n) \<leftarrow> receive_on (task, n);
     ((_, syn_ack), n) \<leftarrow> recv_at outsider_addr n;
     assert (syn_ack = BadCluster)}"

definition test_seeding :: test where
  "test_seeding = do {
     let seed_addr = gossip_advertise_addr (cfg_chitchat_id (test_config 5551));
     n \<leftarrow> run (t_open test_net seed_addr test_channels);
     let client_config = (test_config 5552)\<lparr>cfg_seed_nodes := [''127.0.0.1:5551'']\<rparr>;
     let client_addr = gossip_advertise_addr (cfg_chitchat_id client_config);
     host \<leftarrow> spawn_on client_config n;
     (task, n) \<leftarrow> wake_on WakeTick host;
     ((sender, message), n) \<leftarrow> recv_at seed_addr n;
     assert (sender = client_addr);
     assert (is_syn message)}"


text \<open>The heartbeat of the server reaches the node that it gossips with, and the delta it sends brings the key.\<close>

fun first_ack :: "envelope list \<Rightarrow> Delta option" where
  "first_ack [] = None"
| "first_ack ((_, Ack delta) # received) = Some delta"
| "first_ack (_ # received) = first_ack received"

definition delta_get :: "Delta \<Rightarrow> ChitchatId \<Rightarrow> NodeDelta option" where
  "delta_get delta i = List.find (\<lambda>nd. ndl_chitchat_id nd = i) (node_deltas delta)"

definition exchange :: "Chitchat \<Rightarrow> Chitchat \<Rightarrow> (Chitchat \<times> Chitchat) option" where
  "exchange server_chitchat test_chitchat = do {
     let server_chitchat = update_self_heartbeat server_chitchat;
     let syn = create_syn_message test_env server_chitchat;
     (test_chitchat, reply, _) \<leftarrow> run (process_message test_env syn test_chitchat);
     syn_ack \<leftarrow> reply;
     (server_chitchat, _) \<leftarrow> run (process_message test_env syn_ack server_chitchat);
     Some (server_chitchat, test_chitchat)}"

definition put_chitchat :: "Chitchat \<Rightarrow> unit ServerTask \<Rightarrow> unit ServerTask" where
  "put_chitchat cc task = snd (with_chitchat (\<lambda>_. ((), cc)) task)"

definition test_heartbeat :: test where
  "test_heartbeat = do {
     let test_address = gossip_advertise_addr (cfg_chitchat_id (test_config 1));
     test_chitchat \<leftarrow> run (with_chitchat_id_and_seeds (test_config 1) {} []);
     n \<leftarrow> run (t_open test_net test_address test_channels);
     let server_config = test_config 2;
     let server_id = cfg_chitchat_id server_config;
     (task, n) \<leftarrow> spawn_on server_config n;
     (cc, _) \<leftarrow> run (self_set ''key'' ''value'' (srv_chitchat (tk_server task)));
     (cc, test_chitchat) \<leftarrow> exchange cc test_chitchat;
     ns \<leftarrow> node_state (cc_cluster_state test_chitchat) server_id;
     assert (ns_heartbeat ns = 2);
     (task, n) \<leftarrow> wake_on WakeTick (put_chitchat cc task, n);
     ((_, syn), n) \<leftarrow> recv_at test_address n;
     (test_chitchat, reply, _) \<leftarrow> run (process_message test_env syn test_chitchat);
     syn_ack \<leftarrow> reply;
     n \<leftarrow> send_from test_address (gossip_advertise_addr server_id) syn_ack n;
     (task, n) \<leftarrow> receive_on (task, n);
     delta \<leftarrow> first_ack (channel_inbox n test_address);
     node_delta \<leftarrow> delta_get delta server_id;
     assert (ndl_last_gc_version node_delta = 0);
     (task, n) \<leftarrow> wake_on WakeCommand (handle_shutdown task, n);
     assert (join_result (tk_state task) = Some (Inr ()))}"

section \<open>The tests pass\<close>

lemma server_syn_passes: "test_server_syn b = Some ()"
  by (cases b; simp only:; code_simp)

lemma server_syn_ack_passes: "test_server_syn_ack b = Some ()"
  by (cases b; simp only:; code_simp)

lemma syn_bad_cluster_passes: "test_syn_bad_cluster b = Some ()"
  by (cases b; simp only:; code_simp)

lemma seeding_passes: "test_seeding = Some ()"
  by code_simp

lemma heartbeat_passes: "test_heartbeat = Some ()"
  by code_simp

definition server_tests :: "bool \<Rightarrow> test list" where
  "server_tests tick_first = [test_server_syn tick_first, test_server_syn_ack tick_first, test_syn_bad_cluster tick_first,
     test_seeding, test_heartbeat]"

lemma server_tests_pass: "list_all (\<lambda>t. t = Some ()) (server_tests tick_first)"
  by (simp add: server_tests_def server_syn_passes server_syn_ack_passes syn_bad_cluster_passes seeding_passes heartbeat_passes)

end
