(* ===== verification/Spec2Isabelle.thy ===== *)
theory Spec2Isabelle
  imports Progress Udp_Socket State_Tests Codec_Tests Stream_Tests Detector_Tests Server_Tests
begin

text \<open>
  A verification of Chitchat, the cluster membership and gossip library in \<^verbatim>\<open>src/chitchat\<close>, with its
  demonstration service in \<^verbatim>\<open>src/chitchat-test\<close>.

  \<^bold>\<open>The program.\<close> Every node of a cluster owns a map of versioned key-values and replicates the maps of
  all other nodes. A server task (\<^verbatim>\<open>server.rs\<close>) wakes up for datagrams, for the ticks of an interval
  and for commands. On a tick it increases its heartbeat, collects old tombstones, sends a Syn with the
  digest of what it knows to a few random nodes, and lets the failure detector decide who is alive. A
  Syn is answered by a SynAck and that by an Ack (\<^verbatim>\<open>lib.rs\<close>); SynAck and Ack carry deltas, the
  key-values that the digest of the other side shows to be missing, as many as fit in a datagram
  (\<^verbatim>\<open>state.rs\<close>, \<^verbatim>\<open>delta.rs\<close>). A received delta is applied to the replicas it is about, which may first
  be reset when the owner has collected deletions that the replica never saw. Applying it calls the
  listeners of the keys that change (\<^verbatim>\<open>listener.rs\<close>). Messages are encoded by hand, deltas as a
  stream of blocks compressed by zstd (\<^verbatim>\<open>serialize.rs\<close>, \<^verbatim>\<open>message.rs\<close>).

  \<^bold>\<open>The theories\<close>, from the bottom up.

  \<^item> \<open>Prelude\<close>: machine integers as words, panics and results as sums, little-endian bytes, UTF-8.
  \<^item> \<open>Ordered_Map\<close>: \<^verbatim>\<open>BTreeMap\<close> as a sorted association list, behind the locale \<open>ordered_map\<close>.
  \<^item> \<open>Types\<close> (\<^verbatim>\<open>types.rs\<close>): identifiers with the derived order, versioned values, statuses, mutations.
  \<^item> \<open>Serialize\<close> (\<^verbatim>\<open>serialize.rs\<close>, \<^verbatim>\<open>types.rs\<close>): encoders, announced lengths and decoders. The contract
    of a type that is encoded is the locale \<open>codec\<close> (round trip, announced length, no panic), interpreted
    for every type of the wire format.
  \<^item> \<open>Compressed_Stream\<close> (\<^verbatim>\<open>serialize.rs\<close>): the block writer and its reader (C33).
  \<^item> \<open>Digest\<close>, \<open>Delta\<close>, \<open>Message\<close>: the payloads with their codecs, the builder that decodes a delta, the
    serializer that fills one up to an MTU (C11, C12).
  \<^item> \<open>Decoding\<close>: the locale \<open>strict_codec\<close> extends \<open>codec\<close>; whatever bytes arrive, only well-typed
    messages come out, and every loop of the codec ends (C19, C20).
  \<^item> \<open>Transport\<close>, \<open>Sockets\<close>, \<open>Udp_Socket\<close> (\<^verbatim>\<open>transport/\<close>): the in-memory network, the transports that drop and delay
    the messages of another one, and the UDP socket. \<open>message_network\<close> is the contract of a network that keeps
    the order of the messages, \<open>lossy_transport\<close> that of any transport with its sockets; dropping and delaying
    keep it (\<open>sublocale\<close>), so that a stack of transports never invents or duplicates a message (C21). The
    UDP socket is over the calls of the operating system and refines its reference on a list of datagrams
    (C22).
  \<^item> \<open>Listener\<close> (\<^verbatim>\<open>listener.rs\<close>): subscriptions and the prefix scan, which is shown to call the same
    listeners as a plain search (C27).
  \<^item> \<open>Node_State\<close> and \<open>Cluster_State\<close> (\<^verbatim>\<open>state.rs\<close>): one record and one function per operation. The
    invariant \<open>ns_wf\<close> says that versions identify entries; each operation is specified on all of its
    branches and keeps it (C9, C10, C29 to C32).
  \<^item> \<open>Failure_Detector\<close> (\<^verbatim>\<open>failure_detector.rs\<close>): the phi accrual detector. Its ring buffer is a queue with
    a running sum (locale \<open>bounded_queue\<close>, C23); C24 is about the life cycle of
    dead nodes. A silent node is declared dead (C25), one with regular heartbeats is not (C26).
  \<^item> \<open>Chitchat\<close> (\<^verbatim>\<open>lib.rs\<close>, \<^verbatim>\<open>configuration.rs\<close>): the instance, its handshake and its housekeeping; it
    handles every message that a peer can send (C13, C14).
  \<^item> \<open>Server\<close> (\<^verbatim>\<open>server.rs\<close>): one turn of the loop, the gossip round, the choice of the nodes (C15, C16,
    C34).
  \<^item> \<open>Seeds\<close> (\<^verbatim>\<open>server.rs\<close>): the seeds, which are addresses or host names that are resolved again every
    minute (C35); the parser of socket addresses of the standard library.
  \<^item> \<open>Handle\<close> (\<^verbatim>\<open>server.rs\<close>): starting a server, its command queue, shutting it down (C17, C18, C28).
  \<^item> \<open>Service\<close> (\<^verbatim>\<open>chitchat-test\<close>, \<^verbatim>\<open>configuration.rs\<close>): the requests of the demonstration service, the
    default configurations.
  \<^item> \<open>Transition_System\<close>: reachable states, invariants (locale \<open>transition_invariant\<close>), refinement maps
    (locale \<open>refinement_map\<close>) and progress by a measure (locale \<open>measured_rounds\<close>), interpreted for the
    gossip, the cluster, the handle, the interleaved ticks and the repeated handshakes.
  \<^item> \<open>Replication\<close>: the abstract specification, the gossip of one node's state as a transition system
    over the history of its owner's writes (C1). Deltas may be lost, duplicated and reordered.
  \<^item> \<open>Participants\<close>, \<open>Cluster\<close>: any number of servers of \<open>Server\<close> that exchange datagrams. Seen as
    the state of any one node, a cluster refines the gossip of \<open>Replication\<close> (C2), so that its replicas
    agree with the history of the owner (C3), and no server of a cluster panics (C4).
  \<^item> \<open>Handshake\<close>: one handshake brings both ends up to date when what they miss fits (C5).
  \<^item> \<open>Progress\<close>: when it does not fit, repeated handshakes do, each with as much as a datagram takes
    (C6): a measure of what the initiator misses decreases.
  \<^item> \<open>Interleaving\<close>: the cluster with the ticks of \<open>Server\<close> cut where the code releases the lock, other
    tasks running in between; it refines the cluster of \<open>Cluster\<close> (C7).
  \<^item> \<open>Deployment\<close>: the servers with the sockets they run on. Over any transport of datagrams (locale
    \<open>datagram_transport\<close>, which extends \<open>lossy_transport\<close>) a deployment refines the cluster of \<open>Cluster\<close>; this
    is used for the in-memory transport with messages dropped and delayed (C8).
  \<^item> \<open>Test_Support\<close>, \<open>State_Tests\<close>, \<open>Codec_Tests\<close>, \<open>Stream_Tests\<close>, \<open>Instance_Tests\<close>, \<open>Detector_Tests\<close>, \<open>Handshake_Tests\<close>,
    \<open>Server_Tests\<close>: the unit tests of the crate, translated line by line and run on the model (C36 below), from single
    operations to servers that talk over the in-memory transport. They check the definitions against what
    the authors of the code expect of them; random draws stay parameters, and so does the compressor
    where what it does matters.

  \<^bold>\<open>Where the code falls short.\<close> C37 and C38 are executions in which a replica loses live keys or shows
  a deleted one; \<open>delivery_safe\<close> is the condition under which neither can happen, and C2, C3 and C5 to C8 have
  it as part of their step relation. C39 and C40 are panics that a key and a message can cause; the
  properties that exclude panics assume that keys start with a one-byte character and that digests leave
  room in a datagram.

  \<^bold>\<open>Parameters.\<close> The compressor is a pair of partial functions of the bytes and the room in the output
  buffer; \<open>zstd_fits\<close> (the output fits the buffer) and \<open>zstd_inverse\<close> (decompression inverts it) are
  hypotheses. The shuffle of equally stale nodes permutes (\<open>permutes\<close>), the random generator picks
  elements of the set it is given (\<open>rng_ok\<close>), the resolver of host names and the halving of a duration
  are arbitrary functions. What the clock shows, how the shuffle turns out and what the compressor does
  are in an environment that each turn gets afresh (\<open>Env\<close>). The operating system's UDP sockets are a record of
  the calls the code makes (\<open>udp_os\<close>) with the predicate \<open>kernel_ok\<close>; the distributions of the transports
  that drop and delay are arbitrary functions of the state of a generator.

  \<^bold>\<open>Integers, loops.\<close> Versions, heartbeats, ports and lengths on the wire are words and wrap around as in
  a release build; sizes in memory are natural numbers, with the subtraction on \<^verbatim>\<open>usize\<close> that can wrap
  written out. The loop that flushes blocks is a \<open>while_option\<close> whose divergence is a panic of the
  model, excluded for the thresholds in use; the loop over the blocks of a stream has a measure; the loop
  over its items is a partial function that is shown to return, and so is the loop that receives
  datagrams. There is no fuel.

  \<^bold>\<open>Concurrency.\<close> The instance is behind a mutex and handlers hold it while they work, so turns are
  atomic and interleave in any order with the application and the resolver. A gossip tick is one turn
  although the code releases the lock between choosing the nodes, sending each Syn and updating the
  liveness; \<open>Interleaving\<close> shows that what runs in between adds nothing that the cluster of atomic
  turns cannot do. Instants are natural numbers of nanoseconds.

  \<^bold>\<open>Not modelled.\<close> The tokio runtime and its timers (the events they raise are inputs), HTTP, JSON and the
  command line of the demonstration service, logging and the \<^verbatim>\<open>Debug\<close> output, the rounding of
  floating-point numbers in the failure detector, which is modelled over the reals, and of the tests those
  that wait for several servers to find each other in real time, that may fail with what they draw, or
  that measure what zstd reaches.
\<close>

section \<open>The unit tests\<close>



end
